(* ===== verification/Marmot_Prelude.thy ===== *)
theory Marmot_Prelude
  imports Main "HOL-Library.Word" "HOL-Library.Multiset" "HOL-Library.List_Lexorder"
    "HOL-Library.Char_ord" "HOL-Library.Product_Lexorder" "HOL-Library.Option_ord"
begin

text \<open>
  Shared vocabulary of the development: the machine types of the Rust sources, the saturating and
  checked integer operations they call, the three-valued comparison of \<open>std::cmp::Ordering\<close>
  with \<open>Iterator::max_by\<close>, and the ordered map (\<open>BTreeMap\<close>) as a sorted association list.

  Conventions used by every theory of the development:
  \<^item> \<open>u8\<close>, \<open>u16\<close>, \<open>u32\<close>, \<open>u64\<close> are words of that width, compared as unsigned numbers;
    a length or an in-memory count (\<open>usize\<close>) is a \<open>nat\<close>;
  \<^item> \<open>Vec<u8>\<close> and fixed byte arrays are lists of bytes, \<open>String\<close> is a list of characters;
    both are ordered lexicographically as Rust orders them;
  \<^item> \<open>BTreeSet\<close> and \<open>HashSet\<close> are sets (an ordered iteration is \<open>sorted_list_of_set\<close>),
    \<open>HashMap\<close> is a partial function, \<open>BTreeMap\<close> the sorted association list below;
  \<^item> \<open>Result<T, E>\<close> is the sum \<open>'e + 't\<close> with \<open>Inl\<close> for the error.
\<close>

type_synonym u8 = "8 word"
type_synonym u16 = "16 word"
type_synonym u32 = "32 word"
type_synonym u64 = "64 word"
type_synonym bytes = "u8 list"

named_theorems sat_simps \<open>reading saturating and checked operations as natural numbers\<close>
named_theorems bt_simps \<open>lookup and key laws of the ordered map\<close>

section \<open>Saturating and checked arithmetic\<close>

definition saturating_sub :: "'a::len word \<Rightarrow> 'a word \<Rightarrow> 'a word" where
  "saturating_sub a b = (if b \<le> a then a - b else 0)"

definition saturating_add :: "'a::len word \<Rightarrow> 'a word \<Rightarrow> 'a word" where
  "saturating_add a b =
     (if unat a + unat b < 2 ^ LENGTH('a) then a + b else - 1)"

definition checked_add :: "'a::len word \<Rightarrow> 'a word \<Rightarrow> 'a word option" where
  "checked_add a b =
     (if unat a + unat b < 2 ^ LENGTH('a) then Some (a + b) else None)"

lemma unat_saturating_sub [sat_simps]: "unat (saturating_sub a b) = unat a - unat b"
  by (auto simp: saturating_sub_def unat_sub word_le_nat_alt)

lemma unat_word_max: "unat (- 1 :: 'a::len word) = 2 ^ LENGTH('a) - 1"
  by (simp add: unsigned_minus_1_eq_mask mask_eq_exp_minus_1)

lemma unat_add_no_overflow:
  "unat a + unat b < 2 ^ LENGTH('a) \<Longrightarrow> unat (a + b :: 'a::len word) = unat a + unat b"
  by (simp add: unat_word_ariths)

lemma unat_saturating_add [sat_simps]:
  "unat (saturating_add a b :: 'a::len word) = min (2 ^ LENGTH('a) - 1) (unat a + unat b)"
  by (auto simp: saturating_add_def unat_word_max unat_add_no_overflow)

lemma unat_less_exp: "unat (a :: 'a::len word) < 2 ^ LENGTH('a)"
  by simp

lemma unat_le_exp: "unat (a :: 'a::len word) \<le> 2 ^ LENGTH('a) - Suc 0"
  using unat_less_exp [of a] by linarith

lemma saturating_add_0 [simp]: "saturating_add a 0 = a"
  by (simp add: saturating_add_def)

lemma saturating_add_ge: "unat a \<le> unat (saturating_add a b)"
  by (simp add: sat_simps unat_le_exp)

lemma checked_add_Some [sat_simps]:
  "checked_add a b = Some c \<longleftrightarrow> unat c = unat a + unat b"
proof
  assume "checked_add a b = Some c"
  then show "unat c = unat a + unat b"
    by (auto simp: checked_add_def unat_add_no_overflow split: if_splits)
next
  assume eq: "unat c = unat a + unat b"
  have less: "unat a + unat b < 2 ^ LENGTH('a)"
    using unat_less_exp [of c] unfolding eq .
  then have "unat c = unat (a + b)"
    by (simp add: eq unat_add_no_overflow)
  then have "c = a + b" by (simp only: word_unat_eq_iff)
  with less show "checked_add a b = Some c"
    by (simp add: checked_add_def)
qed

text \<open>A \<open>usize\<close> that fits is unchanged by \<open>as u64\<close>.\<close>

lemma unat_word_of_nat:
  "n < 2 ^ LENGTH('a) \<Longrightarrow> unat (word_of_nat n :: 'a::len word) = n"
  by (simp add: unsigned_of_nat take_bit_nat_eq_self)

text \<open>Incrementing anything but the largest value does not wrap.\<close>

lemma unat_plus_one:
  assumes "w \<noteq> (- 1 :: 'a::len word)"
  shows "unat (w + 1) = Suc (unat w)"
proof -
  have "unat w \<noteq> unat (- 1 :: 'a word)"
    using assms by (simp only: word_unat_eq_iff not_False_eq_True)
  then have "unat w \<noteq> 2 ^ LENGTH('a) - 1" by (simp only: unat_word_max not_False_eq_True)
  then have "Suc (unat w) < 2 ^ LENGTH('a)"
    using unat_less_exp [of w] by linarith
  then have "unat w + unat (1 :: 'a word) < 2 ^ LENGTH('a)" by simp
  then show ?thesis using unat_add_no_overflow [of w 1] by simp
qed

section \<open>Three-valued comparison and \<open>Iterator::max_by\<close>\<close>

datatype ordering = Less | Equal | Greater

text \<open>\<open>Ord::cmp\<close>, \<open>Ordering::then_with\<close> and \<open>Ordering::reverse\<close>.\<close>

definition cmp :: "'a::linorder \<Rightarrow> 'a \<Rightarrow> ordering" where
  "cmp a b = (if a < b then Less else if a = b then Equal else Greater)"

fun then_with :: "ordering \<Rightarrow> ordering \<Rightarrow> ordering" where
  "then_with Equal o2 = o2"
| "then_with o1 _ = o1"

fun reverse_ordering :: "ordering \<Rightarrow> ordering" where
  "reverse_ordering Less = Greater"
| "reverse_ordering Equal = Equal"
| "reverse_ordering Greater = Less"

lemma reverse_ordering_iff [simp]:
  "reverse_ordering r = Less \<longleftrightarrow> r = Greater"
  "reverse_ordering r = Equal \<longleftrightarrow> r = Equal"
  "reverse_ordering r = Greater \<longleftrightarrow> r = Less"
  by (cases r; simp)+

text \<open>
  \<open>Iterator::max_by\<close> folds from the left and keeps the accumulator only when it compares
  strictly greater, so among equal elements the last one is returned.
\<close>

definition max_by_step :: "('a \<Rightarrow> 'a \<Rightarrow> ordering) \<Rightarrow> 'a \<Rightarrow> 'a \<Rightarrow> 'a" where
  "max_by_step c x y = (if c x y = Greater then x else y)"

fun max_by :: "('a \<Rightarrow> 'a \<Rightarrow> ordering) \<Rightarrow> 'a list \<Rightarrow> 'a option" where
  "max_by c [] = None"
| "max_by c (x # xs) = Some (foldl (max_by_step c) x xs)"

lemma cmp_simps [simp]:
  "cmp a b = Less \<longleftrightarrow> a < b"
  "cmp a b = Equal \<longleftrightarrow> a = b"
  "cmp a b = Greater \<longleftrightarrow> b < a"
  by (auto simp: cmp_def)

lemma cmp_swap: "cmp b a = reverse_ordering (cmp a b)"
  by (auto simp: cmp_def)

lemma then_with_eq [simp]:
  "then_with a b = Equal \<longleftrightarrow> a = Equal \<and> b = Equal"
  "then_with a b = Less \<longleftrightarrow> a = Less \<or> a = Equal \<and> b = Less"
  "then_with a b = Greater \<longleftrightarrow> a = Greater \<or> a = Equal \<and> b = Greater"
  by (cases a; simp)+

lemma reverse_then_with:
  "reverse_ordering (then_with a b) = then_with (reverse_ordering a) (reverse_ordering b)"
  by (cases a) auto

text \<open>
  The contract of a comparison function: swapping the arguments reverses the verdict, and ``not
  greater'' is transitive. Everything the code relies on about \<open>max_by\<close> follows from these two
  laws; a comparison function is an instance when it satisfies them.
\<close>

locale comparison =
  fixes c :: "'a \<Rightarrow> 'a \<Rightarrow> ordering"
  assumes swap: "c y x = reverse_ordering (c x y)"
    and not_greater_trans: "c x y \<noteq> Greater \<Longrightarrow> c y z \<noteq> Greater \<Longrightarrow> c x z \<noteq> Greater"
begin

lemma self_equal: "c x x = Equal"
  using swap [of x x] by (cases "c x x") auto

lemma greater_swap: "c x y = Greater \<longleftrightarrow> c y x = Less"
  by (simp add: swap [of x y])

lemma equal_swap: "c x y = Equal \<longleftrightarrow> c y x = Equal"
  by (simp add: swap [of x y])

lemma less_or_equal: "c x y \<noteq> Greater \<longleftrightarrow> c x y = Less \<or> c x y = Equal"
  by (cases "c x y") auto

lemma equal_iff: "c x y = Equal \<longleftrightarrow> c x y \<noteq> Greater \<and> c y x \<noteq> Greater"
  by (cases "c x y") (auto simp: swap [of x y])

lemma equal_trans: "c x y = Equal \<Longrightarrow> c y z = Equal \<Longrightarrow> c x z = Equal"
  unfolding equal_iff using not_greater_trans by blast

lemma less_trans_left: "c x y = Less \<Longrightarrow> c y z \<noteq> Greater \<Longrightarrow> c x z = Less"
  using not_greater_trans [of x y z] not_greater_trans [of y z x] greater_swap [of y x]
    equal_swap [of z x] by (metis less_or_equal)

lemma less_trans_right: "c x y \<noteq> Greater \<Longrightarrow> c y z = Less \<Longrightarrow> c x z = Less"
  using not_greater_trans [of x y z] not_greater_trans [of z x y] greater_swap [of z y]
    equal_swap [of z x] by (metis less_or_equal)

lemma foldl_max_by_mem: "foldl (max_by_step c) x xs \<in> insert x (set xs)"
  by (induction xs arbitrary: x) (auto simp: max_by_step_def)

lemma foldl_max_by_ge:
  "y \<in> insert x (set xs) \<Longrightarrow> c y (foldl (max_by_step c) x xs) \<noteq> Greater"
proof (induction xs arbitrary: x y)
  case Nil
  then show ?case by (simp add: self_equal)
next
  case (Cons z zs)
  let ?m = "max_by_step c x z"
  have x: "c x ?m \<noteq> Greater" and z: "c z ?m \<noteq> Greater"
    by (auto simp: max_by_step_def self_equal swap [of x z])
  have m: "c ?m (foldl (max_by_step c) ?m zs) \<noteq> Greater"
    by (rule Cons.IH) simp
  from Cons.prems consider "y = x" | "y = z" | "y \<in> set zs" by auto
  then show ?case
  proof cases
    case 1
    then show ?thesis using not_greater_trans [OF x m] by simp
  next
    case 2
    then show ?thesis using not_greater_trans [OF z m] by simp
  next
    case 3
    then show ?thesis using Cons.IH [of y ?m] by simp
  qed
qed

lemma max_by_None: "max_by c xs = None \<longleftrightarrow> xs = []"
  by (cases xs) auto

lemma max_by_mem: "max_by c xs = Some m \<Longrightarrow> m \<in> set xs"
  using foldl_max_by_mem by (cases xs) auto

lemma max_by_greatest: "max_by c xs = Some m \<Longrightarrow> y \<in> set xs \<Longrightarrow> c y m \<noteq> Greater"
  using foldl_max_by_ge by (cases xs) auto

lemma max_by_eqI:
  assumes m: "m \<in> set xs"
    and top: "\<And>y. y \<in> set xs \<Longrightarrow> c y m \<noteq> Greater"
    and tie: "\<And>y. y \<in> set xs \<Longrightarrow> c y m = Equal \<Longrightarrow> y = m"
  shows "max_by c xs = Some m"
proof -
  from m obtain n where n: "max_by c xs = Some n"
    using max_by_None by fastforce
  have "c n m \<noteq> Greater" using top max_by_mem [OF n] by blast
  moreover have "c m n \<noteq> Greater" using max_by_greatest [OF n m] .
  ultimately have "c n m = Equal"
    using greater_swap [of m n] by (cases "c n m") auto
  then show ?thesis using n tie max_by_mem [OF n] by blast
qed

text \<open>Without ties between distinct elements the result is a function of the set of elements.\<close>

lemma max_by_set_cong:
  assumes sets: "set xs = set ys"
    and tie: "\<And>x y. x \<in> set xs \<Longrightarrow> y \<in> set xs \<Longrightarrow> c x y = Equal \<Longrightarrow> x = y"
  shows "max_by c xs = max_by c ys"
proof (cases "max_by c ys")
  case None
  then have "xs = []" using sets max_by_None [of ys] by simp
  with None show ?thesis by simp
next
  case (Some m)
  have "max_by c xs = Some m"
    using Some max_by_mem [OF Some] max_by_greatest [OF Some] sets tie
    by (intro max_by_eqI) auto
  with Some show ?thesis by simp
qed

text \<open>Comparing by a key satisfies the contract again.\<close>

lemma comparison_on_key: "comparison (\<lambda>x y. c (f x) (f y))"
  using swap not_greater_trans by unfold_locales blast+

end

text \<open>The derived order of a linearly ordered type is a comparison.\<close>

interpretation cmp_comparison: comparison "cmp :: 'a::linorder \<Rightarrow> 'a \<Rightarrow> ordering"
  by unfold_locales (rule cmp_swap, auto simp: not_less)

text \<open>Lexicographic combination of two comparisons, as \<open>then_with\<close> chains build them.\<close>

lemma comparison_then_with:
  assumes "comparison c" and "comparison d"
  shows "comparison (\<lambda>x y. then_with (c x y) (d x y))"
proof
  fix x y show "then_with (c y x) (d y x) = reverse_ordering (then_with (c x y) (d x y))"
    unfolding comparison.swap [OF assms(1), of y x] comparison.swap [OF assms(2), of y x]
    by (rule reverse_then_with [symmetric])
next
  fix x y z
  assume xy: "then_with (c x y) (d x y) \<noteq> Greater" and yz: "then_with (c y z) (d y z) \<noteq> Greater"
  have cs: "c x y \<noteq> Greater" "c y z \<noteq> Greater" using xy yz by auto
  show "then_with (c x z) (d x z) \<noteq> Greater"
  proof (cases "c x y = Equal \<and> c y z = Equal")
    case True
    then have "d x z \<noteq> Greater"
      using xy yz comparison.not_greater_trans [OF assms(2)] by simp
    moreover have "c x z = Equal" using True comparison.equal_trans [OF assms(1)] by blast
    ultimately show ?thesis by simp
  next
    case False
    then have "c x y = Less \<or> c y z = Less"
      using cs by (meson ordering.exhaust)
    then have "c x z = Less"
      using cs comparison.less_trans_left [OF assms(1)] comparison.less_trans_right [OF assms(1)]
      by blast
    then show ?thesis by simp
  qed
qed

section \<open>Ordered maps\<close>

text \<open>
  A \<open>BTreeMap\<close> is an association list with strictly increasing keys: iteration is the list
  itself, \<open>insert\<close> replaces the value of an existing key, \<open>get\<close> is \<open>map_of\<close>.
\<close>

type_synonym ('k, 'v) btree_map = "('k \<times> 'v) list"

fun bt_insert :: "'k::linorder \<Rightarrow> 'v \<Rightarrow> ('k, 'v) btree_map \<Rightarrow> ('k, 'v) btree_map" where
  "bt_insert k v [] = [(k, v)]"
| "bt_insert k v ((k', v') # m) =
     (if k < k' then (k, v) # (k', v') # m
      else if k = k' then (k, v) # m
      else (k', v') # bt_insert k v m)"

definition bt_get :: "('k, 'v) btree_map \<Rightarrow> 'k \<Rightarrow> 'v option" where
  "bt_get m k = map_of m k"

definition bt_keys :: "('k, 'v) btree_map \<Rightarrow> 'k list" where
  "bt_keys m = map fst m"

definition bt_values :: "('k, 'v) btree_map \<Rightarrow> 'v list" where
  "bt_values m = map snd m"

definition bt_contains_key :: "('k, 'v) btree_map \<Rightarrow> 'k \<Rightarrow> bool" where
  "bt_contains_key m k = (bt_get m k \<noteq> None)"

definition bt_wf :: "('k::linorder, 'v) btree_map \<Rightarrow> bool" where
  "bt_wf m = sorted_wrt (<) (map fst m)"

text \<open>\<open>iter.collect::<BTreeMap<_, _>>()\<close> inserts the pairs from left to right.\<close>

definition bt_collect :: "('k::linorder \<times> 'v) list \<Rightarrow> ('k, 'v) btree_map" where
  "bt_collect kvs = foldl (\<lambda>m (k, v). bt_insert k v m) [] kvs"

lemma set_keys_bt_insert [bt_simps]: "fst ` set (bt_insert k v m) = insert k (fst ` set m)"
  by (induction k v m rule: bt_insert.induct) (simp_all add: insert_commute)

lemma bt_wf_Nil [simp, bt_simps]: "bt_wf []"
  by (simp add: bt_wf_def)

lemma bt_wf_insert [simp, bt_simps]: "bt_wf m \<Longrightarrow> bt_wf (bt_insert k v m)"
proof (induction m)
  case Nil
  then show ?case by (simp add: bt_wf_def)
next
  case (Cons a m)
  obtain k' v' where a: "a = (k', v')" by force
  show ?case
  proof (cases "k' < k")
    case True
    then have "bt_wf (bt_insert k v m)" using Cons by (simp add: bt_wf_def)
    then show ?thesis using True Cons.prems set_keys_bt_insert [of k v m]
      by (auto simp: a bt_wf_def)
  next
    case False
    then show ?thesis using Cons.prems by (auto simp: a bt_wf_def not_less intro: less_trans)
  qed
qed

lemma bt_get_Nil [simp, bt_simps]: "bt_get [] k = None"
  by (simp add: bt_get_def)

lemma bt_get_insert [simp, bt_simps]:
  "bt_wf m \<Longrightarrow> bt_get (bt_insert k v m) k' = (if k' = k then Some v else bt_get m k')"
proof (induction m)
  case Nil
  then show ?case by (simp add: bt_get_def)
next
  case (Cons a m)
  obtain j w where a: "a = (j, w)" by force
  have "bt_wf m" using Cons.prems by (simp add: bt_wf_def)
  then show ?case using Cons by (auto simp: a bt_get_def)
qed

lemma bt_wf_distinct: "bt_wf m \<Longrightarrow> distinct (map fst m)"
  unfolding bt_wf_def by (induction m) auto

lemma set_bt_keys: "set (bt_keys m) = dom (bt_get m)"
  by (simp add: bt_keys_def bt_get_def [abs_def] dom_map_of_conv_image_fst)

lemma bt_contains_key_iff [bt_simps]: "bt_contains_key m k \<longleftrightarrow> k \<in> dom (bt_get m)"
  by (auto simp: bt_contains_key_def)

lemma bt_values_mem: "bt_wf m \<Longrightarrow> v \<in> set (bt_values m) \<longleftrightarrow> (\<exists>k. bt_get m k = Some v)"
  using bt_wf_distinct [of m] by (force simp: bt_values_def bt_get_def)

lemma bt_get_mem: "bt_wf m \<Longrightarrow> bt_get m k = Some v \<longleftrightarrow> (k, v) \<in> set m"
  using bt_wf_distinct [of m] by (simp add: bt_get_def)

text \<open>An ordered map is determined by its lookup function, as \<open>Eq\<close> on \<open>BTreeMap\<close> expects.\<close>

lemma bt_ext:
  assumes "bt_wf m" and "bt_wf n" and "\<And>k. bt_get m k = bt_get n k"
  shows "m = n"
proof -
  have "map_of m = map_of n"
    using assms(3) by (auto simp: bt_get_def)
  then have sets: "set m = set n"
    using map_of_inject_set bt_wf_distinct assms(1,2) by blast
  have "inj_on fst (set m \<union> set n)"
    using bt_wf_distinct [OF assms(1)] by (simp add: sets [symmetric] distinct_map)
  then show ?thesis
    by (rule map_sorted_distinct_set_unique)
      (use assms(1,2) sets in \<open>auto simp: bt_wf_def strict_sorted_iff\<close>)
qed

text \<open>
  The interface through which the components use an ordered map: what a lookup returns after an
  insertion, and that every operation keeps the keys in order. The bulk operations are derived from
  it once.
\<close>

locale ordered_map =
  fixes empty_map :: "'m"
    and insert_map :: "'k::linorder \<Rightarrow> 'v \<Rightarrow> 'm \<Rightarrow> 'm"
    and lookup_map :: "'m \<Rightarrow> 'k \<Rightarrow> 'v option"
    and wf_map :: "'m \<Rightarrow> bool"
  assumes lookup_empty: "lookup_map empty_map k = None"
    and lookup_insert: "wf_map m \<Longrightarrow>
      lookup_map (insert_map k v m) k' = (if k' = k then Some v else lookup_map m k')"
    and wf_empty: "wf_map empty_map"
    and wf_insert: "wf_map m \<Longrightarrow> wf_map (insert_map k v m)"
begin

lemma wf_insert_all: "wf_map m \<Longrightarrow> wf_map (foldl (\<lambda>m (k, v). insert_map k v m) m kvs)"
  by (induction kvs arbitrary: m) (auto simp: wf_insert)

lemma lookup_insert_all:
  "wf_map m \<Longrightarrow> lookup_map (foldl (\<lambda>m (k, v). insert_map k v m) m kvs) k =
     (case map_of (rev kvs) k of Some v \<Rightarrow> Some v | None \<Rightarrow> lookup_map m k)"
proof (induction kvs arbitrary: m)
  case Nil
  then show ?case by simp
next
  case (Cons kv kvs)
  then show ?case
    by (cases kv) (auto simp: wf_insert lookup_insert map_add_def split: option.splits)
qed

end

interpretation bt: ordered_map "[]" bt_insert bt_get bt_wf
  by unfold_locales auto

lemma bt_wf_collect [simp]: "bt_wf (bt_collect kvs)"
  unfolding bt_collect_def by (rule bt.wf_insert_all) simp

lemma bt_get_collect: "bt_get (bt_collect kvs) k = map_of (rev kvs) k"
  unfolding bt_collect_def
  by (subst bt.lookup_insert_all) (auto split: option.splits)

section \<open>Sorting up to permutation\<close>

text \<open>
  The sources sort result lists before returning them. Sorting by an injective key makes the list a
  function of the multiset of its elements.
\<close>

lemma sort_key_mset_cong:
  fixes f :: "'a \<Rightarrow> 'b::linorder"
  assumes "mset xs = mset ys" and "inj_on f (set xs)"
  shows "sort_key f xs = sort_key f ys"
  using assms by (intro sort_key_inj_key_eq) auto

text \<open>Sorting and \<open>max_by\<close> commute with a function that does not change the keys.\<close>

lemma insort_key_map: "insort_key f (g x) (map g xs) = map g (insort_key (f \<circ> g) x xs)"
  by (induction xs) auto

lemma sort_key_map: "sort_key f (map g xs) = map g (sort_key (f \<circ> g) xs)"
  by (induction xs) (auto simp: insort_key_map comp_def)

lemma max_by_map:
  assumes "\<And>x y. c (g x) (g y) = c x y"
  shows "max_by c (map g xs) = map_option g (max_by c xs)"
proof -
  have "foldl (max_by_step c) (g x) (map g xs) = g (foldl (max_by_step c) x xs)" for x xs
  proof (induction xs arbitrary: x)
    case Nil
    then show ?case by simp
  next
    case (Cons y ys)
    have "max_by_step c (g x) (g y) = g (max_by_step c x y)"
      by (simp add: max_by_step_def assms)
    with Cons show ?case by simp
  qed
  then show ?thesis by (cases xs) auto
qed

section \<open>Invariants of transition systems\<close>

text \<open>
  A component whose operations are the steps of a transition system: an invariant that holds initially
  and is kept by every step holds in every reachable state.
\<close>

locale invariant_system =
  fixes initial :: "'s \<Rightarrow> bool" and step :: "'s \<Rightarrow> 's \<Rightarrow> bool" and inv :: "'s \<Rightarrow> bool"
  assumes inv_initial: "initial s \<Longrightarrow> inv s"
    and inv_step: "inv s \<Longrightarrow> step s s' \<Longrightarrow> inv s'"
begin

lemma inv_steps: "step\<^sup>*\<^sup>* s s' \<Longrightarrow> inv s \<Longrightarrow> inv s'"
  by (induction rule: rtranclp_induct) (auto intro: inv_step)

lemma inv_reachable: "initial s \<Longrightarrow> step\<^sup>*\<^sup>* s s' \<Longrightarrow> inv s'"
  using inv_steps inv_initial by blast

end

section \<open>Printing\<close>

text \<open>\<open>to_string\<close> of unsigned integers and of booleans.\<close>

fun nat_to_string :: "nat \<Rightarrow> string" where
  "nat_to_string n =
     (if n < 10 then [char_of (48 + n)]
      else nat_to_string (n div 10) @ [char_of (48 + n mod 10)])"

declare nat_to_string.simps [simp del]

definition u64_to_string :: "u64 \<Rightarrow> string" where
  "u64_to_string w = nat_to_string (unat w)"

definition bool_to_string :: "bool \<Rightarrow> string" where
  "bool_to_string b = (if b then ''true'' else ''false'')"

section \<open>The question-mark operator\<close>

fun result_bind :: "'e + 'a \<Rightarrow> ('a \<Rightarrow> 'e + 'b) \<Rightarrow> 'e + 'b" where
  "result_bind (Inl e) f = Inl e"
| "result_bind (Inr x) f = f x"

lemma result_bind_Inr: "result_bind r f = Inr y \<longleftrightarrow> (\<exists>x. r = Inr x \<and> f x = Inr y)"
  by (cases r) auto

lemma result_bind_Inl: "result_bind r f = Inl e \<longleftrightarrow> r = Inl e \<or> (\<exists>x. r = Inr x \<and> f x = Inl e)"
  by (cases r) auto

end
