(* ===== verification/Bounded_Id_Set.thy ===== *)
theory Bounded_Id_Set
  imports Marmot_Prelude
begin

text \<open>
  The capacity-bounded FIFO membership cache of \<open>crates/cgka-engine/src/bounded_id_set.rs\<close>, which
  backs the engine's \<open>seen_message_ids\<close> and \<open>sent_message_ids\<close>. The hash set and the deque are
  kept side by side as in the code; the abstract view is the deque alone. The refinement lemmas show
  that the pair behaves like a bounded queue without duplicates, and that the \<open>generation\<close> token
  moves exactly when the membership does.
\<close>

section \<open>Model\<close>

definition DEDUP_CACHE_CAPACITY :: nat where
  "DEDUP_CACHE_CAPACITY = 100000"

record 'a BoundedIdSet =
  members :: "'a set"
  order :: "'a list"
  capacity :: nat
  generation :: u64

text \<open>\<open>with_capacity\<close> asserts a non-zero capacity; \<open>None\<close> is the panic.\<close>

definition with_capacity :: "nat \<Rightarrow> 'a BoundedIdSet option" where
  "with_capacity cap =
     (if cap > 0
      then Some \<lparr>members = {}, order = [], capacity = cap, generation = 0\<rparr>
      else None)"

definition contains :: "'a BoundedIdSet \<Rightarrow> 'a \<Rightarrow> bool" where
  "contains s v = (v \<in> members s)"

text \<open>The eviction loop: while the deque is longer than the capacity, pop and forget its front.\<close>

fun evict :: "nat \<Rightarrow> 'a set \<Rightarrow> 'a list \<Rightarrow> 'a set \<times> 'a list" where
  "evict cap ms [] = (ms, [])"
| "evict cap ms (x # xs) =
     (if length (x # xs) > cap then evict cap (ms - {x}) xs else (ms, x # xs))"

definition insert_id :: "'a BoundedIdSet \<Rightarrow> 'a \<Rightarrow> 'a BoundedIdSet" where
  "insert_id s v =
     (if v \<in> members s then s
      else let (ms, q) = evict (capacity s) (insert v (members s)) (order s @ [v])
           in s\<lparr>members := ms, order := q, generation := generation s + 1\<rparr>)"

definition iter_ids :: "'a BoundedIdSet \<Rightarrow> 'a set" where
  "iter_ids s = members s"

text \<open>A run of insertions, the only mutation the type offers.\<close>

fun insert_all :: "'a BoundedIdSet \<Rightarrow> 'a list \<Rightarrow> 'a BoundedIdSet" where
  "insert_all s [] = s"
| "insert_all s (v # vs) = insert_all (insert_id s v) vs"

section \<open>Representation invariant and abstract view\<close>

definition bounded_inv :: "'a BoundedIdSet \<Rightarrow> bool" where
  "bounded_inv s \<longleftrightarrow>
     members s = set (order s) \<and> distinct (order s) \<and>
     length (order s) \<le> capacity s \<and> 0 < capacity s"

text \<open>The specification: a duplicate-free queue that drops its oldest entries.\<close>

definition fifo_insert :: "nat \<Rightarrow> 'a list \<Rightarrow> 'a \<Rightarrow> 'a list" where
  "fifo_insert cap q v = (if v \<in> set q then q else drop (Suc (length q) - cap) (q @ [v]))"

lemma evict_drop:
  "distinct q \<Longrightarrow> evict cap (set q) q = (set (drop (length q - cap) q), drop (length q - cap) q)"
proof (induction q)
  case Nil
  then show ?case by simp
next
  case (Cons x xs)
  show ?case
  proof (cases "cap < length (x # xs)")
    case True
    have "set (x # xs) - {x} = set xs" using Cons.prems by auto
    with True Cons show ?thesis by (simp add: Suc_diff_le)
  qed simp
qed

lemma insert_id_new:
  assumes "bounded_inv s" and "v \<notin> members s"
  shows "insert_id s v =
    s\<lparr>members := set (fifo_insert (capacity s) (order s) v),
      order := fifo_insert (capacity s) (order s) v, generation := generation s + 1\<rparr>"
proof -
  have d: "distinct (order s @ [v])" and m: "insert v (members s) = set (order s @ [v])"
    using assms by (auto simp: bounded_inv_def)
  let ?q = "fifo_insert (capacity s) (order s) v"
  have "?q = drop (length (order s @ [v]) - capacity s) (order s @ [v])"
    using assms by (simp add: fifo_insert_def bounded_inv_def)
  then have "evict (capacity s) (insert v (members s)) (order s @ [v]) = (set ?q, ?q)"
    unfolding m evict_drop [OF d] by simp
  with assms(2) show ?thesis by (simp add: insert_id_def)
qed

lemma insert_id_known: "v \<in> members s \<Longrightarrow> insert_id s v = s"
  by (simp add: insert_id_def)

lemma fifo_insert_wf:
  assumes "distinct q" and "length q \<le> cap" and "0 < cap"
  shows "distinct (fifo_insert cap q v) \<and> length (fifo_insert cap q v) \<le> cap"
  using assms by (auto simp: fifo_insert_def dest: in_set_dropD)

lemma insert_id_inv: "bounded_inv s \<Longrightarrow> bounded_inv (insert_id s v)"
  using fifo_insert_wf [of "order s" "capacity s" v]
  by (cases "v \<in> members s") (auto simp: insert_id_known insert_id_new bounded_inv_def)

lemma capacity_insert_id [simp]: "capacity (insert_id s v) = capacity s"
  by (simp add: insert_id_def split: prod.splits)

lemma insert_all_inv: "bounded_inv s \<Longrightarrow> bounded_inv (insert_all s vs)"
  by (induction vs arbitrary: s) (auto simp: insert_id_inv)

lemma capacity_insert_all [simp]: "capacity (insert_all s vs) = capacity s"
  by (induction vs arbitrary: s) auto

lemma order_insert_id:
  "bounded_inv s \<Longrightarrow> order (insert_id s v) = fifo_insert (capacity s) (order s) v"
  by (cases "v \<in> members s")
    (auto simp: insert_id_known insert_id_new, simp add: fifo_insert_def bounded_inv_def)

lemma with_capacity_inv: "with_capacity cap = Some s \<Longrightarrow> bounded_inv s \<and> order s = [] \<and> capacity s = cap"
  by (auto simp: with_capacity_def bounded_inv_def split: if_splits)

text \<open>
  The cache as an instance of a membership-cache interface: its clients (duplicate detection, own-echo
  detection) rely on these laws only.
\<close>

locale membership_cache =
  fixes inv :: "'s \<Rightarrow> bool"
    and mem :: "'s \<Rightarrow> 'a \<Rightarrow> bool"
    and add :: "'s \<Rightarrow> 'a \<Rightarrow> 's"
    and elems :: "'s \<Rightarrow> 'a set"
    and bound :: "'s \<Rightarrow> nat"
  assumes inv_add: "inv s \<Longrightarrow> inv (add s v)"
    and mem_elems: "mem s v \<longleftrightarrow> v \<in> elems s"
    and mem_add: "inv s \<Longrightarrow> mem (add s v) v"
    and add_subset: "inv s \<Longrightarrow> elems (add s v) \<subseteq> insert v (elems s)"
    and bound_add: "bound (add s v) = bound s"
    and card_bound: "inv s \<Longrightarrow> finite (elems s) \<and> card (elems s) \<le> bound s"
begin

lemma foldl_inv: "inv s \<Longrightarrow> inv (foldl add s vs)"
  by (induction vs arbitrary: s) (auto simp: inv_add)

lemma foldl_bound: "bound (foldl add s vs) = bound s"
  by (induction vs arbitrary: s) (auto simp: bound_add)

text \<open>Nothing is reported as seen that was not put in.\<close>

lemma foldl_sound: "inv s \<Longrightarrow> elems (foldl add s vs) \<subseteq> elems s \<union> set vs"
proof (induction vs arbitrary: s)
  case Nil
  then show ?case by simp
next
  case (Cons v vs)
  have "elems (foldl add (add s v) vs) \<subseteq> elems (add s v) \<union> set vs"
    by (rule Cons.IH) (rule inv_add [OF Cons.prems])
  then show ?case using add_subset [OF Cons.prems, of v] by auto
qed

lemma foldl_card: "inv s \<Longrightarrow> card (elems (foldl add s vs)) \<le> bound s"
  using card_bound [OF foldl_inv] foldl_bound by metis

end

interpretation bounded_id_set: membership_cache bounded_inv contains insert_id iter_ids capacity
proof
  fix s :: "'a BoundedIdSet" and v
  show "contains s v \<longleftrightarrow> v \<in> iter_ids s" by (simp add: contains_def iter_ids_def)
  show "capacity (insert_id s v) = capacity s" by simp
  assume inv: "bounded_inv s"
  show "bounded_inv (insert_id s v)" using inv by (rule insert_id_inv)
  show "finite (iter_ids s) \<and> card (iter_ids s) \<le> capacity s"
    using inv by (auto simp: bounded_inv_def iter_ids_def distinct_card)
  show "iter_ids (insert_id s v) \<subseteq> insert v (iter_ids s)"
    using inv set_drop_subset
    by (cases "v \<in> members s")
      (auto simp: iter_ids_def insert_id_known insert_id_new fifo_insert_def bounded_inv_def
        dest!: in_set_dropD)
  show "contains (insert_id s v) v"
    using inv
    by (cases "v \<in> members s")
      (auto simp: contains_def insert_id_known insert_id_new fifo_insert_def bounded_inv_def)
qed

lemma insert_all_foldl: "insert_all s vs = foldl insert_id s vs"
  by (induction vs arbitrary: s) auto

section \<open>Properties\<close>

lemma insert_all_order:
  "bounded_inv s \<Longrightarrow> order (insert_all s vs) = foldl (fifo_insert (capacity s)) (order s) vs"
  by (induction vs arbitrary: s) (auto simp: order_insert_id insert_id_inv)

text \<open>
  C38: starting from a fresh cache of capacity \<open>cap\<close>, any sequence of insertions leaves the deque
  equal to the reference FIFO queue without duplicates, and the hash set equal to its elements: the
  two structures never drift apart, and duplicates neither refresh an entry nor use a slot.
\<close>

theorem bounded_id_set_refines_fifo:
  assumes "with_capacity cap = Some s"
  shows "order (insert_all s vs) = foldl (fifo_insert cap) [] vs \<and>
    iter_ids (insert_all s vs) = set (foldl (fifo_insert cap) [] vs)"
proof -
  from assms have inv: "bounded_inv s" "order s = []" "capacity s = cap"
    by (auto dest: with_capacity_inv)
  have "order (insert_all s vs) = foldl (fifo_insert cap) [] vs"
    using insert_all_order [OF inv(1), of vs] inv by simp
  with insert_all_inv [OF inv(1), of vs] show ?thesis
    by (simp add: bounded_inv_def iter_ids_def)
qed

theorem bounded_id_set_refines_fifo_witness:
  "with_capacity 2 = Some \<lparr>members = {}, order = [], capacity = 2, generation = 0\<rparr> \<and>
   order (insert_all \<lparr>members = {}, order = [], capacity = 2, generation = 0\<rparr> [5, 7, 5, 9 :: nat])
     = [7, 9]"
proof -
  have w: "with_capacity 2 = Some \<lparr>members = {}, order = [], capacity = 2, generation = 0\<rparr>"
    by (simp add: with_capacity_def)
  then show ?thesis
    using bounded_id_set_refines_fifo [OF w, of "[5, 7, 5, 9 :: nat]"] by (simp add: fifo_insert_def)
qed

lemma foldl_fifo_distinct:
  "distinct (q @ vs) \<Longrightarrow> length q \<le> cap \<Longrightarrow>
     foldl (fifo_insert cap) q vs = drop (length q + length vs - cap) (q @ vs)"
proof (induction vs arbitrary: q)
  case Nil
  then show ?case by simp
next
  case (Cons v vs)
  let ?q = "fifo_insert cap q v"
  have q: "?q = drop (Suc (length q) - cap) (q @ [v])"
    using Cons.prems by (simp add: fifo_insert_def)
  have "set ?q \<subseteq> set (q @ [v])" unfolding q by (rule set_drop_subset)
  moreover have "distinct ?q" unfolding q using Cons.prems(1) by (intro distinct_drop) simp
  ultimately have "distinct (?q @ vs)" using Cons.prems(1) by auto
  then have "foldl (fifo_insert cap) ?q vs = drop (length ?q + length vs - cap) (?q @ vs)"
    by (rule Cons.IH) (simp add: q)
  also have "\<dots> = drop (length q + length (v # vs) - cap) (q @ v # vs)"
  proof (cases "length q < cap")
    case True
    then show ?thesis by (simp add: q)
  next
    case False
    then have "length q = cap" using Cons.prems by simp
    then show ?thesis unfolding q by (cases q) auto
  qed
  finally show ?case by simp
qed

text \<open>
  the cache never holds more than \<open>cap\<close> ids, reports as present only ids that were inserted,
  and after inserting distinct ids holds exactly the last \<open>cap\<close> of them: eviction removes the
  oldest entries and nothing else.
\<close>

lemma bounded_id_set_keeps_latest:
  assumes "with_capacity cap = Some s"
  shows "card (iter_ids (insert_all s vs)) \<le> cap \<and> iter_ids (insert_all s vs) \<subseteq> set vs \<and>
    (distinct vs \<longrightarrow> iter_ids (insert_all s vs) = set (drop (length vs - cap) vs))"
proof -
  from assms have inv: "bounded_inv s" "order s = []" "capacity s = cap"
    by (auto dest: with_capacity_inv)
  then have empty: "iter_ids s = {}" by (simp add: bounded_inv_def iter_ids_def)
  have "iter_ids (insert_all s vs) = set (drop (length vs - cap) vs)" if "distinct vs"
    using that insert_all_inv [OF inv(1), of vs] insert_all_order [OF inv(1), of vs]
      foldl_fifo_distinct [of "[]" vs cap] inv by (simp add: bounded_inv_def iter_ids_def)
  then show ?thesis
    using bounded_id_set.foldl_card [OF inv(1), of vs] bounded_id_set.foldl_sound [OF inv(1), of vs]
      inv empty by (simp add: insert_all_foldl)
qed

lemma bounded_id_set_keeps_latest_witness:
  "with_capacity 2 = Some \<lparr>members = {}, order = [], capacity = 2, generation = 0\<rparr> \<and>
   iter_ids (insert_all \<lparr>members = {}, order = [], capacity = 2, generation = 0\<rparr> [5, 7, 9 :: nat])
     = {7, 9}"
proof -
  have w: "with_capacity 2 = Some \<lparr>members = {}, order = [], capacity = 2, generation = 0\<rparr>"
    by (simp add: with_capacity_def)
  then show ?thesis
    using bounded_id_set_keeps_latest [OF w, of "[5, 7, 9 :: nat]"] by simp
qed

lemma generation_insert_id:
  "generation (insert_id s v) = (if v \<in> members s then generation s else generation s + 1)"
  by (simp add: insert_id_def split: prod.splits)

lemma generation_run:
  "\<exists>k \<le> length vs. generation (insert_all s vs) = generation s + of_nat k \<and>
     (k = 0 \<longrightarrow> insert_all s vs = s)"
proof (induction vs arbitrary: s)
  case Nil
  then show ?case by simp
next
  case (Cons v vs)
  obtain k where k: "k \<le> length vs"
      "generation (insert_all (insert_id s v) vs) = generation (insert_id s v) + of_nat k"
      "k = 0 \<longrightarrow> insert_all (insert_id s v) vs = insert_id s v"
    using Cons.IH [of "insert_id s v"] by blast
  show ?case
  proof (cases "v \<in> members s")
    case True
    then show ?thesis using k by (intro exI [of _ k]) (auto simp: insert_id_known)
  next
    case False
    then show ?thesis using k
      by (intro exI [of _ "Suc k"]) (auto simp: generation_insert_id ac_simps)
  qed
qed

text \<open>
  Over any run of fewer than \<open>2 ^ 64\<close> insertions an unchanged \<open>generation\<close> token proves that
  the whole cache is unchanged, so a snapshot derived from it is still current; the wrapping counter
  cannot come back to its start within such a run.
\<close>

lemma bounded_id_set_generation_current:
  assumes "length vs < 2 ^ 64" and "generation (insert_all s vs) = generation s"
  shows "insert_all s vs = s"
proof -
  obtain k where k: "k \<le> length vs" "generation (insert_all s vs) = generation s + of_nat k"
      "k = 0 \<longrightarrow> insert_all s vs = s"
    using generation_run by blast
  have "(of_nat k :: u64) = 0" using k(2) assms(2) by simp
  moreover have "k < 2 ^ LENGTH(64)" using k(1) assms(1) by simp
  ultimately have "k = 0"
    using nat_dvd_not_less [of k "2 ^ 64"] by (auto simp: word_of_nat_eq_0_iff)
  with k(3) show ?thesis by simp
qed

lemma bounded_id_set_generation_current_witness:
  "insert_all \<lparr>members = {3}, order = [3], capacity = 2, generation = 1\<rparr> [3, 3 :: nat]
     = \<lparr>members = {3}, order = [3], capacity = 2, generation = 1\<rparr>"
  by (rule bounded_id_set_generation_current) (simp_all add: insert_id_def)

end
