(* ===== verification/Convergence.thy ===== *)
theory Convergence
  imports Marmot_Prelude
begin

text \<open>
  Deterministic branch selection (\<open>crates/cgka-engine/src/convergence.rs\<close>): the policy constants,
  candidate branches with their application-payload witnesses, the score, the six-rule comparison and
  the selection with and without its audit trace.

  The theorems show that selection is optimal for the score order, that it does not depend on the
  order in which candidates or witnesses were collected, that application traffic can lift a branch by
  at most \<open>max_witness_override_depth\<close> commits, and that the audit trace names the same winner and
  marks the first rule that separates it from the runner-up.
\<close>

section \<open>Policy\<close>

definition V1_MAX_REWIND_COMMITS :: u64 where "V1_MAX_REWIND_COMMITS = 5"
definition V1_WITNESS_QUORUM_SENDERS_PER_EPOCH :: nat where "V1_WITNESS_QUORUM_SENDERS_PER_EPOCH = 2"
definition V1_WITNESS_QUORUM_EPOCHS :: nat where "V1_WITNESS_QUORUM_EPOCHS = 1"
definition V1_MAX_WITNESS_OVERRIDE_DEPTH :: u64 where "V1_MAX_WITNESS_OVERRIDE_DEPTH = 1"

record ConvergencePolicy =
  max_rewind_commits :: u64
  witness_quorum_senders_per_epoch :: nat
  witness_quorum_epochs :: nat
  max_witness_override_depth :: u64

definition default_convergence_policy :: ConvergencePolicy where
  "default_convergence_policy =
     \<lparr>max_rewind_commits = V1_MAX_REWIND_COMMITS,
      witness_quorum_senders_per_epoch = V1_WITNESS_QUORUM_SENDERS_PER_EPOCH,
      witness_quorum_epochs = V1_WITNESS_QUORUM_EPOCHS,
      max_witness_override_depth = V1_MAX_WITNESS_OVERRIDE_DEPTH\<rparr>"

datatype ConvergencePolicyError =
  WitnessOverrideExceedsRewind (woer_override: u64) (woer_rewind: u64)

definition validate_convergence :: "ConvergencePolicy \<Rightarrow> ConvergencePolicyError + unit" where
  "validate_convergence p =
     (if max_witness_override_depth p > max_rewind_commits p
      then Inl (WitnessOverrideExceedsRewind (max_witness_override_depth p) (max_rewind_commits p))
      else Inr ())"

section \<open>Candidates and scores\<close>

text \<open>The derived order of the enum: \<open>Privileged\<close> is declared first and is the smaller value.\<close>

datatype CommitOrderingPriority = Privileged | Ordinary

instantiation CommitOrderingPriority :: linorder
begin

definition less_eq_CommitOrderingPriority :: "CommitOrderingPriority \<Rightarrow> CommitOrderingPriority \<Rightarrow> bool" where
  "a \<le> b \<longleftrightarrow> a = Privileged \<or> b = Ordinary"

definition less_CommitOrderingPriority :: "CommitOrderingPriority \<Rightarrow> CommitOrderingPriority \<Rightarrow> bool" where
  "a < b \<longleftrightarrow> a = Privileged \<and> b = Ordinary"

instance
proof
  fix x y :: CommitOrderingPriority
  show "x < y \<longleftrightarrow> x \<le> y \<and> \<not> y \<le> x" "x \<le> x" "x \<le> y \<or> y \<le> x"
    by (cases x; cases y; simp add: less_eq_CommitOrderingPriority_def less_CommitOrderingPriority_def)+
next
  fix x y z :: CommitOrderingPriority
  assume "x \<le> y"
  then show "y \<le> z \<Longrightarrow> x \<le> z" "y \<le> x \<Longrightarrow> x = y"
    by (cases x; cases y; cases z; simp add: less_eq_CommitOrderingPriority_def)+
qed

end

record AppWitness =
  aw_epoch :: u64
  aw_sender :: bytes

record BranchCandidate =
  bc_id :: string
  bc_fork_epoch :: u64
  bc_tip_epoch :: u64
  bc_tip_priority :: CommitOrderingPriority
  bc_tip_committer :: bytes
  bc_tip_digest :: bytes
  bc_app_witnesses :: "AppWitness list"

record BranchScore =
  valid_commit_depth :: u64
  effective_commit_depth :: u64
  bs_witness_quorum_met :: bool
  bs_app_witness_score :: nat
  bs_tip_priority :: CommitOrderingPriority
  bs_tip_committer :: bytes
  bs_tip_digest :: bytes

definition add_witness ::
  "(u64, bytes set) btree_map \<Rightarrow> AppWitness \<Rightarrow> (u64, bytes set) btree_map" where
  "add_witness by_epoch w =
     bt_insert (aw_epoch w)
       (insert (aw_sender w) (case bt_get by_epoch (aw_epoch w) of None \<Rightarrow> {} | Some senders \<Rightarrow> senders))
       by_epoch"

definition witnesses_by_epoch :: "AppWitness list \<Rightarrow> (u64, bytes set) btree_map" where
  "witnesses_by_epoch witnesses = foldl add_witness [] witnesses"

definition witness_quorum_met :: "AppWitness list \<Rightarrow> ConvergencePolicy \<Rightarrow> bool" where
  "witness_quorum_met witnesses p =
     (if witness_quorum_senders_per_epoch p = 0 \<or> witness_quorum_epochs p = 0 then False
      else length (filter (\<lambda>senders. card senders \<ge> witness_quorum_senders_per_epoch p)
                     (bt_values (witnesses_by_epoch witnesses)))
             \<ge> witness_quorum_epochs p)"

definition app_witness_score :: "AppWitness list \<Rightarrow> ConvergencePolicy \<Rightarrow> nat" where
  "app_witness_score witnesses p =
     sum_list (map (\<lambda>senders. min (card senders) (witness_quorum_senders_per_epoch p))
                 (bt_values (witnesses_by_epoch witnesses)))"

definition witness_depth_boost :: "BranchCandidate \<Rightarrow> ConvergencePolicy \<Rightarrow> u64" where
  "witness_depth_boost b p =
     (if witness_quorum_met (bc_app_witnesses b) p then max_witness_override_depth p else 0)"

definition score :: "ConvergencePolicy \<Rightarrow> BranchCandidate \<Rightarrow> BranchScore" where
  "score p b =
     \<lparr>valid_commit_depth = saturating_sub (bc_tip_epoch b) (bc_fork_epoch b),
      effective_commit_depth =
        saturating_add (saturating_sub (bc_tip_epoch b) (bc_fork_epoch b)) (witness_depth_boost b p),
      bs_witness_quorum_met = witness_quorum_met (bc_app_witnesses b) p,
      bs_app_witness_score = app_witness_score (bc_app_witnesses b) p,
      bs_tip_priority = bc_tip_priority b,
      bs_tip_committer = bc_tip_committer b,
      bs_tip_digest = bc_tip_digest b\<rparr>"

definition is_branch_eligible :: "u64 \<Rightarrow> BranchCandidate \<Rightarrow> ConvergencePolicy \<Rightarrow> bool" where
  "is_branch_eligible current_tip_epoch b p =
     (saturating_sub current_tip_epoch (bc_fork_epoch b) \<le> max_rewind_commits p)"

definition compare_scores :: "BranchScore \<Rightarrow> BranchScore \<Rightarrow> ordering" where
  "compare_scores a b =
     then_with (cmp (effective_commit_depth a) (effective_commit_depth b))
       (then_with (cmp (bs_witness_quorum_met a) (bs_witness_quorum_met b))
         (then_with (cmp (bs_app_witness_score a) (bs_app_witness_score b))
           (then_with (cmp (bs_tip_priority b) (bs_tip_priority a))
             (then_with (cmp (bs_tip_committer b) (bs_tip_committer a))
               (cmp (bs_tip_digest b) (bs_tip_digest a))))))"

definition compare_branches :: "ConvergencePolicy \<Rightarrow> BranchCandidate \<Rightarrow> BranchCandidate \<Rightarrow> ordering" where
  "compare_branches p a b = compare_scores (score p a) (score p b)"

definition select_canonical_branch ::
  "u64 \<Rightarrow> BranchCandidate list \<Rightarrow> ConvergencePolicy \<Rightarrow> BranchCandidate option" where
  "select_canonical_branch current_tip_epoch candidates p =
     max_by (compare_branches p)
       (filter (\<lambda>c. is_branch_eligible current_tip_epoch c p) candidates)"

section \<open>Audit trace\<close>

fun tip_priority_str :: "CommitOrderingPriority \<Rightarrow> string" where
  "tip_priority_str Ordinary = ''ordinary''"
| "tip_priority_str Privileged = ''privileged''"

record CandidateEvaluation =
  ce_branch_id :: string
  ce_fork_epoch :: u64
  ce_tip_epoch :: u64
  ce_tip_priority :: CommitOrderingPriority
  ce_tip_committer :: bytes
  ce_tip_digest :: bytes
  ce_app_witnesses :: "AppWitness list"
  ce_eligible :: bool
  ce_rejection_reasons :: "string list"
  ce_score :: BranchScore

record RuleEvaluation =
  rule_name :: string
  winner_branch_id :: string
  other_branch_id :: string
  winner_value :: string
  other_value :: string
  decisive :: bool

record BranchSelectionTrace =
  st_selected_branch_id :: "string option"
  st_candidates :: "CandidateEvaluation list"
  st_rule_trace :: "RuleEvaluation list"
  st_losing_branch_ids :: "string list"

text \<open>\<open>hex\<close> stands for \<open>hex::encode\<close> of the \<open>hex\<close> crate.\<close>

definition rule_entries ::
  "(bytes \<Rightarrow> string) \<Rightarrow> BranchScore \<Rightarrow> BranchScore \<Rightarrow> (string \<times> ordering \<times> string \<times> string) list" where
  "rule_entries hex winner other =
     [(''effective_commit_depth'', cmp (effective_commit_depth winner) (effective_commit_depth other),
       u64_to_string (effective_commit_depth winner), u64_to_string (effective_commit_depth other)),
      (''witness_quorum_met'', cmp (bs_witness_quorum_met winner) (bs_witness_quorum_met other),
       bool_to_string (bs_witness_quorum_met winner), bool_to_string (bs_witness_quorum_met other)),
      (''app_witness_score'', cmp (bs_app_witness_score winner) (bs_app_witness_score other),
       nat_to_string (bs_app_witness_score winner), nat_to_string (bs_app_witness_score other)),
      (''tip_priority'', cmp (bs_tip_priority other) (bs_tip_priority winner),
       tip_priority_str (bs_tip_priority winner), tip_priority_str (bs_tip_priority other)),
      (''tip_committer'', cmp (bs_tip_committer other) (bs_tip_committer winner),
       hex (bs_tip_committer winner), hex (bs_tip_committer other)),
      (''tip_digest'', cmp (bs_tip_digest other) (bs_tip_digest winner),
       hex (bs_tip_digest winner), hex (bs_tip_digest other))]"

text \<open>The mapping closure with its mutable \<open>decided\<close> flag.\<close>

fun mark_decisive ::
  "string \<Rightarrow> string \<Rightarrow> bool \<Rightarrow> (string \<times> ordering \<times> string \<times> string) list \<Rightarrow> RuleEvaluation list" where
  "mark_decisive winner_id other_id decided [] = []"
| "mark_decisive winner_id other_id decided ((name, ord, wv, ov) # entries) =
     (let dec = (\<not> decided \<and> ord \<noteq> Equal)
      in \<lparr>rule_name = name, winner_branch_id = winner_id, other_branch_id = other_id,
          winner_value = wv, other_value = ov, decisive = dec\<rparr>
         # mark_decisive winner_id other_id (decided \<or> dec) entries)"

definition build_rule_trace ::
  "(bytes \<Rightarrow> string) \<Rightarrow> BranchScore \<Rightarrow> BranchScore \<Rightarrow> string \<Rightarrow> string \<Rightarrow> RuleEvaluation list" where
  "build_rule_trace hex winner other winner_id other_id =
     mark_decisive winner_id other_id False (rule_entries hex winner other)"

definition witness_key :: "AppWitness \<Rightarrow> u64 \<times> bytes" where
  "witness_key w = (aw_epoch w, aw_sender w)"

definition evaluate_candidate ::
  "u64 \<Rightarrow> ConvergencePolicy \<Rightarrow> BranchCandidate \<Rightarrow> CandidateEvaluation" where
  "evaluate_candidate current_tip_epoch p c =
     (let eligible = is_branch_eligible current_tip_epoch c p
      in \<lparr>ce_branch_id = bc_id c, ce_fork_epoch = bc_fork_epoch c, ce_tip_epoch = bc_tip_epoch c,
          ce_tip_priority = bc_tip_priority c, ce_tip_committer = bc_tip_committer c,
          ce_tip_digest = bc_tip_digest c,
          ce_app_witnesses = sort_key witness_key (bc_app_witnesses c),
          ce_eligible = eligible,
          ce_rejection_reasons = (if eligible then [] else [''beyond_rewind_horizon'']),
          ce_score = score p c\<rparr>)"

definition select_canonical_branch_traced ::
  "(bytes \<Rightarrow> string) \<Rightarrow> u64 \<Rightarrow> BranchCandidate list \<Rightarrow> ConvergencePolicy \<Rightarrow> BranchSelectionTrace" where
  "select_canonical_branch_traced hex current_tip_epoch candidates p =
     (let ordered = sort_key bc_id candidates;
          evaluations = map (evaluate_candidate current_tip_epoch p) ordered;
          selected = select_canonical_branch current_tip_epoch candidates p;
          selected_branch_id = map_option bc_id selected;
          rule_trace =
            (case selected of
               None \<Rightarrow> []
             | Some winner \<Rightarrow>
                 (case max_by (compare_branches p)
                         (filter (\<lambda>c. bc_id c \<noteq> bc_id winner)
                            (filter (\<lambda>c. is_branch_eligible current_tip_epoch c p) ordered)) of
                    None \<Rightarrow> []
                  | Some other \<Rightarrow>
                      build_rule_trace hex (score p winner) (score p other) (bc_id winner) (bc_id other)));
          losing_branch_ids =
            map ce_branch_id (filter (\<lambda>e. Some (ce_branch_id e) \<noteq> selected_branch_id) evaluations)
      in \<lparr>st_selected_branch_id = selected_branch_id, st_candidates = evaluations,
          st_rule_trace = rule_trace, st_losing_branch_ids = losing_branch_ids\<rparr>)"

section \<open>Witness aggregation\<close>

text \<open>The senders seen in one epoch: what the two-level map of \<open>witnesses_by_epoch\<close> stands for.\<close>

definition senders_at :: "AppWitness set \<Rightarrow> u64 \<Rightarrow> bytes set" where
  "senders_at W e = aw_sender ` {w \<in> W. aw_epoch w = e}"

lemma senders_at_insert:
  "senders_at (insert w W) e = (if aw_epoch w = e then insert (aw_sender w) (senders_at W e) else senders_at W e)"
  by (auto simp: senders_at_def)

lemma senders_at_empty_iff: "senders_at W e = {} \<longleftrightarrow> e \<notin> aw_epoch ` W"
  by (auto simp: senders_at_def)

lemma add_witness_inv:
  assumes "bt_wf m" and "\<And>e. bt_get m e = (if senders_at W e = {} then None else Some (senders_at W e))"
  shows "bt_wf (add_witness m w)"
    and "bt_get (add_witness m w) e =
      (if senders_at (insert w W) e = {} then None else Some (senders_at (insert w W) e))"
  using assms by (auto simp: add_witness_def senders_at_insert)

lemma foldl_add_witness:
  assumes "bt_wf m" and "\<And>e. bt_get m e = (if senders_at W e = {} then None else Some (senders_at W e))"
  shows "bt_wf (foldl add_witness m ws)
    \<and> (\<forall>e. bt_get (foldl add_witness m ws) e =
        (if senders_at (W \<union> set ws) e = {} then None else Some (senders_at (W \<union> set ws) e)))"
  using assms
proof (induction ws arbitrary: m W)
  case Nil
  then show ?case by simp
next
  case (Cons w ws)
  show ?case
    using Cons.IH [OF add_witness_inv [OF Cons.prems]] by simp
qed

lemma witnesses_by_epoch_wf: "bt_wf (witnesses_by_epoch ws)"
  and witnesses_by_epoch_get:
    "bt_get (witnesses_by_epoch ws) e =
       (if senders_at (set ws) e = {} then None else Some (senders_at (set ws) e))"
proof -
  have "bt_get [] e = (if senders_at {} e = {} then None else Some (senders_at {} e))" for e
    by (simp add: senders_at_def)
  from foldl_add_witness [OF bt_wf_Nil this, of ws]
  show "bt_wf (witnesses_by_epoch ws)"
    and "bt_get (witnesses_by_epoch ws) e =
       (if senders_at (set ws) e = {} then None else Some (senders_at (set ws) e))"
    by (simp_all add: witnesses_by_epoch_def)
qed

lemma witnesses_by_epoch_entries:
  "witnesses_by_epoch ws =
     map (\<lambda>e. (e, senders_at (set ws) e)) (sorted_list_of_set (aw_epoch ` set ws))" (is "_ = ?r")
proof (rule bt_ext)
  show "bt_wf (witnesses_by_epoch ws)" by (rule witnesses_by_epoch_wf)
  show "bt_wf ?r" by (simp add: bt_wf_def comp_def)
  fix e
  have "bt_get ?r e = (if e \<in> aw_epoch ` set ws then Some (senders_at (set ws) e) else None)"
    by (auto simp: bt_get_def map_of_map_restrict)
  then show "bt_get (witnesses_by_epoch ws) e = bt_get ?r e"
    by (simp add: witnesses_by_epoch_get senders_at_empty_iff)
qed

lemma witnesses_by_epoch_values:
  "bt_values (witnesses_by_epoch ws) =
     map (senders_at (set ws)) (sorted_list_of_set (aw_epoch ` set ws))"
  by (simp add: witnesses_by_epoch_entries bt_values_def comp_def)

lemma witness_aggregation:
  "witness_quorum_met ws p \<longleftrightarrow>
     0 < witness_quorum_senders_per_epoch p \<and> 0 < witness_quorum_epochs p \<and>
     witness_quorum_epochs p \<le>
       card {e \<in> aw_epoch ` set ws. witness_quorum_senders_per_epoch p \<le> card (senders_at (set ws) e)}"
  "app_witness_score ws p =
     (\<Sum>e\<in>aw_epoch ` set ws. min (card (senders_at (set ws) e)) (witness_quorum_senders_per_epoch p))"
proof -
  let ?es = "sorted_list_of_set (aw_epoch ` set ws)"
  have "length (filter (\<lambda>s. q \<le> card s) (map (senders_at (set ws)) ?es)) =
    card {e \<in> aw_epoch ` set ws. q \<le> card (senders_at (set ws) e)}" for q
  proof -
    have "length (filter (\<lambda>s. q \<le> card s) (map (senders_at (set ws)) ?es)) =
      length (filter (\<lambda>e. q \<le> card (senders_at (set ws) e)) ?es)"
      by (simp add: filter_map comp_def)
    also have "\<dots> = card (set (filter (\<lambda>e. q \<le> card (senders_at (set ws) e)) ?es))"
      by (rule distinct_card [symmetric]) simp
    finally show ?thesis by simp
  qed
  then show "witness_quorum_met ws p \<longleftrightarrow>
     0 < witness_quorum_senders_per_epoch p \<and> 0 < witness_quorum_epochs p \<and>
     witness_quorum_epochs p \<le>
       card {e \<in> aw_epoch ` set ws. witness_quorum_senders_per_epoch p \<le> card (senders_at (set ws) e)}"
    by (auto simp: witness_quorum_met_def witnesses_by_epoch_values)
  show "app_witness_score ws p =
     (\<Sum>e\<in>aw_epoch ` set ws. min (card (senders_at (set ws) e)) (witness_quorum_senders_per_epoch p))"
    by (simp add: app_witness_score_def witnesses_by_epoch_values comp_def
        sum_list_distinct_conv_sum_set)
qed

text \<open>
  C40: Witness counting has its set-theoretic meaning. The quorum holds exactly when both thresholds are
  positive and enough epochs have enough distinct senders, and the score sums, over the epochs seen,
  the number of distinct senders capped at the per-epoch threshold. In particular duplicated or
  reordered witnesses change neither.\<close>

theorem witness_aggregation_exact:
  "(witness_quorum_met ws p \<longleftrightarrow>
      0 < witness_quorum_senders_per_epoch p \<and> 0 < witness_quorum_epochs p \<and>
      witness_quorum_epochs p \<le>
        card {e \<in> aw_epoch ` set ws. witness_quorum_senders_per_epoch p \<le> card (senders_at (set ws) e)}) \<and>
   app_witness_score ws p =
     (\<Sum>e\<in>aw_epoch ` set ws. min (card (senders_at (set ws) e)) (witness_quorum_senders_per_epoch p))"
  by (intro conjI witness_aggregation)

lemma witnesses_by_epoch_set_cong:
  "set ws = set ws' \<Longrightarrow> witnesses_by_epoch ws = witnesses_by_epoch ws'"
  by (simp add: witnesses_by_epoch_entries)

section \<open>The score order\<close>

text \<open>The six rules form a comparison in the sense of the prelude, whatever the policy.\<close>

lemmas cmp_key_comparison = cmp_comparison.comparison_on_key

lemma cmp_key_reversed_comparison: "comparison (\<lambda>x y. cmp (f y) (f x))"
  by unfold_locales (rule cmp_swap, auto simp: not_less)

interpretation score_order: comparison compare_scores
  unfolding compare_scores_def [abs_def]
  by (intro comparison_then_with cmp_key_comparison cmp_key_reversed_comparison)

interpretation branch_order: comparison "compare_branches p" for p
  unfolding compare_branches_def [abs_def] by (rule score_order.comparison_on_key)

lemma valid_depth_le_effective:
  "unat (valid_commit_depth (score p b)) \<le> unat (effective_commit_depth (score p b))"
  by (simp add: score_def saturating_add_ge)

lemma effective_le_valid_plus_override:
  "unat (effective_commit_depth (score p b)) \<le>
     unat (valid_commit_depth (score p b)) + unat (max_witness_override_depth p)"
  by (simp add: score_def witness_depth_boost_def sat_simps min.coboundedI2)

lemma compare_branches_not_greater:
  "compare_branches p c m \<noteq> Greater \<longleftrightarrow>
    (let up = \<lambda>b. (effective_commit_depth (score p b), bs_witness_quorum_met (score p b),
                   bs_app_witness_score (score p b));
         down = \<lambda>b. (bc_tip_priority b, bc_tip_committer b, bc_tip_digest b)
     in up c < up m \<or> up c = up m \<and> down m \<le> down c)"
  unfolding compare_branches_def compare_scores_def score_def Let_def
  by (simp del: not_le add: not_less less_eq_prod_simp less_prod_simp) (auto simp: not_less le_less)

section \<open>Selection\<close>

lemma select_Some:
  "select_canonical_branch t cs p = Some m \<Longrightarrow>
     m \<in> set cs \<and> is_branch_eligible t m p
     \<and> (\<forall>c\<in>set cs. is_branch_eligible t c p \<longrightarrow> compare_branches p c m \<noteq> Greater)"
  unfolding select_canonical_branch_def
  using branch_order.max_by_mem branch_order.max_by_greatest by fastforce

lemma select_None:
  "select_canonical_branch t cs p = None \<longleftrightarrow> (\<forall>c\<in>set cs. \<not> is_branch_eligible t c p)"
  by (simp add: select_canonical_branch_def branch_order.max_by_None filter_empty_conv)

text \<open>
  C4: Selection is optimal. It fails only when every candidate is beyond the rewind horizon; otherwise
  the selected branch is an eligible candidate, and every eligible candidate either has a
  lexicographically smaller (effective depth, quorum, witness score), or the same and a tip whose
  (priority, committer, digest) is not smaller.\<close>

theorem select_canonical_branch_optimal:
  "(select_canonical_branch t cs p = None \<longleftrightarrow> (\<forall>c\<in>set cs. \<not> is_branch_eligible t c p)) \<and>
   (\<forall>m. select_canonical_branch t cs p = Some m \<longrightarrow>
      m \<in> set cs \<and> is_branch_eligible t m p \<and>
      (\<forall>c\<in>set cs. is_branch_eligible t c p \<longrightarrow>
         (let up = \<lambda>b. (effective_commit_depth (score p b), bs_witness_quorum_met (score p b),
                        bs_app_witness_score (score p b));
              down = \<lambda>b. (bc_tip_priority b, bc_tip_committer b, bc_tip_digest b)
          in up c < up m \<or> up c = up m \<and> down m \<le> down c)))"
  unfolding compare_branches_not_greater [symmetric]
  using select_None [of t cs p] select_Some [of t cs p] by blast

definition example_branch :: "string \<Rightarrow> u64 \<Rightarrow> bytes \<Rightarrow> AppWitness list \<Rightarrow> BranchCandidate" where
  "example_branch i tip digest ws =
     \<lparr>bc_id = i, bc_fork_epoch = 10, bc_tip_epoch = tip, bc_tip_priority = Ordinary,
      bc_tip_committer = [7], bc_tip_digest = digest, bc_app_witnesses = ws\<rparr>"

lemmas selection_eval = select_canonical_branch_def is_branch_eligible_def example_branch_def
  default_convergence_policy_def V1_MAX_REWIND_COMMITS_def V1_WITNESS_QUORUM_SENDERS_PER_EPOCH_def
  V1_WITNESS_QUORUM_EPOCHS_def V1_MAX_WITNESS_OVERRIDE_DEPTH_def saturating_sub_def
  compare_branches_def compare_scores_def score_def max_by_step_def cmp_def saturating_add_def
  witness_depth_boost_def witness_quorum_met_def app_witness_score_def witnesses_by_epoch_def
  bt_values_def add_witness_def bt_get_def

theorem select_canonical_branch_optimal_witness:
  "let a = example_branch ''a'' 12 [1] []; b = example_branch ''b'' 11 [2] [];
       p = default_convergence_policy
   in select_canonical_branch 12 [a, b] p = Some a \<and>
      effective_commit_depth (score p b) \<le> effective_commit_depth (score p a)"
proof -
  let ?a = "example_branch ''a'' 12 [1] []" and ?b = "example_branch ''b'' 11 [2] []"
  let ?p = default_convergence_policy
  have sel: "select_canonical_branch 12 [?a, ?b] ?p = Some ?a"
    by (simp add: selection_eval)
  have el: "is_branch_eligible 12 ?b ?p"
    by (simp add: selection_eval)
  show ?thesis
    using select_canonical_branch_optimal [of 12 "[?a, ?b]" ?p] sel el
    by (auto simp: Let_def)
qed

text \<open>
  C23: Application traffic cannot overturn a real lead. A branch whose valid commit depth exceeds
  another's by more than \<open>max_witness_override_depth\<close> compares greater whatever the witnesses, and the
  selected branch is at most \<open>max_witness_override_depth\<close> commits shallower than any eligible
  candidate. Saturation at the top of \<open>u64\<close> does not weaken this.\<close>

theorem witness_override_bounded:
  "(unat (valid_commit_depth (score p b)) + unat (max_witness_override_depth p)
      < unat (valid_commit_depth (score p a)) \<longrightarrow> compare_branches p b a = Less) \<and>
   (select_canonical_branch t cs p = Some m \<longrightarrow> c \<in> set cs \<longrightarrow> is_branch_eligible t c p \<longrightarrow>
      unat (valid_commit_depth (score p c))
        \<le> unat (valid_commit_depth (score p m)) + unat (max_witness_override_depth p))"
proof -
  have lead: "compare_branches p b a = Less"
    if "unat (valid_commit_depth (score p b)) + unat (max_witness_override_depth p)
      < unat (valid_commit_depth (score p a))" for a b
  proof -
    have "unat (effective_commit_depth (score p b)) < unat (effective_commit_depth (score p a))"
      using that effective_le_valid_plus_override [of p b] valid_depth_le_effective [of p a]
      by linarith
    then show ?thesis
      by (simp add: compare_branches_def compare_scores_def word_less_nat_alt)
  qed
  moreover have "unat (valid_commit_depth (score p c))
      \<le> unat (valid_commit_depth (score p m)) + unat (max_witness_override_depth p)"
    if "select_canonical_branch t cs p = Some m" "c \<in> set cs" "is_branch_eligible t c p"
  proof (rule ccontr)
    assume "\<not> ?thesis"
    then have "compare_branches p m c = Less" by (intro lead) simp
    then show False
      using select_Some [OF that(1)] that(2,3) branch_order.greater_swap by blast
  qed
  ultimately show ?thesis by blast
qed

text \<open>At the default policy a quorum lifts the branch \<open>b\<close> level with a one-commit lead, not past two.\<close>

theorem witness_override_bounded_witness:
  "let ws = [\<lparr>aw_epoch = 11, aw_sender = [1]\<rparr>, \<lparr>aw_epoch = 11, aw_sender = [2]\<rparr>];
       a = example_branch ''a'' 13 [1] []; b = example_branch ''b'' 11 [2] ws
   in witness_quorum_met ws default_convergence_policy \<and>
      compare_branches default_convergence_policy b a = Less"
proof -
  let ?ws = "[\<lparr>aw_epoch = 11, aw_sender = [1]\<rparr>, \<lparr>aw_epoch = 11, aw_sender = [2]\<rparr>]"
  let ?a = "example_branch ''a'' 13 [1] []" and ?b = "example_branch ''b'' 11 [2] ?ws"
  let ?p = default_convergence_policy
  have "unat (valid_commit_depth (score ?p ?b)) + unat (max_witness_override_depth ?p)
      < unat (valid_commit_depth (score ?p ?a))"
    by (simp add: selection_eval)
  then have "compare_branches ?p ?b ?a = Less"
    using witness_override_bounded [of ?p ?b ?a] by blast
  moreover have "witness_quorum_met ?ws ?p" by (simp add: selection_eval)
  ultimately show ?thesis by (simp add: Let_def)
qed

section \<open>Order independence\<close>

text \<open>The normal form of a candidate: its witnesses in the canonical order of the audit trace.\<close>

definition canon_branch :: "BranchCandidate \<Rightarrow> BranchCandidate" where
  "canon_branch c = c\<lparr>bc_app_witnesses := sort_key witness_key (bc_app_witnesses c)\<rparr>"

lemma inj_witness_key: "inj witness_key"
  by (auto simp: inj_def witness_key_def)

lemma canon_branch_simps [simp]:
  "bc_id (canon_branch c) = bc_id c"
  "score p (canon_branch c) = score p c"
  "is_branch_eligible t (canon_branch c) p = is_branch_eligible t c p"
  "compare_branches p (canon_branch a) (canon_branch b) = compare_branches p a b"
proof -
  have w: "witnesses_by_epoch (sort_key witness_key ws) = witnesses_by_epoch ws" for ws
    by (rule witnesses_by_epoch_set_cong) simp
  show sc: "score p (canon_branch c) = score p c" for c
    by (simp add: canon_branch_def score_def witness_depth_boost_def witness_quorum_met_def
        app_witness_score_def w)
  show "bc_id (canon_branch c) = bc_id c" by (simp add: canon_branch_def)
  show "is_branch_eligible t (canon_branch c) p = is_branch_eligible t c p"
    by (simp add: canon_branch_def is_branch_eligible_def)
  show "compare_branches p (canon_branch a) (canon_branch b) = compare_branches p a b"
    by (simp add: compare_branches_def sc)
qed

lemma evaluate_canon [simp]: "evaluate_candidate t p (canon_branch c) = evaluate_candidate t p c"
proof -
  have "sort_key witness_key (sort_key witness_key ws) = sort_key witness_key ws" for ws
    using inj_witness_key by (intro sort_key_mset_cong) (auto intro: inj_on_subset)
  then show ?thesis
    by (simp add: evaluate_candidate_def) (simp add: canon_branch_def)
qed

lemma select_map_canon:
  "select_canonical_branch t (map canon_branch cs) p =
     map_option canon_branch (select_canonical_branch t cs p)"
  by (simp add: select_canonical_branch_def max_by_map filter_map comp_def)

lemma traced_map_canon:
  "select_canonical_branch_traced hex t (map canon_branch cs) p =
     select_canonical_branch_traced hex t cs p"
proof -
  have "sort_key bc_id (map canon_branch cs) = map canon_branch (sort_key bc_id cs)"
    by (simp add: sort_key_map comp_def)
  then show ?thesis
    by (simp add: select_canonical_branch_traced_def select_map_canon filter_map comp_def
        max_by_map option.case_eq_if option.map_comp Let_def map_option_case)
qed

text \<open>
  C20: Selection and its audit trace are functions of the candidate set. Two collections of the same
  candidates, in any order and with the witnesses of each in any order, select the same branch and
  produce the same trace, provided branch ids are unique and no two eligible candidates tie on all
  six rules.\<close>

theorem selection_order_independent:
  assumes "mset (map canon_branch cs) = mset (map canon_branch cs')"
    and "distinct (map bc_id cs)"
    and "\<forall>a\<in>set cs. \<forall>b\<in>set cs. is_branch_eligible t a p \<longrightarrow> is_branch_eligible t b p \<longrightarrow>
           compare_branches p a b = Equal \<longrightarrow> bc_id a = bc_id b"
  shows "select_canonical_branch_traced hex t cs p = select_canonical_branch_traced hex t cs' p \<and>
         map_option canon_branch (select_canonical_branch t cs p) =
         map_option canon_branch (select_canonical_branch t cs' p)"
proof -
  let ?xs = "map canon_branch cs" and ?ys = "map canon_branch cs'"
  have sets: "set ?xs = set ?ys" using assms(1) by (rule mset_eq_setD)
  have inj: "inj_on bc_id (set ?xs)"
    using assms(2) by (auto simp: inj_on_def distinct_map)
  have sorted: "sort_key bc_id ?xs = sort_key bc_id ?ys"
    using assms(1) inj by (rule sort_key_mset_cong)
  have sel: "select_canonical_branch t ?xs p = select_canonical_branch t ?ys p"
    unfolding select_canonical_branch_def
  proof (rule branch_order.max_by_set_cong)
    fix x y
    assume "x \<in> set (filter (\<lambda>c. is_branch_eligible t c p) ?xs)"
      and "y \<in> set (filter (\<lambda>c. is_branch_eligible t c p) ?xs)" and "compare_branches p x y = Equal"
    then have "bc_id x = bc_id y" "x \<in> set ?xs" "y \<in> set ?xs" using assms(3) by auto
    then show "x = y" using inj by (meson inj_onD)
  qed (use sets in auto)
  have "select_canonical_branch_traced hex t ?xs p = select_canonical_branch_traced hex t ?ys p"
    unfolding select_canonical_branch_traced_def sorted sel ..
  then show ?thesis
    using sel by (simp only: traced_map_canon select_map_canon)
qed

theorem selection_order_independent_witness:
  "let w = \<lparr>aw_epoch = 11, aw_sender = [1]\<rparr>; v = \<lparr>aw_epoch = 11, aw_sender = [2]\<rparr>;
       a = example_branch ''a'' 12 [1] []; b = example_branch ''b'' 11 [2] [w, v];
       b' = example_branch ''b'' 11 [2] [v, w]
   in select_canonical_branch_traced (\<lambda>_. []) 12 [a, b] default_convergence_policy =
      select_canonical_branch_traced (\<lambda>_. []) 12 [b', a] default_convergence_policy"
proof -
  let ?w = "\<lparr>aw_epoch = 11, aw_sender = [1]\<rparr>" and ?v = "\<lparr>aw_epoch = 11, aw_sender = [2]\<rparr>"
  let ?a = "example_branch ''a'' 12 [1] []" and ?b = "example_branch ''b'' 11 [2] [?w, ?v]"
    and ?b' = "example_branch ''b'' 11 [2] [?v, ?w]"
  let ?p = default_convergence_policy
  have "mset (map canon_branch [?a, ?b]) = mset (map canon_branch [?b', ?a])"
    by (simp add: example_branch_def canon_branch_def witness_key_def)
  moreover have "distinct (map bc_id [?a, ?b])" by (simp add: example_branch_def)
  moreover have "compare_branches ?p ?a ?b \<noteq> Equal" "compare_branches ?p ?b ?a \<noteq> Equal"
    by (simp_all add: selection_eval)
  ultimately show ?thesis
    unfolding Let_def
    by (intro selection_order_independent [of "[?a, ?b]" "[?b', ?a]", THEN conjunct1]) simp_all
qed

text \<open>
  The proviso about ties is needed: unique branch ids alone do not make the trace a function of the
  candidate set, because the selection itself runs over the unsorted slice and \<open>max_by\<close> returns the
  last of several equal maxima.
\<close>

theorem tied_scores_make_trace_order_dependent:
  "\<exists>cs cs'. mset cs = mset cs' \<and> distinct (map bc_id cs) \<and>
     st_selected_branch_id (select_canonical_branch_traced hex 12 cs default_convergence_policy) \<noteq>
     st_selected_branch_id (select_canonical_branch_traced hex 12 cs' default_convergence_policy)"
proof (intro exI conjI)
  let ?a = "example_branch ''a'' 12 [1] []" and ?b = "example_branch ''b'' 12 [1] []"
  show "mset [?a, ?b] = mset [?b, ?a]" by simp
  show "distinct (map bc_id [?a, ?b])" by (simp add: example_branch_def)
  show "st_selected_branch_id (select_canonical_branch_traced hex 12 [?a, ?b] default_convergence_policy) \<noteq>
     st_selected_branch_id (select_canonical_branch_traced hex 12 [?b, ?a] default_convergence_policy)"
    by (simp add: select_canonical_branch_traced_def Let_def selection_eval)
qed

section \<open>The audit trace\<close>

lemma mark_decisive_length [simp]: "length (mark_decisive w o' d es) = length es"
  by (induction w o' d es rule: mark_decisive.induct) (auto simp: Let_def)

lemma mark_decisive_nth:
  "i < length es \<Longrightarrow>
     decisive (mark_decisive w o' d es ! i) \<longleftrightarrow>
       \<not> d \<and> fst (snd (es ! i)) \<noteq> Equal \<and> (\<forall>j<i. fst (snd (es ! j)) = Equal)"
proof (induction w o' d es arbitrary: i rule: mark_decisive.induct)
  case (1 w o' d)
  then show ?case by simp
next
  case (2 w o' d name ord wv ov entries)
  show ?case
  proof (cases i)
    case 0
    then show ?thesis by (simp add: Let_def)
  next
    case (Suc k)
    then show ?thesis using 2 by (auto simp: Let_def less_Suc_eq_0_disj)
  qed
qed

lemma rule_entries_length [simp]: "length (rule_entries hex w r) = 6"
  by (simp add: rule_entries_def)

text \<open>The six verdicts folded with \<open>then_with\<close> are \<open>compare_scores\<close>.\<close>

lemma compare_scores_fold:
  "compare_scores w r = foldr (\<lambda>e. then_with (fst (snd e))) (rule_entries hex w r) Equal"
proof -
  have "then_with a Equal = a" for a by (cases a) auto
  then show ?thesis by (simp add: compare_scores_def rule_entries_def)
qed

lemma foldr_then_with_first:
  "i < length es \<Longrightarrow> v (es ! i) \<noteq> Equal \<Longrightarrow> \<forall>j<i. v (es ! j) = Equal \<Longrightarrow>
     foldr (\<lambda>e. then_with (v e)) es Equal = v (es ! i)"
proof (induction es arbitrary: i)
  case Nil
  then show ?case by simp
next
  case (Cons e es)
  show ?case
  proof (cases i)
    case 0
    then show ?thesis using Cons.prems by (cases "v e") auto
  next
    case (Suc k)
    then have "v e = Equal" and "\<forall>j<k. v (es ! j) = Equal" using Cons.prems(3) by force+
    then show ?thesis using Cons.IH [of k] Cons.prems Suc by auto
  qed
qed

lemma foldr_then_with_Equal:
  "foldr (\<lambda>e. then_with (v e)) es Equal = Equal \<longleftrightarrow> (\<forall>i<length es. v (es ! i) = Equal)"
  by (induction es) (auto simp: less_Suc_eq_0_disj)

lemma decisive_iff:
  "j < 6 \<Longrightarrow> decisive (build_rule_trace hex w r wid rid ! j) \<longleftrightarrow>
     fst (snd (rule_entries hex w r ! j)) \<noteq> Equal
     \<and> (\<forall>k<j. fst (snd (rule_entries hex w r ! k)) = Equal)"
  by (simp add: build_rule_trace_def mark_decisive_nth)

lemma decisive_exists:
  "(\<exists>i<6. decisive (build_rule_trace hex w r wid rid ! i)) \<longleftrightarrow> compare_scores w r \<noteq> Equal"
proof -
  let ?P = "\<lambda>i. i < 6 \<and> fst (snd (rule_entries hex w r ! i)) \<noteq> Equal"
  have "compare_scores w r \<noteq> Equal \<longleftrightarrow> (\<exists>i. ?P i)"
    unfolding compare_scores_fold [of w r hex] foldr_then_with_Equal by auto
  also have "\<dots> \<longleftrightarrow> (\<exists>i. ?P i \<and> (\<forall>k<i. \<not> ?P k))"
    using exists_least_iff [of ?P] by blast
  also have "\<dots> \<longleftrightarrow> (\<exists>i<6. decisive (build_rule_trace hex w r wid rid ! i))"
    using decisive_iff [of _ hex w r wid rid] by (meson less_trans)
  finally show ?thesis by simp
qed

text \<open>
  The audit trace explains the comparison. It has six entries; one of them is decisive exactly when
  the two scores do not tie, and then it is the only one, the verdict of its rule is the verdict of
  \<open>compare_scores\<close>, and every earlier rule ties.\<close>

lemma rule_trace_explains_comparison:
  "length (build_rule_trace hex w r wid rid) = 6 \<and>
   ((\<exists>i<6. decisive (build_rule_trace hex w r wid rid ! i)) \<longleftrightarrow> compare_scores w r \<noteq> Equal) \<and>
   (\<forall>i<6. decisive (build_rule_trace hex w r wid rid ! i) \<longrightarrow>
      compare_scores w r = fst (snd (rule_entries hex w r ! i)) \<and>
      (\<forall>j<i. fst (snd (rule_entries hex w r ! j)) = Equal) \<and>
      (\<forall>j<6. decisive (build_rule_trace hex w r wid rid ! j) \<longrightarrow> j = i))"
proof (intro conjI allI impI)
  show "length (build_rule_trace hex w r wid rid) = 6" by (simp add: build_rule_trace_def)
  show "(\<exists>i<6. decisive (build_rule_trace hex w r wid rid ! i)) \<longleftrightarrow> compare_scores w r \<noteq> Equal"
    by (rule decisive_exists)
  fix i :: nat assume i: "i < 6" and d: "decisive (build_rule_trace hex w r wid rid ! i)"
  note first = d [unfolded decisive_iff [OF i]]
  show "compare_scores w r = fst (snd (rule_entries hex w r ! i))"
    unfolding compare_scores_fold [of w r hex]
    using i first by (intro foldr_then_with_first) auto
  { fix j assume "j < i" then show "fst (snd (rule_entries hex w r ! j)) = Equal" using first by blast }
  fix j :: nat assume "j < 6" and "decisive (build_rule_trace hex w r wid rid ! j)"
  then show "j = i" using decisive_iff first by (metis linorder_neqE_nat)
qed

lemma rule_trace_explains_comparison_witness:
  "let p = default_convergence_policy; a = score p (example_branch ''a'' 12 [1] []);
       b = score p (example_branch ''b'' 12 [2] [])
   in decisive (build_rule_trace (\<lambda>_. []) a b ''a'' ''b'' ! 5) \<and> compare_scores a b = Greater"
proof -
  let ?a = "score default_convergence_policy (example_branch ''a'' 12 [1] [])"
    and ?b = "score default_convergence_policy (example_branch ''b'' 12 [2] [])"
  have d: "decisive (build_rule_trace (\<lambda>_. []) ?a ?b ''a'' ''b'' ! 5)"
    by (simp add: build_rule_trace_def rule_entries_def selection_eval Let_def)
  then have "compare_scores ?a ?b = fst (snd (rule_entries (\<lambda>_. []) ?a ?b ! 5))"
    using rule_trace_explains_comparison [of "\<lambda>_. []" ?a ?b "''a''" "''b''"] by force
  with d show ?thesis by (simp add: Let_def rule_entries_def selection_eval)
qed

text \<open>
  The traced selection is the untraced one. The trace names the branch \<open>select_canonical_branch\<close>
  returns, lists every candidate once in branch-id order, and its losers are exactly the ids of the
  other candidates.\<close>

lemma traced_selection_agrees:
  "let tr = select_canonical_branch_traced hex t cs p
   in st_selected_branch_id tr = map_option bc_id (select_canonical_branch t cs p) \<and>
      map ce_branch_id (st_candidates tr) = sort (map bc_id cs) \<and>
      set (st_losing_branch_ids tr) = bc_id ` set cs - set_option (st_selected_branch_id tr) \<and>
      mset (st_candidates tr) = image_mset (evaluate_candidate t p) (mset cs)"
proof -
  have id [simp]: "ce_branch_id (evaluate_candidate t p c) = bc_id c" for c
    by (simp add: evaluate_candidate_def Let_def)
  have srt [simp]: "map bc_id (sort_key bc_id cs) = sort (map bc_id cs)"
    by (simp add: sort_key_map comp_def)
  let ?sel = "map_option bc_id (select_canonical_branch t cs p)"
  have "bc_id ` {c \<in> set cs. Some (bc_id c) \<noteq> ?sel} = bc_id ` set cs - set_option ?sel"
    by (cases "select_canonical_branch t cs p") auto
  then show ?thesis
    by (simp add: select_canonical_branch_traced_def Let_def filter_map comp_def)
qed

end
