(* ===== verification/Canonical_Types.thy ===== *)
theory Canonical_Types
  imports Convergence
begin

text \<open>
  The data of a canonicalization pass (\<open>crates/cgka-engine/src/canonicalization.rs\<close>): the policy and its
  validation, the input batch, the result with its derived sort orders, and the small constructors of
  dispositions. The field \<open>replay_probe_count\<close>, compiled only under \<open>test-conformance-snapshot\<close>, is
  left out.

  The theorems show that a policy is acceptable exactly when it is the pinned v1 policy and the decrypt
  window agrees with it, and that sorting a result is insensitive to the order of its lists.
\<close>

section \<open>Policy\<close>

definition V1_APP_MESSAGE_PAST_EPOCH_LIMIT :: u64 where "V1_APP_MESSAGE_PAST_EPOCH_LIMIT = 5"
definition V1_SETTLEMENT_QUIESCENCE_MS :: u64 where "V1_SETTLEMENT_QUIESCENCE_MS = 1000"
definition V1_MAX_CONVERGENCE_PASS_MS :: u64 where "V1_MAX_CONVERGENCE_PASS_MS = 5000"

record CanonicalizationPolicy =
  cp_convergence :: ConvergencePolicy
  app_message_past_epoch_limit :: u64
  settlement_quiescence_ms :: u64
  max_convergence_pass_ms :: u64

definition default_canonicalization_policy :: CanonicalizationPolicy where
  "default_canonicalization_policy =
     \<lparr>cp_convergence = default_convergence_policy,
      app_message_past_epoch_limit = V1_APP_MESSAGE_PAST_EPOCH_LIMIT,
      settlement_quiescence_ms = V1_SETTLEMENT_QUIESCENCE_MS,
      max_convergence_pass_ms = V1_MAX_CONVERGENCE_PASS_MS\<rparr>"

datatype CanonicalizationPolicyError =
    ConvergenceError ConvergencePolicyError
  | NotPinnedV1
  | AppWindowMismatch (awm_limit: u64) (awm_max_past_epochs: u64)

definition validate_canonicalization :: "CanonicalizationPolicy \<Rightarrow> ConvergencePolicyError + unit" where
  "validate_canonicalization p = validate_convergence (cp_convergence p)"

definition is_pinned_v1 :: "CanonicalizationPolicy \<Rightarrow> bool" where
  "is_pinned_v1 p = (p = default_canonicalization_policy)"

definition ensure_pinned_v1 :: "CanonicalizationPolicy \<Rightarrow> CanonicalizationPolicyError + unit" where
  "ensure_pinned_v1 p =
     (case validate_canonicalization p of
        Inl e \<Rightarrow> Inl (ConvergenceError e)
      | Inr _ \<Rightarrow> if \<not> is_pinned_v1 p then Inl NotPinnedV1 else Inr ())"

definition ensure_app_window_matches ::
  "CanonicalizationPolicy \<Rightarrow> nat \<Rightarrow> CanonicalizationPolicyError + unit" where
  "ensure_app_window_matches p max_past_epochs =
     (if app_message_past_epoch_limit p \<noteq> word_of_nat max_past_epochs
      then Inl (AppWindowMismatch (app_message_past_epoch_limit p) (word_of_nat max_past_epochs))
      else Inr ())"

text \<open>The build without \<open>test-policy-overrides\<close>.\<close>

definition ensure_acceptable ::
  "CanonicalizationPolicy \<Rightarrow> nat \<Rightarrow> CanonicalizationPolicyError + unit" where
  "ensure_acceptable p max_past_epochs =
     (case validate_canonicalization p of
        Inl e \<Rightarrow> Inl (ConvergenceError e)
      | Inr _ \<Rightarrow>
          (case ensure_app_window_matches p max_past_epochs of
             Inl e \<Rightarrow> Inl e
           | Inr _ \<Rightarrow> if \<not> is_pinned_v1 p then Inl NotPinnedV1 else Inr ()))"

section \<open>Messages, inputs and results\<close>

record CanonicalizationState =
  current_tip_epoch :: u64
  retained_anchor_epoch :: u64
  last_convergence_relevant_input_ms :: u64
  seen_message_ids :: "string set"

datatype ConvergenceStatus = Syncing | Resolving | Settled | Blocked

datatype PeeledMessageKind =
    Commit (commit_branch_id: string) (commit_parent_branch_id: "string option")
      (commit_fork_epoch: u64) (commit_resulting_epoch: u64)
      (commit_tip_priority: CommitOrderingPriority) (commit_tip_digest: bytes)
      (commit_consumed_proposal_ids: "string list")
  | Proposal (proposal_branch_id: string)
  | AppMessage (app_epoch: u64) (app_decrypts_on_branches: "string list")
      (app_decrypted_payload_ref: "string option") (app_already_delivered: bool)

record PeeledMessage =
  pm_message_id :: string
  pm_group_id :: string
  pm_sender :: bytes
  pm_source_epoch :: u64
  pm_kind :: PeeledMessageKind

datatype MessageKind = CommitKind | ProposalKind | AppMessageKind

definition kind_name :: "PeeledMessage \<Rightarrow> MessageKind" where
  "kind_name m =
     (case pm_kind m of Commit _ _ _ _ _ _ _ \<Rightarrow> CommitKind | Proposal _ \<Rightarrow> ProposalKind
      | AppMessage _ _ _ _ \<Rightarrow> AppMessageKind)"

datatype OutboundIntent =
    SendAppMessage string
  | CreateCommit string
  | PublishProposal string

record CanonicalizationInput =
  ci_state :: CanonicalizationState
  pending_messages :: "PeeledMessage list"
  outbound_intents :: "OutboundIntent list"
  candidate_branches :: "BranchCandidate list"
  ci_policy :: CanonicalizationPolicy
  now_ms :: u64

record MaterializedCandidate =
  mc_branch :: BranchCandidate
  mc_commit_message_ids :: "string list"
  mc_consumed_proposal_ids :: "string list"

datatype InvalidatedAppMessageReason =
    LosingBranch | InvalidatedBeyondAnchor | InvalidatedBeyondAppRetention
  | UndecryptableInCanonicalState

record InvalidatedAppMessage =
  iam_message_id :: string
  iam_epoch :: u64
  iam_reason :: InvalidatedAppMessageReason
  iam_decrypted_payload_ref :: "string option"

datatype DroppedMessageReason =
    BeyondRollbackHorizon | BeyondAnchor | BeyondAppRetention | InvalidAgainstCandidateState
  | DroppedUnsupportedPolicy | Malformed

datatype ProposalRejectionCategory =
    AuthorizationFailed | UnsupportedProposal | InvalidEncoding | InvalidSignature | InvalidSelfRemove

record DroppedMessage =
  dm_message_id :: string
  dm_kind :: MessageKind
  dm_reason :: DroppedMessageReason
  dm_rejection_category :: "ProposalRejectionCategory option"

record AlreadySeen =
  as_message_id :: string
  as_kind :: MessageKind

datatype DeferredMessageReason =
    MissingCandidateParent | NonSelectedEligibleBranch | AwaitingCanonicalCommit | FutureEpoch

record DeferredMessage =
  df_message_id :: string
  df_kind :: MessageKind
  df_reason :: DeferredMessageReason

datatype CanonicalizationError =
    UnsupportedPolicy | MissingRetainedAnchor | MissingOwnCommitCheckpoint
  | CandidateStateUnavailable | MlsValidationFailed | OutboundIntentStale | StorageUnavailable

record CanonicalizationResult =
  previous_tip :: u64
  selected_tip :: "u64 option"
  selected_fork_epoch :: "u64 option"
  selected_branch_id :: "string option"
  candidate_count :: nat
  eligible_count :: nat
  convergence_status :: ConvergenceStatus
  accepted_commits :: "string list"
  accepted_proposals :: "string list"
  accepted_app_messages :: "string list"
  deferred_messages :: "DeferredMessage list"
  invalidated_app_messages :: "InvalidatedAppMessage list"
  dropped_messages :: "DroppedMessage list"
  already_seen :: "AlreadySeen list"
  queued_outbound_intents :: "OutboundIntent list"
  publishable_outbound_messages :: "OutboundIntent list"
  errors :: "CanonicalizationError list"
  selection_trace :: "BranchSelectionTrace option"

text \<open>
  The derived orders: an enum compares by variant position, a struct lexicographically by its fields.
\<close>

fun message_kind_rank :: "MessageKind \<Rightarrow> nat" where
  "message_kind_rank CommitKind = 0"
| "message_kind_rank ProposalKind = 1"
| "message_kind_rank AppMessageKind = 2"

fun invalidated_reason_rank :: "InvalidatedAppMessageReason \<Rightarrow> nat" where
  "invalidated_reason_rank LosingBranch = 0"
| "invalidated_reason_rank InvalidatedBeyondAnchor = 1"
| "invalidated_reason_rank InvalidatedBeyondAppRetention = 2"
| "invalidated_reason_rank UndecryptableInCanonicalState = 3"

fun dropped_reason_rank :: "DroppedMessageReason \<Rightarrow> nat" where
  "dropped_reason_rank BeyondRollbackHorizon = 0"
| "dropped_reason_rank BeyondAnchor = 1"
| "dropped_reason_rank BeyondAppRetention = 2"
| "dropped_reason_rank InvalidAgainstCandidateState = 3"
| "dropped_reason_rank DroppedUnsupportedPolicy = 4"
| "dropped_reason_rank Malformed = 5"

fun rejection_category_rank :: "ProposalRejectionCategory \<Rightarrow> nat" where
  "rejection_category_rank AuthorizationFailed = 0"
| "rejection_category_rank UnsupportedProposal = 1"
| "rejection_category_rank InvalidEncoding = 2"
| "rejection_category_rank InvalidSignature = 3"
| "rejection_category_rank InvalidSelfRemove = 4"

fun deferred_reason_rank :: "DeferredMessageReason \<Rightarrow> nat" where
  "deferred_reason_rank MissingCandidateParent = 0"
| "deferred_reason_rank NonSelectedEligibleBranch = 1"
| "deferred_reason_rank AwaitingCanonicalCommit = 2"
| "deferred_reason_rank FutureEpoch = 3"

fun error_rank :: "CanonicalizationError \<Rightarrow> nat" where
  "error_rank UnsupportedPolicy = 0"
| "error_rank MissingRetainedAnchor = 1"
| "error_rank MissingOwnCommitCheckpoint = 2"
| "error_rank CandidateStateUnavailable = 3"
| "error_rank MlsValidationFailed = 4"
| "error_rank OutboundIntentStale = 5"
| "error_rank StorageUnavailable = 6"

fun intent_key :: "OutboundIntent \<Rightarrow> nat \<times> string" where
  "intent_key (SendAppMessage payload) = (0, payload)"
| "intent_key (CreateCommit change) = (1, change)"
| "intent_key (PublishProposal proposal) = (2, proposal)"

definition invalidated_key :: "InvalidatedAppMessage \<Rightarrow> string \<times> u64 \<times> nat \<times> string option" where
  "invalidated_key i =
     (iam_message_id i, iam_epoch i, invalidated_reason_rank (iam_reason i), iam_decrypted_payload_ref i)"

definition dropped_key :: "DroppedMessage \<Rightarrow> string \<times> nat \<times> nat \<times> nat option" where
  "dropped_key d =
     (dm_message_id d, message_kind_rank (dm_kind d), dropped_reason_rank (dm_reason d),
      map_option rejection_category_rank (dm_rejection_category d))"

definition already_seen_key :: "AlreadySeen \<Rightarrow> string \<times> nat" where
  "already_seen_key a = (as_message_id a, message_kind_rank (as_kind a))"

definition deferred_key :: "DeferredMessage \<Rightarrow> string \<times> nat \<times> nat" where
  "deferred_key d =
     (df_message_id d, message_kind_rank (df_kind d), deferred_reason_rank (df_reason d))"

definition sort_result :: "CanonicalizationResult \<Rightarrow> CanonicalizationResult" where
  "sort_result r =
     r\<lparr>accepted_proposals := sort (accepted_proposals r),
       accepted_app_messages := sort (accepted_app_messages r),
       deferred_messages := sort_key deferred_key (deferred_messages r),
       invalidated_app_messages := sort_key invalidated_key (invalidated_app_messages r),
       dropped_messages := sort_key dropped_key (dropped_messages r),
       already_seen := sort_key already_seen_key (already_seen r),
       queued_outbound_intents := sort_key intent_key (queued_outbound_intents r),
       publishable_outbound_messages := sort_key intent_key (publishable_outbound_messages r),
       errors := sort_key error_rank (errors r)\<rparr>"

section \<open>Small helpers of the pass\<close>

definition app_message_expired :: "u64 \<Rightarrow> CanonicalizationPolicy \<Rightarrow> u64 \<Rightarrow> bool" where
  "app_message_expired reference_tip_epoch p epoch =
     (saturating_sub reference_tip_epoch epoch > app_message_past_epoch_limit p)"

definition dropped :: "PeeledMessage \<Rightarrow> DroppedMessageReason \<Rightarrow> DroppedMessage" where
  "dropped m reason =
     \<lparr>dm_message_id = pm_message_id m, dm_kind = kind_name m, dm_reason = reason,
      dm_rejection_category = None\<rparr>"

definition deferred :: "PeeledMessage \<Rightarrow> DeferredMessageReason \<Rightarrow> DeferredMessage" where
  "deferred m reason =
     \<lparr>df_message_id = pm_message_id m, df_kind = kind_name m, df_reason = reason\<rparr>"

definition invalidated_app ::
  "PeeledMessage \<Rightarrow> u64 \<Rightarrow> InvalidatedAppMessageReason \<Rightarrow> string option \<Rightarrow> InvalidatedAppMessage" where
  "invalidated_app m epoch reason payload =
     \<lparr>iam_message_id = pm_message_id m, iam_epoch = epoch, iam_reason = reason,
      iam_decrypted_payload_ref = payload\<rparr>"

definition branch_ineligibility_reason ::
  "CanonicalizationInput \<Rightarrow> BranchCandidate \<Rightarrow> DroppedMessageReason option" where
  "branch_ineligibility_reason inp c =
     (if bc_fork_epoch c < retained_anchor_epoch (ci_state inp) then Some BeyondAnchor
      else if \<not> is_branch_eligible (current_tip_epoch (ci_state inp)) c (cp_convergence (ci_policy inp))
      then Some BeyondRollbackHorizon
      else None)"

section \<open>Properties\<close>

lemmas policy_eval = validate_canonicalization_def validate_convergence_def
  ensure_app_window_matches_def is_pinned_v1_def default_canonicalization_policy_def
  default_convergence_policy_def V1_MAX_REWIND_COMMITS_def V1_WITNESS_QUORUM_SENDERS_PER_EPOCH_def
  V1_WITNESS_QUORUM_EPOCHS_def V1_MAX_WITNESS_OVERRIDE_DEPTH_def
  V1_APP_MESSAGE_PAST_EPOCH_LIMIT_def V1_SETTLEMENT_QUIESCENCE_MS_def V1_MAX_CONVERGENCE_PASS_MS_def

text \<open>
  A policy is accepted exactly when it equals the pinned v1 baseline and the MLS past-epoch window
  equals its application window of 5 epochs; acceptance implies the witness-override bound. The
  narrowing of the window to \<open>u64\<close> is exact below \<open>2\<^sup>64\<close>.\<close>

lemma ensure_acceptable_pinned:
  assumes "max_past_epochs < 2 ^ 64"
  shows "ensure_acceptable p max_past_epochs = Inr () \<longleftrightarrow>
           p = default_canonicalization_policy \<and> max_past_epochs = 5 \<and> ensure_pinned_v1 p = Inr () \<and>
           max_witness_override_depth (cp_convergence p) \<le> max_rewind_commits (cp_convergence p)"
proof -
  have "(5::u64) = word_of_nat max_past_epochs \<longleftrightarrow> max_past_epochs = 5"
    using assms by (auto simp: word_unat_eq_iff unat_word_of_nat)
  then have "ensure_acceptable p max_past_epochs = Inr () \<longleftrightarrow>
      p = default_canonicalization_policy \<and> max_past_epochs = 5"
    by (auto simp: ensure_acceptable_def policy_eval split: if_splits)
  moreover have "ensure_pinned_v1 default_canonicalization_policy = Inr () \<and>
      max_witness_override_depth (cp_convergence default_canonicalization_policy)
        \<le> max_rewind_commits (cp_convergence default_canonicalization_policy)"
    by (simp add: ensure_pinned_v1_def policy_eval)
  ultimately show ?thesis by blast
qed

lemma ensure_acceptable_pinned_witness:
  "ensure_acceptable default_canonicalization_policy 5 = Inr () \<and>
   ensure_acceptable default_canonicalization_policy 6 \<noteq> Inr ()"
  using ensure_acceptable_pinned [of 5 default_canonicalization_policy]
    ensure_acceptable_pinned [of 6 default_canonicalization_policy]
  by (simp add: ensure_pinned_v1_def policy_eval)

text \<open>The sort keys determine the sorted values, so the sorted lists depend on the multisets only.\<close>

lemma inj_ranks:
  "inj message_kind_rank" "inj invalidated_reason_rank" "inj dropped_reason_rank"
  "inj rejection_category_rank" "inj deferred_reason_rank" "inj error_rank" "inj intent_key"
proof -
  show "inj message_kind_rank" by (rule injI) (case_tac x; case_tac y; simp)
  show "inj invalidated_reason_rank" by (rule injI) (case_tac x; case_tac y; simp)
  show "inj dropped_reason_rank" by (rule injI) (case_tac x; case_tac y; simp)
  show "inj rejection_category_rank" by (rule injI) (case_tac x; case_tac y; simp)
  show "inj deferred_reason_rank" by (rule injI) (case_tac x; case_tac y; simp)
  show "inj error_rank" by (rule injI) (case_tac x; case_tac y; simp)
  show "inj intent_key" by (rule injI) (case_tac x; case_tac y; simp)
qed

lemma inj_keys:
  "inj invalidated_key" "inj dropped_key" "inj already_seen_key" "inj deferred_key"
proof -
  note eqs = inj_eq [OF inj_ranks(1)] inj_eq [OF inj_ranks(2)] inj_eq [OF inj_ranks(3)]
    inj_eq [OF inj_ranks(5)] inj_eq [OF option.inj_map [OF inj_ranks(4)]]
  show "inj invalidated_key" by (rule injI) (simp add: invalidated_key_def eqs)
  show "inj dropped_key" by (rule injI) (simp add: dropped_key_def eqs)
  show "inj already_seen_key" by (rule injI) (simp add: already_seen_key_def eqs)
  show "inj deferred_key" by (rule injI) (simp add: deferred_key_def eqs)
qed

lemma sort_key_inj_cong: "mset xs = mset ys \<Longrightarrow> inj f \<Longrightarrow> sort_key f xs = sort_key f ys"
  by (rule sort_key_mset_cong) (auto intro: inj_on_subset)

lemma sort_result_cong:
  assumes "mset (accepted_proposals r) = mset (accepted_proposals s)"
    and "mset (accepted_app_messages r) = mset (accepted_app_messages s)"
    and "mset (deferred_messages r) = mset (deferred_messages s)"
    and "mset (invalidated_app_messages r) = mset (invalidated_app_messages s)"
    and "mset (dropped_messages r) = mset (dropped_messages s)"
    and "mset (already_seen r) = mset (already_seen s)"
    and "mset (queued_outbound_intents r) = mset (queued_outbound_intents s)"
    and "mset (publishable_outbound_messages r) = mset (publishable_outbound_messages s)"
    and "mset (errors r) = mset (errors s)"
    and "previous_tip r = previous_tip s" "selected_tip r = selected_tip s"
      "selected_fork_epoch r = selected_fork_epoch s" "selected_branch_id r = selected_branch_id s"
      "candidate_count r = candidate_count s" "eligible_count r = eligible_count s"
      "convergence_status r = convergence_status s" "accepted_commits r = accepted_commits s"
      "selection_trace r = selection_trace s"
  shows "sort_result r = sort_result s"
proof -
  have "sort_key deferred_key (deferred_messages r) = sort_key deferred_key (deferred_messages s)"
    "sort_key invalidated_key (invalidated_app_messages r) =
     sort_key invalidated_key (invalidated_app_messages s)"
    "sort_key dropped_key (dropped_messages r) = sort_key dropped_key (dropped_messages s)"
    "sort_key already_seen_key (already_seen r) = sort_key already_seen_key (already_seen s)"
    "sort_key intent_key (queued_outbound_intents r) = sort_key intent_key (queued_outbound_intents s)"
    "sort_key intent_key (publishable_outbound_messages r) =
     sort_key intent_key (publishable_outbound_messages s)"
    "sort_key error_rank (errors r) = sort_key error_rank (errors s)"
    "sort (accepted_proposals r) = sort (accepted_proposals s)"
    "sort (accepted_app_messages r) = sort (accepted_app_messages s)"
    by (rule sort_key_inj_cong, rule assms(1-9), rule inj_keys inj_ranks inj_on_id2)+
  then show ?thesis
    unfolding sort_result_def using assms(10-) by simp
qed

end
