(* ===== verification/Candidate_Graph.thy ===== *)
theory Candidate_Graph
  imports Canonical_Types
begin

text \<open>
  Deduplication of a batch and materialization of the candidate-branch graph
  (\<open>canonicalize_internal\<close>'s first loop, \<open>materialize_candidate_graph\<close>, \<open>resolve_parent\<close>,
  \<open>source_epoch_matches_parent\<close> and \<open>attach_app_witnesses\<close> of
  \<open>crates/cgka-engine/src/canonicalization.rs\<close>).

  The fixed-point loop of the source is \<open>commit_loop\<close>; it terminates because every round that makes
  progress materializes a commit not materialized before. The theorems show that its result is a fixed
  point, that every commit path it builds is a linked chain of batch commits within the rollback
  horizon, and that the graph does not depend on the order of the batch.
\<close>

section \<open>Deduplication\<close>

definition readmitted_witness :: "PeeledMessage \<Rightarrow> bool" where
  "readmitted_witness m =
     (case pm_kind m of AppMessage _ _ _ already_delivered \<Rightarrow> already_delivered | _ \<Rightarrow> False)"

text \<open>
  The loop over \<open>pending_messages\<close>: \<open>batch\<close> is \<open>batch_observed_ids\<close>; the pair collects \<open>already_seen\<close>
  and \<open>unique_messages\<close>. The insertion into \<open>batch_observed_ids\<close> sits last in a short-circuit
  disjunction and is skipped for re-admitted witnesses.
\<close>

fun dedup_messages ::
  "string set option \<Rightarrow> string set \<Rightarrow> string set \<Rightarrow> PeeledMessage list \<Rightarrow> AlreadySeen list \<times> PeeledMessage list"
where
  "dedup_messages shared seen batch [] = ([], [])"
| "dedup_messages shared seen batch (m # ms) =
     (if readmitted_witness m then
        let (a, u) = dedup_messages shared seen batch ms in (a, m # u)
      else if (case shared of None \<Rightarrow> False | Some s \<Rightarrow> pm_message_id m \<in> s)
           \<or> pm_message_id m \<in> seen \<or> pm_message_id m \<in> batch then
        let (a, u) = dedup_messages shared seen batch ms
        in (\<lparr>as_message_id = pm_message_id m, as_kind = kind_name m\<rparr> # a, u)
      else
        let (a, u) = dedup_messages shared seen (insert (pm_message_id m) batch) ms in (a, m # u))"

section \<open>Graph construction\<close>

record MaterializedGraph =
  candidates :: "BranchCandidate list"
  commit_path_by_branch :: "(string, string list) btree_map"
  branch_path_by_branch :: "(string, string set) btree_map"
  consumed_proposal_ids_by_branch :: "(string, string set) btree_map"
  materialized_commit_ids_by_branch :: "(string, string set) btree_map"
  branch_ids :: "string set"

record ResolvedParent =
  rp_fork_epoch :: u64
  rp_commit_path :: "string list"
  rp_branch_path :: "string set"
  rp_consumed_proposal_ids :: "string set"

text \<open>The local variables of \<open>materialize_candidate_graph\<close> that its loop updates.\<close>

record GraphBuild =
  gb_candidates :: "(string, BranchCandidate) btree_map"
  gb_commit_path :: "(string, string list) btree_map"
  gb_branch_path :: "(string, string set) btree_map"
  gb_consumed :: "(string, string set) btree_map"
  gb_materialized_by_branch :: "(string, string set) btree_map"
  gb_materialized :: "string set"

definition unwrap_or :: "'a option \<Rightarrow> 'a \<Rightarrow> 'a" where
  "unwrap_or x d = (case x of None \<Rightarrow> d | Some v \<Rightarrow> v)"

definition resolve_parent :: "string option \<Rightarrow> u64 \<Rightarrow> GraphBuild \<Rightarrow> ResolvedParent option" where
  "resolve_parent parent_branch_id fork_epoch g =
     (case parent_branch_id of
        Some parent_id \<Rightarrow>
          (case bt_get (gb_candidates g) parent_id of
             None \<Rightarrow> None
           | Some parent \<Rightarrow>
               Some \<lparr>rp_fork_epoch = bc_fork_epoch parent,
                     rp_commit_path = unwrap_or (bt_get (gb_commit_path g) parent_id) [],
                     rp_branch_path = unwrap_or (bt_get (gb_branch_path g) parent_id) {},
                     rp_consumed_proposal_ids = unwrap_or (bt_get (gb_consumed g) parent_id) {}\<rparr>)
      | None \<Rightarrow>
          Some \<lparr>rp_fork_epoch = fork_epoch, rp_commit_path = [], rp_branch_path = {},
                rp_consumed_proposal_ids = {}\<rparr>)"

definition source_epoch_matches_parent ::
  "string option \<Rightarrow> u64 \<Rightarrow> u64 \<Rightarrow> (string, BranchCandidate) btree_map \<Rightarrow> bool" where
  "source_epoch_matches_parent parent_branch_id source_epoch fork_epoch cands =
     (case parent_branch_id of
        Some parent_id \<Rightarrow>
          (case bt_get cands parent_id of None \<Rightarrow> False | Some parent \<Rightarrow> bc_tip_epoch parent = source_epoch)
      | None \<Rightarrow> source_epoch = fork_epoch)"

definition init_build :: "CanonicalizationInput \<Rightarrow> GraphBuild" where
  "init_build inp =
     \<lparr>gb_candidates = bt_collect (map (\<lambda>c. (bc_id c, c)) (candidate_branches inp)),
      gb_commit_path = bt_collect (map (\<lambda>c. (bc_id c, [])) (candidate_branches inp)),
      gb_branch_path = bt_collect (map (\<lambda>c. (bc_id c, {bc_id c})) (candidate_branches inp)),
      gb_consumed = bt_collect (map (\<lambda>c. (bc_id c, {})) (candidate_branches inp)),
      gb_materialized_by_branch = [],
      gb_materialized = {}\<rparr>"

definition add_materialized :: "GraphBuild \<Rightarrow> MaterializedCandidate \<Rightarrow> GraphBuild" where
  "add_materialized g mc =
     (let branch_id = bc_id (mc_branch mc)
      in g\<lparr>gb_candidates := bt_insert branch_id (mc_branch mc) (gb_candidates g),
           gb_commit_path := bt_insert branch_id (mc_commit_message_ids mc) (gb_commit_path g),
           gb_branch_path := bt_insert branch_id {branch_id} (gb_branch_path g),
           gb_consumed := bt_insert branch_id (set (mc_consumed_proposal_ids mc)) (gb_consumed g),
           gb_materialized_by_branch :=
             bt_insert branch_id (set (mc_commit_message_ids mc)) (gb_materialized_by_branch g)\<rparr>)"

text \<open>The maps when the fixed-point loop starts.\<close>

definition base_build :: "CanonicalizationInput \<Rightarrow> MaterializedCandidate list \<Rightarrow> GraphBuild" where
  "base_build inp mats = foldl add_materialized (init_build inp) mats"

definition is_commit :: "PeeledMessage \<Rightarrow> bool" where
  "is_commit m = (case pm_kind m of Commit _ _ _ _ _ _ _ \<Rightarrow> True | _ \<Rightarrow> False)"

definition commit_order_key :: "PeeledMessage \<Rightarrow> u64 \<times> string" where
  "commit_order_key m = (pm_source_epoch m, pm_message_id m)"

definition sorted_commits :: "PeeledMessage list \<Rightarrow> PeeledMessage list" where
  "sorted_commits unique_messages = sort_key commit_order_key (filter is_commit unique_messages)"

text \<open>
  One iteration of the inner loop: the new build state, and whether the commit was materialized.
\<close>

definition commit_step :: "CanonicalizationInput \<Rightarrow> GraphBuild \<Rightarrow> PeeledMessage \<Rightarrow> GraphBuild \<times> bool" where
  "commit_step inp g m =
     (case pm_kind m of
        Commit branch_id parent_branch_id fork_epoch resulting_epoch tip_priority tip_digest consumed \<Rightarrow>
          if pm_message_id m \<in> gb_materialized g
             \<or> bt_contains_key (gb_candidates g) branch_id
             \<or> fork_epoch < retained_anchor_epoch (ci_state inp)
             \<or> saturating_sub (current_tip_epoch (ci_state inp)) fork_epoch
                 > max_rewind_commits (cp_convergence (ci_policy inp))
             \<or> resulting_epoch \<le> pm_source_epoch m
          then (g, False)
          else
            (case resolve_parent parent_branch_id fork_epoch g of
               None \<Rightarrow> (g, False)
             | Some rp \<Rightarrow>
                 if \<not> source_epoch_matches_parent parent_branch_id (pm_source_epoch m) fork_epoch
                        (gb_candidates g)
                 then (g, False)
                 else
                   (g\<lparr>gb_candidates :=
                        bt_insert branch_id
                          \<lparr>bc_id = branch_id, bc_fork_epoch = rp_fork_epoch rp,
                           bc_tip_epoch = resulting_epoch, bc_tip_priority = tip_priority,
                           bc_tip_committer = pm_sender m, bc_tip_digest = tip_digest,
                           bc_app_witnesses = []\<rparr> (gb_candidates g),
                      gb_commit_path :=
                        bt_insert branch_id (rp_commit_path rp @ [pm_message_id m]) (gb_commit_path g),
                      gb_branch_path :=
                        bt_insert branch_id (insert branch_id (rp_branch_path rp)) (gb_branch_path g),
                      gb_consumed :=
                        bt_insert branch_id (rp_consumed_proposal_ids rp \<union> set consumed) (gb_consumed g),
                      gb_materialized := insert (pm_message_id m) (gb_materialized g)\<rparr>, True))
      | _ \<Rightarrow> (g, False))"

definition commit_pass ::
  "CanonicalizationInput \<Rightarrow> PeeledMessage list \<Rightarrow> GraphBuild \<Rightarrow> GraphBuild \<times> bool" where
  "commit_pass inp commits g =
     foldl (\<lambda>(g, progressed) m. let (g', p) = commit_step inp g m in (g', progressed \<or> p))
       (g, False) commits"

lemma commit_step_materialized:
  "commit_step inp g m = (g', True) \<Longrightarrow>
     pm_message_id m \<notin> gb_materialized g \<and> gb_materialized g' = insert (pm_message_id m) (gb_materialized g)"
  by (auto simp: commit_step_def split: PeeledMessageKind.splits if_splits option.splits)

lemma commit_step_unchanged: "commit_step inp g m = (g', False) \<Longrightarrow> g' = g"
  by (auto simp: commit_step_def split: PeeledMessageKind.splits if_splits option.splits)

definition pass_step ::
  "CanonicalizationInput \<Rightarrow> GraphBuild \<times> bool \<Rightarrow> PeeledMessage \<Rightarrow> GraphBuild \<times> bool" where
  "pass_step inp = (\<lambda>(g, progressed) m. let (g', p) = commit_step inp g m in (g', progressed \<or> p))"

lemma commit_pass_foldl: "commit_pass inp commits g = foldl (pass_step inp) (g, False) commits"
  by (simp add: commit_pass_def pass_step_def)

lemma pass_step_cases:
  obtains "commit_step inp g m = (g, False)" and "pass_step inp (g, b) m = (g, b)"
  | g' where "commit_step inp g m = (g', True)" and "pass_step inp (g, b) m = (g', True)"
proof (cases "commit_step inp g m")
  case (Pair g' p)
  then show thesis using that commit_step_unchanged [of inp g m] by (cases p) (auto simp: pass_step_def)
qed

lemma pass_inv:
  assumes "P g" and "\<And>g g' m. P g \<Longrightarrow> m \<in> set ms \<Longrightarrow> commit_step inp g m = (g', True) \<Longrightarrow> P g'"
  shows "P (fst (foldl (pass_step inp) (g, b) ms))"
  using assms
proof (induction ms arbitrary: g b)
  case Nil
  then show ?case by simp
next
  case (Cons m ms)
  from Cons.prems(2) have step: "P g \<Longrightarrow> m' \<in> set ms \<Longrightarrow> commit_step inp g m' = (g', True) \<Longrightarrow> P g'"
    for g g' m' by auto
  show ?case
  proof (cases rule: pass_step_cases [of inp g m b])
    case 1
    then show ?thesis using Cons.IH [OF Cons.prems(1) step] by simp
  next
    case (2 g')
    then have "P g'" using Cons.prems by auto
    then show ?thesis using Cons.IH [OF _ step] 2 by simp
  qed
qed

lemma pass_progress:
  "foldl (pass_step inp) (g, b) ms = (g', True) \<Longrightarrow> \<not> b \<Longrightarrow>
     \<exists>m\<in>set ms. pm_message_id m \<in> gb_materialized g' - gb_materialized g"
proof (induction ms arbitrary: g b)
  case Nil
  then show ?case by simp
next
  case (Cons m ms)
  show ?case
  proof (cases rule: pass_step_cases [of inp g m b])
    case 1
    then show ?thesis using Cons by fastforce
  next
    case (2 g1)
    have "gb_materialized g1 \<subseteq> gb_materialized (fst (foldl (pass_step inp) (g1, True) ms))"
      by (rule pass_inv) (use commit_step_materialized in blast)+
    then have "pm_message_id m \<in> gb_materialized g'"
      using Cons.prems 2 commit_step_materialized [OF 2(1)] by auto
    then show ?thesis using commit_step_materialized [OF 2(1)] by auto
  qed
qed

lemma pass_grows: "gb_materialized g \<subseteq> gb_materialized (fst (foldl (pass_step inp) (g, b) ms))"
  by (rule pass_inv) (use commit_step_materialized in blast)+

lemma pass_stuck:
  "foldl (pass_step inp) (g, b) ms = (g', False) \<Longrightarrow>
     g' = g \<and> (\<forall>m\<in>set ms. commit_step inp g m = (g, False))"
proof (induction ms arbitrary: g b)
  case Nil
  then show ?case by simp
next
  case (Cons m ms)
  have flag: "snd (foldl (pass_step inp) (g, True) ms)" for g
  proof (induction ms arbitrary: g)
    case (Cons m ms)
    then show ?case by (cases rule: pass_step_cases [of inp g m True]) auto
  qed simp
  show ?case
  proof (cases rule: pass_step_cases [of inp g m b])
    case 1
    then show ?thesis using Cons by auto
  next
    case (2 g1)
    then show ?thesis using Cons.prems flag [of g1] by simp
  qed
qed

text \<open>
  The outer loop. Each round that progresses materializes at least one batch commit that was not
  materialized before, so the number of batch ids not yet materialized decreases.
\<close>

function commit_loop :: "CanonicalizationInput \<Rightarrow> PeeledMessage list \<Rightarrow> GraphBuild \<Rightarrow> GraphBuild" where
  "commit_loop inp commits g =
     (let (g', progressed) = commit_pass inp commits g
      in if progressed then commit_loop inp commits g' else g')"
  by pat_completeness auto

termination commit_loop
proof (relation "measure (\<lambda>(inp, commits, g). card (pm_message_id ` set commits - gb_materialized g))")
  fix inp commits g x g' progressed
  assume "x = commit_pass inp commits g" and "(g', progressed) = x" and progressed
  then have pass: "foldl (pass_step inp) (g, False) commits = (g', True)"
    by (simp add: commit_pass_foldl)
  have "gb_materialized g \<subseteq> gb_materialized g'"
    using pass_grows [of g inp False commits] pass by simp
  moreover obtain m where "m \<in> set commits" "pm_message_id m \<in> gb_materialized g' - gb_materialized g"
    using pass_progress [OF pass] by auto
  ultimately have "pm_message_id ` set commits - gb_materialized g'
      \<subset> pm_message_id ` set commits - gb_materialized g" by blast
  then show "((inp, commits, g'), inp, commits, g)
      \<in> measure (\<lambda>(inp, commits, g). card (pm_message_id ` set commits - gb_materialized g))"
    by (simp add: psubset_card_mono)
qed simp

declare commit_loop.simps [simp del]

definition materialize_candidate_graph ::
  "CanonicalizationInput \<Rightarrow> PeeledMessage list \<Rightarrow> MaterializedCandidate list \<Rightarrow> MaterializedGraph" where
  "materialize_candidate_graph inp unique_messages materialized_candidates =
     (let g = commit_loop inp (sorted_commits unique_messages) (base_build inp materialized_candidates)
      in \<lparr>candidates = bt_values (gb_candidates g),
          commit_path_by_branch = gb_commit_path g,
          branch_path_by_branch = gb_branch_path g,
          consumed_proposal_ids_by_branch = gb_consumed g,
          materialized_commit_ids_by_branch = gb_materialized_by_branch g,
          branch_ids = set (bt_keys (gb_candidates g))\<rparr>)"

section \<open>Witness attachment\<close>

text \<open>\<open>iter_mut().find\<close> followed by a mutation through the reference: the first match is changed.\<close>

fun update_first :: "('a \<Rightarrow> bool) \<Rightarrow> ('a \<Rightarrow> 'a) \<Rightarrow> 'a list \<Rightarrow> 'a list" where
  "update_first P f [] = []"
| "update_first P f (x # xs) = (if P x then f x # xs else x # update_first P f xs)"

definition witness_candidate ::
  "CanonicalizationPolicy \<Rightarrow> u64 \<Rightarrow> bytes \<Rightarrow> BranchCandidate \<Rightarrow> BranchCandidate" where
  "witness_candidate p epoch sender c =
     (if epoch \<le> bc_fork_epoch c then c
      else if app_message_expired (bc_tip_epoch c) p epoch then c
      else c\<lparr>bc_app_witnesses := bc_app_witnesses c @ [\<lparr>aw_epoch = epoch, aw_sender = sender\<rparr>]\<rparr>)"

definition attach_message ::
  "CanonicalizationPolicy \<Rightarrow> BranchCandidate list \<Rightarrow> PeeledMessage \<Rightarrow> BranchCandidate list" where
  "attach_message p cs m =
     (case pm_kind m of
        AppMessage epoch decrypts_on_branches _ _ \<Rightarrow>
          foldl (\<lambda>cs branch_id.
                   update_first (\<lambda>c. bc_id c = branch_id) (witness_candidate p epoch (pm_sender m)) cs)
            cs decrypts_on_branches
      | _ \<Rightarrow> cs)"

definition attach_app_witnesses ::
  "MaterializedGraph \<Rightarrow> PeeledMessage list \<Rightarrow> CanonicalizationPolicy \<Rightarrow> MaterializedGraph" where
  "attach_app_witnesses graph unique_messages p =
     graph\<lparr>candidates := foldl (attach_message p) (candidates graph) unique_messages\<rparr>"

section \<open>Loop invariants\<close>

lemma commit_loop_inv:
  assumes "P g" and "\<And>g g' m. P g \<Longrightarrow> m \<in> set ms \<Longrightarrow> commit_step inp g m = (g', True) \<Longrightarrow> P g'"
  shows "P (commit_loop inp ms g)"
  using assms
proof (induction inp ms g rule: commit_loop.induct)
  case (1 inp ms g)
  have "P (fst (commit_pass inp ms g))"
    unfolding commit_pass_foldl using 1(2,3) by (rule pass_inv)
  then show ?case
    using 1(1,3) unfolding commit_loop.simps [of inp ms g] by (auto split: prod.splits)
qed

lemma commit_loop_stuck:
  "m \<in> set ms \<Longrightarrow> commit_step inp (commit_loop inp ms g) m = (commit_loop inp ms g, False)"
proof (induction inp ms g rule: commit_loop.induct)
  case (1 inp ms g)
  then show ?case
    unfolding commit_loop.simps [of inp ms g]
    using pass_stuck [of inp g False ms] by (auto simp: commit_pass_foldl split: prod.splits)
qed

text \<open>What the guards of the loop require of a commit before its parent is looked at.\<close>

definition admissible_commit :: "CanonicalizationInput \<Rightarrow> PeeledMessage \<Rightarrow> bool" where
  "admissible_commit inp m \<longleftrightarrow> is_commit m \<and>
     retained_anchor_epoch (ci_state inp) \<le> commit_fork_epoch (pm_kind m) \<and>
     saturating_sub (current_tip_epoch (ci_state inp)) (commit_fork_epoch (pm_kind m))
       \<le> max_rewind_commits (cp_convergence (ci_policy inp)) \<and>
     pm_source_epoch m < commit_resulting_epoch (pm_kind m)"

text \<open>
  The histories the graph stands for: a branch is one of the candidates given to the pass, starts at a
  commit without a parent branch, or extends a known branch by a commit created at that branch's tip.
\<close>

inductive commit_chain ::
  "CanonicalizationInput \<Rightarrow> PeeledMessage set \<Rightarrow> (string \<Rightarrow> (BranchCandidate \<times> string list) option)
     \<Rightarrow> string \<Rightarrow> u64 \<Rightarrow> u64 \<Rightarrow> string list \<Rightarrow> bool"
  for inp ms base
where
  given: "base b = Some (c, path) \<Longrightarrow>
    commit_chain inp ms base b (bc_fork_epoch c) (bc_tip_epoch c) path"
| root: "m \<in> ms \<Longrightarrow> admissible_commit inp m \<Longrightarrow> commit_parent_branch_id (pm_kind m) = None \<Longrightarrow>
    pm_source_epoch m = commit_fork_epoch (pm_kind m) \<Longrightarrow>
    commit_chain inp ms base (commit_branch_id (pm_kind m)) (commit_fork_epoch (pm_kind m))
      (commit_resulting_epoch (pm_kind m)) [pm_message_id m]"
| extend: "commit_chain inp ms base b fork tip path \<Longrightarrow> m \<in> ms \<Longrightarrow> admissible_commit inp m \<Longrightarrow>
    commit_parent_branch_id (pm_kind m) = Some b \<Longrightarrow> pm_source_epoch m = tip \<Longrightarrow>
    commit_chain inp ms base (commit_branch_id (pm_kind m)) fork
      (commit_resulting_epoch (pm_kind m)) (path @ [pm_message_id m])"

text \<open>Each commit of a chain advances the epoch, so a chain cannot hold more commits than epochs.\<close>

lemma commit_chain_depth:
  assumes "commit_chain inp ms base b fork tip path"
    and "\<And>b c p. base b = Some (c, p) \<Longrightarrow> unat (bc_fork_epoch c) + length p \<le> unat (bc_tip_epoch c)"
  shows "unat fork + length path \<le> unat tip"
  using assms
proof (induction rule: commit_chain.induct)
  case (given b c path)
  then show ?case by blast
next
  case (root m)
  then show ?case by (auto simp: admissible_commit_def word_less_nat_alt)
next
  case (extend b fork tip path m)
  then have "unat fork + length path \<le> unat tip" by blast
  with extend.hyps show ?case by (auto simp: admissible_commit_def word_less_nat_alt)
qed

definition build_wf :: "GraphBuild \<Rightarrow> bool" where
  "build_wf g \<longleftrightarrow>
     bt_wf (gb_candidates g) \<and> bt_wf (gb_commit_path g) \<and> bt_wf (gb_branch_path g) \<and>
     bt_wf (gb_consumed g) \<and> bt_wf (gb_materialized_by_branch g) \<and>
     dom (bt_get (gb_commit_path g)) = dom (bt_get (gb_candidates g)) \<and>
     (\<forall>b c. bt_get (gb_candidates g) b = Some c \<longrightarrow> bc_id c = b)"

text \<open>What a materializing step does, as an elimination rule.\<close>

lemma commit_step_TrueE:
  assumes "commit_step inp g m = (g', True)"
  obtains b parent fork res prio digest consumed rp
  where "pm_kind m = Commit b parent fork res prio digest consumed"
    and "admissible_commit inp m" and "pm_message_id m \<notin> gb_materialized g"
    and "b \<notin> dom (bt_get (gb_candidates g))"
    and "resolve_parent parent fork g = Some rp"
    and "source_epoch_matches_parent parent (pm_source_epoch m) fork (gb_candidates g)"
    and "g' = g\<lparr>gb_candidates :=
                bt_insert b
                  \<lparr>bc_id = b, bc_fork_epoch = rp_fork_epoch rp, bc_tip_epoch = res,
                   bc_tip_priority = prio, bc_tip_committer = pm_sender m, bc_tip_digest = digest,
                   bc_app_witnesses = []\<rparr> (gb_candidates g),
              gb_commit_path := bt_insert b (rp_commit_path rp @ [pm_message_id m]) (gb_commit_path g),
              gb_branch_path := bt_insert b (insert b (rp_branch_path rp)) (gb_branch_path g),
              gb_consumed := bt_insert b (rp_consumed_proposal_ids rp \<union> set consumed) (gb_consumed g),
              gb_materialized := insert (pm_message_id m) (gb_materialized g)\<rparr>"
  using assms that
  by (auto simp: commit_step_def admissible_commit_def is_commit_def bt_contains_key_iff not_less
      split: PeeledMessageKind.splits if_splits option.splits)

lemma commit_step_fires:
  assumes "pm_kind m = Commit b parent fork res prio digest consumed"
    and "admissible_commit inp m" and "pm_message_id m \<notin> gb_materialized g"
    and "b \<notin> dom (bt_get (gb_candidates g))" and "resolve_parent parent fork g = Some rp"
    and "source_epoch_matches_parent parent (pm_source_epoch m) fork (gb_candidates g)"
  shows "snd (commit_step inp g m)"
proof -
  have "\<not> fork < retained_anchor_epoch (ci_state inp)"
    "\<not> max_rewind_commits (cp_convergence (ci_policy inp))
       < saturating_sub (current_tip_epoch (ci_state inp)) fork"
    "\<not> res \<le> pm_source_epoch m"
    using assms(1,2) by (auto simp: admissible_commit_def not_less not_le)
  then show ?thesis
    unfolding commit_step_def bt_contains_key_iff using assms by simp
qed

lemma commit_step_wf: "build_wf g \<Longrightarrow> commit_step inp g m = (g', True) \<Longrightarrow> build_wf g'"
  by (erule commit_step_TrueE) (auto simp: build_wf_def dom_def)

lemma collect_by_id_dom:
  "dom (bt_get (bt_collect (map (\<lambda>c. (bc_id c, f c)) cs))) = bc_id ` set cs"
  by (auto simp: bt_get_collect [abs_def] dom_map_of_conv_image_fst image_image)

lemma init_build_wf: "build_wf (init_build inp)"
proof -
  have "bc_id c = b" if "map_of (rev (map (\<lambda>c. (bc_id c, c)) cs)) b = Some c" for b c cs
    using map_of_SomeD [OF that] by auto
  then show ?thesis
    by (auto simp: build_wf_def init_build_def collect_by_id_dom bt_get_collect)
qed

lemma add_materialized_wf: "build_wf g \<Longrightarrow> build_wf (add_materialized g mc)"
  by (auto simp: build_wf_def add_materialized_def Let_def dom_def)

lemma base_build_wf: "build_wf (base_build inp mats)"
proof -
  have "build_wf g \<Longrightarrow> build_wf (foldl add_materialized g mats)" for g
    by (induction mats arbitrary: g) (auto simp: add_materialized_wf)
  then show ?thesis by (simp add: base_build_def init_build_wf)
qed

lemma commit_loop_wf: "build_wf g \<Longrightarrow> build_wf (commit_loop inp ms g)"
  by (rule commit_loop_inv [where P = build_wf]) (auto intro: commit_step_wf)

definition given_branches :: "GraphBuild \<Rightarrow> string \<Rightarrow> (BranchCandidate \<times> string list) option" where
  "given_branches g b =
     map_option (\<lambda>c. (c, unwrap_or (bt_get (gb_commit_path g) b) [])) (bt_get (gb_candidates g) b)"

definition build_chained ::
  "CanonicalizationInput \<Rightarrow> PeeledMessage set \<Rightarrow> (string \<Rightarrow> (BranchCandidate \<times> string list) option)
     \<Rightarrow> GraphBuild \<Rightarrow> bool" where
  "build_chained inp ms base g \<longleftrightarrow>
     (\<forall>b c. bt_get (gb_candidates g) b = Some c \<longrightarrow>
        commit_chain inp ms base b (bc_fork_epoch c) (bc_tip_epoch c)
          (unwrap_or (bt_get (gb_commit_path g) b) []))"

lemma commit_step_chained:
  assumes wf: "build_wf g" and ch: "build_chained inp ms base g" and m: "m \<in> ms"
    and step: "commit_step inp g m = (g', True)"
  shows "build_chained inp ms base g'"
  using step
proof (rule commit_step_TrueE)
  fix b parent fork res prio digest consumed rp
  assume k: "pm_kind m = Commit b parent fork res prio digest consumed"
    and adm: "admissible_commit inp m"
    and rp: "resolve_parent parent fork g = Some rp"
    and src: "source_epoch_matches_parent parent (pm_source_epoch m) fork (gb_candidates g)"
    and g': "g' = g\<lparr>gb_candidates :=
                bt_insert b
                  \<lparr>bc_id = b, bc_fork_epoch = rp_fork_epoch rp, bc_tip_epoch = res,
                   bc_tip_priority = prio, bc_tip_committer = pm_sender m, bc_tip_digest = digest,
                   bc_app_witnesses = []\<rparr> (gb_candidates g),
              gb_commit_path := bt_insert b (rp_commit_path rp @ [pm_message_id m]) (gb_commit_path g),
              gb_branch_path := bt_insert b (insert b (rp_branch_path rp)) (gb_branch_path g),
              gb_consumed := bt_insert b (rp_consumed_proposal_ids rp \<union> set consumed) (gb_consumed g),
              gb_materialized := insert (pm_message_id m) (gb_materialized g)\<rparr>"
  have new: "commit_chain inp ms base b (rp_fork_epoch rp) res (rp_commit_path rp @ [pm_message_id m])"
  proof (cases parent)
    case None
    then show ?thesis
      using commit_chain.root [of m ms inp base] m adm rp src k
      by (auto simp: resolve_parent_def source_epoch_matches_parent_def)
  next
    case (Some pid)
    then obtain c where c: "bt_get (gb_candidates g) pid = Some c"
      and "rp_fork_epoch rp = bc_fork_epoch c" "bc_tip_epoch c = pm_source_epoch m"
      and "rp_commit_path rp = unwrap_or (bt_get (gb_commit_path g) pid) []"
      using rp src by (auto simp: resolve_parent_def source_epoch_matches_parent_def split: option.splits)
    moreover have "commit_chain inp ms base pid (bc_fork_epoch c) (bc_tip_epoch c)
        (unwrap_or (bt_get (gb_commit_path g) pid) [])"
      using ch c by (simp add: build_chained_def)
    ultimately show ?thesis
      using commit_chain.extend [of inp ms base pid _ _ _ m] m adm k Some by auto
  qed
  show ?thesis
    using ch wf new by (auto simp: build_chained_def g' build_wf_def unwrap_or_def)
qed

lemma commit_loop_chained:
  assumes "build_wf g"
  shows "build_chained inp (set ms) (given_branches g) (commit_loop inp ms g)"
proof -
  let ?P = "\<lambda>h. build_wf h \<and> build_chained inp (set ms) (given_branches g) h"
  have "?P (commit_loop inp ms g)"
  proof (rule commit_loop_inv [where P = ?P])
    show "?P g"
      using assms by (auto simp: build_chained_def given_branches_def intro!: commit_chain.given)
  qed (blast intro: commit_step_wf commit_step_chained)
  then show ?thesis by blast
qed

section \<open>Soundness and completeness of the graph\<close>

abbreviation final_build ::
  "CanonicalizationInput \<Rightarrow> PeeledMessage list \<Rightarrow> MaterializedCandidate list \<Rightarrow> GraphBuild" where
  "final_build inp ms mats \<equiv> commit_loop inp (sorted_commits ms) (base_build inp mats)"

lemma final_build_wf: "build_wf (final_build inp ms mats)"
  by (intro commit_loop_wf base_build_wf)

lemma set_sorted_commits [simp]: "set (sorted_commits ms) = {m \<in> set ms. is_commit m}"
  by (auto simp: sorted_commits_def)

lemma candidate_mem:
  "c \<in> set (candidates (materialize_candidate_graph inp ms mats)) \<longleftrightarrow>
     bt_get (gb_candidates (final_build inp ms mats)) (bc_id c) = Some c"
proof -
  have "c \<in> set (bt_values (gb_candidates (final_build inp ms mats))) \<longleftrightarrow>
      (\<exists>b. bt_get (gb_candidates (final_build inp ms mats)) b = Some c)"
    using final_build_wf by (intro bt_values_mem) (simp add: build_wf_def)
  moreover have "bt_get (gb_candidates (final_build inp ms mats)) b = Some c \<Longrightarrow> bc_id c = b" for b
    using final_build_wf [of inp ms mats] by (simp add: build_wf_def)
  ultimately show ?thesis by (auto simp: materialize_candidate_graph_def Let_def)
qed

lemma branch_ids_eq:
  "branch_ids (materialize_candidate_graph inp ms mats) =
     dom (bt_get (gb_candidates (final_build inp ms mats)))"
  by (simp add: materialize_candidate_graph_def Let_def set_bt_keys)

lemma branch_ids_candidates:
  "branch_ids (materialize_candidate_graph inp ms mats) =
     bc_id ` set (candidates (materialize_candidate_graph inp ms mats))"
proof -
  have "bc_id c = b" if "bt_get (gb_candidates (final_build inp ms mats)) b = Some c" for b c
    using final_build_wf [of inp ms mats] that by (simp add: build_wf_def)
  then have "b \<in> dom (bt_get (gb_candidates (final_build inp ms mats))) \<longleftrightarrow>
      (\<exists>c. bc_id c = b \<and> bt_get (gb_candidates (final_build inp ms mats)) (bc_id c) = Some c)" for b
    by (metis domD domI)
  then show ?thesis
    unfolding branch_ids_eq set_eq_iff image_iff candidate_mem [symmetric] by metis
qed

text \<open>Candidates leave the map in branch-id order, so the candidate list carries unique, sorted ids.\<close>

lemma candidate_ids_sorted:
  "sorted_wrt (<) (map bc_id (candidates (materialize_candidate_graph inp ms mats)))"
proof -
  let ?g = "final_build inp ms mats"
  have wf: "bt_wf (gb_candidates ?g)" using final_build_wf [of inp ms mats] by (simp add: build_wf_def)
  have "bc_id c = b" if "(b, c) \<in> set (gb_candidates ?g)" for b c
    using final_build_wf [of inp ms mats] that bt_get_mem [OF wf] by (simp add: build_wf_def)
  then have eq: "map (bc_id \<circ> snd) (gb_candidates ?g) = map fst (gb_candidates ?g)" by auto
  show ?thesis
    by (simp add: materialize_candidate_graph_def Let_def bt_values_def eq wf [unfolded bt_wf_def])
qed

lemma candidate_ids_distinct:
  "distinct (map bc_id (candidates (materialize_candidate_graph inp ms mats)))"
  using candidate_ids_sorted [of inp ms mats] strict_sorted_iff by blast

lemma candidate_chain:
  assumes "c \<in> set (candidates (materialize_candidate_graph inp ms mats))"
  shows "commit_chain inp {m \<in> set ms. is_commit m} (given_branches (base_build inp mats))
           (bc_id c) (bc_fork_epoch c) (bc_tip_epoch c)
           (unwrap_or (bt_get (commit_path_by_branch (materialize_candidate_graph inp ms mats)) (bc_id c)) [])"
    and "(\<forall>b g p. given_branches (base_build inp mats) b = Some (g, p) \<longrightarrow>
            unat (bc_fork_epoch g) + length p \<le> unat (bc_tip_epoch g)) \<Longrightarrow>
         unat (bc_fork_epoch c) +
           length (unwrap_or (bt_get (commit_path_by_branch (materialize_candidate_graph inp ms mats)) (bc_id c)) [])
           \<le> unat (bc_tip_epoch c)"
proof -
  have path: "commit_path_by_branch (materialize_candidate_graph inp ms mats) =
      gb_commit_path (final_build inp ms mats)"
    by (simp add: materialize_candidate_graph_def Let_def)
  show chain: "commit_chain inp {m \<in> set ms. is_commit m} (given_branches (base_build inp mats))
           (bc_id c) (bc_fork_epoch c) (bc_tip_epoch c)
           (unwrap_or (bt_get (commit_path_by_branch (materialize_candidate_graph inp ms mats)) (bc_id c)) [])"
    using commit_loop_chained [OF base_build_wf, of inp "sorted_commits ms" inp mats] assms
    unfolding build_chained_def candidate_mem path set_sorted_commits by blast
  assume "\<forall>b g p. given_branches (base_build inp mats) b = Some (g, p) \<longrightarrow>
            unat (bc_fork_epoch g) + length p \<le> unat (bc_tip_epoch g)"
  then have "\<And>b g p. given_branches (base_build inp mats) b = Some (g, p) \<Longrightarrow>
            unat (bc_fork_epoch g) + length p \<le> unat (bc_tip_epoch g)" by blast
  from commit_chain_depth [OF chain this]
  show "unat (bc_fork_epoch c) +
           length (unwrap_or (bt_get (commit_path_by_branch (materialize_candidate_graph inp ms mats)) (bc_id c)) [])
           \<le> unat (bc_tip_epoch c)" .
qed

text \<open>
  C21: Every candidate of the graph is a real history. Its commit path is a chain that starts at a given
  branch or at a parentless commit of the batch, each further commit naming the previous branch as its
  parent and starting at that branch's tip epoch, and every batch commit on it lies within the retained
  anchor and the rollback horizon. If no given branch claims more commits than epochs, neither does any
  candidate: the path length is bounded by the valid depth used for scoring.\<close>

theorem candidate_graph_sound:
  assumes "c \<in> set (candidates (materialize_candidate_graph inp ms mats))"
  shows "let path = unwrap_or (bt_get (commit_path_by_branch (materialize_candidate_graph inp ms mats)) (bc_id c)) []
    in commit_chain inp {m \<in> set ms. is_commit m} (given_branches (base_build inp mats))
         (bc_id c) (bc_fork_epoch c) (bc_tip_epoch c) path \<and>
       ((\<forall>b g p. given_branches (base_build inp mats) b = Some (g, p) \<longrightarrow>
           unat (bc_fork_epoch g) + length p \<le> unat (bc_tip_epoch g)) \<longrightarrow>
        unat (bc_fork_epoch c) + length path \<le> unat (bc_tip_epoch c))"
  unfolding Let_def using candidate_chain [OF assms] by blast

lemma materialized_has_branch:
  assumes inj: "inj_on pm_message_id {m \<in> set ms. is_commit m}"
    and m: "m \<in> set ms" "is_commit m" "pm_message_id m \<in> gb_materialized (final_build inp ms mats)"
  shows "commit_branch_id (pm_kind m) \<in> dom (bt_get (gb_candidates (final_build inp ms mats)))"
proof -
  let ?P = "\<lambda>g. build_wf g \<and> (\<forall>m\<in>set ms. is_commit m \<longrightarrow> pm_message_id m \<in> gb_materialized g \<longrightarrow>
      commit_branch_id (pm_kind m) \<in> dom (bt_get (gb_candidates g)))"
  have "?P (final_build inp ms mats)"
  proof (rule commit_loop_inv [where P = ?P])
    have "gb_materialized (foldl add_materialized g mats) = gb_materialized g" for g
      by (induction mats arbitrary: g) (auto simp: add_materialized_def Let_def)
    then have "gb_materialized (base_build inp mats) = {}"
      by (simp add: base_build_def init_build_def)
    then show "?P (base_build inp mats)" by (simp add: base_build_wf)
  next
    fix g g' n
    assume P: "?P g" and n: "n \<in> set (sorted_commits ms)" and step: "commit_step inp g n = (g', True)"
    have wf: "build_wf g'" using P commit_step_wf [OF _ step] by blast
    from step obtain k where k: "gb_candidates g' = bt_insert (commit_branch_id (pm_kind n)) k (gb_candidates g)"
      and mat: "gb_materialized g' = insert (pm_message_id n) (gb_materialized g)"
      by (rule commit_step_TrueE) auto
    have dom: "dom (bt_get (gb_candidates g')) =
        insert (commit_branch_id (pm_kind n)) (dom (bt_get (gb_candidates g)))"
      using P k by (auto simp: build_wf_def)
    have "m = n" if "m \<in> set ms" "is_commit m" "pm_message_id m = pm_message_id n" for m
      using that n inj by (auto simp: inj_on_def)
    then show "?P g'" using wf P by (auto simp: dom mat)
  qed
  then show ?thesis using m by blast
qed

text \<open>
  C19: The fixed-point loop leaves nothing out. When the commits of the batch have distinct ids, every
  commit within the anchor and horizon that advances its epoch, and whose parent branch is in the final
  graph with a tip at the commit's source epoch (or that has no parent and starts at its fork epoch),
  has its branch in the final graph.\<close>

theorem candidate_graph_complete:
  assumes "inj_on pm_message_id {m \<in> set ms. is_commit m}"
    and "m \<in> set ms" and "admissible_commit inp m"
    and "case commit_parent_branch_id (pm_kind m) of
           None \<Rightarrow> pm_source_epoch m = commit_fork_epoch (pm_kind m)
         | Some b \<Rightarrow> \<exists>c\<in>set (candidates (materialize_candidate_graph inp ms mats)).
                       bc_id c = b \<and> bc_tip_epoch c = pm_source_epoch m"
  shows "commit_branch_id (pm_kind m) \<in> branch_ids (materialize_candidate_graph inp ms mats)"
proof (rule ccontr)
  let ?g = "final_build inp ms mats"
  assume "\<not> ?thesis"
  then have new: "commit_branch_id (pm_kind m) \<notin> dom (bt_get (gb_candidates ?g))"
    by (simp add: branch_ids_eq)
  have c: "is_commit m" using assms(3) by (simp add: admissible_commit_def)
  then have "pm_message_id m \<notin> gb_materialized ?g"
    using materialized_has_branch [OF assms(1,2)] new by blast
  moreover have stuck: "commit_step inp ?g m = (?g, False)"
    using assms(2) c by (intro commit_loop_stuck) simp
  moreover obtain b parent fork res prio digest consumed
    where k: "pm_kind m = Commit b parent fork res prio digest consumed"
    using c by (auto simp: is_commit_def split: PeeledMessageKind.splits)
  moreover obtain rp where "resolve_parent parent fork ?g = Some rp"
    using assms(4) k by (cases parent) (auto simp: resolve_parent_def candidate_mem)
  moreover have "source_epoch_matches_parent parent (pm_source_epoch m) fork (gb_candidates ?g)"
    using assms(4) k by (cases parent) (auto simp: source_epoch_matches_parent_def candidate_mem)
  ultimately have "snd (commit_step inp ?g m)"
    using new assms(3) by (intro commit_step_fires) simp_all
  with stuck show False by simp
qed

section \<open>Deduplication and order independence\<close>

lemmas dedup_induct = dedup_messages.induct [case_names Nil Cons]

definition seen_entry :: "PeeledMessage \<Rightarrow> AlreadySeen" where
  "seen_entry m = \<lparr>as_message_id = pm_message_id m, as_kind = kind_name m\<rparr>"

definition known_ids :: "string set option \<Rightarrow> string set \<Rightarrow> string set" where
  "known_ids shared seen = unwrap_or shared {} \<union> seen"

lemma dedup_Cons:
  "dedup_messages shared seen batch (m # ms) =
     (if readmitted_witness m then
        apsnd ((#) m) (dedup_messages shared seen batch ms)
      else if pm_message_id m \<in> known_ids shared seen \<union> batch then
        apfst ((#) (seen_entry m)) (dedup_messages shared seen batch ms)
      else apsnd ((#) m) (dedup_messages shared seen (insert (pm_message_id m) batch) ms))"
  by (auto simp: known_ids_def unwrap_or_def seen_entry_def Let_def split: prod.splits option.splits)

text \<open>Every message of the batch is either kept or reported as already seen.\<close>

lemma dedup_partition:
  "image_mset seen_entry (mset ms) =
     mset (fst (dedup_messages shared seen batch ms))
     + image_mset seen_entry (mset (snd (dedup_messages shared seen batch ms)))"
  by (induction ms arbitrary: batch) (simp_all add: dedup_Cons del: dedup_messages.simps(2))

lemma dedup_readmitted:
  "filter readmitted_witness (snd (dedup_messages shared seen batch ms)) = filter readmitted_witness ms"
  by (induction ms arbitrary: batch) (simp_all add: dedup_Cons del: dedup_messages.simps(2))

lemma dedup_fresh:
  "distinct (map pm_message_id (filter (Not \<circ> readmitted_witness) (snd (dedup_messages shared seen batch ms)))) \<and>
   (\<forall>m\<in>set (snd (dedup_messages shared seen batch ms)). m \<in> set ms \<and>
      (readmitted_witness m \<or> pm_message_id m \<notin> known_ids shared seen \<union> batch))"
proof (induction ms arbitrary: batch)
  case Nil
  then show ?case by simp
next
  case (Cons m ms)
  from Cons.IH [of batch] Cons.IH [of "insert (pm_message_id m) batch"]
  show ?case by (auto simp: dedup_Cons simp del: dedup_messages.simps(2))
qed

text \<open>When equal ids mean equal messages, the kept messages are determined by the set of messages.\<close>

lemma dedup_kept:
  assumes "inj_on pm_message_id (set ms)"
  shows "{m \<in> set (snd (dedup_messages shared seen batch ms)). \<not> readmitted_witness m} =
    {m \<in> set ms. \<not> readmitted_witness m \<and> pm_message_id m \<notin> known_ids shared seen \<union> batch}"
  using assms
proof (induction ms arbitrary: batch)
  case Nil
  then show ?case by simp
next
  case (Cons m ms)
  then have inj: "inj_on pm_message_id (set ms)" by (simp add: inj_on_def)
  have eq: "n = m" if "n \<in> set ms" "pm_message_id n = pm_message_id m" for n
    using Cons.prems that by (auto simp: inj_on_def)
  show ?case
    using Cons.IH [OF inj, of batch] Cons.IH [OF inj, of "insert (pm_message_id m) batch"] eq
    by (auto simp: dedup_Cons set_eq_iff simp del: dedup_messages.simps(2))
qed

lemma dedup_mset_cong:
  assumes inj: "inj_on pm_message_id (set ms)" and perm: "mset ms = mset ms'"
  shows "mset (snd (dedup_messages shared seen batch ms)) = mset (snd (dedup_messages shared seen batch ms'))"
    and "mset (fst (dedup_messages shared seen batch ms)) = mset (fst (dedup_messages shared seen batch ms'))"
proof -
  let ?u = "\<lambda>ms. snd (dedup_messages shared seen batch ms)"
  have sets: "set ms = set ms'" using perm by (rule mset_eq_setD)
  have fresh: "mset (filter (Not \<circ> readmitted_witness) (?u ms)) =
      mset_set {m \<in> set (?u ms). \<not> readmitted_witness m}" for ms
    using dedup_fresh [of shared seen batch ms]
    by (subst mset_set_set [symmetric]) (auto simp: distinct_map)
  have split: "mset (?u ms) = mset (filter readmitted_witness ms)
      + mset (filter (Not \<circ> readmitted_witness) (?u ms))" for ms
    using multiset_partition [of "mset (?u ms)" readmitted_witness]
      dedup_readmitted [of shared seen batch ms] by (metis comp_apply filter_cong mset_filter)
  show kept: "mset (?u ms) = mset (?u ms')"
    unfolding split [of ms] split [of ms'] fresh
    using dedup_kept [OF inj] dedup_kept [OF inj [unfolded sets]] perm
    by (simp add: sets mset_filter)
  show "mset (fst (dedup_messages shared seen batch ms)) = mset (fst (dedup_messages shared seen batch ms'))"
    using dedup_partition [of ms shared seen batch] dedup_partition [of ms' shared seen batch] perm
    by (simp add: kept)
qed

lemma commits_not_readmitted: "is_commit m \<Longrightarrow> \<not> readmitted_witness m"
  by (auto simp: is_commit_def readmitted_witness_def split: PeeledMessageKind.splits)

lemma dedup_commit_ids_inj:
  "inj_on pm_message_id {m \<in> set (snd (dedup_messages shared seen batch ms)). is_commit m}"
  using dedup_fresh [of shared seen batch ms] commits_not_readmitted
  by (auto simp: distinct_map inj_on_def)

lemma sorted_commits_cong:
  assumes "mset ms = mset ms'" and "inj_on pm_message_id {m \<in> set ms. is_commit m}"
  shows "sorted_commits ms = sorted_commits ms'"
  unfolding sorted_commits_def
proof (rule sort_key_mset_cong)
  show "mset (filter is_commit ms) = mset (filter is_commit ms')"
    using assms(1) by (simp add: mset_filter)
  show "inj_on commit_order_key (set (filter is_commit ms))"
    using assms(2) by (auto simp: inj_on_def commit_order_key_def)
qed

text \<open>The graph reads the state, policy and candidate branches of the input, not its message list.\<close>

lemma commit_loop_pending:
  "commit_loop (inp\<lparr>pending_messages := x\<rparr>) cs g = commit_loop inp cs g"
proof (induction inp cs g rule: commit_loop.induct)
  case (1 inp cs g)
  have "ci_state (inp\<lparr>pending_messages := x\<rparr>) = ci_state inp"
    "ci_policy (inp\<lparr>pending_messages := x\<rparr>) = ci_policy inp" by simp_all
  then have "commit_step (inp\<lparr>pending_messages := x\<rparr>) = commit_step inp"
    by (intro ext) (simp only: commit_step_def)
  then have pass: "commit_pass (inp\<lparr>pending_messages := x\<rparr>) cs g = commit_pass inp cs g"
    by (simp add: commit_pass_def)
  show ?case
    using 1 unfolding commit_loop.simps [of "inp\<lparr>pending_messages := x\<rparr>" cs g]
      commit_loop.simps [of inp cs g] pass by (auto split: prod.splits)
qed

lemma materialize_pending:
  "materialize_candidate_graph (inp\<lparr>pending_messages := x\<rparr>) ms mats = materialize_candidate_graph inp ms mats"
  by (simp add: materialize_candidate_graph_def commit_loop_pending base_build_def init_build_def)

lemma materialize_perm:
  assumes "mset ms = mset ms'" and "inj_on pm_message_id {m \<in> set ms. is_commit m}"
  shows "materialize_candidate_graph inp ms mats = materialize_candidate_graph inp ms' mats"
  unfolding materialize_candidate_graph_def sorted_commits_cong [OF assms] ..

section \<open>Attached witnesses\<close>

definition new_witnesses :: "CanonicalizationPolicy \<Rightarrow> BranchCandidate \<Rightarrow> PeeledMessage \<Rightarrow> AppWitness list" where
  "new_witnesses p c m =
     (case pm_kind m of
        AppMessage epoch decrypts _ _ \<Rightarrow>
          if epoch \<le> bc_fork_epoch c \<or> app_message_expired (bc_tip_epoch c) p epoch then []
          else replicate (count_list decrypts (bc_id c)) \<lparr>aw_epoch = epoch, aw_sender = pm_sender m\<rparr>
      | _ \<Rightarrow> [])"

definition with_witnesses :: "CanonicalizationPolicy \<Rightarrow> PeeledMessage list \<Rightarrow> BranchCandidate \<Rightarrow> BranchCandidate" where
  "with_witnesses p ms c =
     c\<lparr>bc_app_witnesses := bc_app_witnesses c @ concat (map (new_witnesses p c) ms)\<rparr>"

lemma new_witnesses_update [simp]: "new_witnesses p (c\<lparr>bc_app_witnesses := ws\<rparr>) = new_witnesses p c"
  by (rule ext) (auto simp: new_witnesses_def split: PeeledMessageKind.splits)

lemma update_first_unique:
  "distinct (map bc_id cs) \<Longrightarrow>
     update_first (\<lambda>c. bc_id c = b) f cs = map (\<lambda>c. if bc_id c = b then f c else c) cs"
  by (induction cs) (auto intro!: map_idI [symmetric], metis imageI)

lemma attach_branches:
  assumes "distinct (map bc_id cs)"
  shows "foldl (\<lambda>cs b. update_first (\<lambda>c. bc_id c = b) (witness_candidate p epoch sender) cs) cs decrypts =
    map (\<lambda>c. c\<lparr>bc_app_witnesses := bc_app_witnesses c @
        (if epoch \<le> bc_fork_epoch c \<or> app_message_expired (bc_tip_epoch c) p epoch then []
         else replicate (count_list decrypts (bc_id c)) \<lparr>aw_epoch = epoch, aw_sender = sender\<rparr>)\<rparr>) cs"
  using assms
proof (induction decrypts arbitrary: cs)
  case Nil
  then show ?case by (simp add: map_idI)
next
  case (Cons b decrypts)
  let ?w = "witness_candidate p epoch sender"
  let ?cs = "map (\<lambda>c. if bc_id c = b then ?w c else c) cs"
  have ids: "map bc_id ?cs = map bc_id cs" by (simp add: witness_candidate_def)
  have "update_first (\<lambda>c. bc_id c = b) ?w cs = ?cs"
    using Cons.prems by (rule update_first_unique)
  then show ?case
    using Cons.IH [of ?cs] Cons.prems unfolding ids
    by (simp only: foldl_Cons map_map) (auto simp: witness_candidate_def intro!: map_cong)
qed

lemma attach_message_map:
  "distinct (map bc_id cs) \<Longrightarrow>
     attach_message p cs m = map (\<lambda>c. c\<lparr>bc_app_witnesses := bc_app_witnesses c @ new_witnesses p c m\<rparr>) cs"
  by (auto simp: attach_message_def new_witnesses_def attach_branches map_idI [symmetric]
      split: PeeledMessageKind.splits)

lemma attach_messages_map:
  "distinct (map bc_id cs) \<Longrightarrow> foldl (attach_message p) cs ms = map (with_witnesses p ms) cs"
proof (induction ms arbitrary: cs)
  case Nil
  then show ?case by (simp add: with_witnesses_def map_idI)
next
  case (Cons m ms)
  let ?cs = "map (\<lambda>c. c\<lparr>bc_app_witnesses := bc_app_witnesses c @ new_witnesses p c m\<rparr>) cs"
  have "distinct (map bc_id ?cs)" using Cons.prems by (simp add: comp_def)
  then show ?case
    using Cons.IH [of ?cs] attach_message_map [OF Cons.prems]
    by (simp add: with_witnesses_def comp_def)
qed

lemma attach_app_witnesses_map:
  "candidates (attach_app_witnesses (materialize_candidate_graph inp us mats) ms p) =
     map (with_witnesses p ms) (candidates (materialize_candidate_graph inp us mats))"
  by (simp add: attach_app_witnesses_def attach_messages_map [OF candidate_ids_distinct])

lemma canon_with_witnesses_perm:
  "mset ms = mset ms' \<Longrightarrow> canon_branch (with_witnesses p ms c) = canon_branch (with_witnesses p ms' c)"
proof -
  assume perm: "mset ms = mset ms'"
  have "mset (concat (map f ms)) = \<Sum>\<^sub># (image_mset (mset \<circ> f) (mset ms))"
    for f :: "PeeledMessage \<Rightarrow> AppWitness list" and ms
    by (induction ms) auto
  then have "mset (concat (map (new_witnesses p c) ms)) = mset (concat (map (new_witnesses p c) ms'))"
    by (simp add: perm)
  then have "sort_key witness_key (bc_app_witnesses c @ concat (map (new_witnesses p c) ms)) =
      sort_key witness_key (bc_app_witnesses c @ concat (map (new_witnesses p c) ms'))"
    using inj_witness_key by (intro sort_key_mset_cong) (auto intro: inj_on_subset)
  then show ?thesis by (simp add: canon_branch_def with_witnesses_def)
qed

section \<open>A concrete batch\<close>

text \<open>Two chained commits on top of epoch 10 and an application message of the second one's epoch.\<close>

definition example_commit :: "string \<Rightarrow> string option \<Rightarrow> u64 \<Rightarrow> PeeledMessage" where
  "example_commit b parent src =
     \<lparr>pm_message_id = ''commit-'' @ b, pm_group_id = ''g'', pm_sender = [1], pm_source_epoch = src,
      pm_kind = Commit b parent 10 (src + 1) Ordinary [9] []\<rparr>"

definition example_app :: "string \<Rightarrow> u64 \<Rightarrow> string list \<Rightarrow> bool \<Rightarrow> PeeledMessage" where
  "example_app i epoch decrypts delivered =
     \<lparr>pm_message_id = i, pm_group_id = ''g'', pm_sender = [2], pm_source_epoch = epoch,
      pm_kind = AppMessage epoch decrypts None delivered\<rparr>"

definition example_batch :: "PeeledMessage list" where
  "example_batch =
     [example_commit ''b'' (Some ''a'') 11, example_app ''m'' 12 [''b''] False, example_commit ''a'' None 10]"

definition example_input :: "PeeledMessage list \<Rightarrow> CanonicalizationInput" where
  "example_input ms =
     \<lparr>ci_state = \<lparr>current_tip_epoch = 10, retained_anchor_epoch = 5,
                  last_convergence_relevant_input_ms = 0, seen_message_ids = {''old''}\<rparr>,
      pending_messages = ms, outbound_intents = [SendAppMessage ''hi''], candidate_branches = [],
      ci_policy = default_canonicalization_policy, now_ms = 5000\<rparr>"

definition example_tip :: BranchCandidate where
  "example_tip = candidates (materialize_candidate_graph (example_input []) example_batch []) ! 1"

lemma example_tip_mem:
  "example_tip \<in> set (candidates (materialize_candidate_graph (example_input []) example_batch []))"
  unfolding example_tip_def by (rule nth_mem) code_simp

theorem candidate_graph_sound_witness:
  "bc_id example_tip = ''b'' \<and>
   (\<exists>path. length path = 2 \<and>
      commit_chain (example_input []) {m \<in> set example_batch. is_commit m}
        (given_branches (base_build (example_input []) []))
        (bc_id example_tip) (bc_fork_epoch example_tip) (bc_tip_epoch example_tip) path)"
proof -
  have "bc_id example_tip = ''b''" by code_simp
  moreover have "length (unwrap_or (bt_get (commit_path_by_branch
      (materialize_candidate_graph (example_input []) example_batch [])) (bc_id example_tip)) []) = 2"
    by code_simp
  ultimately show ?thesis using candidate_graph_sound [OF example_tip_mem] unfolding Let_def by blast
qed

theorem candidate_graph_complete_witness:
  "let m = example_commit ''b'' (Some ''a'') 11
   in admissible_commit (example_input []) m \<and>
      commit_branch_id (pm_kind m) \<in> branch_ids (materialize_candidate_graph (example_input []) example_batch [])"
proof -
  let ?m = "example_commit ''b'' (Some ''a'') 11"
  have "inj_on pm_message_id {m \<in> set example_batch. is_commit m}"
    by (auto simp: inj_on_def example_batch_def is_commit_def example_commit_def example_app_def)
  moreover have "?m \<in> set example_batch" by (simp add: example_batch_def)
  moreover have adm: "admissible_commit (example_input []) ?m"
    by (simp add: admissible_commit_def is_commit_def example_commit_def example_input_def
        policy_eval saturating_sub_def)
  moreover have "\<exists>c\<in>set (candidates (materialize_candidate_graph (example_input []) example_batch [])).
      bc_id c = ''a'' \<and> bc_tip_epoch c = 11"
    by code_simp
  ultimately show ?thesis
    unfolding Let_def
    using candidate_graph_complete [of example_batch ?m "example_input []" "[]"]
    by (simp add: example_commit_def)
qed

text \<open>
  C34: Witness attachment. A candidate of the graph gains one witness per application message of the
  batch and per mention of its branch among the branches the message decrypts on, in batch order, and
  only for epochs strictly after the fork point and within the application window seen from the
  candidate's own tip; nothing else about the candidate changes.\<close>

theorem attach_app_witnesses_exact:
  "candidates (attach_app_witnesses (materialize_candidate_graph inp us mats) ms p) =
     map (\<lambda>c. c\<lparr>bc_app_witnesses := bc_app_witnesses c @
            concat (map (\<lambda>m. case pm_kind m of
                AppMessage epoch decrypts payload delivered \<Rightarrow>
                  (if bc_fork_epoch c < epoch \<and>
                      unat (bc_tip_epoch c) \<le> unat epoch + unat (app_message_past_epoch_limit p)
                   then map (\<lambda>_. \<lparr>aw_epoch = epoch, aw_sender = pm_sender m\<rparr>)
                          (filter (\<lambda>b. b = bc_id c) decrypts)
                   else [])
              | _ \<Rightarrow> []) ms)\<rparr>)
       (candidates (materialize_candidate_graph inp us mats))"
proof -
  have expired: "app_message_expired tip p e \<longleftrightarrow>
      \<not> unat tip \<le> unat e + unat (app_message_past_epoch_limit p)" for tip e
    by (auto simp: app_message_expired_def word_less_nat_alt unat_saturating_sub)
  have rep: "replicate (count_list ds b) w = map (\<lambda>_. w) (filter (\<lambda>d. d = b) ds)"
    for ds :: "string list" and b and w :: AppWitness
    by (induction ds) auto
  have nw: "new_witnesses p c = (\<lambda>m. case pm_kind m of
                AppMessage epoch decrypts payload delivered \<Rightarrow>
                  (if bc_fork_epoch c < epoch \<and>
                      unat (bc_tip_epoch c) \<le> unat epoch + unat (app_message_past_epoch_limit p)
                   then map (\<lambda>_. \<lparr>aw_epoch = epoch, aw_sender = pm_sender m\<rparr>)
                          (filter (\<lambda>b. b = bc_id c) decrypts)
                   else [])
              | _ \<Rightarrow> [])" for c
    by (rule ext) (auto simp: new_witnesses_def expired rep not_le split: PeeledMessageKind.splits)
  show ?thesis
    unfolding attach_app_witnesses_map with_witnesses_def [abs_def] nw ..
qed

end
