(* ===== verification/Canonicalization_Correct.thy ===== *)
theory Canonicalization_Correct
  imports Canonicalization
begin

text \<open>
  Correctness of the canonicalization pass of \<open>Canonicalization\<close>: every message of a batch, and every commit of a
  pre-materialized candidate, is accounted for exactly once, the status settles once the quiescence window has elapsed, commits of losing
  pre-materialized branches keep an outcome, application payloads are delivered at most once and only
  from the canonical branch, and the result is independent of the order of the batch.
\<close>

section \<open>Commit paths\<close>

text \<open>The commits of the pre-materialized candidates.\<close>

definition materialized_ids :: "MaterializedCandidate list \<Rightarrow> string set" where
  "materialized_ids mats = (\<Union>mc\<in>set mats. set (mc_commit_message_ids mc))"

definition paths_from ::
  "CanonicalizationInput \<Rightarrow> PeeledMessage set \<Rightarrow> MaterializedCandidate list \<Rightarrow> GraphBuild \<Rightarrow> bool" where
  "paths_from inp ms mats g \<longleftrightarrow>
     gb_materialized g \<subseteq> pm_message_id ` {m \<in> ms. admissible_commit inp m} \<and>
     (\<forall>b p. bt_get (gb_commit_path g) b = Some p \<longrightarrow> distinct p \<and> set p \<subseteq> materialized_ids mats \<union> gb_materialized g) \<and>
     (\<forall>mc\<in>set mats. bt_get (gb_commit_path g) (bc_id (mc_branch mc)) = Some (mc_commit_message_ids mc))"

lemma resolve_parent_path:
  "resolve_parent parent fork g = Some rp \<Longrightarrow>
     rp_commit_path rp = [] \<or> (\<exists>b. bt_get (gb_commit_path g) b = Some (rp_commit_path rp))"
  by (auto simp: resolve_parent_def unwrap_or_def split: option.splits)

lemma commit_step_paths:
  assumes wf: "build_wf g" and paths: "paths_from inp ms mats g" and m: "m \<in> ms" "pm_message_id m \<notin> materialized_ids mats"
    and step: "commit_step inp g m = (g', True)"
  shows "paths_from inp ms mats g'"
proof -
  from step obtain b parent fork rp
    where rp: "resolve_parent parent fork g = Some rp"
      and new: "pm_message_id m \<notin> gb_materialized g" "admissible_commit inp m" "b \<notin> dom (bt_get (gb_candidates g))"
      and path: "gb_commit_path g' = bt_insert b (rp_commit_path rp @ [pm_message_id m]) (gb_commit_path g)"
      and mat: "gb_materialized g' = insert (pm_message_id m) (gb_materialized g)"
    by (rule commit_step_TrueE) auto
  have old: "distinct (rp_commit_path rp) \<and> set (rp_commit_path rp) \<subseteq> materialized_ids mats \<union> gb_materialized g"
    using resolve_parent_path [OF rp] paths by (auto simp: paths_from_def)
  have bt: "bt_get (gb_commit_path g') c = (if c = b then Some (rp_commit_path rp @ [pm_message_id m]) else bt_get (gb_commit_path g) c)" for c
    using wf by (simp add: path build_wf_def)
  have "b \<notin> dom (bt_get (gb_commit_path g))" using new(3) wf by (simp add: build_wf_def)
  then have "\<forall>mc\<in>set mats. bt_get (gb_commit_path g') (bc_id (mc_branch mc)) = Some (mc_commit_message_ids mc)"
    using paths unfolding paths_from_def bt by (auto simp: domIff)
  moreover have "distinct p \<and> set p \<subseteq> materialized_ids mats \<union> gb_materialized g'" if "bt_get (gb_commit_path g') c = Some p" for c p
  proof (cases "c = b")
    case True
    then have "p = rp_commit_path rp @ [pm_message_id m]" using that by (simp add: bt)
    then show ?thesis using old new(1) m(2) by (auto simp: mat)
  next
    case False
    then show ?thesis using paths that by (auto simp: paths_from_def bt mat)
  qed
  moreover have "gb_materialized g' \<subseteq> pm_message_id ` {m \<in> ms. admissible_commit inp m}"
    using paths m(1) new(2) by (auto simp: paths_from_def mat)
  ultimately show ?thesis by (auto simp: paths_from_def)
qed

lemma base_build_snoc: "base_build inp (mats @ [mc]) = add_materialized (base_build inp mats) mc"
  by (simp add: base_build_def)

lemma base_build_paths:
  assumes "distinct (map (\<lambda>mc. bc_id (mc_branch mc)) mats)" and "\<forall>mc\<in>set mats. distinct (mc_commit_message_ids mc)"
  shows "gb_materialized (base_build inp mats) = {} \<and> paths_from inp ms mats (base_build inp mats)"
  using assms
proof (induction mats rule: rev_induct)
  case Nil
  have nil: "p = []" if "map_of (rev (map (\<lambda>c. (bc_id c, [])) cs)) b = Some p"
    for b and p :: "string list" and cs :: "BranchCandidate list"
    using map_of_SomeD [OF that] by auto
  show ?case by (auto simp: paths_from_def base_build_def init_build_def bt_get_collect dest: nil)
next
  case (snoc mc mats)
  have wf: "bt_wf (gb_commit_path (base_build inp mats))" using base_build_wf by (simp add: build_wf_def)
  have IH: "gb_materialized (base_build inp mats) = {}" "paths_from inp ms mats (base_build inp mats)"
    using snoc by auto
  have "bc_id (mc_branch mc') \<noteq> bc_id (mc_branch mc)" if "mc' \<in> set mats" for mc'
    using snoc.prems(1) that by (auto simp: image_iff)
  then show ?case
    using IH snoc.prems(2) wf unfolding base_build_snoc
    by (auto simp: paths_from_def add_materialized_def Let_def materialized_ids_def split: if_splits) blast+
qed

text \<open>The conditions under which the batch and the pre-materialized candidates do not speak of the same messages.\<close>

definition candidates_apart :: "CanonicalizationInput \<Rightarrow> MaterializedCandidate list \<Rightarrow> bool" where
  "candidates_apart inp mats \<longleftrightarrow>
     distinct (map (\<lambda>mc. bc_id (mc_branch mc)) mats) \<and>
     (\<forall>mc\<in>set mats. distinct (mc_commit_message_ids mc)) \<and>
     (\<forall>m\<in>set (pending_messages inp). pm_message_id m \<notin> materialized_ids mats)"

lemma pass_unique_pending: "m \<in> set (pass_unique inp shared) \<Longrightarrow> m \<in> set (pending_messages inp)"
  unfolding pass_unique_def using dedup_fresh by blast

lemma final_build_paths:
  assumes "candidates_apart inp mats"
  shows "paths_from inp {m \<in> set (pass_unique inp shared). is_commit m} mats (final_build inp (pass_unique inp shared) mats)"
proof -
  let ?ms = "{m \<in> set (pass_unique inp shared). is_commit m}"
  let ?P = "\<lambda>g. build_wf g \<and> paths_from inp ?ms mats g"
  have "?P (final_build inp (pass_unique inp shared) mats)"
  proof (rule commit_loop_inv [where P = ?P])
    show "?P (base_build inp mats)"
      using base_build_paths [of mats inp ?ms] assms by (simp add: base_build_wf candidates_apart_def)
  next
    fix g g' m
    assume g: "?P g" and m: "m \<in> set (sorted_commits (pass_unique inp shared))" and step: "commit_step inp g m = (g', True)"
    have "m \<in> ?ms" using m by simp
    moreover from this have "pm_message_id m \<notin> materialized_ids mats"
      using assms pass_unique_pending by (auto simp: candidates_apart_def)
    ultimately show "?P g'" using g commit_step_wf [OF _ step] commit_step_paths [OF _ _ _ _ step] by blast
  qed
  then show ?thesis by blast
qed

section \<open>What a pass accepts and what it classifies\<close>

lemma graph_paths:
  "commit_path_by_branch (pass_graph inp mats admit shared) =
     gb_commit_path (final_build inp (pass_unique inp shared) mats)"
  "materialized_commit_ids_by_branch (pass_graph inp mats admit shared) =
     gb_materialized_by_branch (final_build inp (pass_unique inp shared) mats)"
  "branch_ids (pass_graph inp mats admit shared) =
     branch_ids (materialize_candidate_graph inp (pass_unique inp shared) mats)"
  by (simp_all add: pass_graph_def attach_app_witnesses_def materialize_candidate_graph_def Let_def)

lemma pass_path_lookup:
  "pass_path hex inp mats admit shared =
     (case pass_selected inp mats admit shared of
        None \<Rightarrow> []
      | Some c \<Rightarrow> unwrap_or (bt_get (gb_commit_path (final_build inp (pass_unique inp shared) mats)) (bc_id c)) [])"
  by (simp add: pass_path_def selected_lookup_def graph_paths unwrap_or_def split: option.split)

lemma pass_path_batch:
  assumes "candidates_apart inp mats"
  shows "distinct (pass_path hex inp mats admit shared)"
    and "set (pass_path hex inp mats admit shared) \<subseteq>
      materialized_ids mats \<union> pm_message_id ` {m \<in> set (pass_unique inp shared). admissible_commit inp m}"
proof -
  let ?g = "final_build inp (pass_unique inp shared) mats" and ?p = "pass_path hex inp mats admit shared"
  have "?p = [] \<or> (\<exists>b. bt_get (gb_commit_path ?g) b = Some ?p)"
    unfolding pass_path_lookup unwrap_or_def by (auto split: option.split)
  then have "distinct ?p \<and> set ?p \<subseteq> materialized_ids mats \<union> gb_materialized ?g"
    using final_build_paths [OF assms, of shared] by (auto simp: paths_from_def)
  moreover have "gb_materialized ?g \<subseteq> pm_message_id ` {m \<in> set (pass_unique inp shared). admissible_commit inp m}"
    using final_build_paths [OF assms, of shared] by (auto simp: paths_from_def)
  ultimately show "distinct ?p" "set ?p \<subseteq>
      materialized_ids mats \<union> pm_message_id ` {m \<in> set (pass_unique inp shared). admissible_commit inp m}" by auto
qed

lemma pass_path_mat:
  assumes "candidates_apart inp mats" and "pass_selected inp mats admit shared = Some c"
    and "mc \<in> set mats" and "bc_id (mc_branch mc) = bc_id c"
  shows "pass_path hex inp mats admit shared = mc_commit_message_ids mc"
  using final_build_paths [OF assms(1), of shared] assms(2-4) unfolding pass_path_lookup paths_from_def
  by (auto simp: unwrap_or_def simp flip: assms(4))

text \<open>The loop skips exactly the batch's own commits on the selected path.\<close>

lemma pass_path_skipped:
  assumes "candidates_apart inp mats"
  shows "mset (filter (\<lambda>i. i \<notin> materialized_ids mats) (pass_path hex inp mats admit shared)) =
     mset (map pm_message_id
       (filter (\<lambda>m. pass_disposition hex inp mats admit shared m = None) (pass_unique inp shared)))"
proof -
  let ?skip = "filter (\<lambda>m. pass_disposition hex inp mats admit shared m = None) (pass_unique inp shared)"
  let ?path = "filter (\<lambda>i. i \<notin> materialized_ids mats) (pass_path hex inp mats admit shared)"
  have "distinct (map pm_message_id (filter (Not \<circ> readmitted_witness) (pass_unique inp shared)))"
    unfolding pass_unique_def using dedup_fresh by blast
  then have "distinct (map pm_message_id (filter (\<lambda>m. pass_disposition hex inp mats admit shared m = None)
      (filter (Not \<circ> readmitted_witness) (pass_unique inp shared))))"
    using distinct_map_filter by blast
  moreover have "filter (\<lambda>m. pass_disposition hex inp mats admit shared m = None)
      (filter (Not \<circ> readmitted_witness) (pass_unique inp shared)) = ?skip"
    using commits_not_readmitted by (auto simp: pass_disposition_None intro!: filter_cong)
  ultimately have dist: "distinct (map pm_message_id ?skip)" by simp
  have "set (map pm_message_id ?skip) = set ?path"
  proof (rule set_eqI, rule iffI)
    fix i assume "i \<in> set (map pm_message_id ?skip)"
    then show "i \<in> set ?path"
      using assms pass_unique_pending by (auto simp: pass_disposition_None candidates_apart_def)
  next
    fix i assume i: "i \<in> set ?path"
    then obtain m where "m \<in> set (pass_unique inp shared)" "admissible_commit inp m" "i = pm_message_id m"
      using pass_path_batch(2) [OF assms] by fastforce
    then show "i \<in> set (map pm_message_id ?skip)"
      using i by (auto simp: pass_disposition_None admissible_commit_def within_horizon_def)
  qed
  then show ?thesis
    using dist pass_path_batch(1) [OF assms] set_eq_iff_mset_eq_distinct by (metis distinct_filter)
qed

lemma sort_result_ids: "mset (disposition_ids (sort_result r)) = mset (disposition_ids r)"
  by (simp add: sort_result_def disposition_ids_def)

lemma pass_release_ids: "disposition_ids (pass_release inp r) = disposition_ids r"
  by (simp add: pass_release_def disposition_ids_def Let_def)

lemma record_grows: "set (disposition_ids r) \<subseteq> set (disposition_ids (foldl record_disposition r ds))"
  using recorded_ids [of r ds] by (metis mset_subset_eq_add_left set_mset_mono set_mset_mset)

definition commit_outcome_ids :: "CanonicalizationResult \<Rightarrow> string set" where
  "commit_outcome_ids r =
     set (accepted_commits r) \<union> df_message_id ` set (deferred_messages r) \<union> dm_message_id ` set (dropped_messages r)"

fun parks_or_drops :: "disposition \<Rightarrow> bool" where
  "parks_or_drops (Defer _) = True"
| "parks_or_drops (Drop _) = True"
| "parks_or_drops _ = False"

text \<open>
  The losing-branch classification as a recording of deferrals and drops: \<open>classifies r r' ids\<close> says that \<open>r'\<close> extends
  \<open>r\<close> by such entries, one for each id of \<open>ids\<close> that has no outcome in \<open>r\<close>.
\<close>

definition classifies :: "CanonicalizationResult \<Rightarrow> CanonicalizationResult \<Rightarrow> string set \<Rightarrow> bool" where
  "classifies r r' ids \<longleftrightarrow> finite ids \<and>
     (\<exists>ds. r' = foldl record_disposition r ds \<and> list_all parks_or_drops ds \<and>
        mset (map disposition_id ds) = mset_set (ids - commit_outcome_ids r))"

lemma parked_outcomes:
  "list_all parks_or_drops ds \<Longrightarrow>
     commit_outcome_ids (foldl record_disposition r ds) = commit_outcome_ids r \<union> disposition_id ` set ds"
proof (induction ds arbitrary: r)
  case (Cons d ds)
  have "commit_outcome_ids (record_disposition r d) = insert (disposition_id d) (commit_outcome_ids r)"
    using Cons.prems by (cases d) (auto simp: commit_outcome_ids_def)
  then show ?case using Cons by simp
qed simp

lemma classifies_outcomes:
  assumes "classifies r r' ids"
  shows "commit_outcome_ids r' = commit_outcome_ids r \<union> ids"
proof -
  obtain ds where ds: "r' = foldl record_disposition r ds" "list_all parks_or_drops ds"
      "mset (map disposition_id ds) = mset_set (ids - commit_outcome_ids r)" and "finite ids"
    using assms unfolding classifies_def by blast
  then have "set_mset (mset (map disposition_id ds)) = ids - commit_outcome_ids r" by simp
  then show ?thesis using parked_outcomes [OF ds(2)] ds(1) by auto
qed

lemma classifies_refl: "classifies r r {}"
  by (auto simp: classifies_def intro: exI [of _ "[]"])

lemma classifies_trans:
  assumes "classifies r r' ids" and "classifies r' r'' ids'"
  shows "classifies r r'' (ids \<union> ids')"
proof -
  obtain ds ds' where ds: "r' = foldl record_disposition r ds" "list_all parks_or_drops ds"
      "mset (map disposition_id ds) = mset_set (ids - commit_outcome_ids r)"
    and ds': "r'' = foldl record_disposition r' ds'" "list_all parks_or_drops ds'"
      "mset (map disposition_id ds') = mset_set (ids' - commit_outcome_ids r')"
    and fin: "finite ids" "finite ids'"
    using assms unfolding classifies_def by blast
  have "ids \<union> ids' - commit_outcome_ids r = (ids - commit_outcome_ids r) \<union> (ids' - commit_outcome_ids r')"
    using classifies_outcomes [OF assms(1)] by auto
  moreover have "(ids - commit_outcome_ids r) \<inter> (ids' - commit_outcome_ids r') = {}"
    using classifies_outcomes [OF assms(1)] by auto
  ultimately have "mset (map disposition_id (ds @ ds')) = mset_set (ids \<union> ids' - commit_outcome_ids r)"
    using ds(3) ds'(3) fin by (simp add: mset_set_Union)
  then show ?thesis
    unfolding classifies_def using ds ds' fin by (intro conjI exI [of _ "ds @ ds'"]) simp_all
qed

lemma classifies_fold:
  assumes "\<And>r x. x \<in> set xs \<Longrightarrow> classifies r (f r x) (ids x)"
  shows "classifies r (foldl f r xs) (\<Union>x\<in>set xs. ids x)"
  using assms
proof (induction xs arbitrary: r)
  case Nil
  then show ?case by (simp add: classifies_refl)
next
  case (Cons x xs)
  then show ?case using classifies_trans [of r "f r x" "ids x"] by simp
qed

lemma classify_losing_commit_classifies: "classifies r (classify_losing_commit inp c r mid) {mid}"
proof (cases "mid \<in> commit_outcome_ids r")
  case True
  then have "classify_losing_commit inp c r mid = r"
    by (auto simp: classify_losing_commit_def commit_outcome_ids_def list_ex_iff)
  with True show ?thesis by (auto simp: classifies_def intro: exI [of _ "[]"])
next
  case False
  then have "\<exists>d. classify_losing_commit inp c r mid = record_disposition r d
      \<and> parks_or_drops d \<and> disposition_id d = mid"
    unfolding classify_losing_commit_def commit_outcome_ids_def list_ex_iff Let_def
    by (auto intro: exI [of _ "Defer d" for d] exI [of _ "Drop d" for d])
  then obtain d where d: "classify_losing_commit inp c r mid = foldl record_disposition r [d]"
    "parks_or_drops d" "disposition_id d = mid" by auto
  have "{mid} - commit_outcome_ids r = {mid}" using False by auto
  with d show ?thesis unfolding classifies_def by (intro conjI exI [of _ "[d]"]) simp_all
qed

lemma classify_losing_branch_classifies:
  assumes "finite (snd e)"
  shows "classifies r (classify_losing_branch inp cs sel r e) (if fst e = sel then {} else snd e)"
proof (cases "fst e = sel")
  case True
  then show ?thesis by (simp add: classify_losing_branch_def classifies_refl)
next
  case False
  have "classifies r (foldl (classify_losing_commit inp (List.find (\<lambda>c. bc_id c = fst e) cs)) r
      (sorted_list_of_set (snd e))) (\<Union>x\<in>set (sorted_list_of_set (snd e)). {x})"
    by (rule classifies_fold) (rule classify_losing_commit_classifies)
  then show ?thesis using False assms by (simp add: classify_losing_branch_def)
qed

lemma classify_all_classifies:
  assumes "\<And>e. e \<in> set m \<Longrightarrow> finite (snd e)"
  shows "classifies r (classify_losing_materialized_candidate_commits inp cs m r)
    (case selected_branch_id r of None \<Rightarrow> {} | Some sel \<Rightarrow> \<Union>e\<in>set m. if fst e = sel then {} else snd e)"
proof (cases "selected_branch_id r")
  case None
  then show ?thesis by (simp add: classify_losing_materialized_candidate_commits_def classifies_refl)
next
  case (Some sel)
  have "classifies r (foldl (classify_losing_branch inp cs sel) r m)
      (\<Union>e\<in>set m. if fst e = sel then {} else snd e)"
    by (rule classifies_fold) (rule classify_losing_branch_classifies [OF assms])
  then show ?thesis
    using Some by (simp add: classify_losing_materialized_candidate_commits_def del: UN_simps)
qed

text \<open>The fixed-point loop leaves the commits of pre-materialized candidates alone.\<close>

lemma final_build_by_branch:
  "gb_materialized_by_branch (final_build inp ms mats) = gb_materialized_by_branch (base_build inp mats)"
  by (rule commit_loop_inv [where P = "\<lambda>g. gb_materialized_by_branch g = gb_materialized_by_branch (base_build inp mats)"])
    (auto elim: commit_step_TrueE)

lemma add_materialized_by_branch:
  "gb_materialized_by_branch (foldl add_materialized g mats) =
     foldl (\<lambda>m (k, v). bt_insert k v m) (gb_materialized_by_branch g)
       (map (\<lambda>mc. (bc_id (mc_branch mc), set (mc_commit_message_ids mc))) mats)"
  by (induction mats arbitrary: g) (simp_all add: add_materialized_def Let_def)

lemma base_by_branch:
  "gb_materialized_by_branch (base_build inp mats) =
     bt_collect (map (\<lambda>mc. (bc_id (mc_branch mc), set (mc_commit_message_ids mc))) mats)"
  by (simp add: base_build_def add_materialized_by_branch init_build_def bt_collect_def)

lemma by_branch_finite:
  "e \<in> set (gb_materialized_by_branch (base_build inp mats)) \<Longrightarrow> finite (snd e)"
proof -
  let ?kvs = "map (\<lambda>mc. (bc_id (mc_branch mc), set (mc_commit_message_ids mc))) mats"
  assume "e \<in> set (gb_materialized_by_branch (base_build inp mats))"
  then have "bt_get (bt_collect ?kvs) (fst e) = Some (snd e)"
    by (simp add: base_by_branch bt_get_mem)
  then have "(fst e, snd e) \<in> set ?kvs"
    unfolding bt_get_collect by (auto dest: map_of_SomeD)
  then show ?thesis by auto
qed

text \<open>The commits of the pre-materialized candidates that lost.\<close>

definition losing_ids ::
  "CanonicalizationInput \<Rightarrow> MaterializedCandidate list \<Rightarrow> bool \<Rightarrow> string set option \<Rightarrow> string set" where
  "losing_ids inp mats admit shared =
     (case map_option bc_id (pass_selected inp mats admit shared) of
        None \<Rightarrow> {}
      | Some sel \<Rightarrow> \<Union>e\<in>set (gb_materialized_by_branch (base_build inp mats)). if fst e = sel then {} else snd e)"

lemma pass_classified_classifies:
  "classifies (pass_recorded hex inp mats admit shared) (pass_classified hex inp mats admit shared)
     (losing_ids inp mats admit shared)"
proof -
  have "selected_branch_id (pass_recorded hex inp mats admit shared) =
      map_option bc_id (pass_selected inp mats admit shared)"
    by (simp add: pass_recorded_def)
  then show ?thesis
    using classify_all_classifies [of "gb_materialized_by_branch (base_build inp mats)"
        "pass_recorded hex inp mats admit shared" inp "candidates (pass_graph inp mats admit shared)"]
      by_branch_finite
    unfolding pass_classified_def graph_paths final_build_by_branch losing_ids_def by simp
qed

lemma pass_classified_records:
  obtains ds where "pass_classified hex inp mats admit shared =
      foldl record_disposition (pass_recorded hex inp mats admit shared) ds"
    and "list_all parks_or_drops ds"
  using pass_classified_classifies [of hex inp mats admit shared] unfolding classifies_def by blast

lemma pending_resolved:
  assumes "m \<in> set (pending_messages inp)"
  shows "pm_message_id m \<in> set (disposition_ids (pass_classified hex inp mats admit shared))"
proof -
  have "pm_message_id m \<in> set_mset (mset (map pm_message_id (pending_messages inp)))"
    using assms by simp
  then consider "pm_message_id m \<in> as_message_id ` set (pass_seen inp shared)"
    | n where "n \<in> set (pass_unique inp shared)" "pm_message_id n = pm_message_id m"
    unfolding pending_ids [of inp shared] by auto
  then have "pm_message_id m \<in> set_mset (mset (disposition_ids (pass_recorded hex inp mats admit shared)))"
  proof cases
    case 1
    then show ?thesis by (simp add: pass_recorded_ids)
  next
    case (2 n)
    then show ?thesis
      by (cases "pass_disposition hex inp mats admit shared n")
        (auto simp: pass_recorded_ids pass_disposition_None image_iff)
  qed
  moreover obtain ds where "pass_classified hex inp mats admit shared =
      foldl record_disposition (pass_recorded hex inp mats admit shared) ds"
    using pass_classified_records by blast
  ultimately show ?thesis using record_grows by (metis set_mset_mset subsetD)
qed

lemma pass_classified_no_block: "\<not> has_blocking_convergence_error (pass_classified hex inp mats admit shared)"
proof -
  obtain ds where "pass_classified hex inp mats admit shared =
      foldl record_disposition (pass_recorded hex inp mats admit shared) ds"
    using pass_classified_records by blast
  then show ?thesis
    by (simp add: has_blocking_convergence_error_def pass_recorded_def pass_initial_def
        initial_result_def Let_def)
qed

section \<open>Status and outbound intents\<close>

text \<open>
  C22: A pass always completes. Whatever the batch, the materialized candidates and the seen sets, the
  status is \<open>Syncing\<close> while the settlement window has not elapsed and \<open>Settled\<close> from then on, never
  \<open>Resolving\<close> or \<open>Blocked\<close>; outbound intents are all released when settled and all queued otherwise,
  and none is lost or duplicated.\<close>

theorem canonicalize_settles:
  "let r = canonicalize_internal hex inp mats admit shared;
       elapsed = saturating_sub (now_ms inp) (last_convergence_relevant_input_ms (ci_state inp));
       settled = (settlement_quiescence_ms (ci_policy inp) \<le> elapsed);
       intents = sort_key intent_key (outbound_intents inp)
   in convergence_status r = (if settled then Settled else Syncing) \<and>
      publishable_outbound_messages r = (if settled then intents else []) \<and>
      queued_outbound_intents r = (if settled then [] else intents)"
proof -
  let ?c = "pass_classified hex inp mats admit shared"
  obtain ds where ds: "?c = foldl record_disposition (pass_recorded hex inp mats admit shared) ds"
    using pass_classified_records by blast
  have out: "publishable_outbound_messages ?c = []" "queued_outbound_intents ?c = []"
    by (simp_all add: ds pass_recorded_def)
  have "convergence_status_for_result inp (pending_messages inp) ?c =
      (if settlement_quiescence_ms (ci_policy inp) \<le>
          saturating_sub (now_ms inp) (last_convergence_relevant_input_ms (ci_state inp))
       then Settled else Syncing)"
    using pending_resolved [of _ inp hex mats admit shared] pass_classified_no_block
    by (auto simp: convergence_status_for_result_def Let_def list_ex_iff not_less)
  then show ?thesis
    by (simp add: canonicalize_internal_stages pass_release_def sort_result_def out Let_def)
qed

section \<open>Every message is accounted for\<close>

lemma result_selection:
  "selected_branch_id (canonicalize_internal hex inp mats admit shared) =
     map_option bc_id (pass_selected inp mats admit shared)"
proof -
  obtain ds where "pass_classified hex inp mats admit shared =
      foldl record_disposition (pass_recorded hex inp mats admit shared) ds"
    using pass_classified_records by blast
  then show ?thesis
    by (simp add: canonicalize_internal_stages sort_result_def pass_release_def Let_def pass_recorded_def)
qed

text \<open>The entries of the table of pre-materialized commits.\<close>

lemma by_branch_mem:
  assumes "distinct (map (\<lambda>mc. bc_id (mc_branch mc)) mats)"
  shows "set (gb_materialized_by_branch (base_build inp mats)) =
    (\<lambda>mc. (bc_id (mc_branch mc), set (mc_commit_message_ids mc))) ` set mats"
proof -
  let ?kvs = "map (\<lambda>mc. (bc_id (mc_branch mc), set (mc_commit_message_ids mc))) mats"
  have "distinct (map fst (rev ?kvs))" using assms by (simp add: comp_def rev_map [symmetric])
  then have "(b, ids) \<in> set (bt_collect ?kvs) \<longleftrightarrow> (b, ids) \<in> set ?kvs" for b ids
    by (simp add: bt_get_collect map_of_eq_Some_iff flip: bt_get_mem)
  then show ?thesis by (auto simp: base_by_branch)
qed

text \<open>The losing ids together with the selected path cover the pre-materialized commits.\<close>

lemma losing_or_selected:
  assumes "candidates_apart inp mats"
  shows "losing_ids inp mats admit shared \<subseteq> materialized_ids mats"
    and "pass_selected inp mats admit shared \<noteq> None \<Longrightarrow>
      materialized_ids mats \<subseteq> losing_ids inp mats admit shared \<union> set (pass_path hex inp mats admit shared)"
    and "pass_selected inp mats admit shared = None \<Longrightarrow>
      losing_ids inp mats admit shared = {} \<and> pass_path hex inp mats admit shared = []"
proof -
  have L: "losing_ids inp mats admit shared =
      (\<Union>mc\<in>set mats. if bc_id (mc_branch mc) = bc_id c then {} else set (mc_commit_message_ids mc))"
    if "pass_selected inp mats admit shared = Some c" for c
    using by_branch_mem [of mats inp] assms that
    by (simp only: losing_ids_def option.map option.case candidates_apart_def image_image fst_conv snd_conv)
  show "losing_ids inp mats admit shared \<subseteq> materialized_ids mats"
    using L by (cases "pass_selected inp mats admit shared") (auto simp: losing_ids_def materialized_ids_def split: if_splits)
  show "materialized_ids mats \<subseteq> losing_ids inp mats admit shared \<union> set (pass_path hex inp mats admit shared)"
    if sel: "pass_selected inp mats admit shared \<noteq> None"
  proof
    obtain c where c: "pass_selected inp mats admit shared = Some c" using sel by blast
    fix i assume "i \<in> materialized_ids mats"
    then obtain mc where "mc \<in> set mats" "i \<in> set (mc_commit_message_ids mc)" by (auto simp: materialized_ids_def)
    then show "i \<in> losing_ids inp mats admit shared \<union> set (pass_path hex inp mats admit shared)"
      using L [OF c] pass_path_mat [OF assms c, of mc hex] by (cases "bc_id (mc_branch mc) = bc_id c") auto
  qed
  show "pass_selected inp mats admit shared = None \<Longrightarrow>
      losing_ids inp mats admit shared = {} \<and> pass_path hex inp mats admit shared = []"
    by (simp add: losing_ids_def pass_path_lookup)
qed

lemma recorded_outcomes:
  assumes "candidates_apart inp mats"
  shows "commit_outcome_ids (pass_recorded hex inp mats admit shared) \<inter> materialized_ids mats =
    set (pass_path hex inp mats admit shared) \<inter> materialized_ids mats"
proof -
  let ?r = "pass_recorded hex inp mats admit shared"
  have "set (pass_path hex inp mats admit shared) \<subseteq> commit_outcome_ids ?r"
    by (auto simp: commit_outcome_ids_def pass_recorded_def recorded_lists)
  moreover have "i \<in> set (pass_path hex inp mats admit shared)"
    if "i \<in> commit_outcome_ids ?r" "i \<in> materialized_ids mats" for i
  proof -
    have "i \<in> set_mset (mset (disposition_ids ?r))" using that(1) by (auto simp: commit_outcome_ids_def disposition_ids_def)
    moreover have "i \<notin> set_mset (mset (map pm_message_id (pending_messages inp)))"
      using that(2) assms by (auto simp: candidates_apart_def)
    ultimately show ?thesis unfolding pass_recorded_ids pending_ids [of inp shared] by auto
  qed
  ultimately show ?thesis by auto
qed

lemma materialized_accounted:
  assumes "candidates_apart inp mats"
  shows "mset (filter (\<lambda>i. i \<in> materialized_ids mats) (pass_path hex inp mats admit shared)) +
      mset_set (losing_ids inp mats admit shared - commit_outcome_ids (pass_recorded hex inp mats admit shared)) =
    (if pass_selected inp mats admit shared = None then {#} else mset_set (materialized_ids mats))"
proof -
  let ?M = "materialized_ids mats" and ?path = "pass_path hex inp mats admit shared" and ?L = "losing_ids inp mats admit shared"
  note LM = losing_or_selected [OF assms, of admit shared]
  have fin: "finite ?M" by (simp add: materialized_ids_def)
  have "?L - commit_outcome_ids (pass_recorded hex inp mats admit shared) = ?L - set ?path"
    using recorded_outcomes [OF assms, of hex admit shared] LM(1) by auto
  moreover have "mset (filter (\<lambda>i. i \<in> ?M) ?path) = mset_set (set ?path \<inter> ?M)"
    using pass_path_batch(1) [OF assms] by (simp add: Int_def flip: mset_set_set)
  moreover have "mset_set (set ?path \<inter> ?M) + mset_set (?L - set ?path) = mset_set ?M"
    if "pass_selected inp mats admit shared \<noteq> None"
  proof -
    have "?M = (set ?path \<inter> ?M) \<union> (?L - set ?path)" using LM(1) LM(2) [OF that, of hex] by auto
    then have "mset_set ?M = mset_set ((set ?path \<inter> ?M) \<union> (?L - set ?path))" by simp
    also have "\<dots> = mset_set (set ?path \<inter> ?M) + mset_set (?L - set ?path)"
      using finite_subset [OF LM(1) fin] by (intro mset_set_Union) auto
    finally show ?thesis by simp
  qed
  ultimately show ?thesis using LM(3) [of hex] by simp
qed

lemma mset_map_split:
  "mset (map f xs) = mset (map f (filter P xs)) + mset (map f (filter (\<lambda>x. \<not> P x) xs))"
  by (induction xs) auto

text \<open>
  C1: A pass accounts for every message exactly once. For any batch, with repeated ids, already seen messages and
  re-admitted witnesses included, and any pre-materialized candidates, the ids in the accepted, deferred, dropped,
  invalidated and already-seen lists of the result together are the ids of the batch, with the same multiplicities, and,
  when a branch is selected, each commit of the candidates once, even if several of them share it. The candidates have
  different branches, none lists a commit twice, and none of their commits is also a message of the batch.\<close>

theorem canonicalize_accounts_once:
  assumes "candidates_apart inp mats"
  shows "let r = canonicalize_internal hex inp mats admit shared
    in mset (disposition_ids r) =
         mset (map pm_message_id (pending_messages inp)) +
         (if selected_branch_id r = None then {#} else mset_set (materialized_ids mats))"
proof -
  let ?M = "materialized_ids mats" and ?path = "pass_path hex inp mats admit shared"
  let ?rec = "pass_recorded hex inp mats admit shared" and ?P = "\<lambda>m. pass_disposition hex inp mats admit shared m = None"
  obtain ds where "pass_classified hex inp mats admit shared = foldl record_disposition ?rec ds"
      "mset (map disposition_id ds) = mset_set (losing_ids inp mats admit shared - commit_outcome_ids ?rec)"
    using pass_classified_classifies [of hex inp mats admit shared] unfolding classifies_def by blast
  then have "mset (disposition_ids (pass_classified hex inp mats admit shared)) =
      mset ?path + mset (map as_message_id (pass_seen inp shared)) +
      mset (map pm_message_id (filter (\<lambda>m. \<not> ?P m) (pass_unique inp shared))) +
      mset_set (losing_ids inp mats admit shared - commit_outcome_ids ?rec)"
    by (simp only: recorded_ids pass_recorded_ids)
  moreover have "mset ?path = mset (filter (\<lambda>i. i \<in> ?M) ?path) + mset (filter (\<lambda>i. i \<notin> ?M) ?path)"
    using mset_map_split [of id ?path "\<lambda>i. i \<in> ?M"] by simp
  ultimately have "mset (disposition_ids (pass_classified hex inp mats admit shared)) =
      mset (map pm_message_id (pending_messages inp)) +
      (if pass_selected inp mats admit shared = None then {#} else mset_set ?M)"
    using pass_path_skipped [OF assms, of hex admit shared] materialized_accounted [OF assms, of hex admit shared, symmetric]
      pending_ids [of inp shared] mset_map_split [of pm_message_id "pass_unique inp shared" ?P]
    by (simp only: ac_simps)
  then show ?thesis
    by (simp add: result_selection Let_def) (simp add: canonicalize_internal_stages sort_result_ids pass_release_ids)
qed


section \<open>Delivery of application payloads\<close>

definition deliverable ::
  "CanonicalizationInput \<Rightarrow> string set option \<Rightarrow> string option \<Rightarrow> PeeledMessage \<Rightarrow> bool" where
  "deliverable inp shared sel m \<longleftrightarrow>
     (\<exists>epoch decrypts payload b. pm_kind m = AppMessage epoch decrypts payload False \<and>
        pm_message_id m \<notin> known_ids shared (seen_message_ids (ci_state inp)) \<and>
        retained_anchor_epoch (ci_state inp) \<le> epoch \<and>
        unat (current_tip_epoch (ci_state inp)) \<le> unat epoch + unat (app_message_past_epoch_limit (ci_policy inp)) \<and>
        sel = Some b \<and> b \<in> set decrypts)"

lemma app_window:
  "app_message_expired tip p e \<longleftrightarrow> \<not> unat tip \<le> unat e + unat (app_message_past_epoch_limit p)"
  by (auto simp: app_message_expired_def word_less_nat_alt unat_saturating_sub)

lemma accept_app_iff:
  "Option.bind (message_disposition inp graph sel_ids ctx sel tip m) as_app = Some i \<longleftrightarrow>
     (\<exists>epoch decrypts payload b. pm_kind m = AppMessage epoch decrypts payload False \<and>
        retained_anchor_epoch (ci_state inp) \<le> epoch \<and>
        unat (current_tip_epoch (ci_state inp)) \<le> unat epoch + unat (app_message_past_epoch_limit (ci_policy inp)) \<and>
        sel = Some b \<and> b \<in> set decrypts) \<and> i = pm_message_id m"
proof (cases "pm_kind m")
  case (Commit b parent fork res prio digest consumed)
  then show ?thesis by (auto simp: message_disposition_def commit_disposition_def bind_eq_Some_conv split: if_splits)
next
  case (Proposal b)
  then show ?thesis
    by (auto simp: message_disposition_def proposal_disposition_def split: if_splits option.splits)
next
  case (AppMessage epoch decrypts payload delivered)
  then show ?thesis
    by (cases sel) (auto simp: message_disposition_def app_disposition_def app_window Let_def not_less)
qed

lemma picks_map_filter:
  "picks g (List.map_filter f ms) = List.map_filter (\<lambda>m. Option.bind (f m) g) ms"
  by (induction ms) (auto simp: map_filter_simps split: option.splits)

lemma picks_parked: "list_all parks_or_drops ds \<Longrightarrow> picks as_app ds = []"
  by (induction ds) (auto elim: parks_or_drops.elims)

lemma map_filter_keyed:
  "(\<And>m i. f m = Some i \<Longrightarrow> i = k m) \<Longrightarrow> List.map_filter f ms = map k (filter (\<lambda>m. f m \<noteq> None) ms)"
  by (induction ms) (auto simp: map_filter_simps split: option.splits)

lemma result_accepted_apps:
  "accepted_app_messages (canonicalize_internal hex inp mats admit shared) =
     sort (map pm_message_id
       (filter (\<lambda>m. Option.bind (pass_disposition hex inp mats admit shared m) as_app \<noteq> None)
          (pass_unique inp shared)))"
proof -
  obtain ds where ds: "pass_classified hex inp mats admit shared =
      foldl record_disposition (pass_recorded hex inp mats admit shared) ds" "list_all parks_or_drops ds"
    using pass_classified_records by blast
  have "i = pm_message_id m" if "Option.bind (pass_disposition hex inp mats admit shared m) as_app = Some i" for m i
    using that by (simp add: pass_disposition_def Let_def accept_app_iff)
  then have "List.map_filter (\<lambda>m. Option.bind (pass_disposition hex inp mats admit shared m) as_app)
        (pass_unique inp shared) =
      map pm_message_id
       (filter (\<lambda>m. Option.bind (pass_disposition hex inp mats admit shared m) as_app \<noteq> None)
          (pass_unique inp shared))"
    by (rule map_filter_keyed)
  then show ?thesis
    by (simp add: canonicalize_internal_stages sort_result_def pass_release_def Let_def ds
        recorded_lists picks_parked pass_recorded_def picks_map_filter)
qed

lemma pass_accepts_app:
  assumes "m \<in> set (pass_unique inp shared)"
  shows "Option.bind (pass_disposition hex inp mats admit shared m) as_app \<noteq> None \<longleftrightarrow>
    deliverable inp shared (selected_branch_id (canonicalize_internal hex inp mats admit shared)) m"
proof -
  have "readmitted_witness m \<or> pm_message_id m \<notin> known_ids shared (seen_message_ids (ci_state inp))"
    using dedup_fresh [of shared "seen_message_ids (ci_state inp)" "{}" "pending_messages inp"] assms
    by (auto simp: pass_unique_def)
  moreover have "\<not> readmitted_witness m" if "pm_kind m = AppMessage epoch decrypts payload False"
    for epoch decrypts payload using that by (simp add: readmitted_witness_def)
  ultimately show ?thesis
    unfolding not_None_eq pass_disposition_def Let_def accept_app_iff deliverable_def result_selection
    by auto
qed

text \<open>
  C3: Application payloads are delivered at most once and only from the canonical branch. No id is
  accepted twice in a pass; an accepted id belongs to a message of the batch that was not delivered or
  seen before, lies between the retained anchor and the past-epoch window, and decrypts on the selected
  branch; and when ids identify messages, every such message of the batch is accepted.\<close>

theorem app_delivery_exact:
  "let r = canonicalize_internal hex inp mats admit shared
   in distinct (accepted_app_messages r) \<and>
      (\<forall>i\<in>set (accepted_app_messages r). \<exists>m\<in>set (pending_messages inp).
         pm_message_id m = i \<and> deliverable inp shared (selected_branch_id r) m) \<and>
      (inj_on pm_message_id (set (pending_messages inp)) \<longrightarrow>
         (\<forall>m\<in>set (pending_messages inp). deliverable inp shared (selected_branch_id r) m \<longrightarrow>
            pm_message_id m \<in> set (accepted_app_messages r)))"
proof -
  let ?r = "canonicalize_internal hex inp mats admit shared"
  let ?D = "deliverable inp shared (selected_branch_id ?r)"
  have acc: "accepted_app_messages ?r = sort (map pm_message_id (filter ?D (pass_unique inp shared)))"
    unfolding result_accepted_apps using pass_accepts_app by (metis (mono_tags, lifting) filter_cong)
  have fresh: "?D m \<Longrightarrow> \<not> readmitted_witness m" for m
    by (auto simp: deliverable_def readmitted_witness_def)
  note dd = dedup_fresh [of shared "seen_message_ids (ci_state inp)" "{}" "pending_messages inp"]
  have "filter ?D (filter (Not \<circ> readmitted_witness) (pass_unique inp shared)) = filter ?D (pass_unique inp shared)"
    using fresh by (auto intro!: filter_cong)
  then have "distinct (map pm_message_id (filter ?D (pass_unique inp shared)))"
    using dd distinct_map_filter by (metis pass_unique_def)
  then have "distinct (accepted_app_messages ?r)" by (simp add: acc)
  moreover have "\<forall>i\<in>set (accepted_app_messages ?r). \<exists>m\<in>set (pending_messages inp).
      pm_message_id m = i \<and> ?D m"
    using dd by (auto simp: acc pass_unique_def)
  moreover have "pm_message_id m \<in> set (accepted_app_messages ?r)"
    if inj: "inj_on pm_message_id (set (pending_messages inp))" and m: "m \<in> set (pending_messages inp)" "?D m" for m
  proof -
    have "m \<in> set (pass_unique inp shared)"
      using dedup_kept [OF inj, of shared "seen_message_ids (ci_state inp)" "{}"] m fresh [OF m(2)]
      by (auto simp: pass_unique_def deliverable_def)
    then show ?thesis using m(2) by (simp add: acc)
  qed
  ultimately show ?thesis by (simp add: Let_def)
qed

section \<open>Independence of the batch order\<close>

text \<open>Two results that differ only in the order of their lists, accepted commits excepted.\<close>

definition similar :: "CanonicalizationResult \<Rightarrow> CanonicalizationResult \<Rightarrow> bool" where
  "similar r s \<longleftrightarrow>
     mset (accepted_proposals r) = mset (accepted_proposals s) \<and>
     mset (accepted_app_messages r) = mset (accepted_app_messages s) \<and>
     mset (deferred_messages r) = mset (deferred_messages s) \<and>
     mset (invalidated_app_messages r) = mset (invalidated_app_messages s) \<and>
     mset (dropped_messages r) = mset (dropped_messages s) \<and>
     mset (already_seen r) = mset (already_seen s) \<and>
     mset (queued_outbound_intents r) = mset (queued_outbound_intents s) \<and>
     mset (publishable_outbound_messages r) = mset (publishable_outbound_messages s) \<and>
     mset (errors r) = mset (errors s) \<and>
     previous_tip r = previous_tip s \<and> selected_tip r = selected_tip s \<and>
     selected_fork_epoch r = selected_fork_epoch s \<and> selected_branch_id r = selected_branch_id s \<and>
     candidate_count r = candidate_count s \<and> eligible_count r = eligible_count s \<and>
     convergence_status r = convergence_status s \<and> accepted_commits r = accepted_commits s \<and>
     selection_trace r = selection_trace s"

lemma similar_sort: "similar r s \<Longrightarrow> sort_result r = sort_result s"
  unfolding similar_def by (rule sort_result_cong) simp_all

lemma similar_ids: "similar r s \<Longrightarrow> mset (disposition_ids r) = mset (disposition_ids s)"
  by (simp add: similar_def disposition_ids_def)

lemma branch_reason_canon [simp]:
  "branch_ineligibility_reason inp (canon_branch c) = branch_ineligibility_reason inp c"
proof -
  have "bc_fork_epoch (canon_branch c) = bc_fork_epoch c" by (simp add: canon_branch_def)
  then show ?thesis by (simp add: branch_ineligibility_reason_def)
qed

lemma find_map: "List.find P (map f xs) = map_option f (List.find (P \<circ> f) xs)"
  by (induction xs) auto

text \<open>The verdict on a branch id depends on the candidates only up to the order of their witnesses.\<close>

lemma branch_verdict_canon:
  assumes "map canon_branch cs = map canon_branch cs'"
  shows "map_option (branch_ineligibility_reason inp) (List.find (\<lambda>c. bc_id c = b) cs) =
    map_option (branch_ineligibility_reason inp) (List.find (\<lambda>c. bc_id c = b) cs')"
proof -
  have "map_option (branch_ineligibility_reason inp) (List.find (\<lambda>c. bc_id c = b) xs) =
      map_option (branch_ineligibility_reason inp) (List.find (\<lambda>c. bc_id c = b) (map canon_branch xs))" for xs
    by (simp add: find_map comp_def option.map_comp)
  then show ?thesis using assms by metis
qed

lemma bind_map_option: "Option.bind x f = (case map_option f x of None \<Rightarrow> None | Some y \<Rightarrow> y)"
  by (cases x) auto

lemma list_ex_map_filter:
  "list_ex P (List.map_filter f xs) \<longleftrightarrow> (\<exists>x\<in>set xs. map_option P (f x) = Some True)"
  by (induction xs) (auto simp: map_filter_simps split: option.splits)

lemma app_disposition_canon:
  assumes "map canon_branch cs = map canon_branch cs'"
  shows "app_disposition inp m cs = app_disposition inp m cs'"
proof -
  have "map_option (\<lambda>c. branch_ineligibility_reason inp c = None) (List.find (\<lambda>c. bc_id c = b) xs) =
      map_option (\<lambda>x. x = None) (map_option (branch_ineligibility_reason inp) (List.find (\<lambda>c. bc_id c = b) xs))"
    for b xs by (simp add: option.map_comp comp_def)
  then show ?thesis
    unfolding app_disposition_def [abs_def] list_ex_map_filter
    by (simp only: branch_verdict_canon [OF assms])
qed

lemma classify_losing_commit_similar:
  assumes "similar r s" and "map_option (branch_ineligibility_reason inp) c = map_option (branch_ineligibility_reason inp) c'"
  shows "similar (classify_losing_commit inp c r mid) (classify_losing_commit inp c' s mid)"
proof -
  have sets: "set (deferred_messages r) = set (deferred_messages s)"
    "set (dropped_messages r) = set (dropped_messages s)" "accepted_commits r = accepted_commits s"
    using assms(1) by (auto simp: similar_def dest: mset_eq_setD)
  have c: "c = None \<longleftrightarrow> c' = None"
    "Option.bind c (branch_ineligibility_reason inp) = Option.bind c' (branch_ineligibility_reason inp)"
    using assms(2) by (cases c; cases c'; simp)+
  show ?thesis
    unfolding classify_losing_commit_def Let_def list_ex_iff sets c
    using assms(1) by (simp add: similar_def)
qed

lemma similar_foldl:
  assumes "\<And>r s x. similar r s \<Longrightarrow> similar (f r x) (g s x)" and "similar r s"
  shows "similar (foldl f r xs) (foldl g s xs)"
  using assms(2) by (induction xs arbitrary: r s) (simp_all add: assms(1))

lemma classify_all_similar:
  assumes "similar r s" and "map canon_branch cs = map canon_branch cs'"
  shows "similar (classify_losing_materialized_candidate_commits inp cs m r)
    (classify_losing_materialized_candidate_commits inp cs' m s)"
proof -
  have branch: "similar (classify_losing_branch inp cs sel r e) (classify_losing_branch inp cs' sel s e)"
    if "similar r s" for r s sel e
    unfolding classify_losing_branch_def
    using that classify_losing_commit_similar branch_verdict_canon [OF assms(2)]
    by (auto intro!: similar_foldl)
  have "selected_branch_id r = selected_branch_id s" using assms(1) by (simp add: similar_def)
  then show ?thesis
    unfolding classify_losing_materialized_candidate_commits_def
    using assms(1) branch by (auto intro: similar_foldl split: option.split)
qed

text \<open>The handlers read the state and the policy of the input, not its message list.\<close>

lemma message_disposition_pending:
  "message_disposition (inp\<lparr>pending_messages := x\<rparr>) = message_disposition inp"
  "branch_ineligibility_reason (inp\<lparr>pending_messages := x\<rparr>) = branch_ineligibility_reason inp"
proof -
  have st: "ci_state (inp\<lparr>pending_messages := x\<rparr>) = ci_state inp"
    "ci_policy (inp\<lparr>pending_messages := x\<rparr>) = ci_policy inp" by simp_all
  show b: "branch_ineligibility_reason (inp\<lparr>pending_messages := x\<rparr>) = branch_ineligibility_reason inp"
    unfolding branch_ineligibility_reason_def [abs_def] st ..
  show "message_disposition (inp\<lparr>pending_messages := x\<rparr>) = message_disposition inp"
    unfolding message_disposition_def [abs_def] commit_disposition_def proposal_disposition_def
      app_disposition_def st b ..
qed

lemma classify_pending:
  "classify_losing_materialized_candidate_commits (inp\<lparr>pending_messages := x\<rparr>) cs m r =
     classify_losing_materialized_candidate_commits inp cs m r"
  unfolding classify_losing_materialized_candidate_commits_def classify_losing_branch_def [abs_def]
    classify_losing_commit_def [abs_def] message_disposition_pending ..

lemma canon_branch_epochs [simp]:
  "bc_tip_epoch (canon_branch c) = bc_tip_epoch c" "bc_fork_epoch (canon_branch c) = bc_fork_epoch c"
  by (simp_all add: canon_branch_def)

text \<open>
  The hypotheses under which a batch is a set of messages: equal ids mean equal messages, and no two
  commits claim the same branch.
\<close>

definition batch_wf :: "PeeledMessage list \<Rightarrow> bool" where
  "batch_wf ms \<longleftrightarrow> inj_on pm_message_id (set ms) \<and>
     inj_on (\<lambda>m. commit_branch_id (pm_kind m)) {m \<in> set ms. is_commit m}"

lemma pass_unique_perm:
  assumes "batch_wf (pending_messages inp)" and "mset (pending_messages inp) = mset ms'"
  shows "mset (pass_unique (inp\<lparr>pending_messages := ms'\<rparr>) shared) = mset (pass_unique inp shared)"
    and "mset (pass_seen (inp\<lparr>pending_messages := ms'\<rparr>) shared) = mset (pass_seen inp shared)"
  using assms dedup_mset_cong [of "pending_messages inp" ms']
  by (simp_all add: pass_unique_def pass_seen_def batch_wf_def)

lemma pass_graph_perm:
  assumes "batch_wf (pending_messages inp)" and "mset (pending_messages inp) = mset ms'"
  defines "inp' \<equiv> inp\<lparr>pending_messages := ms'\<rparr>"
  shows "map canon_branch (candidates (pass_graph inp' mats admit shared)) =
           map canon_branch (candidates (pass_graph inp mats admit shared))"
    and "pass_graph inp' mats admit shared =
           (pass_graph inp mats admit shared)\<lparr>candidates := candidates (pass_graph inp' mats admit shared)\<rparr>"
proof -
  note u = pass_unique_perm(1) [OF assms(1,2), of shared, folded inp'_def]
  have inj: "inj_on pm_message_id {m \<in> set (pass_unique inp' shared). is_commit m}"
    unfolding pass_unique_def by (rule dedup_commit_ids_inj)
  have g: "materialize_candidate_graph inp' (pass_unique inp' shared) mats =
      materialize_candidate_graph inp (pass_unique inp shared) mats"
    using materialize_perm [OF u inj] by (simp add: inp'_def materialize_pending)
  show "map canon_branch (candidates (pass_graph inp' mats admit shared)) =
           map canon_branch (candidates (pass_graph inp mats admit shared))"
    using canon_with_witnesses_perm [OF u, of "ci_policy inp"]
    by (simp add: pass_graph_def Let_def g attach_app_witnesses_map) (simp add: inp'_def)
  show "pass_graph inp' mats admit shared =
           (pass_graph inp mats admit shared)\<lparr>candidates := candidates (pass_graph inp' mats admit shared)\<rparr>"
    by (simp add: pass_graph_def Let_def g attach_app_witnesses_def)
qed

lemma map_option_canon:
  "(\<And>c. f (canon_branch c) = f c) \<Longrightarrow> map_option canon_branch x = map_option canon_branch y \<Longrightarrow>
     map_option f x = map_option f y"
  by (cases x; cases y; simp) metis

lemma selection_canon:
  assumes "map canon_branch cs = map canon_branch cs'"
  shows "map_option bc_id (select_canonical_branch t cs p) = map_option bc_id (select_canonical_branch t cs' p)"
    and "map_option bc_tip_epoch (select_canonical_branch t cs p) =
         map_option bc_tip_epoch (select_canonical_branch t cs' p)"
    and "map_option bc_fork_epoch (select_canonical_branch t cs p) =
         map_option bc_fork_epoch (select_canonical_branch t cs' p)"
    and "select_canonical_branch_traced hex t cs p = select_canonical_branch_traced hex t cs' p"
    and "length cs = length cs'"
    and "length (filter (\<lambda>c. is_branch_eligible t c p) cs) = length (filter (\<lambda>c. is_branch_eligible t c p) cs')"
proof -
  have sel: "map_option canon_branch (select_canonical_branch t cs p) =
      map_option canon_branch (select_canonical_branch t cs' p)"
    using assms by (simp only: select_map_canon [symmetric])
  show "map_option bc_id (select_canonical_branch t cs p) = map_option bc_id (select_canonical_branch t cs' p)"
    "map_option bc_tip_epoch (select_canonical_branch t cs p) =
     map_option bc_tip_epoch (select_canonical_branch t cs' p)"
    "map_option bc_fork_epoch (select_canonical_branch t cs p) =
     map_option bc_fork_epoch (select_canonical_branch t cs' p)"
    by (rule map_option_canon [OF _ sel], simp)+
  show "select_canonical_branch_traced hex t cs p = select_canonical_branch_traced hex t cs' p"
    using assms by (metis traced_map_canon)
  show "length cs = length cs'" using assms by (metis length_map)
  have "length (filter (\<lambda>c. is_branch_eligible t c p) xs) =
      length (filter (\<lambda>c. is_branch_eligible t c p) (map canon_branch xs))" for xs
    by (simp add: filter_map comp_def)
  then show "length (filter (\<lambda>c. is_branch_eligible t c p) cs) =
      length (filter (\<lambda>c. is_branch_eligible t c p) cs')"
    using assms by metis
qed

lemma pass_initial_perm:
  assumes "batch_wf (pending_messages inp)" and "mset (pending_messages inp) = mset ms'"
  shows "pass_initial hex (inp\<lparr>pending_messages := ms'\<rparr>) mats admit shared =
    (pass_initial hex inp mats admit shared)\<lparr>already_seen := pass_seen (inp\<lparr>pending_messages := ms'\<rparr>) shared\<rparr>"
  unfolding pass_initial_def initial_result_def Let_def
  using selection_canon [OF pass_graph_perm(1) [OF assms, of mats admit shared]] by simp

lemma pass_path_perm:
  assumes "batch_wf (pending_messages inp)" and "mset (pending_messages inp) = mset ms'"
  shows "pass_path hex (inp\<lparr>pending_messages := ms'\<rparr>) mats admit shared = pass_path hex inp mats admit shared"
proof -
  have "commit_path_by_branch (pass_graph (inp\<lparr>pending_messages := ms'\<rparr>) mats admit shared) =
      commit_path_by_branch (pass_graph inp mats admit shared)"
    using arg_cong [OF pass_graph_perm(2) [OF assms, of mats admit shared], of commit_path_by_branch] by simp
  then show ?thesis
    unfolding pass_path_def pass_initial_perm [OF assms] selected_lookup_def by simp
qed

lemma proposal_disposition_canon:
  assumes "map canon_branch (context_candidate_branches ctx) = map canon_branch (context_candidate_branches ctx')"
    and "ctx' = ctx\<lparr>context_candidate_branches := context_candidate_branches ctx'\<rparr>"
  shows "proposal_disposition inp m b ctx' sel tip = proposal_disposition inp m b ctx sel tip"
proof -
  have "Option.bind (List.find (\<lambda>c. bc_id c = b) (context_candidate_branches ctx'))
      (branch_ineligibility_reason inp) =
    Option.bind (List.find (\<lambda>c. bc_id c = b) (context_candidate_branches ctx))
      (branch_ineligibility_reason inp)"
    unfolding bind_map_option branch_verdict_canon [OF assms(1)] ..
  moreover have "selected_consumed_proposal_ids ctx' = selected_consumed_proposal_ids ctx"
    "all_consumed_proposal_ids ctx' = all_consumed_proposal_ids ctx"
    "selected_branch_path ctx' = selected_branch_path ctx"
    "materialized_branch_ids ctx' = materialized_branch_ids ctx"
    by (subst assms(2), simp)+
  ultimately show ?thesis unfolding proposal_disposition_def by (simp only:)
qed

lemma pass_disposition_perm:
  assumes "batch_wf (pending_messages inp)" and "mset (pending_messages inp) = mset ms'"
  shows "pass_disposition hex (inp\<lparr>pending_messages := ms'\<rparr>) mats admit shared =
    pass_disposition hex inp mats admit shared"
proof
  fix m
  let ?inp' = "inp\<lparr>pending_messages := ms'\<rparr>"
  let ?g = "pass_graph inp mats admit shared" and ?g' = "pass_graph ?inp' mats admit shared"
  let ?r = "pass_initial hex inp mats admit shared" and ?r' = "pass_initial hex ?inp' mats admit shared"
  note cs = pass_graph_perm(1) [OF assms, of mats admit shared]
  have g: "?g' = ?g\<lparr>candidates := candidates ?g'\<rparr>" by (rule pass_graph_perm(2) [OF assms])
  have sel: "selected_branch_id ?r' = selected_branch_id ?r" "selected_tip ?r' = selected_tip ?r"
    unfolding pass_initial_perm [OF assms] by simp_all
  have lookup: "selected_lookup d ?r' = selected_lookup d ?r" for d :: "string set"
    unfolding selected_lookup_def [abs_def] sel ..
  have ctx: "proposal_context ?g' ?r' =
      (proposal_context ?g ?r)\<lparr>context_candidate_branches := candidates ?g'\<rparr>"
    by (subst g) (simp add: proposal_context_def lookup)
  have pd: "proposal_disposition inp m b (proposal_context ?g' ?r') = proposal_disposition inp m b (proposal_context ?g ?r)" for b
    by (intro ext proposal_disposition_canon)
      (use cs ctx in \<open>simp_all add: proposal_context_def\<close>)
  have "branch_ids ?g' = branch_ids ?g" by (subst g) simp
  then have "message_disposition inp ?g' sids (proposal_context ?g' ?r') s t m =
      message_disposition inp ?g sids (proposal_context ?g ?r) s t m" for sids s t
    unfolding message_disposition_def pd app_disposition_canon [OF cs] by (simp only:)
  then show "pass_disposition hex ?inp' mats admit shared m = pass_disposition hex inp mats admit shared m"
    by (simp add: pass_disposition_def Let_def message_disposition_pending pass_path_perm [OF assms] sel
        del: pass_initial_lists)
qed

lemma mset_map_filter_perm: "mset xs = mset ys \<Longrightarrow> mset (List.map_filter f xs) = mset (List.map_filter f ys)"
  by (simp add: List.map_filter_def mset_filter)

lemma single_mset_eq: "mset xs = mset ys \<Longrightarrow> length xs \<le> 1 \<Longrightarrow> xs = ys"
  by (cases xs rule: remdups_adj.cases) (auto dest: mset_eq_length simp: length_Suc_conv)

text \<open>With one commit per branch, at most one commit outside the selected path is accepted.\<close>

lemma accept_commit_cond:
  "Option.bind (message_disposition inp graph sids ctx sel tip m) as_commit \<noteq> None \<Longrightarrow>
     is_commit m \<and> sel = Some (commit_branch_id (pm_kind m))"
  by (cases "pm_kind m")
    (auto simp: message_disposition_def commit_disposition_def is_commit_def proposal_disposition_def
      app_disposition_def Let_def split: if_splits option.splits)

lemma length_map_filter_le1:
  assumes "distinct (map k (filter P xs))" and "\<And>x. x \<in> set xs \<Longrightarrow> f x \<noteq> None \<Longrightarrow> P x"
    and "\<And>x y. x \<in> set xs \<Longrightarrow> y \<in> set xs \<Longrightarrow> f x \<noteq> None \<Longrightarrow> f y \<noteq> None \<Longrightarrow> k x = k y"
  shows "length (List.map_filter f xs) \<le> 1"
proof -
  have "filter (\<lambda>x. f x \<noteq> None) xs = filter (\<lambda>x. f x \<noteq> None) (filter P xs)"
    using assms(2) by (auto intro: filter_cong)
  then have "distinct (map k (filter (\<lambda>x. f x \<noteq> None) xs))"
    using assms(1) distinct_map_filter by metis
  then have "length (filter (\<lambda>x. f x \<noteq> None) xs) = card (k ` set (filter (\<lambda>x. f x \<noteq> None) xs))"
    by (metis distinct_card length_map set_map)
  also have "\<dots> \<le> 1"
    using assms(3) by (intro card_le_Suc0_iff_eq [THEN iffD2, unfolded One_nat_def [symmetric]]) auto
  finally show ?thesis by (simp add: List.map_filter_def)
qed

lemma accepted_off_path_single:
  assumes "batch_wf (pending_messages inp)"
  shows "length (picks as_commit (List.map_filter (pass_disposition hex inp mats admit shared)
    (pass_unique inp shared))) \<le> 1"
  unfolding picks_map_filter
proof (rule length_map_filter_le1)
  let ?f = "\<lambda>m. Option.bind (pass_disposition hex inp mats admit shared m) as_commit"
  note dd = dedup_fresh [of shared "seen_message_ids (ci_state inp)" "{}" "pending_messages inp"]
  show "distinct (map pm_message_id (filter (Not \<circ> readmitted_witness) (pass_unique inp shared)))"
    using dd by (simp add: pass_unique_def)
  have cond: "is_commit m \<and> map_option bc_id (pass_selected inp mats admit shared) = Some (commit_branch_id (pm_kind m))"
    if "?f m \<noteq> None" for m
    using that accept_commit_cond unfolding pass_disposition_def Let_def pass_initial_lists by blast
  show "?f m \<noteq> None \<Longrightarrow> (Not \<circ> readmitted_witness) m" for m
    using cond [of m] commits_not_readmitted [of m] by simp
  fix m n assume "m \<in> set (pass_unique inp shared)" "n \<in> set (pass_unique inp shared)"
    and "?f m \<noteq> None" "?f n \<noteq> None"
  then have "m \<in> {m \<in> set (pending_messages inp). is_commit m}"
    "n \<in> {m \<in> set (pending_messages inp). is_commit m}"
    "commit_branch_id (pm_kind m) = commit_branch_id (pm_kind n)"
    using cond [of m] cond [of n] dd by (simp_all add: pass_unique_def)
  then show "pm_message_id m = pm_message_id n"
    using assms unfolding batch_wf_def inj_on_def by blast
qed

lemma pass_recorded_perm:
  assumes "batch_wf (pending_messages inp)" and "mset (pending_messages inp) = mset ms'"
  shows "similar (pass_recorded hex inp mats admit shared)
    (pass_recorded hex (inp\<lparr>pending_messages := ms'\<rparr>) mats admit shared)"
proof -
  let ?inp' = "inp\<lparr>pending_messages := ms'\<rparr>"
  let ?ds = "List.map_filter (pass_disposition hex inp mats admit shared) (pass_unique inp shared)"
  let ?ds' = "List.map_filter (pass_disposition hex inp mats admit shared) (pass_unique ?inp' shared)"
  have ds: "mset ?ds = mset ?ds'"
    using pass_unique_perm(1) [OF assms, of shared] by (intro mset_map_filter_perm) simp
  have "picks as_commit ?ds = picks as_commit ?ds'"
    using mset_picks_cong [OF ds] accepted_off_path_single [OF assms(1)] by (rule single_mset_eq)
  then show ?thesis
    using pass_unique_perm(2) [OF assms, of shared]
    unfolding pass_recorded_def pass_disposition_perm [OF assms] pass_path_perm [OF assms]
      pass_initial_perm [OF assms]
    by (simp add: similar_def recorded_lists mset_picks_cong [OF ds])
qed

lemma pass_release_perm:
  assumes "similar r s" and "mset (pending_messages inp) = mset ms'"
  shows "similar (pass_release inp r) (pass_release (inp\<lparr>pending_messages := ms'\<rparr>) s)"
proof -
  have "set (disposition_ids r) = set (disposition_ids s)" and "set (errors r) = set (errors s)"
    and "set (pending_messages inp) = set ms'"
    using similar_ids [OF assms(1)] assms by (auto simp: similar_def dest: mset_eq_setD)
  then have "convergence_status_for_result inp (pending_messages inp) r =
      convergence_status_for_result (inp\<lparr>pending_messages := ms'\<rparr>) ms' s"
    by (simp add: convergence_status_for_result_def has_blocking_convergence_error_def list_ex_iff Let_def)
  then show ?thesis
    using assms(1) by (simp add: pass_release_def similar_def Let_def)
qed

text \<open>
  C2: A pass does not depend on arrival order. For a batch in which equal ids mean equal messages
  (redeliveries allowed) and no two commits claim the same branch, permuting the batch leaves the whole
  result unchanged: selection, audit trace, every disposition list, status and outbound intents.\<close>

theorem canonicalize_order_independent:
  assumes "batch_wf (pending_messages inp)" and "mset (pending_messages inp) = mset ms'"
  shows "canonicalize_internal hex (inp\<lparr>pending_messages := ms'\<rparr>) mats admit shared =
         canonicalize_internal hex inp mats admit shared"
proof -
  let ?inp' = "inp\<lparr>pending_messages := ms'\<rparr>"
  have by_branch: "materialized_commit_ids_by_branch (pass_graph ?inp' mats admit shared) =
      materialized_commit_ids_by_branch (pass_graph inp mats admit shared)"
    using arg_cong [OF pass_graph_perm(2) [OF assms, of mats admit shared], of materialized_commit_ids_by_branch]
    by simp
  have "similar (pass_classified hex inp mats admit shared) (pass_classified hex ?inp' mats admit shared)"
    unfolding pass_classified_def by_branch classify_pending
    by (rule classify_all_similar [OF pass_recorded_perm [OF assms] pass_graph_perm(1) [OF assms, symmetric]])
  then have "similar (pass_release inp (pass_classified hex inp mats admit shared))
      (pass_release ?inp' (pass_classified hex ?inp' mats admit shared))"
    by (rule pass_release_perm) (rule assms(2))
  then show ?thesis
    unfolding canonicalize_internal_stages by (rule similar_sort [symmetric])
qed

section \<open>Concrete passes\<close>

definition example_pass :: CanonicalizationResult where
  "example_pass = canonicalize_internal (\<lambda>_. []) (example_input example_batch) [] True None"

definition example_pass_branch :: "string \<Rightarrow> u64 \<Rightarrow> AppWitness list \<Rightarrow> BranchCandidate" where
  "example_pass_branch i tip ws =
     \<lparr>bc_id = i, bc_fork_epoch = 10, bc_tip_epoch = tip, bc_tip_priority = Ordinary,
      bc_tip_committer = [1], bc_tip_digest = [9], bc_app_witnesses = ws\<rparr>"

lemma example_pass_candidates:
  "candidates (pass_graph (example_input example_batch) [] True None) =
     [example_pass_branch ''a'' 11 [], example_pass_branch ''b'' 12 [\<lparr>aw_epoch = 12, aw_sender = [2]\<rparr>]]"
  by code_simp

theorem app_delivery_exact_witness:
  "''m'' \<in> set (accepted_app_messages example_pass) \<and> distinct (accepted_app_messages example_pass)"
proof -
  let ?inp = "example_input example_batch" and ?m = "example_app ''m'' 12 [''b''] False"
  have sel: "selected_branch_id example_pass = Some ''b''"
    unfolding example_pass_def result_selection pass_selected_def example_pass_candidates
    by (simp add: selection_eval example_pass_branch_def example_input_def policy_eval)
  have inj: "inj_on pm_message_id (set (pending_messages ?inp))"
    by (auto simp: inj_on_def example_input_def example_batch_def example_commit_def example_app_def)
  have "?m \<in> set (pending_messages ?inp)" by (simp add: example_input_def example_batch_def)
  moreover have "deliverable ?inp None (selected_branch_id example_pass) ?m"
    unfolding sel
    by (simp add: deliverable_def example_app_def example_input_def known_ids_def unwrap_or_def
        policy_eval)
  moreover have "pm_message_id ?m = ''m''" by (simp add: example_app_def)
  ultimately show ?thesis
    using app_delivery_exact [of "\<lambda>_. []" ?inp "[]" True None] inj
    unfolding Let_def example_pass_def [symmetric] by metis
qed

theorem canonicalize_order_independent_witness:
  "batch_wf example_batch \<and>
   canonicalize_internal (\<lambda>_. []) (example_input (rev example_batch)) [] True None = example_pass"
proof -
  have "batch_wf example_batch"
    by (auto simp: batch_wf_def inj_on_def example_batch_def example_commit_def example_app_def is_commit_def)
  then show ?thesis
    using canonicalize_order_independent
      [of "example_input example_batch" "rev example_batch" "\<lambda>_. []" "[]" True None]
    by (simp add: example_input_def example_pass_def)
qed

text \<open>A pre-materialized branch that loses against the two-commit branch of the batch.\<close>

definition example_losing :: MaterializedCandidate where
  "example_losing =
     \<lparr>mc_branch = \<lparr>bc_id = ''z'', bc_fork_epoch = 10, bc_tip_epoch = 11, bc_tip_priority = Ordinary,
                   bc_tip_committer = [3], bc_tip_digest = [4], bc_app_witnesses = []\<rparr>,
      mc_commit_message_ids = [''commit-z''], mc_consumed_proposal_ids = []\<rparr>"

lemma example_losing_candidates:
  "candidates (pass_graph (example_input example_batch) [example_losing] True None) =
     [example_pass_branch ''a'' 11 [], example_pass_branch ''b'' 12 [\<lparr>aw_epoch = 12, aw_sender = [2]\<rparr>],
      mc_branch example_losing]"
  by code_simp

lemma example_losing_selected:
  "selected_branch_id
     (canonicalize_internal (\<lambda>_. []) (example_input example_batch) [example_losing] True None) = Some ''b''"
  unfolding result_selection pass_selected_def example_losing_candidates
  by (simp add: selection_eval example_pass_branch_def example_losing_def example_input_def policy_eval)


theorem canonicalize_accounts_once_witness:
  "mset (disposition_ids
     (canonicalize_internal (\<lambda>_. []) (example_input example_batch) [example_losing] True None)) =
   add_mset ''commit-z'' (mset (map pm_message_id example_batch))"
proof -
  have "candidates_apart (example_input example_batch) [example_losing]"
    by (simp add: candidates_apart_def materialized_ids_def example_losing_def example_input_def example_batch_def
        example_commit_def example_app_def)
  then show ?thesis
    using canonicalize_accounts_once [of "example_input example_batch" "[example_losing]" "\<lambda>_. []" True None]
    by (simp add: Let_def example_losing_selected) (simp add: materialized_ids_def example_losing_def example_input_def)
qed

end
