(* ===== verification/Epoch_State.thy ===== *)
theory Epoch_State
  imports Marmot_Prelude
begin

text \<open>
  The per-group commit lifecycle and the welcome lifecycle (\<open>crates/traits/src/engine_state.rs\<close>): the
  states with the data they carry, the queries and the transitions, each returning the new state or the
  \<open>InvalidTransition\<close> of the source. The messages buffered while recovering are opaque to the state
  machine and are a type parameter.

  The theorems tabulate the legal transitions exactly and show which states are left by which of them.
\<close>

section \<open>States\<close>

datatype GroupLifecycleState =
    LifecycleStable | LifecyclePendingPublish | LifecycleMerging | LifecycleRecovering
  | LifecycleUnrecoverable | LifecycleDisbanded

type_synonym EpochId = u64
type_synonym GroupId = bytes
type_synonym StagedCommitHandle = bytes
type_synonym PendingStateRef = u64

record PendingPublish =
  pp_epoch :: EpochId
  pp_pending :: StagedCommitHandle
  pp_pending_ref :: PendingStateRef

datatype 'msg EpochState =
    Stable (stable_epoch: EpochId)
  | PendingPublish (pending_publish: PendingPublish)
  | Merging (merging_epoch: EpochId)
  | Recovering (recovering_last_stable_epoch: EpochId) (recovering_buffered: "'msg list")
  | Unrecoverable (unrecoverable_last_stable_epoch: EpochId)
  | Disbanded (disbanded_epoch: EpochId)

record InvalidTransition =
  it_from :: string
  it_to :: string
  it_reason :: string

fun epoch :: "'msg EpochState \<Rightarrow> EpochId" where
  "epoch (Stable e) = e"
| "epoch (PendingPublish p) = pp_epoch p"
| "epoch (Merging e) = e"
| "epoch (Recovering e _) = e"
| "epoch (Unrecoverable e) = e"
| "epoch (Disbanded e) = e"

fun can_ingest :: "'msg EpochState \<Rightarrow> bool" where
  "can_ingest (Stable _) = True"
| "can_ingest (Recovering _ _) = True"
| "can_ingest _ = False"

fun is_resolving_local_publish :: "'msg EpochState \<Rightarrow> bool" where
  "is_resolving_local_publish (PendingPublish _) = True"
| "is_resolving_local_publish (Merging _) = True"
| "is_resolving_local_publish _ = False"

fun is_unrecoverable :: "'msg EpochState \<Rightarrow> bool" where
  "is_unrecoverable (Unrecoverable _) = True"
| "is_unrecoverable _ = False"

fun is_disbanded :: "'msg EpochState \<Rightarrow> bool" where
  "is_disbanded (Disbanded _) = True"
| "is_disbanded _ = False"

fun is_stable :: "'msg EpochState \<Rightarrow> bool" where
  "is_stable (Stable _) = True"
| "is_stable _ = False"

fun state_name :: "'msg EpochState \<Rightarrow> string" where
  "state_name (Stable _) = ''Stable''"
| "state_name (PendingPublish _) = ''PendingPublish''"
| "state_name (Merging _) = ''Merging''"
| "state_name (Recovering _ _) = ''Recovering''"
| "state_name (Unrecoverable _) = ''Unrecoverable''"
| "state_name (Disbanded _) = ''Disbanded''"

fun lifecycle_of :: "'msg EpochState \<Rightarrow> GroupLifecycleState" where
  "lifecycle_of (Stable _) = LifecycleStable"
| "lifecycle_of (PendingPublish _) = LifecyclePendingPublish"
| "lifecycle_of (Merging _) = LifecycleMerging"
| "lifecycle_of (Recovering _ _) = LifecycleRecovering"
| "lifecycle_of (Unrecoverable _) = LifecycleUnrecoverable"
| "lifecycle_of (Disbanded _) = LifecycleDisbanded"

section \<open>Transitions\<close>

definition begin_pending_state ::
  "'msg EpochState \<Rightarrow> EpochId \<Rightarrow> StagedCommitHandle \<Rightarrow> PendingStateRef \<Rightarrow> InvalidTransition + 'msg EpochState" where
  "begin_pending_state s new_epoch pending pending_ref =
     (case s of
        Stable _ \<Rightarrow>
          Inr (PendingPublish \<lparr>pp_epoch = new_epoch, pp_pending = pending, pp_pending_ref = pending_ref\<rparr>)
      | other \<Rightarrow>
          Inl \<lparr>it_from = state_name other, it_to = ''PendingPublish'',
               it_reason = ''begin_pending requires Stable''\<rparr>)"

definition confirm_publish_state :: "'msg EpochState \<Rightarrow> InvalidTransition + 'msg EpochState" where
  "confirm_publish_state s =
     (case s of
        PendingPublish p \<Rightarrow> Inr (Merging (pp_epoch p))
      | other \<Rightarrow>
          Inl \<lparr>it_from = state_name other, it_to = ''Merging'',
               it_reason = ''confirm_publish requires PendingPublish''\<rparr>)"

definition rollback_pending_state :: "'msg EpochState \<Rightarrow> EpochId \<Rightarrow> InvalidTransition + 'msg EpochState" where
  "rollback_pending_state s prior_epoch =
     (case s of
        PendingPublish _ \<Rightarrow> Inr (Stable prior_epoch)
      | other \<Rightarrow>
          Inl \<lparr>it_from = state_name other, it_to = ''Stable'',
               it_reason = ''rollback_pending requires PendingPublish''\<rparr>)"

definition merge_to_stable_state :: "'msg EpochState \<Rightarrow> EpochId \<Rightarrow> InvalidTransition + 'msg EpochState" where
  "merge_to_stable_state s next_epoch =
     (case s of
        Merging _ \<Rightarrow> Inr (Stable next_epoch)
      | other \<Rightarrow>
          Inl \<lparr>it_from = state_name other, it_to = ''Stable'',
               it_reason = ''merge_to_stable requires Merging''\<rparr>)"

definition detect_fork_state :: "'msg EpochState \<Rightarrow> 'msg list \<Rightarrow> 'msg EpochState" where
  "detect_fork_state s buffered = Recovering (epoch s) buffered"

definition to_unrecoverable_state :: "'msg EpochState \<Rightarrow> 'msg EpochState" where
  "to_unrecoverable_state s = Unrecoverable (epoch s)"

definition repair_to_stable_state :: "'msg EpochState \<Rightarrow> EpochId \<Rightarrow> InvalidTransition + 'msg EpochState" where
  "repair_to_stable_state s e =
     (case s of
        Unrecoverable _ \<Rightarrow> Inr (Stable e)
      | other \<Rightarrow>
          Inl \<lparr>it_from = state_name other, it_to = ''Stable'',
               it_reason = ''repair_to_stable requires Unrecoverable''\<rparr>)"

definition settle_to_disbanded_state :: "'msg EpochState \<Rightarrow> EpochId \<Rightarrow> InvalidTransition + 'msg EpochState" where
  "settle_to_disbanded_state s e =
     (case s of
        Recovering _ _ \<Rightarrow> Inr (Disbanded e)
      | other \<Rightarrow>
          Inl \<lparr>it_from = state_name other, it_to = ''Disbanded'',
               it_reason = ''disband terminalization requires Recovering''\<rparr>)"

section \<open>Welcomes\<close>

record PendingWelcomeState =
  pw_welcome_bytes :: bytes
  pw_group_id :: GroupId

datatype WelcomeState = WelcomeNone | WelcomePending PendingWelcomeState | WelcomeActive

definition welcome_pending :: "bytes \<Rightarrow> GroupId \<Rightarrow> WelcomeState" where
  "welcome_pending welcome_bytes gid = WelcomePending \<lparr>pw_welcome_bytes = welcome_bytes, pw_group_id = gid\<rparr>"

definition activate :: "WelcomeState \<Rightarrow> InvalidTransition + WelcomeState" where
  "activate w =
     (case w of
        WelcomePending _ \<Rightarrow> Inr WelcomeActive
      | WelcomeNone \<Rightarrow>
          Inl \<lparr>it_from = ''None'', it_to = ''Active'', it_reason = ''activate requires Pending''\<rparr>
      | WelcomeActive \<Rightarrow>
          Inl \<lparr>it_from = ''Active'', it_to = ''Active'', it_reason = ''activate requires Pending''\<rparr>)"

section \<open>The transition relation\<close>

text \<open>One step of the machine: any transition method that succeeds.\<close>

inductive epoch_step :: "'msg EpochState \<Rightarrow> 'msg EpochState \<Rightarrow> bool" where
  stage: "begin_pending_state s e h r = Inr s' \<Longrightarrow> epoch_step s s'"
| confirm: "confirm_publish_state s = Inr s' \<Longrightarrow> epoch_step s s'"
| rollback: "rollback_pending_state s e = Inr s' \<Longrightarrow> epoch_step s s'"
| merge: "merge_to_stable_state s e = Inr s' \<Longrightarrow> epoch_step s s'"
| fork: "epoch_step s (detect_fork_state s buffered)"
| halt: "epoch_step s (to_unrecoverable_state s)"
| repair: "repair_to_stable_state s e = Inr s' \<Longrightarrow> epoch_step s s'"
| disband: "settle_to_disbanded_state s e = Inr s' \<Longrightarrow> epoch_step s s'"

lemmas transition_defs = begin_pending_state_def confirm_publish_state_def rollback_pending_state_def
  merge_to_stable_state_def detect_fork_state_def to_unrecoverable_state_def
  repair_to_stable_state_def settle_to_disbanded_state_def

inductive_simps epoch_step_iff: "epoch_step s s'"

text \<open>
  The transition table, exactly. A step leads from \<open>Stable\<close> to \<open>PendingPublish\<close>; from \<open>PendingPublish\<close>
  to \<open>Merging\<close> at the staged epoch or back to \<open>Stable\<close>; from \<open>Merging\<close> or \<open>Unrecoverable\<close> to \<open>Stable\<close>;
  from any state to \<open>Recovering\<close> or \<open>Unrecoverable\<close> at its epoch; from \<open>Recovering\<close> to \<open>Disbanded\<close>; and
  nowhere else.\<close>

lemma epoch_step_table:
  "epoch_step s s' \<longleftrightarrow>
     (is_stable s \<and> (\<exists>p. s' = PendingPublish p)) \<or>
     (\<exists>p. s = PendingPublish p \<and> (s' = Merging (pp_epoch p) \<or> is_stable s')) \<or>
     ((\<exists>e. s = Merging e) \<and> is_stable s') \<or>
     (\<exists>b. s' = Recovering (epoch s) b) \<or> s' = Unrecoverable (epoch s) \<or>
     (is_unrecoverable s \<and> is_stable s') \<or>
     ((\<exists>e b. s = Recovering e b) \<and> is_disbanded s')"
proof -
  have "\<exists>e h r. \<lparr>pp_epoch = e, pp_pending = h, pp_pending_ref = r\<rparr> = p" for p :: PendingPublish
    by (cases p) auto
  then show ?thesis
    by (cases s; cases s') (auto simp: epoch_step_iff transition_defs)
qed

end
