(* ===== verification/Epoch_Manager.thy ===== *)
theory Epoch_Manager
  imports Epoch_State
begin

text \<open>
  The owner of every group's epoch state (\<open>crates/cgka-engine/src/epoch_manager.rs\<close>): the state map, the
  allocator of pending references and the reverse index from a reference to the group and epoch it was
  staged from. A method that takes \<open>&mut self\<close> and returns a \<open>Result\<close> is a function to the result and
  the manager afterwards, so that what a failed call leaves behind is visible. The audit context is
  opaque and a type parameter; warnings written to the log are left out.

  The theorems show that failed transitions change nothing and that a held publication has the index entry its two exits need,
  unless a restore under the same reference took the entry over. The lemmas at the end show three things the code allows
  beyond its comments.
\<close>

section \<open>The manager\<close>

datatype PendingKind = CreateGroup | GroupEvolution | Disband

record 'audit PendingMeta =
  pmeta_group_id :: GroupId
  pmeta_prior_epoch :: EpochId
  pmeta_kind :: PendingKind
  pmeta_audit_context :: "'audit option"

record ('msg, 'audit) EpochManager =
  em_states :: "GroupId \<Rightarrow> 'msg EpochState option"
  em_pending_counter :: u64
  em_pending :: "PendingStateRef \<Rightarrow> 'audit PendingMeta option"

datatype EngineError =
    UnknownGroup GroupId
  | UnknownPending
  | InvalidTransitionError InvalidTransition

definition new_manager :: "('msg, 'audit) EpochManager" where
  "new_manager = \<lparr>em_states = Map.empty, em_pending_counter = 0, em_pending = Map.empty\<rparr>"

text \<open>A \<open>HashMap\<close> iteration has no defined order, so the references of a group are a set.\<close>

definition pending_refs_for_group :: "('msg, 'audit) EpochManager \<Rightarrow> GroupId \<Rightarrow> PendingStateRef set" where
  "pending_refs_for_group m g = {r. \<exists>meta. em_pending m r = Some meta \<and> pmeta_group_id meta = g}"

definition forget_group :: "('msg, 'audit) EpochManager \<Rightarrow> GroupId \<Rightarrow> ('msg, 'audit) EpochManager" where
  "forget_group m g =
     m\<lparr>em_states := (em_states m)(g := None),
       em_pending := (\<lambda>r. case em_pending m r of
          None \<Rightarrow> None | Some meta \<Rightarrow> if pmeta_group_id meta \<noteq> g then Some meta else None)\<rparr>"

definition state_of :: "('msg, 'audit) EpochManager \<Rightarrow> GroupId \<Rightarrow> 'msg EpochState option" where
  "state_of m g = em_states m g"

definition clear_group_state :: "('msg, 'audit) EpochManager \<Rightarrow> GroupId \<Rightarrow> ('msg, 'audit) EpochManager" where
  "clear_group_state m g = m\<lparr>em_states := (em_states m)(g := None)\<rparr>"

definition manager_epoch :: "('msg, 'audit) EpochManager \<Rightarrow> GroupId \<Rightarrow> EpochId option" where
  "manager_epoch m g = map_option epoch (em_states m g)"

definition manager_can_ingest :: "('msg, 'audit) EpochManager \<Rightarrow> GroupId \<Rightarrow> bool" where
  "manager_can_ingest m g = (case em_states m g of None \<Rightarrow> True | Some s \<Rightarrow> can_ingest s)"

definition manager_is_unrecoverable :: "('msg, 'audit) EpochManager \<Rightarrow> GroupId \<Rightarrow> bool" where
  "manager_is_unrecoverable m g = (case em_states m g of None \<Rightarrow> False | Some s \<Rightarrow> is_unrecoverable s)"

definition manager_is_disbanded :: "('msg, 'audit) EpochManager \<Rightarrow> GroupId \<Rightarrow> bool" where
  "manager_is_disbanded m g = (case em_states m g of None \<Rightarrow> False | Some s \<Rightarrow> is_disbanded s)"

definition manager_is_resolving :: "('msg, 'audit) EpochManager \<Rightarrow> GroupId \<Rightarrow> bool" where
  "manager_is_resolving m g = (case em_states m g of None \<Rightarrow> False | Some s \<Rightarrow> is_resolving_local_publish s)"

definition next_pending_ref :: "('msg, 'audit) EpochManager \<Rightarrow> PendingStateRef \<times> ('msg, 'audit) EpochManager" where
  "next_pending_ref m =
     (em_pending_counter m + 1, m\<lparr>em_pending_counter := em_pending_counter m + 1\<rparr>)"

definition set_stable :: "('msg, 'audit) EpochManager \<Rightarrow> GroupId \<Rightarrow> EpochId \<Rightarrow> ('msg, 'audit) EpochManager" where
  "set_stable m g e =
     (if manager_is_unrecoverable m g \<or> manager_is_disbanded m g then m
      else if manager_is_resolving m g then m
      else m\<lparr>em_states := (em_states m)(g \<mapsto> Stable e)\<rparr>)"

definition state_or :: "('msg, 'audit) EpochManager \<Rightarrow> GroupId \<Rightarrow> 'msg EpochState \<Rightarrow> 'msg EpochState" where
  "state_or m g d = (case em_states m g of None \<Rightarrow> d | Some s \<Rightarrow> s)"

definition begin_pending ::
  "('msg, 'audit) EpochManager \<Rightarrow> GroupId \<Rightarrow> EpochId \<Rightarrow> EpochId \<Rightarrow> StagedCommitHandle \<Rightarrow> PendingStateRef
     \<Rightarrow> PendingKind \<Rightarrow> 'audit option \<Rightarrow> (EngineError + unit) \<times> ('msg, 'audit) EpochManager" where
  "begin_pending m g pre_commit_epoch new_epoch pending pending_ref pkind audit_context =
     (case begin_pending_state (state_or m g (Stable pre_commit_epoch)) new_epoch pending pending_ref of
        Inl err \<Rightarrow> (Inl (InvalidTransitionError err), m)
      | Inr new_state \<Rightarrow>
          (Inr (), m\<lparr>em_states := (em_states m)(g \<mapsto> new_state),
                     em_pending := (em_pending m)(pending_ref \<mapsto>
                       \<lparr>pmeta_group_id = g, pmeta_prior_epoch = pre_commit_epoch, pmeta_kind = pkind,
                        pmeta_audit_context = audit_context\<rparr>)\<rparr>))"

definition restore_pending ::
  "('msg, 'audit) EpochManager \<Rightarrow> GroupId \<Rightarrow> EpochId \<Rightarrow> EpochId \<Rightarrow> StagedCommitHandle \<Rightarrow> PendingStateRef
     \<Rightarrow> PendingKind \<Rightarrow> (EngineError + unit) \<times> ('msg, 'audit) EpochManager" where
  "restore_pending m g pre_commit_epoch new_epoch pending pending_ref pkind =
     begin_pending (m\<lparr>em_pending_counter := max (em_pending_counter m) pending_ref\<rparr>)
       g pre_commit_epoch new_epoch pending pending_ref pkind None"

definition group_for_pending :: "('msg, 'audit) EpochManager \<Rightarrow> PendingStateRef \<Rightarrow> GroupId option" where
  "group_for_pending m r = map_option pmeta_group_id (em_pending m r)"

definition kind_for_pending :: "('msg, 'audit) EpochManager \<Rightarrow> PendingStateRef \<Rightarrow> PendingKind option" where
  "kind_for_pending m r = map_option pmeta_kind (em_pending m r)"

definition audit_context_for_pending :: "('msg, 'audit) EpochManager \<Rightarrow> PendingStateRef \<Rightarrow> 'audit option" where
  "audit_context_for_pending m r = Option.bind (em_pending m r) pmeta_audit_context"

definition confirm_publish ::
  "('msg, 'audit) EpochManager \<Rightarrow> PendingStateRef
     \<Rightarrow> (EngineError + GroupId \<times> EpochId) \<times> ('msg, 'audit) EpochManager" where
  "confirm_publish m pending =
     (case em_pending m pending of
        None \<Rightarrow> (Inl UnknownPending, m)
      | Some meta \<Rightarrow>
          (let g = pmeta_group_id meta in
           case em_states m g of
             None \<Rightarrow> (Inl (UnknownGroup g), m)
           | Some prev \<Rightarrow>
               (case confirm_publish_state prev of
                  Inl err \<Rightarrow> (Inl (InvalidTransitionError err), m)
                | Inr merging \<Rightarrow>
                    (case merge_to_stable_state merging (epoch merging) of
                       Inl err \<Rightarrow> (Inl (InvalidTransitionError err), m)
                     | Inr settled \<Rightarrow>
                         (Inr (g, epoch merging),
                          m\<lparr>em_pending := (em_pending m)(pending := None),
                            em_states := (em_states m)(g \<mapsto> settled)\<rparr>)))))"

definition rollback_publish ::
  "('msg, 'audit) EpochManager \<Rightarrow> PendingStateRef
     \<Rightarrow> (EngineError + GroupId \<times> EpochId) \<times> ('msg, 'audit) EpochManager" where
  "rollback_publish m pending =
     (case em_pending m pending of
        None \<Rightarrow> (Inl UnknownPending, m)
      | Some meta \<Rightarrow>
          (let g = pmeta_group_id meta; prior_epoch = pmeta_prior_epoch meta in
           case em_states m g of
             None \<Rightarrow> (Inl (UnknownGroup g), m)
           | Some prev \<Rightarrow>
               (case rollback_pending_state prev prior_epoch of
                  Inl err \<Rightarrow> (Inl (InvalidTransitionError err), m)
                | Inr settled \<Rightarrow>
                    (Inr (g, prior_epoch),
                     m\<lparr>em_pending := (em_pending m)(pending := None),
                       em_states := (em_states m)(g \<mapsto> settled)\<rparr>))))"

definition mark_unrecoverable :: "('msg, 'audit) EpochManager \<Rightarrow> GroupId \<Rightarrow> ('msg, 'audit) EpochManager" where
  "mark_unrecoverable m g =
     m\<lparr>em_states := (em_states m)(g \<mapsto> to_unrecoverable_state (state_or m g (Stable 0)))\<rparr>"

definition restore_unrecoverable ::
  "('msg, 'audit) EpochManager \<Rightarrow> GroupId \<Rightarrow> EpochId \<Rightarrow> ('msg, 'audit) EpochManager" where
  "restore_unrecoverable m g last_stable_epoch =
     m\<lparr>em_states := (em_states m)(g \<mapsto> to_unrecoverable_state (Stable last_stable_epoch))\<rparr>"

definition repair_to_stable ::
  "('msg, 'audit) EpochManager \<Rightarrow> GroupId \<Rightarrow> EpochId \<Rightarrow> (EngineError + unit) \<times> ('msg, 'audit) EpochManager" where
  "repair_to_stable m g e =
     (case repair_to_stable_state (state_or m g (to_unrecoverable_state (Stable 0))) e of
        Inl err \<Rightarrow> (Inl (InvalidTransitionError err), m)
      | Inr new \<Rightarrow> (Inr (), m\<lparr>em_states := (em_states m)(g \<mapsto> new)\<rparr>))"

definition mark_disbanded ::
  "('msg, 'audit) EpochManager \<Rightarrow> GroupId \<Rightarrow> EpochId \<Rightarrow> (EngineError + unit) \<times> ('msg, 'audit) EpochManager" where
  "mark_disbanded m g e =
     (case settle_to_disbanded_state (detect_fork_state (state_or m g (Stable e)) []) e of
        Inl err \<Rightarrow> (Inl (InvalidTransitionError err), m)
      | Inr next \<Rightarrow> (Inr (), m\<lparr>em_states := (em_states m)(g \<mapsto> next)\<rparr>))"

definition restore_disbanded ::
  "('msg, 'audit) EpochManager \<Rightarrow> GroupId \<Rightarrow> EpochId \<Rightarrow> (EngineError + unit) \<times> ('msg, 'audit) EpochManager" where
  "restore_disbanded m g e =
     (case settle_to_disbanded_state (detect_fork_state (Stable e) []) e of
        Inl err \<Rightarrow> (Inl (InvalidTransitionError err), m)
      | Inr disbanded \<Rightarrow> (Inr (), m\<lparr>em_states := (em_states m)(g \<mapsto> disbanded)\<rparr>))"

section \<open>Runs of the manager\<close>

text \<open>
  A restored publication brings the reference it was persisted with, and \<open>restore_pending\<close> does not ask whether that
  reference is in flight. A restore that succeeds on a reference of another group takes its index entry over; the
  publication that loses its entry is recorded.
\<close>

definition taken_over ::
  "('msg, 'audit) EpochManager \<Rightarrow> GroupId \<Rightarrow> EpochId \<Rightarrow> PendingStateRef \<Rightarrow> (GroupId \<times> PendingStateRef) set" where
  "taken_over m g pre r =
     (case (em_pending m r, state_or m g (Stable pre)) of
        (Some meta, Stable _) \<Rightarrow> if pmeta_group_id meta = g then {} else {(pmeta_group_id meta, r)}
      | _ \<Rightarrow> {})"

text \<open>
  The engine's use of the manager, with the publications whose entries were taken over so far. Every publication is staged
  with a reference allocated right before; the counter stays below \<open>u64::MAX\<close> when a reference is allocated, as
  the Rust addition demands. Failed calls are steps too.
\<close>

inductive manager_step ::
  "('msg, 'audit) EpochManager \<times> (GroupId \<times> PendingStateRef) set \<Rightarrow>
   ('msg, 'audit) EpochManager \<times> (GroupId \<times> PendingStateRef) set \<Rightarrow> bool" where
  forget: "manager_step (m, L) (forget_group m g, L)"
| clear: "manager_step (m, L) (clear_group_state m g, L)"
| set_stable: "manager_step (m, L) (set_stable m g e, L)"
| stage: "em_pending_counter m \<noteq> - 1 \<Longrightarrow> next_pending_ref m = (r, m') \<Longrightarrow>
    manager_step (m, L) (snd (begin_pending m' g pre new h r k a), L)"
| restore: "manager_step (m, L) (snd (restore_pending m g pre new h r k), L \<union> taken_over m g pre r)"
| confirm: "manager_step (m, L) (snd (confirm_publish m r), L)"
| rollback: "manager_step (m, L) (snd (rollback_publish m r), L)"
| halt: "manager_step (m, L) (mark_unrecoverable m g, L)"
| restore_halt: "manager_step (m, L) (restore_unrecoverable m g e, L)"
| repair: "manager_step (m, L) (snd (repair_to_stable m g e), L)"
| disband: "manager_step (m, L) (snd (mark_disbanded m g e), L)"
| restore_disband: "manager_step (m, L) (snd (restore_disbanded m g e), L)"

definition manager_inv :: "('msg, 'audit) EpochManager \<times> (GroupId \<times> PendingStateRef) set \<Rightarrow> bool" where
  "manager_inv = (\<lambda>(m, L).
     (\<forall>g p. em_states m g = Some (PendingPublish p) \<longrightarrow> (g, pp_pending_ref p) \<notin> L \<longrightarrow>
        (\<exists>meta. em_pending m (pp_pending_ref p) = Some meta \<and> pmeta_group_id meta = g)) \<and>
     (\<forall>g e. em_states m g \<noteq> Some (Merging e)) \<and>
     (\<forall>r. em_pending m r \<noteq> None \<longrightarrow> r \<le> em_pending_counter m))"

lemma begin_pending_cases:
  "begin_pending m g pre new h r k a =
     (case state_or m g (Stable pre) of
        Stable _ \<Rightarrow>
          (Inr (), m\<lparr>em_states := (em_states m)(g \<mapsto>
                       PendingPublish \<lparr>pp_epoch = new, pp_pending = h, pp_pending_ref = r\<rparr>),
                     em_pending := (em_pending m)(r \<mapsto>
                       \<lparr>pmeta_group_id = g, pmeta_prior_epoch = pre, pmeta_kind = k,
                        pmeta_audit_context = a\<rparr>)\<rparr>)
      | s \<Rightarrow> (Inl (InvalidTransitionError
                \<lparr>it_from = state_name s, it_to = ''PendingPublish'',
                 it_reason = ''begin_pending requires Stable''\<rparr>), m))"
  by (simp add: begin_pending_def begin_pending_state_def split: EpochState.split)

lemma resolve_success:
  assumes "em_pending m r = Some meta" and "em_states m (pmeta_group_id meta) = Some (PendingPublish p)"
  shows "confirm_publish m r =
      (Inr (pmeta_group_id meta, pp_epoch p),
       m\<lparr>em_pending := (em_pending m)(r := None),
         em_states := (em_states m)(pmeta_group_id meta \<mapsto> Stable (pp_epoch p))\<rparr>)"
    and "rollback_publish m r =
      (Inr (pmeta_group_id meta, pmeta_prior_epoch meta),
       m\<lparr>em_pending := (em_pending m)(r := None),
         em_states := (em_states m)(pmeta_group_id meta \<mapsto> Stable (pmeta_prior_epoch meta))\<rparr>)"
  using assms
  by (simp_all add: confirm_publish_def rollback_publish_def transition_defs Let_def)

lemma resolve_failure:
  assumes "\<nexists>meta p. em_pending m r = Some meta \<and> em_states m (pmeta_group_id meta) = Some (PendingPublish p)"
  shows "snd (confirm_publish m r) = m" and "snd (rollback_publish m r) = m"
    and "isl (fst (confirm_publish m r))" and "isl (fst (rollback_publish m r))"
  using assms
  by (auto simp: confirm_publish_def rollback_publish_def transition_defs Let_def
      split: option.split EpochState.split)

lemma inv_set_state:
  assumes "manager_inv (m, L)" and "\<And>p. s \<noteq> Some (PendingPublish p)" and "\<And>e. s \<noteq> Some (Merging e)"
  shows "manager_inv (m\<lparr>em_states := (em_states m)(g := s)\<rparr>, L)"
  using assms by (simp add: manager_inv_def)

lemma inv_owner:
  "manager_inv (m, L) \<Longrightarrow> em_states m g = Some (PendingPublish p) \<Longrightarrow> (g, pp_pending_ref p) \<notin> L \<Longrightarrow>
     \<exists>meta. em_pending m (pp_pending_ref p) = Some meta \<and> pmeta_group_id meta = g"
  by (simp add: manager_inv_def)

lemma inv_settle:
  assumes inv: "manager_inv (m, L)" and meta: "em_pending m r = Some meta"
  shows "manager_inv (m\<lparr>em_pending := (em_pending m)(r := None),
    em_states := (em_states m)(pmeta_group_id meta \<mapsto> Stable e)\<rparr>, L)"
proof -
  have "pp_pending_ref p \<noteq> r"
    if "em_states m g = Some (PendingPublish p)" "(g, pp_pending_ref p) \<notin> L" "g \<noteq> pmeta_group_id meta" for g p
    using inv_owner [OF inv that(1,2)] meta that(3) by auto
  then show ?thesis using inv by (simp add: manager_inv_def)
qed

lemma resolve_inv:
  assumes "manager_inv (m, L)"
  shows "manager_inv (snd (confirm_publish m r), L) \<and> manager_inv (snd (rollback_publish m r), L)"
proof (cases "\<exists>meta p. em_pending m r = Some meta \<and> em_states m (pmeta_group_id meta) = Some (PendingPublish p)")
  case True
  then obtain meta p where mp: "em_pending m r = Some meta" "em_states m (pmeta_group_id meta) = Some (PendingPublish p)"
    by blast
  show ?thesis unfolding resolve_success [OF mp] using inv_settle [OF assms mp(1)] by simp
next
  case False
  then show ?thesis using assms by (simp add: resolve_failure)
qed

text \<open>Staging takes over the entry of its reference from whoever holds it.\<close>

lemma begin_pending_inv:
  assumes inv: "manager_inv (m, L)" and "r \<le> em_pending_counter m"
  shows "manager_inv (snd (begin_pending m g pre new h r k a), L \<union> taken_over m g pre r)"
proof (cases "\<exists>e. state_or m g (Stable pre) = Stable e")
  case True
  then obtain e where e: "state_or m g (Stable pre) = Stable e" by blast
  have "pp_pending_ref p \<noteq> r"
    if "em_states m g' = Some (PendingPublish p)" "(g', pp_pending_ref p) \<notin> L \<union> taken_over m g pre r" "g' \<noteq> g" for g' p
    using inv_owner [OF inv that(1)] that(2,3) e by (auto simp: taken_over_def)
  then show ?thesis using assms e by (auto simp: begin_pending_cases manager_inv_def)
next
  case False
  then have "snd (begin_pending m g pre new h r k a) = m" "taken_over m g pre r = {}"
    by (auto simp: begin_pending_cases taken_over_def split: EpochState.split option.split)
  then show ?thesis using inv by simp
qed

lemma forget_group_inv: "manager_inv (m, L) \<Longrightarrow> manager_inv (forget_group m g, L)"
proof -
  assume inv: "manager_inv (m, L)"
  have "\<exists>meta. em_pending (forget_group m g) (pp_pending_ref p) = Some meta \<and> pmeta_group_id meta = g'"
    if "em_states (forget_group m g) g' = Some (PendingPublish p)" "(g', pp_pending_ref p) \<notin> L" for g' p
    using inv_owner [OF inv _ that(2)] that(1) by (fastforce simp: forget_group_def split: if_splits)
  then show ?thesis
    using inv by (auto simp: manager_inv_def forget_group_def split: if_splits option.splits)
qed

lemma counter_inv: "manager_inv (m, L) \<Longrightarrow> em_pending_counter m \<le> c \<Longrightarrow> manager_inv (m\<lparr>em_pending_counter := c\<rparr>, L)"
  by (auto simp: manager_inv_def)

lemma next_pending_ref_fresh:
  assumes "manager_inv (m, L)" and "em_pending_counter m \<noteq> - 1" and "next_pending_ref m = (r, m')"
  shows "em_pending m r = None" "em_pending_counter m \<le> r" "m' = m\<lparr>em_pending_counter := r\<rparr>"
proof -
  have r: "r = em_pending_counter m + 1" and m': "m' = m\<lparr>em_pending_counter := r\<rparr>"
    using assms(3) by (auto simp: next_pending_ref_def)
  show "em_pending_counter m \<le> r" unfolding r using assms(2) by (simp add: word_le_nat_alt unat_plus_one)
  have "\<not> r \<le> em_pending_counter m" unfolding r using assms(2) by (simp add: word_le_nat_alt unat_plus_one)
  then show "em_pending m r = None" using assms(1) by (auto simp: manager_inv_def)
  show "m' = m\<lparr>em_pending_counter := r\<rparr>" by (rule m')
qed

lemma stage_inv:
  assumes "manager_inv (m, L)" and "em_pending_counter m \<noteq> - 1" and "next_pending_ref m = (r, m')"
  shows "manager_inv (snd (begin_pending m' g pre new h r k a), L)"
proof -
  note F = next_pending_ref_fresh [OF assms]
  have "manager_inv (m', L)" unfolding F(3) by (rule counter_inv [OF assms(1) F(2)])
  moreover have "taken_over m' g pre r = {}" using F(1) by (simp add: F(3) taken_over_def)
  ultimately show ?thesis using begin_pending_inv [of m' L r g pre new h k a] by (simp add: F(3))
qed

lemma state_or_counter: "state_or (m\<lparr>em_pending_counter := c\<rparr>) g s = state_or m g s"
  by (simp add: state_or_def)

lemma restore_pending_inv:
  assumes "manager_inv (m, L)"
  shows "manager_inv (snd (restore_pending m g pre new h r k), L \<union> taken_over m g pre r)"
proof -
  let ?m = "m\<lparr>em_pending_counter := max (em_pending_counter m) r\<rparr>"
  have "taken_over ?m g pre r = taken_over m g pre r" by (simp add: taken_over_def state_or_counter)
  then show ?thesis
    using begin_pending_inv [OF counter_inv [OF assms, of "max (em_pending_counter m) r"], of r g pre new h k None]
    by (simp add: restore_pending_def)
qed

lemma terminal_inv:
  assumes "manager_inv (m, L)"
  shows "manager_inv (mark_unrecoverable m g, L)" "manager_inv (restore_unrecoverable m g e, L)"
    "manager_inv (snd (repair_to_stable m g e), L)" "manager_inv (snd (mark_disbanded m g e), L)"
    "manager_inv (snd (restore_disbanded m g e), L)" "manager_inv (set_stable m g e, L)"
    "manager_inv (clear_group_state m g, L)"
  using assms
  by (auto simp: mark_unrecoverable_def restore_unrecoverable_def repair_to_stable_def
      mark_disbanded_def restore_disbanded_def set_stable_def clear_group_state_def transition_defs
      intro: inv_set_state split: EpochState.split)

lemma manager_step_inv: "manager_inv x \<Longrightarrow> manager_step x x' \<Longrightarrow> manager_inv x'"
  by (erule manager_step.cases)
    (simp_all add: forget_group_inv stage_inv restore_pending_inv resolve_inv terminal_inv)

lemma new_manager_inv: "manager_inv (new_manager, {})"
  by (simp add: manager_inv_def new_manager_def)

interpretation epoch_manager: invariant_system "\<lambda>x. x = (new_manager, {})" manager_step manager_inv
  by unfold_locales (simp add: new_manager_inv, rule manager_step_inv)

section \<open>Properties\<close>

text \<open>
  C17: In every run of the manager a held publication can be resolved either way, unless a restore took its reference
  over. A group in \<open>PendingPublish\<close> whose index entry was not handed to another group by \<open>restore_pending\<close> has its index
  entry; confirming its reference settles the group at the staged epoch, rolling it back settles it at the recorded
  prior epoch, and both retire the entry and touch no other group. \<open>Merging\<close> is never observable, and the next
  reference allocated, while the counter is below \<open>u64::MAX\<close>, is not in flight.\<close>

theorem held_publication_resolvable:
  assumes "manager_step\<^sup>*\<^sup>* (new_manager, {}) (m, L)"
  shows "(\<forall>g p. em_states m g = Some (PendingPublish p) \<longrightarrow> (g, pp_pending_ref p) \<notin> L \<longrightarrow>
           (\<exists>prior. fst (confirm_publish m (pp_pending_ref p)) = Inr (g, pp_epoch p) \<and>
              em_states (snd (confirm_publish m (pp_pending_ref p))) = (em_states m)(g \<mapsto> Stable (pp_epoch p)) \<and>
              em_pending (snd (confirm_publish m (pp_pending_ref p))) = (em_pending m)(pp_pending_ref p := None) \<and>
              fst (rollback_publish m (pp_pending_ref p)) = Inr (g, prior) \<and>
              em_states (snd (rollback_publish m (pp_pending_ref p))) = (em_states m)(g \<mapsto> Stable prior) \<and>
              em_pending (snd (rollback_publish m (pp_pending_ref p))) = (em_pending m)(pp_pending_ref p := None))) \<and>
         (\<forall>g e. em_states m g \<noteq> Some (Merging e)) \<and>
         (em_pending_counter m \<noteq> - 1 \<longrightarrow> em_pending m (fst (next_pending_ref m)) = None)"
proof -
  have inv: "manager_inv (m, L)" using epoch_manager.inv_reachable assms by blast
  have held: "\<exists>prior. fst (confirm_publish m (pp_pending_ref p)) = Inr (g, pp_epoch p) \<and>
              em_states (snd (confirm_publish m (pp_pending_ref p))) = (em_states m)(g \<mapsto> Stable (pp_epoch p)) \<and>
              em_pending (snd (confirm_publish m (pp_pending_ref p))) = (em_pending m)(pp_pending_ref p := None) \<and>
              fst (rollback_publish m (pp_pending_ref p)) = Inr (g, prior) \<and>
              em_states (snd (rollback_publish m (pp_pending_ref p))) = (em_states m)(g \<mapsto> Stable prior) \<and>
              em_pending (snd (rollback_publish m (pp_pending_ref p))) = (em_pending m)(pp_pending_ref p := None)"
    if g: "em_states m g = Some (PendingPublish p)" "(g, pp_pending_ref p) \<notin> L" for g p
  proof -
    obtain meta where meta: "em_pending m (pp_pending_ref p) = Some meta" "pmeta_group_id meta = g"
      using inv_owner [OF inv g] by blast
    then show ?thesis using resolve_success [OF meta(1), of p] g(1) by simp
  qed
  have "em_pending m (fst (next_pending_ref m)) = None" if "em_pending_counter m \<noteq> - 1"
    using next_pending_ref_fresh(1) [OF inv that] by (cases "next_pending_ref m") simp
  then show ?thesis using held inv by (auto simp: manager_inv_def)
qed

text \<open>A run that stages one publication.\<close>

definition example_staged :: "(unit, unit) EpochManager" where
  "example_staged =
     snd (begin_pending (snd (next_pending_ref new_manager)) [1] 4 5 [9] 1 GroupEvolution None)"

lemma example_staged_reachable: "manager_step\<^sup>*\<^sup>* (new_manager, {}) (example_staged, {})"
  unfolding example_staged_def
  by (intro r_into_rtranclp manager_step.stage) (simp_all add: next_pending_ref_def new_manager_def)

theorem held_publication_resolvable_witness:
  "\<exists>prior. fst (confirm_publish example_staged 1) = Inr ([1], 5) \<and>
           fst (rollback_publish example_staged 1) = Inr ([1], prior)"
proof -
  have "em_states example_staged [1] =
      Some (PendingPublish \<lparr>pp_epoch = 5, pp_pending = [9], pp_pending_ref = 1\<rparr>)"
    by (simp add: example_staged_def begin_pending_def state_or_def next_pending_ref_def new_manager_def
        begin_pending_state_def)
  then show ?thesis
    using held_publication_resolvable [OF example_staged_reachable] by fastforce
qed

text \<open>
  C32: Failed transitions are atomic. A staging, confirmation, rollback or repair that returns an error
  leaves the whole manager as it was; a failed restore changes at most the reference counter; and
  disbanding never fails.\<close>

theorem failed_transitions_atomic:
  "(isl (fst (begin_pending m g pre new h r k a)) \<longrightarrow> snd (begin_pending m g pre new h r k a) = m) \<and>
   (isl (fst (confirm_publish m r)) \<longrightarrow> snd (confirm_publish m r) = m) \<and>
   (isl (fst (rollback_publish m r)) \<longrightarrow> snd (rollback_publish m r) = m) \<and>
   (isl (fst (repair_to_stable m g e)) \<longrightarrow> snd (repair_to_stable m g e) = m) \<and>
   (isl (fst (restore_pending m g pre new h r k)) \<longrightarrow>
      snd (restore_pending m g pre new h r k) = m\<lparr>em_pending_counter := max (em_pending_counter m) r\<rparr>) \<and>
   \<not> isl (fst (mark_disbanded m g e)) \<and> \<not> isl (fst (restore_disbanded m g e))"
proof -
  have b: "isl (fst (begin_pending m g pre new h r k a)) \<longrightarrow> snd (begin_pending m g pre new h r k a) = m"
    for m :: "('c, 'd) EpochManager" and a
    by (simp add: begin_pending_cases split: EpochState.split)
  have "isl (fst (confirm_publish m r)) \<longrightarrow> snd (confirm_publish m r) = m"
    and "isl (fst (rollback_publish m r)) \<longrightarrow> snd (rollback_publish m r) = m"
    by (auto simp: confirm_publish_def rollback_publish_def transition_defs Let_def
        split: option.split EpochState.split)
  then show ?thesis
    using b by (auto simp: restore_pending_def repair_to_stable_def mark_disbanded_def
        restore_disbanded_def transition_defs split: EpochState.split)
qed

theorem failed_transitions_atomic_witness:
  "isl (fst (confirm_publish example_staged 2)) \<and> snd (confirm_publish example_staged 2) = example_staged"
proof -
  have "isl (fst (confirm_publish example_staged 2))"
    by (simp add: confirm_publish_def example_staged_def begin_pending_def state_or_def
        next_pending_ref_def new_manager_def begin_pending_state_def)
  then show ?thesis using failed_transitions_atomic [of example_staged _ _ _ _ 2] by blast
qed

text \<open>
  C33: Staging and resolving are inverse. For a group that is \<open>Stable\<close> at the pre-commit epoch and a
  reference not in flight, staging succeeds, rolling back afterwards restores the manager exactly, and
  confirming afterwards yields the manager with only that group moved to the new epoch.\<close>

theorem stage_resolve_roundtrip:
  assumes "em_states m g = Some (Stable pre)" and "em_pending m r = None"
  shows "let m' = snd (begin_pending m g pre new h r k a)
    in fst (begin_pending m g pre new h r k a) = Inr () \<and>
       rollback_publish m' r = (Inr (g, pre), m) \<and>
       confirm_publish m' r = (Inr (g, new), m\<lparr>em_states := (em_states m)(g \<mapsto> Stable new)\<rparr>)"
proof -
  let ?m' = "snd (begin_pending m g pre new h r k a)"
  have s: "em_states ?m' g = Some (PendingPublish \<lparr>pp_epoch = new, pp_pending = h, pp_pending_ref = r\<rparr>)"
    and p: "em_pending ?m' r = Some \<lparr>pmeta_group_id = g, pmeta_prior_epoch = pre, pmeta_kind = k,
      pmeta_audit_context = a\<rparr>"
    and ok: "fst (begin_pending m g pre new h r k a) = Inr ()"
    and undo: "(em_pending ?m')(r := None) = em_pending m"
    "(em_states ?m')(g \<mapsto> Stable e) = (em_states m)(g \<mapsto> Stable e)"
    "em_pending_counter ?m' = em_pending_counter m" for e
    using assms by (auto simp: begin_pending_cases state_or_def fun_upd_idem)
  have "(em_states m)(g \<mapsto> Stable pre) = em_states m" using assms(1) by (rule fun_upd_idem)
  then show ?thesis
    using resolve_success [OF p, unfolded PendingMeta.simps, OF s] ok undo by (simp add: Let_def)
qed

theorem stage_resolve_roundtrip_witness:
  "let m = set_stable new_manager [1] 4; m' = snd (begin_pending m [1] 4 5 [9] 1 GroupEvolution None)
   in rollback_publish m' 1 = (Inr ([1], 4), m :: (unit, unit) EpochManager)"
proof -
  let ?m = "set_stable new_manager [1] 4 :: (unit, unit) EpochManager"
  have "em_states ?m [1] = Some (Stable 4)" "em_pending ?m 1 = None"
    by (simp_all add: set_stable_def new_manager_def manager_is_unrecoverable_def
        manager_is_disbanded_def manager_is_resolving_def)
  then show ?thesis
    using stage_resolve_roundtrip [of ?m "[1]" 4 1 5 "[9]" GroupEvolution None] by (simp add: Let_def)
qed

section \<open>What the manager allows beyond its comments\<close>

text \<open>
  A \<open>Disbanded\<close> group that is marked unrecoverable and then repaired is \<open>Stable\<close> again, and an \<open>Unrecoverable\<close> group
  leaves that state by being marked disbanded; the comments of \<open>engine_state.rs\<close> exclude both.\<close>

lemma terminal_states_have_exits:
  "(em_states m g = Some (Disbanded e) \<longrightarrow>
      fst (repair_to_stable (mark_unrecoverable m g) g e') = Inr () \<and>
      em_states (snd (repair_to_stable (mark_unrecoverable m g) g e')) g = Some (Stable e')) \<and>
   (em_states m g = Some (Unrecoverable e) \<longrightarrow>
      em_states (snd (mark_disbanded m g e')) g = Some (Disbanded e'))"
  by (simp add: mark_unrecoverable_def repair_to_stable_def mark_disbanded_def state_or_def transition_defs)

text \<open>
  A stale reference resolves a newer publication: resolution finds the group through the reference and does not compare it
  with the reference the group holds. An entry that \<open>mark_unrecoverable\<close> stranded settles whatever the group staged
  after its repair, and the newer reference then resolves nothing.\<close>

lemma stale_reference_resolves_newer:
  assumes "em_pending m r = Some meta" "pmeta_group_id meta = g" and "em_states m g = Some (PendingPublish p)"
    and "em_pending m (pp_pending_ref p) = Some meta'" "pmeta_group_id meta' = g" and "pp_pending_ref p \<noteq> r"
  shows "fst (confirm_publish m r) = Inr (g, pp_epoch p)"
    and "isl (fst (confirm_publish (snd (confirm_publish m r)) (pp_pending_ref p)))"
proof -
  have c: "confirm_publish m r = (Inr (g, pp_epoch p),
      m\<lparr>em_pending := (em_pending m)(r := None), em_states := (em_states m)(g \<mapsto> Stable (pp_epoch p))\<rparr>)"
    using resolve_success(1) [OF assms(1)] assms(2,3) by simp
  then show "fst (confirm_publish m r) = Inr (g, pp_epoch p)" by simp
  show "isl (fst (confirm_publish (snd (confirm_publish m r)) (pp_pending_ref p)))"
    unfolding c using assms(4-6) by (simp add: confirm_publish_def transition_defs Let_def)
qed

text \<open>
  A restore takes a reference over: with \<open>r\<close> in flight for \<open>a\<close>, restoring a publication of the stable group \<open>b\<close> under \<open>r\<close>
  succeeds, and from then on \<open>r\<close> resolves \<open>b\<close> while the publication of \<open>a\<close> stays held.\<close>

lemma restore_takes_reference_over:
  assumes "em_states m a = Some (PendingPublish p)" and "em_pending m (pp_pending_ref p) = Some meta" and "a \<noteq> b"
    and "state_or m b (Stable pre) = Stable e"
  shows "fst (restore_pending m b pre new h (pp_pending_ref p) k) = Inr ()"
    and "confirm_publish (snd (restore_pending m b pre new h (pp_pending_ref p) k)) (pp_pending_ref p) =
      (Inr (b, new), m\<lparr>em_pending_counter := max (em_pending_counter m) (pp_pending_ref p),
         em_states := (em_states m)(b \<mapsto> Stable new), em_pending := (em_pending m)(pp_pending_ref p := None)\<rparr>)"
proof -
  let ?r = "pp_pending_ref p" and ?m = "m\<lparr>em_pending_counter := max (em_pending_counter m) (pp_pending_ref p)\<rparr>"
  have b: "state_or ?m b (Stable pre) = Stable e" using assms(4) by (simp add: state_or_counter)
  show "fst (restore_pending m b pre new h ?r k) = Inr ()" by (simp add: restore_pending_def begin_pending_cases b)
  show "confirm_publish (snd (restore_pending m b pre new h ?r k)) ?r =
      (Inr (b, new), m\<lparr>em_pending_counter := max (em_pending_counter m) ?r,
         em_states := (em_states m)(b \<mapsto> Stable new), em_pending := (em_pending m)(?r := None)\<rparr>)"
    by (simp add: restore_pending_def begin_pending_cases b confirm_publish_def transition_defs Let_def)
qed

end
