(* ===== verification/Codec.thy ===== *)
theory Codec
  imports Marmot_Prelude
begin

text \<open>
  The variable-length integer and component-list codecs of the group-state components
  (\<open>crates/traits/src/app_components/codec.rs\<close>). A writer appending to \<open>out\<close> is the function that yields
  the bytes appended; a reader advancing \<open>cursor\<close> returns the remaining bytes with its result. \<open>usize\<close> has
  64 bits, so that \<open>usize::try_from\<close> of a \<open>u64\<close> cannot fail; error texts are those of the source.

  The theorems show that each decoder accepts exactly the output of its encoder.
\<close>

unbundle bit_operations_syntax

section \<open>Integers\<close>

text \<open>\<open>to_be_bytes\<close> of an \<open>n\<close>-byte word.\<close>

definition to_be_bytes :: "nat \<Rightarrow> 'a::len word \<Rightarrow> bytes" where
  "to_be_bytes n w = map (\<lambda>i. ucast (drop_bit (8 * i) w)) (rev [0..<n])"

definition encode_quic_varint :: "u64 \<Rightarrow> bytes" where
  "encode_quic_varint value =
     (if value < 64 then [ucast value]
      else if value < 16384 then to_be_bytes 2 (0x4000 OR ucast value :: u16)
      else if value < 1073741824 then to_be_bytes 4 (0x80000000 OR ucast value :: u32)
      else to_be_bytes 8 (0xC000000000000000 OR value))"

definition minimal_width :: "u64 \<Rightarrow> nat" where
  "minimal_width value =
     (if value < 64 then 1 else if value < 16384 then 2 else if value < 1073741824 then 4 else 8)"

fun decode_quic_varint :: "bytes \<Rightarrow> string + (u64 \<times> nat)" where
  "decode_quic_varint [] = Inl ''missing QUIC varint''"
| "decode_quic_varint (first # rest) =
     (let width = 2 ^ unat (drop_bit 6 first) in
      if length (first # rest) < width then Inl ''truncated QUIC varint''
      else
        let value = foldl (\<lambda>value byte. push_bit 8 value OR ucast byte)
                      (ucast (first AND 0x3f)) (take (width - 1) rest)
        in if width \<noteq> minimal_width value then Inl ''non-canonical QUIC varint length''
           else Inr (value, width))"

section \<open>Byte strings\<close>

definition encode_var_bytes :: "bytes \<Rightarrow> bytes" where
  "encode_var_bytes bs = encode_quic_varint (word_of_nat (length bs)) @ bs"

definition encode_component_vectors :: "bytes list \<Rightarrow> bytes" where
  "encode_component_vectors parts =
     concat (map (\<lambda>part. encode_quic_varint (word_of_nat (length part)) @ part) parts)"

definition decode_var_bytes :: "bytes \<Rightarrow> nat \<Rightarrow> string \<Rightarrow> (string + bytes) \<times> bytes" where
  "decode_var_bytes cursor max_len label =
     (case decode_quic_varint cursor of
        Inl e \<Rightarrow> (Inl (label @ '' length decode failed: '' @ e), cursor)
      | Inr (len, prefix_len) \<Rightarrow>
          if unat len > max_len then (Inl (label @ '' exceeds maximum length''), cursor)
          else if prefix_len + unat len \<ge> 2 ^ 64 then (Inl (label @ '' length overflow''), cursor)
          else if length cursor < prefix_len + unat len then (Inl (label @ '' is truncated''), cursor)
          else (Inr (take (unat len) (drop prefix_len cursor)), drop (prefix_len + unat len) cursor))"

section \<open>Component lists\<close>

definition encode_components_list :: "u16 set \<Rightarrow> bytes" where
  "encode_components_list ids =
     encode_quic_varint (word_of_nat (card ids * 2))
     @ concat (map (to_be_bytes 2) (sorted_list_of_set ids))"

definition u16_from_be_bytes :: "u8 \<Rightarrow> u8 \<Rightarrow> u16" where
  "u16_from_be_bytes hi lo = push_bit 8 (ucast hi) OR ucast lo"

text \<open>The loop over \<open>chunks_exact(2)\<close>, which ignores a trailing odd byte.\<close>

fun decode_ids :: "u16 set \<Rightarrow> u16 option \<Rightarrow> bytes \<Rightarrow> string + u16 set" where
  "decode_ids ids previous (hi # lo # rest) =
     (let i = u16_from_be_bytes hi lo in
      if i \<in> ids then Inl ''component list contains duplicate ids''
      else if (case previous of None \<Rightarrow> False | Some p \<Rightarrow> i < p) then Inl ''component list is not sorted''
      else decode_ids (insert i ids) (Some i) rest)"
| "decode_ids ids previous _ = Inr ids"

definition decode_components_list :: "bytes \<Rightarrow> string + u16 set" where
  "decode_components_list bs =
     (case decode_quic_varint bs of
        Inl e \<Rightarrow> Inl e
      | Inr (len, prefix_len) \<Rightarrow>
          if prefix_len + unat len \<ge> 2 ^ 64 then Inl ''component list length overflow''
          else if prefix_len + unat len \<noteq> length bs then Inl ''component list has trailing bytes''
          else if unat len mod 2 \<noteq> 0 then Inl ''component list byte length must be even''
          else decode_ids {} None (drop prefix_len bs))"

section \<open>Big-endian digits\<close>

definition be_digits :: "nat \<Rightarrow> nat \<Rightarrow> bytes" where
  "be_digits n x = map (\<lambda>i. word_of_nat (x div 256 ^ i)) (rev [0..<n])"

definition be_value :: "nat \<Rightarrow> bytes \<Rightarrow> nat" where
  "be_value v bs = foldl (\<lambda>v b. v * 256 + unat b) v bs"

lemma be_digits_Suc: "be_digits (Suc n) x = be_digits n (x div 256) @ [word_of_nat x]"
proof -
  have "map (\<lambda>i. word_of_nat (x div 256 ^ i)) (rev [0..<Suc n]) =
      map (\<lambda>i. word_of_nat (x div 256 ^ Suc i)) (rev [0..<n]) @ [word_of_nat x :: u8]"
    by (simp add: upt_conv_Cons rev_map [symmetric] map_Suc_upt [symmetric] comp_def del: upt_Suc)
  then show ?thesis by (simp add: be_digits_def div_mult2_eq)
qed

lemma be_digits_length [simp]: "length (be_digits n x) = n"
  by (simp add: be_digits_def)

lemma be_value_append: "be_value v (bs @ [b]) = be_value v bs * 256 + unat b"
  by (simp add: be_value_def)

lemma be_value_digits: "x < 256 ^ n \<Longrightarrow> be_value 0 (be_digits n x) = x"
proof (induction n arbitrary: x)
  case 0
  then show ?case by (simp add: be_digits_def be_value_def)
next
  case (Suc n)
  then have "x div 256 < 256 ^ n" by (simp add: less_mult_imp_div_less)
  then show ?case
    by (simp add: be_digits_Suc be_value_append Suc.IH unsigned_of_nat take_bit_eq_mod)
qed

lemma u8_bound: "unat (b :: u8) < 256"
  by (rule order_less_le_trans [OF unat_less_exp]) simp

lemma unat_u8_of_nat: "unat (word_of_nat n :: u8) = n mod 256"
  by (simp add: unsigned_of_nat take_bit_eq_mod)

lemma be_digits_value: "be_digits (length bs) (be_value 0 bs) = bs"
proof (induction bs rule: rev_induct)
  case Nil
  then show ?case by (simp add: be_digits_def)
next
  case (snoc b bs)
  have b: "unat b < 256" by (simp add: u8_bound)
  then have "(be_value 0 bs * 256 + unat b) div 256 = be_value 0 bs" by simp
  moreover have "word_of_nat (be_value 0 bs * 256 + unat b) = b"
    using b by (simp only: word_unat_eq_iff unat_u8_of_nat) simp
  ultimately show ?case using snoc by (simp add: be_digits_Suc be_value_append)
qed

section \<open>Bit arithmetic as natural arithmetic\<close>

lemma nat_or_shift: "b < 2 ^ k \<Longrightarrow> (m * 2 ^ k) OR b = m * 2 ^ k + (b :: nat)"
proof -
  assume "b < 2 ^ k"
  then have b: "take_bit k b = b" by (simp add: take_bit_nat_eq_self)
  have "bit (push_bit k m) n \<Longrightarrow> \<not> bit (take_bit k b) n" for n
    by (auto simp: bit_push_bit_iff bit_take_bit_iff)
  then have "push_bit k m AND take_bit k b = 0"
    by (intro bit_eqI) (auto simp: bit_and_iff)
  then have "push_bit k m + b = push_bit k m OR b"
    by (simp add: b disjunctive_add_eq_or)
  then show ?thesis by (simp add: push_bit_eq_mult)
qed

lemma to_be_bytes_digits: "to_be_bytes n w = be_digits n (unat w)"
proof -
  have "ucast (drop_bit (8 * i) w) = (word_of_nat (unat w div 256 ^ i) :: u8)" for i
  proof -
    have "unat (drop_bit (8 * i) w) = unat w div 256 ^ i"
      unfolding unsigned_drop_bit_eq
      by (simp add: take_bit_nat_eq_self drop_bit_eq_div power_mult)
    then have "unat (ucast (drop_bit (8 * i) w) :: u8) = unat w div 256 ^ i mod 256"
      unfolding unsigned_ucast_eq by (simp add: take_bit_eq_mod)
    then show ?thesis by (simp only: word_unat_eq_iff unat_u8_of_nat)
  qed
  then show ?thesis by (simp add: to_be_bytes_def be_digits_def)
qed

lemma unat_or: "unat (a OR b) = unat a OR unat b"
  by (simp add: unsigned_or_eq)

lemma shift_in_byte:
  "unat (v :: u64) < 2 ^ 56 \<Longrightarrow> unat (push_bit 8 v OR ucast (b :: u8)) = unat v * 256 + unat b"
proof -
  assume v: "unat v < 2 ^ 56"
  have b: "unat b < 2 ^ 8" using u8_bound [of b] by simp
  have "unat (push_bit 8 v) = unat v * 2 ^ 8"
    unfolding unsigned_push_bit_eq using v by (simp add: push_bit_eq_mult take_bit_eq_mod)
  moreover have "unat (ucast b :: u64) = unat b"
    using b by (simp add: unsigned_ucast_eq take_bit_nat_eq_self)
  ultimately show ?thesis
    unfolding unat_or using nat_or_shift [OF b, of "unat v"] by simp
qed

lemma be_value_shift: "be_value v bs = v * 256 ^ length bs + be_value 0 bs"
proof (induction bs rule: rev_induct)
  case (snoc b bs)
  then show ?case by (simp add: be_value_append)
qed (simp add: be_value_def)

lemma be_value_bound: "be_value 0 bs < 256 ^ length bs"
proof (induction bs rule: rev_induct)
  case (snoc b bs)
  have "unat b < 256" by (simp add: u8_bound)
  moreover have "Suc (be_value 0 bs) * 256 \<le> 256 ^ length bs * 256"
    using snoc by (intro mult_le_mono1) simp
  ultimately show ?case by (simp add: be_value_append)
qed (simp add: be_value_def)

lemma decode_fold_value:
  fixes v :: u64 and bs :: bytes
  assumes "unat v < 64" and "length bs \<le> 7"
  shows "unat (foldl (\<lambda>value byte. push_bit 8 value OR ucast byte) v bs) = be_value (unat v) bs"
  using assms
proof (induction bs rule: rev_induct)
  case (snoc b bs)
  let ?v = "foldl (\<lambda>value byte. push_bit 8 value OR ucast byte) v bs"
  have IH: "unat ?v = be_value (unat v) bs" using snoc by simp
  have "be_value (unat v) bs < (unat v + 1) * 256 ^ length bs"
    using be_value_bound [of bs] by (simp add: be_value_shift [of "unat v"])
  also have "\<dots> \<le> 64 * 256 ^ 6"
    using snoc.prems by (intro mult_le_mono power_increasing) simp_all
  finally have "unat ?v < 2 ^ 56" by (simp add: IH)
  from shift_in_byte [OF this, of b] show ?case by (simp add: be_value_append IH)
qed (simp add: be_value_def)

text \<open>Reading a varint, in natural arithmetic: the two top bits of the first byte select the width.\<close>

definition varint_width :: "u8 \<Rightarrow> nat" where
  "varint_width first = 2 ^ (unat first div 64)"

lemma varint_tag: "unat (drop_bit 6 (first :: u8)) = unat first div 64"
  unfolding unsigned_drop_bit_eq using u8_bound [of first]
  by (simp add: take_bit_nat_eq_self drop_bit_eq_div)

lemma varint_low: "unat (ucast ((first :: u8) AND 0x3f) :: u64) = unat first mod 64"
proof -
  have "(0x3f :: u8) = mask 6" by (simp add: mask_eq_exp_minus_1)
  then have "first AND 0x3f = take_bit 6 first" by (simp only: take_bit_eq_mask)
  then have "unat (ucast (first AND 0x3f) :: u64) = take_bit 64 (take_bit 6 (unat first))"
    by (simp only: unsigned_ucast_eq unsigned_take_bit_eq len_num1 len_bit0) simp
  then show ?thesis by (simp add: take_bit_eq_mod)
qed

lemma width_cases: "varint_width first \<in> {1, 2, 4, 8}"
proof -
  have "unat first div 64 < 4" using u8_bound [of first] by simp
  then have "unat first div 64 \<in> {0, 1, 2, 3}" by auto
  then show ?thesis by (auto simp: varint_width_def)
qed

lemma varint_prefix_value:
  assumes "varint_width first \<le> length (first # rest)"
  shows "be_value 0 (take (varint_width first) (first # rest)) =
    unat first div 64 * (64 * 256 ^ (varint_width first - 1))
    + be_value (unat first mod 64) (take (varint_width first - 1) rest)"
proof -
  let ?k = "varint_width first - 1" and ?tl = "take (varint_width first - 1) rest"
  have len: "length ?tl = ?k" using assms by simp
  have "take (varint_width first) (first # rest) = first # ?tl"
    using width_cases [of first] by (cases "varint_width first") auto
  then have "be_value 0 (take (varint_width first) (first # rest)) = be_value (unat first) ?tl"
    by (simp add: be_value_def)
  also have "\<dots> = unat first * 256 ^ ?k + be_value 0 ?tl" using be_value_shift [of "unat first" ?tl] len by simp
  also have "\<dots> = (unat first div 64 * 64 + unat first mod 64) * 256 ^ ?k + be_value 0 ?tl" by simp
  also have "\<dots> = unat first div 64 * (64 * 256 ^ ?k) + (unat first mod 64 * 256 ^ ?k + be_value 0 ?tl)"
    by (simp only: add_mult_distrib mult.assoc add.assoc)
  also have "unat first mod 64 * 256 ^ ?k + be_value 0 ?tl = be_value (unat first mod 64) ?tl"
    using be_value_shift [of "unat first mod 64" ?tl] len by simp
  finally show ?thesis .
qed

lemma varint_value_bound:
  assumes "length bs = k" and "v < 64"
  shows "be_value v bs < 64 * 256 ^ k"
proof -
  have "be_value v bs < Suc v * 256 ^ k" using be_value_bound [of bs] assms(1) be_value_shift [of v bs] by simp
  also have "\<dots> \<le> 64 * 256 ^ k" using assms(2) by (intro mult_le_mono1) simp
  finally show ?thesis .
qed

section \<open>Encoding in natural arithmetic\<close>

definition width_tag :: "nat \<Rightarrow> nat" where
  "width_tag w = (if w = 1 then 0 else if w = 2 then 1 else if w = 4 then 2 else 3)"

lemma unat_ucast_small: "unat v < 2 ^ LENGTH('b) \<Longrightarrow> unat (ucast v :: 'b::len word) = unat v"
  by (simp add: unsigned_ucast_eq take_bit_nat_eq_self)

lemma encode_varint_digits:
  assumes "unat v < 2 ^ 62"
  shows "encode_quic_varint v =
    be_digits (minimal_width v) (width_tag (minimal_width v) * (64 * 256 ^ (minimal_width v - 1)) + unat v)"
proof -
  consider "v < 64" | "\<not> v < 64" "v < 16384" | "\<not> v < 64" "\<not> v < 16384" "v < 1073741824"
    | "\<not> v < 64" "\<not> v < 16384" "\<not> v < 1073741824" by blast
  then show ?thesis
  proof cases
    case 1
    then have "(ucast v :: u8) = word_of_nat (unat v)"
      by (simp add: word_unat_eq_iff unat_u8_of_nat unsigned_ucast_eq take_bit_eq_mod)
    then show ?thesis using 1 by (simp add: encode_quic_varint_def minimal_width_def width_tag_def be_digits_def)
  next
    case 2
    then have v: "unat v < 2 ^ 14" by (simp add: word_less_nat_alt)
    then have "unat (0x4000 OR ucast v :: u16) = 1 * 2 ^ 14 + unat v"
      unfolding unat_or nat_or_shift [OF v, symmetric] by (subst unat_ucast_small) simp_all
    then show ?thesis
      using 2 by (simp add: encode_quic_varint_def minimal_width_def width_tag_def to_be_bytes_digits)
  next
    case 3
    then have v: "unat v < 2 ^ 30" by (simp add: word_less_nat_alt)
    then have "unat (0x80000000 OR ucast v :: u32) = 2 * 2 ^ 30 + unat v"
      unfolding unat_or nat_or_shift [OF v, symmetric] by (subst unat_ucast_small) simp_all
    then show ?thesis
      using 3 by (simp add: encode_quic_varint_def minimal_width_def width_tag_def to_be_bytes_digits)
  next
    case 4
    have "unat (0xC000000000000000 OR v) = 3 * 2 ^ 62 + unat v"
      unfolding unat_or nat_or_shift [OF assms, symmetric] by simp
    then show ?thesis
      using 4 by (simp add: encode_quic_varint_def minimal_width_def width_tag_def to_be_bytes_digits)
  qed
qed

lemma minimal_width_cases: "minimal_width v \<in> {1, 2, 4, 8}"
  by (simp add: minimal_width_def)

lemma minimal_width_fits: "unat v < 2 ^ 62 \<Longrightarrow> unat v < 64 * 256 ^ (minimal_width v - 1)"
  by (auto simp: minimal_width_def word_less_nat_alt)

lemma width_tag_power: "w \<in> {1, 2, 4, 8} \<Longrightarrow> 2 ^ width_tag w = w"
  by (auto simp: width_tag_def)

lemma tag_of_width: "width_tag (varint_width first) = unat first div 64"
proof -
  have "unat first div 64 < 4" using u8_bound [of first] by simp
  then have "unat first div 64 \<in> {0, 1, 2, 3}" by auto
  then show ?thesis by (auto simp: varint_width_def width_tag_def)
qed

section \<open>Exactness of the integer codec\<close>

lemma decode_varint_Inr:
  "decode_quic_varint (first # rest) = Inr (v, w) \<longleftrightarrow>
     w = varint_width first \<and> w \<le> length (first # rest) \<and> w = minimal_width v \<and>
     unat v = be_value (unat first mod 64) (take (w - 1) rest)"
proof -
  let ?w = "varint_width first"
  let ?v = "foldl (\<lambda>value byte. push_bit 8 value OR ucast byte) (ucast (first AND 0x3f) :: u64)
    (take (?w - 1) rest)"
  have "unat ?v = be_value (unat first mod 64) (take (?w - 1) rest)"
    using width_cases [of first] by (subst decode_fold_value) (auto simp only: varint_low, auto)
  then have "unat v = be_value (unat first mod 64) (take (?w - 1) rest) \<longleftrightarrow> ?v = v"
    by (metis word_unat_eq_iff)
  then show ?thesis
    by (auto simp: varint_tag varint_width_def [symmetric] Let_def not_less)
qed

lemma varint_decode_sound:
  assumes "decode_quic_varint bs = Inr (v, w)"
  shows "unat v < 2 ^ 62 \<and> take w bs = encode_quic_varint v \<and> w \<le> length bs \<and> w = minimal_width v"
proof (cases bs)
  case Nil
  then show ?thesis using assms by simp
next
  case (Cons first rest)
  with assms have w: "w = varint_width first" "w \<le> length (first # rest)" "w = minimal_width v"
    and v: "unat v = be_value (unat first mod 64) (take (w - 1) rest)"
    unfolding decode_varint_Inr Cons by blast+
  have "unat v < 64 * 256 ^ (w - 1)"
    unfolding v by (rule varint_value_bound) (use w(2) in auto)
  moreover have "(64 :: nat) * 256 ^ (w - 1) \<le> 2 ^ 62"
    using minimal_width_cases [of v] w(3) by auto
  ultimately have small: "unat v < 2 ^ 62" by (rule less_le_trans)
  have "be_value 0 (take w bs) = width_tag w * (64 * 256 ^ (w - 1)) + unat v"
    using varint_prefix_value [of first rest] w v by (simp add: Cons tag_of_width)
  moreover have "be_digits w (be_value 0 (take w bs)) = take w bs"
    using be_digits_value [of "take w bs"] w(2) by (simp add: Cons min_absorb2)
  ultimately have "take w bs = encode_quic_varint v"
    unfolding encode_varint_digits [OF small] w(3) [symmetric] by simp
  then show ?thesis using small w Cons by simp
qed

lemma length_encode_varint: "unat v < 2 ^ 62 \<Longrightarrow> length (encode_quic_varint v) = minimal_width v"
  by (simp add: encode_varint_digits)

lemma varint_decode_complete:
  assumes v: "unat v < 2 ^ 62"
  shows "decode_quic_varint (encode_quic_varint v @ rest) = Inr (v, minimal_width v)"
proof -
  let ?w = "minimal_width v" and ?P = "256 ^ (minimal_width v - 1) :: nat"
  let ?X = "width_tag ?w * (64 * ?P) + unat v"
  have w1: "?w = Suc (?w - 1)" using minimal_width_cases [of v] by auto
  obtain first tl where enc: "encode_quic_varint v = first # tl" and tl: "length tl = ?w - 1"
    using length_encode_varint [OF v] w1 by (cases "encode_quic_varint v") auto
  have fits: "unat v < 64 * ?P" by (rule minimal_width_fits [OF v])
  have "?X < 4 * (64 * ?P)"
  proof -
    have "width_tag ?w * (64 * ?P) \<le> 3 * (64 * ?P)" by (intro mult_le_mono1) (simp add: width_tag_def)
    then show ?thesis using fits by linarith
  qed
  also have "4 * (64 * ?P) = 256 ^ ?w" by (subst (2) w1) simp
  finally have "be_value 0 (encode_quic_varint v) = ?X"
    unfolding encode_varint_digits [OF v] by (rule be_value_digits)
  then have X: "unat first * ?P + be_value 0 tl = ?X"
    using be_value_shift [of "unat first" tl] by (simp add: enc be_value_def tl)
  have lo: "be_value 0 tl < ?P" using be_value_bound [of tl] tl by simp
  have "unat first = ?X div ?P" "be_value 0 tl = ?X mod ?P"
    using X lo by (metis add.commute div_mult_self3 div_less add_0 not_less_zero, metis mod_mult_self3 mod_less X)
  moreover have "?X div ?P = width_tag ?w * 64 + unat v div ?P" "?X mod ?P = unat v mod ?P"
    by (simp_all add: mult.assoc [symmetric] div_mult_self3)
  moreover have "unat v div ?P < 64" using fits by (simp add: less_mult_imp_div_less)
  ultimately have "unat first div 64 = width_tag ?w" "unat first mod 64 = unat v div ?P"
    and val: "be_value 0 tl = unat v mod ?P" by simp_all
  then have "varint_width first = ?w" "be_value (unat first mod 64) tl = unat v"
    using width_tag_power [OF minimal_width_cases] be_value_shift [of "unat first mod 64" tl]
    by (simp_all add: varint_width_def tl div_mult_mod_eq)
  then show ?thesis
    unfolding enc append_Cons decode_varint_Inr using w1 tl by simp
qed

text \<open>
  The integer codec is exact. Decoding succeeds with a value and a width exactly when the value is
  below \<open>2\<^sup>62\<close> and the input starts with its encoding, whose length is that width. So every value in
  range round-trips in front of any suffix, no value has a second encoding, and nothing else decodes.\<close>

lemma quic_varint_exact:
  "decode_quic_varint bs = Inr (v, w) \<longleftrightarrow>
     unat v < 2 ^ 62 \<and> w = length (encode_quic_varint v) \<and> (\<exists>rest. bs = encode_quic_varint v @ rest)"
proof
  assume "decode_quic_varint bs = Inr (v, w)"
  note sound = varint_decode_sound [OF this]
  moreover have "bs = take w bs @ drop w bs" by simp
  ultimately show "unat v < 2 ^ 62 \<and> w = length (encode_quic_varint v) \<and> (\<exists>rest. bs = encode_quic_varint v @ rest)"
    by (metis length_encode_varint)
next
  assume "unat v < 2 ^ 62 \<and> w = length (encode_quic_varint v) \<and> (\<exists>rest. bs = encode_quic_varint v @ rest)"
  then show "decode_quic_varint bs = Inr (v, w)"
    by (auto simp: varint_decode_complete length_encode_varint)
qed

section \<open>Exactness of byte strings and vectors\<close>

lemma unat_length: "length bs < 2 ^ 62 \<Longrightarrow> unat (word_of_nat (length bs) :: u64) = length bs"
  by (rule unat_word_of_nat) simp

lemma decode_encode_var_bytes:
  assumes "length bs \<le> max_len" and "length bs < 2 ^ 62"
  shows "decode_var_bytes (encode_var_bytes bs @ rest) max_len label = (Inr bs, rest)"
proof -
  let ?l = "word_of_nat (length bs) :: u64"
  have l: "unat ?l = length bs" by (rule unat_length [OF assms(2)])
  have "decode_quic_varint (encode_var_bytes bs @ rest) = Inr (?l, minimal_width ?l)"
    unfolding encode_var_bytes_def append_assoc using assms(2) by (intro varint_decode_complete) (simp add: l)
  moreover have "length (encode_quic_varint ?l) = minimal_width ?l"
    using assms(2) by (intro length_encode_varint) (simp add: l)
  moreover have "minimal_width ?l + length bs < 2 ^ 64"
    using assms(2) minimal_width_cases [of ?l] by auto
  ultimately show ?thesis
    using assms(1) by (simp add: decode_var_bytes_def l encode_var_bytes_def)
qed

text \<open>
  Reading a length-prefixed byte string is exact. It yields the bytes and the remaining input
  exactly when the input is their encoding followed by that rest and the length is within the limit;
  otherwise it is an error and the input is not advanced.\<close>

lemma var_bytes_exact:
  assumes "length cursor < 2 ^ 62"
  shows "(decode_var_bytes cursor max_len label = (Inr bs, rest) \<longleftrightarrow>
            length bs \<le> max_len \<and> cursor = encode_var_bytes bs @ rest) \<and>
         (isl (fst (decode_var_bytes cursor max_len label)) \<longrightarrow>
            snd (decode_var_bytes cursor max_len label) = cursor)"
proof (intro conjI iffI)
  assume dec: "decode_var_bytes cursor max_len label = (Inr bs, rest)"
  then obtain len w where v: "decode_quic_varint cursor = Inr (len, w)"
    by (cases "decode_quic_varint cursor") (auto simp: decode_var_bytes_def)
  with dec have c: "unat len \<le> max_len" "w + unat len \<le> length cursor"
    "bs = take (unat len) (drop w cursor)" "rest = drop (w + unat len) cursor"
    by (auto simp: decode_var_bytes_def not_less split: if_splits)
  have lb: "length bs = unat len" using c(2,3) by simp
  have "cursor = take w cursor @ take (unat len) (drop w cursor) @ drop (unat len) (drop w cursor)"
    by (simp only: append_take_drop_id)
  also have "\<dots> = encode_quic_varint len @ bs @ rest"
    using varint_decode_sound [OF v] unfolding c(3,4) drop_drop by (metis add.commute)
  finally show "cursor = encode_var_bytes bs @ rest" by (simp add: encode_var_bytes_def lb)
  show "length bs \<le> max_len" using lb c(1) by simp
next
  assume "length bs \<le> max_len \<and> cursor = encode_var_bytes bs @ rest"
  moreover from this have "length bs < 2 ^ 62" using assms by (simp add: encode_var_bytes_def)
  ultimately show "decode_var_bytes cursor max_len label = (Inr bs, rest)"
    using decode_encode_var_bytes by blast
next
  show "isl (fst (decode_var_bytes cursor max_len label)) \<longrightarrow> snd (decode_var_bytes cursor max_len label) = cursor"
    by (auto simp: decode_var_bytes_def split: sum.splits prod.splits)
qed

lemma var_bytes_exact_witness:
  "decode_var_bytes (encode_var_bytes [1, 2, 3] @ [9]) 16 ''field'' = (Inr [1, 2, 3], [9])"
proof -
  have "length (encode_var_bytes [1, 2, 3] @ [9]) < 2 ^ 62"
    by (simp add: encode_var_bytes_def encode_quic_varint_def)
  from var_bytes_exact [OF this, of 16 "''field''" "[1, 2, 3]" "[9]"] show ?thesis by simp
qed

text \<open>
  Component vectors are unambiguous. Two sequences of byte strings with the same encoding are equal,
  whatever follows, so no part can be shifted into a neighbour.\<close>

lemma component_vectors_injective:
  assumes "\<forall>p\<in>set parts. length p < 2 ^ 62" and "\<forall>p\<in>set parts'. length p < 2 ^ 62"
    and "length parts = length parts'"
    and "encode_component_vectors parts @ rest = encode_component_vectors parts' @ rest'"
  shows "parts = parts' \<and> rest = rest'"
  using assms(3,1,2,4)
proof (induction parts parts' rule: list_induct2)
  case Nil
  then show ?case by (simp add: encode_component_vectors_def)
next
  case (Cons p ps q qs)
  have step: "encode_component_vectors (x # xs) @ r = encode_var_bytes x @ encode_component_vectors xs @ r"
    for x xs r by (simp add: encode_component_vectors_def encode_var_bytes_def)
  have "decode_var_bytes (encode_var_bytes x @ r) (2 ^ 62) [] = (Inr x, r)" if "length x < 2 ^ 62" for x r
    using that by (intro decode_encode_var_bytes) simp_all
  then have "p = q" "encode_component_vectors ps @ rest = encode_component_vectors qs @ rest'"
    using Cons.prems unfolding step by (metis list.set_intros(1) prod.inject sum.inject(2))+
  then show ?case using Cons by auto
qed

lemma component_vectors_injective_witness:
  "encode_component_vectors [[1], [2, 3]] \<noteq> encode_component_vectors [[1, 2], [3]]"
  using component_vectors_injective [of "[[1], [2, 3]]" "[[1, 2], [3]]" "[]" "[]"] by auto

section \<open>Exactness of component lists\<close>

lemma u16_bytes: "u16_from_be_bytes hi lo = w \<longleftrightarrow> to_be_bytes 2 w = [hi, lo]"
proof -
  have hi: "unat (push_bit 8 (ucast hi :: u16)) = unat hi * 2 ^ 8"
    unfolding unsigned_push_bit_eq using u8_bound [of hi]
    by (simp add: unat_ucast_small push_bit_eq_mult take_bit_eq_mod)
  have lo: "unat lo < 2 ^ 8" using u8_bound [of lo] by simp
  have val: "unat (u16_from_be_bytes hi lo) = be_value 0 [hi, lo]"
    unfolding u16_from_be_bytes_def unat_or hi
    using nat_or_shift [OF lo, of "unat hi"] lo by (simp add: unat_ucast_small be_value_def)
  have w: "unat w < 256 ^ 2" using unat_less_exp [of w] by simp
  show ?thesis
  proof
    assume "u16_from_be_bytes hi lo = w"
    then have "unat w = be_value 0 [hi, lo]" using val by simp
    then show "to_be_bytes 2 w = [hi, lo]"
      using be_digits_value [of "[hi, lo]"] by (simp add: to_be_bytes_digits numeral_2_eq_2)
  next
    assume "to_be_bytes 2 w = [hi, lo]"
    then have "be_value 0 [hi, lo] = unat w"
      using be_value_digits [OF w] by (simp add: to_be_bytes_digits)
    then show "u16_from_be_bytes hi lo = w" using val by (simp add: word_unat_eq_iff)
  qed
qed

lemma to_be_bytes_2: obtains hi lo where "to_be_bytes 2 (w :: u16) = [hi, lo]"
  by (simp add: to_be_bytes_def numeral_2_eq_2)

text \<open>The decoding loop accepts exactly strictly increasing identifiers.\<close>

lemma decode_ids_encode:
  assumes "sorted_wrt (<) xs" and "set xs \<inter> ids = {}"
    and "\<And>p x. prev = Some p \<Longrightarrow> x \<in> set xs \<Longrightarrow> p < x"
  shows "decode_ids ids prev (concat (map (to_be_bytes 2) xs)) = Inr (ids \<union> set xs)"
  using assms
proof (induction xs arbitrary: ids prev)
  case Nil
  then show ?case by simp
next
  case (Cons x xs)
  obtain hi lo where b: "to_be_bytes 2 x = [hi, lo]" by (rule to_be_bytes_2)
  then have "u16_from_be_bytes hi lo = x" by (simp add: u16_bytes)
  moreover have "decode_ids (insert x ids) (Some x) (concat (map (to_be_bytes 2) xs)) =
      Inr (insert x ids \<union> set xs)"
    using Cons.prems by (intro Cons.IH) auto
  moreover have "\<not> (case prev of None \<Rightarrow> False | Some p \<Rightarrow> x < p)"
    using Cons.prems(3) [of _ x] by (auto split: option.splits dest: order.asym)
  ultimately show ?case using Cons.prems(2) by (simp add: b Let_def)
qed

lemma decode_ids_sound:
  assumes "decode_ids ids prev bs = Inr S" and "even (length bs)"
    and "\<And>p x. prev = Some p \<Longrightarrow> x \<in> ids \<Longrightarrow> x \<le> p" and "prev = None \<Longrightarrow> ids = {}"
  shows "\<exists>xs. bs = concat (map (to_be_bytes 2) xs) \<and> sorted_wrt (<) xs \<and> S = ids \<union> set xs
    \<and> set xs \<inter> ids = {} \<and> (\<forall>p\<in>set_option prev. \<forall>x\<in>set xs. p \<le> x) \<and> length bs = 2 * length xs"
  using assms
proof (induction ids prev bs rule: decode_ids.induct)
  case (1 ids previous hi lo rest)
  let ?i = "u16_from_be_bytes hi lo"
  from "1.prems"(1) have fresh: "?i \<notin> ids" and ord: "\<And>p. previous = Some p \<Longrightarrow> p \<le> ?i"
    and rec: "decode_ids (insert ?i ids) (Some ?i) rest = Inr S"
    by (auto simp: Let_def not_less split: if_splits option.splits)
  have "\<exists>xs. rest = concat (map (to_be_bytes 2) xs) \<and> sorted_wrt (<) xs \<and> S = insert ?i ids \<union> set xs
    \<and> set xs \<inter> insert ?i ids = {} \<and> (\<forall>p\<in>set_option (Some ?i). \<forall>x\<in>set xs. p \<le> x) \<and> length rest = 2 * length xs"
  proof (rule "1.IH")
    show "x \<le> p" if "Some ?i = Some p" "x \<in> insert ?i ids" for p x
      using that "1.prems"(3,4) ord by (cases previous) (auto intro: order_trans)
  qed (use "1.prems"(2) fresh ord rec in \<open>auto simp: not_less split: option.splits\<close>)
  then obtain xs where xs: "rest = concat (map (to_be_bytes 2) xs)" "sorted_wrt (<) xs"
    "S = insert ?i ids \<union> set xs" "set xs \<inter> insert ?i ids = {}" "\<forall>x\<in>set xs. ?i \<le> x"
    "length rest = 2 * length xs" by auto
  have "\<forall>x\<in>set xs. ?i < x" using xs(4,5) by (auto simp: order.order_iff_strict)
  moreover have "to_be_bytes 2 ?i = [hi, lo]" using u16_bytes by blast
  ultimately show ?case
    using xs fresh ord by (intro exI [of _ "?i # xs"]) (auto intro: order_trans)
qed auto

lemma card_u16: "card (ids :: u16 set) * 2 < 2 ^ 62"
  using card_mono [of UNIV ids] by (simp add: card_word)

lemma decode_encode_components_list: "decode_components_list (encode_components_list ids) = Inr ids"
proof -
  define l where "l = (word_of_nat (card ids * 2) :: u64)"
  define bs where "bs = encode_components_list ids"
  let ?body = "concat (map (to_be_bytes 2) (sorted_list_of_set ids))"
  have len: "length (concat (map (to_be_bytes 2) xs)) = 2 * length xs" for xs :: "u16 list"
    by (induction xs) (auto simp: to_be_bytes_def)
  have l: "unat l = card ids * 2" unfolding l_def using card_u16 [of ids] by (intro unat_word_of_nat) simp
  have bs': "bs = encode_quic_varint l @ ?body" unfolding bs_def encode_components_list_def l_def ..
  have v: "decode_quic_varint bs = Inr (l, minimal_width l)"
    unfolding bs' by (rule varint_decode_complete) (simp only: l card_u16)
  have w: "length (encode_quic_varint l) = minimal_width l"
    by (rule length_encode_varint) (simp only: l card_u16)
  have "decode_ids {} None ?body = Inr ({} \<union> ids)"
    using decode_ids_encode [of "sorted_list_of_set ids" "{}" None] by simp
  moreover have "minimal_width l + unat l = length bs" by (simp add: bs' w len l)
  moreover have "minimal_width l + unat l < 2 ^ 64"
    using card_u16 [of ids] minimal_width_cases [of l] unfolding l by auto
  ultimately have "decode_components_list bs = Inr ids"
    using v by (simp add: decode_components_list_def l) (simp add: bs' w)
  then show ?thesis by (simp add: bs_def)
qed

text \<open>
  C39: The component-list codec is exact. Decoding yields a set of component ids exactly when the input is
  that set's encoding: every set round-trips, and truncated, padded, unsorted, duplicated or
  non-canonical inputs are all rejected.\<close>

theorem components_list_exact:
  "decode_components_list bs = Inr ids \<longleftrightarrow> bs = encode_components_list ids"
proof
  assume dec: "decode_components_list bs = Inr ids"
  then obtain l w where v: "decode_quic_varint bs = Inr (l, w)"
    by (cases "decode_quic_varint bs") (auto simp: decode_components_list_def)
  with dec have c: "w + unat l = length bs" "even (unat l)" "decode_ids {} None (drop w bs) = Inr ids"
    by (auto simp: decode_components_list_def even_iff_mod_2_eq_zero split: if_splits)
  have "length (drop w bs) = unat l" using c(1) by simp
  then have "even (length (drop w bs))" using c(2) by simp
  then obtain xs where xs: "drop w bs = concat (map (to_be_bytes 2) xs)" "sorted_wrt (<) xs" "ids = {} \<union> set xs"
    "length (drop w bs) = 2 * length xs"
    using decode_ids_sound [OF c(3)] by blast
  have "xs = sorted_list_of_set ids"
    using xs(2,3) by (simp add: strict_sorted_iff sorted_list_of_set.idem_if_sorted_distinct)
  moreover have "card ids = length xs" using xs(2,3) by (simp add: distinct_card strict_sorted_iff)
  then have "unat l = card ids * 2" using xs(4) c(1) by simp
  then have "word_of_nat (card ids * 2) = (word_of_nat (unat l) :: u64)" by (simp only:)
  then have "l = word_of_nat (card ids * 2)" by simp
  moreover have "take w bs = encode_quic_varint l" using varint_decode_sound [OF v] by blast
  ultimately show "bs = encode_components_list ids"
    using append_take_drop_id [of w bs] xs(1) by (simp add: encode_components_list_def)
next
  assume "bs = encode_components_list ids"
  then show "decode_components_list bs = Inr ids" by (simp add: decode_encode_components_list)
qed

end
