(* ===== verification/Capabilities.thy ===== *)
theory Capabilities
  imports "HOL-Library.AList" Codec Epoch_Manager
begin

text \<open>
  Capability negotiation: the types of \<open>traits/src/capabilities.rs\<close>, the component sets of
  \<open>traits/src/app_components/mod.rs\<close>, the feature registry of
  \<open>cgka-engine/src/feature_registry.rs\<close>, the derivations of \<open>cgka-engine/src/capabilities.rs\<close> and
  the queries of \<open>cgka-engine/src/capability_manager.rs\<close>.

  A \<open>BTreeSet\<close> is a set.  The registry's \<open>HashMap\<close> is an association list with distinct keys whose
  order stands for the unspecified iteration order (\<open>registry_order_irrelevant\<close>: it does not matter).
  OpenMLS is outside the repository.  What the code reads from a live \<open>MlsGroup\<close> or a leaf is the
  record \<open>MlsGroupView\<close> or \<open>MlsLeafView\<close>, the extension numbers of OpenMLS are the numbers the
  repository itself pins (\<open>CURRENT_PROFILE_REQUIRED_*\<close>), and the test for GREASE values and
  the order OpenMLS gives its extension and proposal types are parameters.
\<close>

section \<open>Capability sets\<close>

type_synonym AppComponentId = u16
type_synonym AppComponentSet = "AppComponentId set"

datatype Capability = Proposal u16 | Extension u16 | AppComponent AppComponentId

type_synonym Feature = string

datatype TransportKind = Nostr | Fips

datatype RequirementLevel = Required | Optional | TransportRequired TransportKind

record CapabilityRequirement =
  requires :: Capability
  level :: RequirementLevel
  description :: string

record GroupCapabilities =
  proposals :: "u16 set"
  extensions :: "u16 set"
  app_components :: AppComponentSet

definition default_capabilities :: GroupCapabilities where
  "default_capabilities = \<lparr>proposals = {}, extensions = {}, app_components = {}\<rparr>"

fun insert_capability :: "GroupCapabilities \<Rightarrow> Capability \<Rightarrow> GroupCapabilities" where
  "insert_capability caps (Proposal p) = caps\<lparr>proposals := insert p (proposals caps)\<rparr>"
| "insert_capability caps (Extension e) = caps\<lparr>extensions := insert e (extensions caps)\<rparr>"
| "insert_capability caps (AppComponent i) = caps\<lparr>app_components := insert i (app_components caps)\<rparr>"

fun contains_capability :: "GroupCapabilities \<Rightarrow> Capability \<Rightarrow> bool" where
  "contains_capability caps (Proposal p) = (p \<in> proposals caps)"
| "contains_capability caps (Extension e) = (e \<in> extensions caps)"
| "contains_capability caps (AppComponent i) = (i \<in> app_components caps)"

definition missing_from :: "GroupCapabilities \<Rightarrow> GroupCapabilities \<Rightarrow> GroupCapabilities" where
  "missing_from caps other =
     \<lparr>proposals = proposals caps - proposals other,
      extensions = extensions caps - extensions other,
      app_components = app_components caps - app_components other\<rparr>"

definition capabilities_is_empty :: "GroupCapabilities \<Rightarrow> bool" where
  "capabilities_is_empty caps =
     (proposals caps = {} \<and> extensions caps = {} \<and> app_components caps = {})"

definition merge_capabilities :: "GroupCapabilities \<Rightarrow> GroupCapabilities \<Rightarrow> GroupCapabilities" where
  "merge_capabilities required extra =
     \<lparr>proposals = proposals required \<union> proposals extra,
      extensions = extensions required \<union> extensions extra,
      app_components = app_components required \<union> app_components extra\<rparr>"

datatype FeatureStatus = Available | Upgradeable | Unavailable GroupCapabilities

section \<open>The feature registry\<close>

type_synonym FeatureRegistry = "(Feature \<times> CapabilityRequirement) list"

definition register :: "FeatureRegistry \<Rightarrow> Feature \<Rightarrow> CapabilityRequirement \<Rightarrow> FeatureRegistry" where
  "register reg feature req = AList.update feature req reg"

definition registry_get :: "FeatureRegistry \<Rightarrow> Feature \<Rightarrow> CapabilityRequirement option" where
  "registry_get reg feature = map_of reg feature"

fun required_level :: "TransportKind list \<Rightarrow> RequirementLevel \<Rightarrow> bool" where
  "required_level active Required = True"
| "required_level active Optional = False"
| "required_level active (TransportRequired t) = (t \<in> set active)"

definition insert_required ::
  "TransportKind list \<Rightarrow> GroupCapabilities \<Rightarrow> FeatureRegistry \<Rightarrow> GroupCapabilities" where
  "insert_required active caps reg =
     foldl (\<lambda>out (_, req). if required_level active (level req)
                          then insert_capability out (requires req) else out) caps reg"

definition required_for_transports :: "FeatureRegistry \<Rightarrow> TransportKind list \<Rightarrow> GroupCapabilities" where
  "required_for_transports reg active = insert_required active default_capabilities reg"

section \<open>Derivation of advertised and required capabilities\<close>

datatype ProtocolProfile = Legacy | Current

definition APP_DATA_DICTIONARY :: u16 where "APP_DATA_DICTIONARY = 0x0006"
definition APP_DATA_UPDATE :: u16 where "APP_DATA_UPDATE = 0x0008"
definition ACCOUNT_IDENTITY_PROOF_EXTENSION_TYPE :: u16 where
  "ACCOUNT_IDENTITY_PROOF_EXTENSION_TYPE = 0xF2F1"
definition ACCOUNT_IDENTITY_PROOF_COMPONENT_ID :: AppComponentId where
  "ACCOUNT_IDENTITY_PROOF_COMPONENT_ID = 0x8009"
definition APP_COMPONENTS_COMPONENT_ID :: AppComponentId where
  "APP_COMPONENTS_COMPONENT_ID = 0x0001"

definition DEFAULT_MLS_EXTENSION_TYPES :: "u16 set" where
  "DEFAULT_MLS_EXTENSION_TYPES = {1, 2, 3, 4, 5}"
definition DEFAULT_MLS_PROPOSAL_TYPES :: "u16 set" where
  "DEFAULT_MLS_PROPOSAL_TYPES = {1, 2, 3, 4, 5, 6, 7}"

record MlsCapabilities =
  mc_extensions :: "u16 list"
  mc_proposals :: "u16 list"

text \<open>\<open>sort\<close> then \<open>dedup\<close>, under the order \<open>rank\<close> that OpenMLS gives the type.\<close>
definition sort_dedup :: "(u16 \<Rightarrow> nat) \<Rightarrow> u16 list \<Rightarrow> u16 list" where
  "sort_dedup rank ts = remdups_adj (sort_key rank ts)"

fun push_types :: "u16 list \<times> u16 list \<Rightarrow> Capability \<Rightarrow> u16 list \<times> u16 list" where
  "push_types (exts, props) (Extension t) = (exts @ [t], props)"
| "push_types (exts, props) (Proposal t) = (exts, props @ [t])"
| "push_types (exts, props) (AppComponent _) = (exts, props)"

definition leaf_capabilities ::
  "(u16 \<Rightarrow> nat) \<Rightarrow> (u16 \<Rightarrow> nat) \<Rightarrow> FeatureRegistry \<Rightarrow> ProtocolProfile \<Rightarrow> MlsCapabilities" where
  "leaf_capabilities erank prank reg profile =
     (let ext0 = APP_DATA_DICTIONARY # (if profile = Legacy then [ACCOUNT_IDENTITY_PROOF_EXTENSION_TYPE] else []);
          (exts, props) = foldl (\<lambda>acc (_, req). push_types acc (requires req)) (ext0, [APP_DATA_UPDATE]) reg
      in \<lparr>mc_extensions = sort_dedup erank (filter (\<lambda>t. t \<notin> DEFAULT_MLS_EXTENSION_TYPES) exts),
          mc_proposals = sort_dedup prank (filter (\<lambda>t. t \<notin> DEFAULT_MLS_PROPOSAL_TYPES) props)\<rparr>)"

definition profile_capability :: "ProtocolProfile \<Rightarrow> Capability" where
  "profile_capability profile =
     (case profile of
        Legacy \<Rightarrow> Extension ACCOUNT_IDENTITY_PROOF_EXTENSION_TYPE
      | Current \<Rightarrow> AppComponent ACCOUNT_IDENTITY_PROOF_COMPONENT_ID)"

definition extension_from_group_capabilities :: "GroupCapabilities \<Rightarrow> u16 list \<times> u16 list" where
  "extension_from_group_capabilities caps =
     (sorted_list_of_set (extensions caps), sorted_list_of_set (proposals caps))"

definition required_capabilities_extension ::
  "FeatureRegistry \<Rightarrow> TransportKind list \<Rightarrow> ProtocolProfile
     \<Rightarrow> GroupCapabilities \<times> (u16 list \<times> u16 list)" where
  "required_capabilities_extension reg active profile =
     (let caps = insert_capability default_capabilities (Extension APP_DATA_DICTIONARY);
          caps = insert_capability caps (profile_capability profile);
          caps = insert_capability caps (Proposal APP_DATA_UPDATE);
          caps = insert_required active caps reg
      in (caps, extension_from_group_capabilities caps))"

datatype CapabilityError =
    OtherError string
  | UnknownGroupError GroupId
  | BackendError string

fun insert_requested ::
  "FeatureRegistry \<Rightarrow> GroupCapabilities \<Rightarrow> Feature list \<Rightarrow> CapabilityError + GroupCapabilities" where
  "insert_requested reg caps [] = Inr caps"
| "insert_requested reg caps (f # fs) =
     (case registry_get reg f of
        None \<Rightarrow> Inl (OtherError (''unknown feature '' @ f))
      | Some req \<Rightarrow> insert_requested reg (insert_capability caps (requires req)) fs)"

definition required_capabilities_extension_for_features ::
  "FeatureRegistry \<Rightarrow> TransportKind list \<Rightarrow> Feature list \<Rightarrow> ProtocolProfile
     \<Rightarrow> CapabilityError + (GroupCapabilities \<times> (u16 list \<times> u16 list))" where
  "required_capabilities_extension_for_features reg active requested profile =
     (case insert_requested reg (fst (required_capabilities_extension reg active profile)) requested of
        Inl e \<Rightarrow> Inl e
      | Inr caps \<Rightarrow> Inr (caps, extension_from_group_capabilities caps))"

record MlsLeafView =
  leaf_caps :: MlsCapabilities
  leaf_dictionary :: "(AppComponentId \<rightharpoonup> bytes) option"

definition app_components_of_leaf :: "MlsLeafView \<Rightarrow> string + AppComponentSet" where
  "app_components_of_leaf leaf =
     (case leaf_dictionary leaf of
        None \<Rightarrow> Inr {}
      | Some dict \<Rightarrow>
          (case dict APP_COMPONENTS_COMPONENT_ID of
             None \<Rightarrow> Inr {}
           | Some bs \<Rightarrow>
               (case decode_components_list bs of
                  Inl e \<Rightarrow> Inl (''leaf app_components decode failed: '' @ e)
                | Inr ids \<Rightarrow> Inr ids)))"

definition advertised_capabilities_from_caps ::
  "(u16 \<Rightarrow> bool) \<Rightarrow> MlsCapabilities \<Rightarrow> GroupCapabilities" where
  "advertised_capabilities_from_caps is_grease caps =
     \<lparr>proposals = set (mc_proposals caps),
      extensions = {e \<in> set (mc_extensions caps). \<not> is_grease e},
      app_components = {}\<rparr>"

definition with_implicit_default_capabilities :: "GroupCapabilities \<Rightarrow> GroupCapabilities" where
  "with_implicit_default_capabilities caps =
     caps\<lparr>extensions := extensions caps \<union> DEFAULT_MLS_EXTENSION_TYPES,
          proposals := proposals caps \<union> DEFAULT_MLS_PROPOSAL_TYPES\<rparr>"

definition advertised_capabilities_of_leaf :: "(u16 \<Rightarrow> bool) \<Rightarrow> MlsLeafView \<Rightarrow> GroupCapabilities" where
  "advertised_capabilities_of_leaf is_grease leaf =
     (advertised_capabilities_from_caps is_grease (leaf_caps leaf))
       \<lparr>app_components := (case app_components_of_leaf leaf of Inl _ \<Rightarrow> {} | Inr ids \<Rightarrow> ids)\<rparr>"

definition capabilities_of_leaf :: "(u16 \<Rightarrow> bool) \<Rightarrow> MlsLeafView \<Rightarrow> GroupCapabilities" where
  "capabilities_of_leaf is_grease leaf =
     with_implicit_default_capabilities (advertised_capabilities_of_leaf is_grease leaf)"

definition self_supported_capabilities ::
  "(u16 \<Rightarrow> bool) \<Rightarrow> (u16 \<Rightarrow> nat) \<Rightarrow> (u16 \<Rightarrow> nat) \<Rightarrow> FeatureRegistry \<Rightarrow> AppComponentSet
     \<Rightarrow> GroupCapabilities" where
  "self_supported_capabilities is_grease erank prank reg supported =
     with_implicit_default_capabilities
       ((advertised_capabilities_from_caps is_grease (leaf_capabilities erank prank reg Legacy))
          \<lparr>app_components := insert ACCOUNT_IDENTITY_PROOF_COMPONENT_ID supported\<rparr>)"

section \<open>Queries on a live group\<close>

record MlsGroupView =
  mg_required_capabilities :: "(u16 list \<times> u16 list) list"
  mg_dictionary :: "AppComponentId \<rightharpoonup> bytes"

definition required_app_components_of_group :: "MlsGroupView \<Rightarrow> string + AppComponentSet" where
  "required_app_components_of_group g =
     (case mg_dictionary g APP_COMPONENTS_COMPONENT_ID of
        None \<Rightarrow> Inr {}
      | Some bs \<Rightarrow>
          (case decode_components_list bs of
             Inl e \<Rightarrow> Inl (''group app_components decode failed: '' @ e)
           | Inr ids \<Rightarrow> Inr ids))"

definition required_capabilities_from_group :: "MlsGroupView \<Rightarrow> GroupCapabilities" where
  "required_capabilities_from_group g =
     (let out = foldl (\<lambda>out (exts, props). out\<lparr>extensions := extensions out \<union> set exts,
                                                proposals := proposals out \<union> set props\<rparr>)
                  default_capabilities (mg_required_capabilities g)
      in case required_app_components_of_group g of
           Inl _ \<Rightarrow> out
         | Inr components \<Rightarrow> out\<lparr>app_components := components\<rparr>)"

record 'e capability_env =
  env_registry :: FeatureRegistry
  env_mls_load :: "GroupId \<Rightarrow> string + MlsGroupView option"
  env_members :: "GroupId \<Rightarrow> 'e + bytes list"
  env_member_capabilities :: "GroupId \<Rightarrow> bytes \<Rightarrow> 'e + GroupCapabilities option"

datatype 'e QueryError = QueryFailed CapabilityError | QueryStorage 'e

definition load_group :: "'e capability_env \<Rightarrow> GroupId \<Rightarrow> 'e QueryError + MlsGroupView" where
  "load_group env gid =
     (case env_mls_load env gid of
        Inr (Some g) \<Rightarrow> Inr g
      | Inr None \<Rightarrow> Inl (QueryFailed (UnknownGroupError gid))
      | Inl e \<Rightarrow> Inl (QueryFailed (BackendError (''load: '' @ e))))"

text \<open>The member loop both queries run: it stops at the first member that lacks the capability,
  and a storage failure before that aborts the query.\<close>
fun any_missing :: "'e capability_env \<Rightarrow> GroupId \<Rightarrow> Capability \<Rightarrow> bytes list \<Rightarrow> 'e QueryError + bool" where
  "any_missing env gid cap [] = Inr False"
| "any_missing env gid cap (m # ms) =
     (case env_member_capabilities env gid m of
        Inl e \<Rightarrow> Inl (QueryStorage e)
      | Inr caps \<Rightarrow>
          (if \<not> contains_capability (case caps of None \<Rightarrow> default_capabilities | Some c \<Rightarrow> c) cap
           then Inr True else any_missing env gid cap ms))"

definition do_feature_status ::
  "'e capability_env \<Rightarrow> GroupId \<Rightarrow> Feature \<Rightarrow> 'e QueryError + FeatureStatus" where
  "do_feature_status env gid feature =
     (case registry_get (env_registry env) feature of
        None \<Rightarrow> Inl (QueryFailed (OtherError (''unknown feature '' @ feature)))
      | Some req \<Rightarrow>
          (case load_group env gid of
             Inl e \<Rightarrow> Inl e
           | Inr g \<Rightarrow>
               (if contains_capability (required_capabilities_from_group g) (requires req)
                then Inr Available
                else case env_members env gid of
                       Inl e \<Rightarrow> Inl (QueryStorage e)
                     | Inr members \<Rightarrow>
                         (case any_missing env gid (requires req) members of
                            Inl e \<Rightarrow> Inl e
                          | Inr True \<Rightarrow>
                              Inr (Unavailable (insert_capability default_capabilities (requires req)))
                          | Inr False \<Rightarrow> Inr Upgradeable))))"

fun is_transport_required :: "RequirementLevel \<Rightarrow> bool" where
  "is_transport_required (TransportRequired _) = True"
| "is_transport_required _ = False"

fun upgradeable_loop ::
  "'e capability_env \<Rightarrow> GroupId \<Rightarrow> GroupCapabilities \<Rightarrow> bytes list \<Rightarrow> GroupCapabilities
     \<Rightarrow> FeatureRegistry \<Rightarrow> 'e QueryError + GroupCapabilities" where
  "upgradeable_loop env gid already members out [] = Inr out"
| "upgradeable_loop env gid already members out ((f, spec) # rest) =
     (if is_transport_required (level spec) \<or> contains_capability already (requires spec)
      then upgradeable_loop env gid already members out rest
      else case any_missing env gid (requires spec) members of
             Inl e \<Rightarrow> Inl e
           | Inr missing \<Rightarrow>
               upgradeable_loop env gid already members
                 (if missing then out else insert_capability out (requires spec)) rest)"

definition do_upgradeable_capabilities ::
  "'e capability_env \<Rightarrow> GroupId \<Rightarrow> 'e QueryError + GroupCapabilities" where
  "do_upgradeable_capabilities env gid =
     (case load_group env gid of
        Inl e \<Rightarrow> Inl e
      | Inr g \<Rightarrow>
          (case env_members env gid of
             Inl e \<Rightarrow> Inl (QueryStorage e)
           | Inr members \<Rightarrow>
               upgradeable_loop env gid (required_capabilities_from_group g) members
                 default_capabilities (env_registry env)))"

text \<open>The group state the proposals of \<open>do_upgrade_group_capabilities\<close> describe: the existing
  required types joined with the upgradeable ones, and the \<open>app_components\<close> component extended by the
  upgradeable components.\<close>
definition push_missing :: "u16 list \<Rightarrow> u16 list \<Rightarrow> u16 list" where
  "push_missing ts new = foldl (\<lambda>ts t. if t \<in> set ts then ts else ts @ [t]) ts new"

definition upgraded_required_types ::
  "MlsGroupView \<Rightarrow> GroupCapabilities \<Rightarrow> u16 list \<times> u16 list" where
  "upgraded_required_types g upgradeable =
     (let req_exts = push_missing (concat (map fst (mg_required_capabilities g)))
                       (sorted_list_of_set (extensions upgradeable));
          req_props = push_missing (concat (map snd (mg_required_capabilities g)))
                       (sorted_list_of_set (proposals upgradeable))
      in (remdups_adj (sort req_exts), remdups_adj (sort req_props)))"

definition upgraded_group :: "MlsGroupView \<Rightarrow> GroupCapabilities \<Rightarrow> string + MlsGroupView" where
  "upgraded_group g upgradeable =
     (let g1 = (if extensions upgradeable \<noteq> {} \<or> proposals upgradeable \<noteq> {}
                then g\<lparr>mg_required_capabilities := [upgraded_required_types g upgradeable]\<rparr> else g)
      in if app_components upgradeable = {} then Inr g1
         else case required_app_components_of_group g of
                Inl e \<Rightarrow> Inl e
              | Inr before \<Rightarrow>
                  (let required = before \<union> app_components upgradeable in
                   if required \<noteq> before
                   then Inr (g1\<lparr>mg_dictionary := (mg_dictionary g)
                                  (APP_COMPONENTS_COMPONENT_ID \<mapsto> encode_components_list required)\<rparr>)
                   else Inr g1))"

section \<open>Capability sets as sets of capabilities\<close>

lemma contains_default [simp]: "\<not> contains_capability default_capabilities c"
  by (cases c) (simp_all add: default_capabilities_def)

lemma contains_insert [simp]:
  "contains_capability (insert_capability caps c) c' \<longleftrightarrow> c' = c \<or> contains_capability caps c'"
  by (cases c; cases c') auto

declare insert_capability.simps [simp del]

lemma contains_missing [simp]:
  "contains_capability (missing_from a b) c \<longleftrightarrow> contains_capability a c \<and> \<not> contains_capability b c"
  by (cases c) (auto simp: missing_from_def)

lemma contains_merge [simp]:
  "contains_capability (merge_capabilities a b) c \<longleftrightarrow> contains_capability a c \<or> contains_capability b c"
  by (cases c) (auto simp: merge_capabilities_def)

lemma is_empty_iff: "capabilities_is_empty caps \<longleftrightarrow> (\<forall>c. \<not> contains_capability caps c)"
proof
  assume none: "\<forall>c. \<not> contains_capability caps c"
  show "capabilities_is_empty caps"
    using none [rule_format, of "Proposal _"] none [rule_format, of "Extension _"]
      none [rule_format, of "AppComponent _"]
    by (auto simp: capabilities_is_empty_def)
qed (auto simp: capabilities_is_empty_def elim: contains_capability.elims)

lemma capabilities_ext:
  fixes a b :: GroupCapabilities
  assumes "\<And>c. contains_capability a c \<longleftrightarrow> contains_capability b c"
  shows "a = b"
proof -
  have "proposals a = proposals b" using assms [of "Proposal _"] by auto
  moreover have "extensions a = extensions b" using assms [of "Extension _"] by auto
  moreover have "app_components a = app_components b" using assms [of "AppComponent _"] by auto
  ultimately show ?thesis by simp
qed

lemma contains_insert_required [simp]:
  "contains_capability (insert_required active caps reg) c \<longleftrightarrow>
     contains_capability caps c \<or>
     (\<exists>req \<in> snd ` set reg. required_level active (level req) \<and> requires req = c)"
  unfolding insert_required_def by (induction reg arbitrary: caps) (auto split: if_splits)

lemma registry_order_irrelevant:
  "set reg = set reg' \<Longrightarrow> insert_required active caps reg = insert_required active caps reg'"
  by (rule capabilities_ext) simp

lemma contains_insert_requested:
  "insert_requested reg caps fs = Inr caps' \<Longrightarrow>
     contains_capability caps' c \<longleftrightarrow>
       contains_capability caps c \<or> (\<exists>f\<in>set fs. \<exists>req. registry_get reg f = Some req \<and> requires req = c)"
  by (induction reg caps fs rule: insert_requested.induct) (auto split: option.splits)

lemma set_pushed_types:
  "set (fst (foldl (\<lambda>acc (_, req). push_types acc (requires req)) (es, ps) reg)) =
     set es \<union> {t. Extension t \<in> requires ` snd ` set reg}"
  "set (snd (foldl (\<lambda>acc (_, req). push_types acc (requires req)) (es, ps) reg)) =
     set ps \<union> {t. Proposal t \<in> requires ` snd ` set reg}"
proof (induction reg arbitrary: es ps)
  case (Cons x reg)
  case 1 show ?case using Cons by (cases x; cases "requires (snd x)") auto
  case 2 show ?case using Cons by (cases x; cases "requires (snd x)") auto
qed auto

lemma set_sort_dedup [simp]: "set (sort_dedup rank ts) = set ts"
  by (simp add: sort_dedup_def)

lemma leaf_capability_sets:
  "set (mc_extensions (leaf_capabilities erank prank reg profile)) =
     ({APP_DATA_DICTIONARY} \<union> (if profile = Legacy then {ACCOUNT_IDENTITY_PROOF_EXTENSION_TYPE} else {})
        \<union> {t. Extension t \<in> requires ` snd ` set reg}) - DEFAULT_MLS_EXTENSION_TYPES"
  "set (mc_proposals (leaf_capabilities erank prank reg profile)) =
     ({APP_DATA_UPDATE} \<union> {t. Proposal t \<in> requires ` snd ` set reg}) - DEFAULT_MLS_PROPOSAL_TYPES"
  by (auto simp: leaf_capabilities_def Let_def case_prod_unfold set_pushed_types [unfolded case_prod_unfold])

section \<open>A client can serve every group it creates\<close>

definition registry_supported :: "(u16 \<Rightarrow> bool) \<Rightarrow> FeatureRegistry \<Rightarrow> AppComponentSet \<Rightarrow> bool" where
  "registry_supported is_grease reg supported =
     (\<not> is_grease APP_DATA_DICTIONARY \<and> \<not> is_grease ACCOUNT_IDENTITY_PROOF_EXTENSION_TYPE \<and>
      list_all (\<lambda>(_, req). case requires req of
          Extension t \<Rightarrow> \<not> is_grease t
        | AppComponent i \<Rightarrow> i \<in> supported
        | Proposal _ \<Rightarrow> True) reg)"

lemma self_supports:
  assumes "registry_supported is_grease reg supported"
  shows "contains_capability (self_supported_capabilities is_grease erank prank reg supported) c \<longleftrightarrow>
    (case c of
       Extension t \<Rightarrow> t \<in> DEFAULT_MLS_EXTENSION_TYPES \<or> t = APP_DATA_DICTIONARY \<or>
         t = ACCOUNT_IDENTITY_PROOF_EXTENSION_TYPE \<or> Extension t \<in> requires ` snd ` set reg
     | Proposal t \<Rightarrow> t \<in> DEFAULT_MLS_PROPOSAL_TYPES \<or> t = APP_DATA_UPDATE \<or> Proposal t \<in> requires ` snd ` set reg
     | AppComponent i \<Rightarrow> i = ACCOUNT_IDENTITY_PROOF_COMPONENT_ID \<or> i \<in> supported)"
  using assms unfolding self_supported_capabilities_def with_implicit_default_capabilities_def
    advertised_capabilities_from_caps_def registry_supported_def
  by (cases c) (auto simp: leaf_capability_sets list_all_iff split: Capability.splits)

lemma registry_get_mem: "registry_get reg f = Some req \<Longrightarrow> req \<in> snd ` set reg"
  unfolding registry_get_def by (force dest: map_of_SomeD)

lemma registry_component_supported:
  "registry_supported is_grease reg supported \<Longrightarrow> req \<in> snd ` set reg \<Longrightarrow>
     requires req = AppComponent i \<Longrightarrow> i \<in> supported"
  by (auto simp: registry_supported_def list_all_iff)

lemma self_supports_registry:
  assumes "registry_supported is_grease reg supported" and "req \<in> snd ` set reg"
  shows "contains_capability (self_supported_capabilities is_grease erank prank reg supported) (requires req)"
  using assms registry_component_supported [OF assms]
  unfolding self_supports [OF assms(1)] by (cases "requires req") force+

lemma insert_requested_total:
  "(\<exists>caps'. insert_requested reg caps fs = Inr caps') \<longleftrightarrow> (\<forall>f\<in>set fs. registry_get reg f \<noteq> None)"
  by (induction reg caps fs rule: insert_requested.induct) (auto split: option.splits)

text \<open>
  C31: A client supports every group it creates. For any registry whose extension types are not GREASE
  values and whose components the client supports, any active transports, any requested features and
  either protocol profile: the required capability set exists exactly when every requested feature is
  registered, nothing in it is missing from the client's own supported capabilities, and the leaf the
  client signs never advertises a default MLS type.\<close>

theorem creator_supports_required:
  assumes "registry_supported is_grease reg supported"
  shows "(case required_capabilities_extension_for_features reg active requested profile of
       Inl _ \<Rightarrow> \<exists>f\<in>set requested. registry_get reg f = None
     | Inr (caps, _) \<Rightarrow> (\<forall>f\<in>set requested. registry_get reg f \<noteq> None) \<and>
         capabilities_is_empty
           (missing_from caps (self_supported_capabilities is_grease erank prank reg supported))) \<and>
    set (mc_extensions (leaf_capabilities erank prank reg profile)) \<inter> DEFAULT_MLS_EXTENSION_TYPES = {} \<and>
    set (mc_proposals (leaf_capabilities erank prank reg profile)) \<inter> DEFAULT_MLS_PROPOSAL_TYPES = {}"
proof -
  let ?base = "fst (required_capabilities_extension reg active profile)"
  let ?self = "self_supported_capabilities is_grease erank prank reg supported"
  have base: "contains_capability ?self c" if "contains_capability ?base c" for c
    using that self_supports_registry [OF assms]
    by (auto simp: required_capabilities_extension_def Let_def profile_capability_def
        self_supports [OF assms] split: ProtocolProfile.splits)
  have "contains_capability ?self c"
    if "insert_requested reg ?base requested = Inr caps" "contains_capability caps c" for caps c
    using that base self_supports_registry [OF assms] registry_get_mem
    unfolding contains_insert_requested [OF that(1)] by metis
  then have "capabilities_is_empty (missing_from caps ?self)"
    if "insert_requested reg ?base requested = Inr caps" for caps
    using that by (auto simp: is_empty_iff)
  then show ?thesis
    using insert_requested_total [of reg ?base requested]
    by (auto simp: required_capabilities_extension_for_features_def leaf_capability_sets split: sum.splits)
qed

theorem creator_supports_required_witness:
  "capabilities_is_empty
     (missing_from
        (fst (projr (required_capabilities_extension_for_features
           [(''self-remove'', \<lparr>requires = Proposal 10, level = Optional, description = []\<rparr>)]
           [Nostr] [''self-remove''] Current)))
        (self_supported_capabilities (\<lambda>_. False) unat unat
           [(''self-remove'', \<lparr>requires = Proposal 10, level = Optional, description = []\<rparr>)] {}))"
  using creator_supports_required [where is_grease = "\<lambda>_. False" and supported = "{}"
      and reg = "[(''self-remove'', \<lparr>requires = Proposal 10, level = Optional, description = []\<rparr>)]"
      and active = "[Nostr]" and requested = "[''self-remove'']" and profile = Current
      and erank = unat and prank = unat]
  by (auto simp: registry_supported_def registry_get_def required_capabilities_extension_for_features_def)

section \<open>The two capability queries agree\<close>

lemma any_missing_iff:
  "any_missing env gid cap ms = Inr False \<longleftrightarrow>
     (\<forall>m\<in>set ms. \<exists>caps. env_member_capabilities env gid m = Inr (Some caps) \<and> contains_capability caps cap)"
  by (induction ms) (auto split: sum.splits option.splits)

lemma upgradeable_loop_spec:
  "upgradeable_loop env gid already ms out reg = Inr out' \<Longrightarrow>
     contains_capability out' c \<longleftrightarrow> contains_capability out c \<or>
       (\<exists>spec\<in>snd ` set reg. requires spec = c \<and> \<not> is_transport_required (level spec) \<and>
          \<not> contains_capability already c \<and> any_missing env gid c ms = Inr False)"
proof (induction env gid already ms out reg rule: upgradeable_loop.induct)
  case (2 env gid already members out f spec rest)
  then show ?case by (auto split: if_splits sum.splits)
qed auto

lemma upgradeable_loop_evaluated:
  "upgradeable_loop env gid already ms out reg = Inr out' \<Longrightarrow> spec \<in> snd ` set reg \<Longrightarrow>
     \<not> is_transport_required (level spec) \<Longrightarrow> \<not> contains_capability already (requires spec) \<Longrightarrow>
     \<exists>b. any_missing env gid (requires spec) ms = Inr b"
proof (induction env gid already ms out reg rule: upgradeable_loop.induct)
  case (2 env gid already members out f spec' rest)
  then show ?case by (auto split: if_splits sum.splits)
qed auto

lemma do_upgradeable_cases:
  assumes "do_upgradeable_capabilities env gid = Inr up"
  obtains g ms where "load_group env gid = Inr g" "env_members env gid = Inr ms"
    "upgradeable_loop env gid (required_capabilities_from_group g) ms default_capabilities
       (env_registry env) = Inr up"
  using assms by (auto simp: do_upgradeable_capabilities_def split: sum.splits)

text \<open>Once the group is loaded and the capability loop succeeds, the status of a non-transport
  feature is a function of three sets.\<close>

lemma feature_status_eq:
  assumes "load_group env gid = Inr g" and "env_members env gid = Inr ms"
    and "upgradeable_loop env gid (required_capabilities_from_group g) ms default_capabilities
       (env_registry env) = Inr up"
    and req: "registry_get (env_registry env) f = Some req" and "\<not> is_transport_required (level req)"
  shows "do_feature_status env gid f = Inr
    (if contains_capability (required_capabilities_from_group g) (requires req) then Available
     else if contains_capability up (requires req) then Upgradeable
     else Unavailable (insert_capability default_capabilities (requires req)))"
proof (cases "contains_capability (required_capabilities_from_group g) (requires req)")
  case True
  then show ?thesis using assms by (simp add: do_feature_status_def)
next
  case False
  then obtain b where b: "any_missing env gid (requires req) ms = Inr b"
    using upgradeable_loop_evaluated [OF assms(3)] registry_get_mem [OF req] assms(5) by blast
  have "contains_capability up (requires req) \<longleftrightarrow> \<not> b"
    using upgradeable_loop_spec [OF assms(3), of "requires req"] registry_get_mem [OF req] assms(5) False b
    by auto
  then show ?thesis using False b assms by (cases b) (simp_all add: do_feature_status_def)
qed

lemma required_from_group_contains:
  "contains_capability (required_capabilities_from_group g) c \<longleftrightarrow>
    (case c of
       Extension t \<Rightarrow> \<exists>x\<in>set (mg_required_capabilities g). t \<in> set (fst x)
     | Proposal t \<Rightarrow> \<exists>x\<in>set (mg_required_capabilities g). t \<in> set (snd x)
     | AppComponent i \<Rightarrow> \<exists>ids. required_app_components_of_group g = Inr ids \<and> i \<in> ids)"
proof -
  have ext: "extensions (foldl (\<lambda>out (exts, props). out\<lparr>extensions := extensions out \<union> set exts,
        proposals := proposals out \<union> set props\<rparr>) out rcs) = extensions out \<union> (\<Union>x\<in>set rcs. set (fst x))" and
    prp: "proposals (foldl (\<lambda>out (exts, props). out\<lparr>extensions := extensions out \<union> set exts,
        proposals := proposals out \<union> set props\<rparr>) out rcs) = proposals out \<union> (\<Union>x\<in>set rcs. set (snd x))" and
    app: "app_components (foldl (\<lambda>out (exts, props). out\<lparr>extensions := extensions out \<union> set exts,
        proposals := proposals out \<union> set props\<rparr>) out rcs) = app_components out"
    for out :: GroupCapabilities and rcs
    by (induction rcs arbitrary: out) auto
  show ?thesis
    by (cases c) (auto simp: required_capabilities_from_group_def default_capabilities_def ext prp app Let_def
        split: sum.splits)
qed

lemma set_push_missing: "set (push_missing ts new) = set ts \<union> set new"
  unfolding push_missing_def by (induction new arbitrary: ts) auto

lemma upgraded_types_sets:
  "set (fst (upgraded_required_types g up)) =
     (\<Union>x\<in>set (mg_required_capabilities g). set (fst x)) \<union> extensions up"
  "set (snd (upgraded_required_types g up)) =
     (\<Union>x\<in>set (mg_required_capabilities g). set (snd x)) \<union> proposals up"
  by (simp_all add: upgraded_required_types_def Let_def set_push_missing)

lemma required_components_retyped [simp]:
  "required_app_components_of_group (g\<lparr>mg_required_capabilities := r\<rparr>) = required_app_components_of_group g"
  by (simp add: required_app_components_of_group_def)

lemma required_components_stored [simp]:
  "required_app_components_of_group
     (g\<lparr>mg_dictionary := d(APP_COMPONENTS_COMPONENT_ID \<mapsto> encode_components_list ids)\<rparr>) = Inr ids"
  by (simp add: required_app_components_of_group_def decode_encode_components_list)

lemma upgraded_components:
  assumes "upgraded_group g up = Inr g'"
  shows "(app_components up = {} \<and> required_app_components_of_group g' = required_app_components_of_group g) \<or>
    (\<exists>before. required_app_components_of_group g = Inr before \<and>
       required_app_components_of_group g' = Inr (before \<union> app_components up))"
proof (cases "app_components up = {}")
  case True
  then show ?thesis using assms by (auto simp: upgraded_group_def Let_def)
next
  case False
  then obtain before where before: "required_app_components_of_group g = Inr before"
    using assms by (cases "required_app_components_of_group g") (auto simp: upgraded_group_def Let_def)
  have "required_app_components_of_group g' = Inr (before \<union> app_components up)"
  proof (cases "before \<union> app_components up = before")
    case True
    then have "required_app_components_of_group g' = required_app_components_of_group g"
      using assms False before by (auto simp: upgraded_group_def Let_def split: if_splits)
    then show ?thesis using True before by simp
  next
    case new: False
    show ?thesis using assms
      by (simp add: upgraded_group_def Let_def False before new del: Un_subset_iff sup.absorb_iff1) force
  qed
  then show ?thesis using before by blast
qed

lemma upgraded_types:
  assumes "upgraded_group g up = Inr g'"
  shows "mg_required_capabilities g' = (if extensions up \<noteq> {} \<or> proposals up \<noteq> {}
    then [upgraded_required_types g up] else mg_required_capabilities g)"
  using assms by (auto simp: upgraded_group_def Let_def split: if_splits sum.splits)

lemma upgraded_required:
  assumes "upgraded_group g up = Inr g'"
  shows "contains_capability (required_capabilities_from_group g') c \<longleftrightarrow>
    contains_capability (required_capabilities_from_group g) c \<or> contains_capability up c"
  unfolding required_from_group_contains upgraded_types [OF assms]
  using upgraded_components [OF assms] by (cases c) (auto simp: upgraded_types_sets, metis)

lemma any_missing_reload [simp]:
  "any_missing (env\<lparr>env_mls_load := load\<rparr>) gid cap ms = any_missing env gid cap ms"
  by (induction ms) (auto split: sum.splits)

lemma upgradeable_loop_reload [simp]:
  "upgradeable_loop (env\<lparr>env_mls_load := load\<rparr>) gid already ms out reg = upgradeable_loop env gid already ms out reg"
  by (induction env gid already ms out reg rule: upgradeable_loop.induct) (auto split: sum.splits)

lemma upgradeable_loop_grown:
  "upgradeable_loop env gid already ms out reg = Inr up \<Longrightarrow>
   (\<And>c. contains_capability already' c \<longleftrightarrow> contains_capability already c \<or> contains_capability up' c) \<Longrightarrow>
   (\<And>c. contains_capability up c \<Longrightarrow> contains_capability up' c) \<Longrightarrow>
   upgradeable_loop env gid already' ms out' reg = Inr out'"
proof (induction env gid already ms out reg rule: upgradeable_loop.induct)
  case (2 env gid already members out f spec rest)
  show ?case
  proof (cases "is_transport_required (level spec) \<or> contains_capability already (requires spec)")
    case True
    then show ?thesis using 2 by auto
  next
    case False
    then obtain b where b: "any_missing env gid (requires spec) members = Inr b"
      using "2.prems"(1) by (auto split: sum.splits)
    have "contains_capability up (requires spec)" if "\<not> b"
      using "2.prems"(1) False b that upgradeable_loop_spec by fastforce
    then show ?thesis using 2 False b by (auto split: sum.splits)
  qed
qed auto

text \<open>
  C29: The upgrade reaches exactly the features reported as upgradeable. When the upgrade query
  succeeds, a capability is in its result precisely if some registered non-transport feature that
  needs it has status \<open>Upgradeable\<close>; and in the group state its commit proposes, each of those features
  has become \<open>Available\<close>, every other non-transport feature keeps its status, and nothing is left to
  upgrade.\<close>

theorem upgrade_matches_status:
  assumes "do_upgradeable_capabilities env gid = Inr up" and "load_group env gid = Inr g"
    and "upgraded_group g up = Inr g'" and "distinct (map fst (env_registry env))"
  defines "env' \<equiv> env\<lparr>env_mls_load := (env_mls_load env)(gid := Inr (Some g'))\<rparr>"
  shows "(\<forall>c. contains_capability up c \<longleftrightarrow>
            (\<exists>f req. registry_get (env_registry env) f = Some req \<and> requires req = c \<and>
               \<not> is_transport_required (level req) \<and> do_feature_status env gid f = Inr Upgradeable)) \<and>
    (\<forall>f req. registry_get (env_registry env) f = Some req \<longrightarrow> \<not> is_transport_required (level req) \<longrightarrow>
       do_feature_status env' gid f =
         (if do_feature_status env gid f = Inr Upgradeable then Inr Available
          else do_feature_status env gid f)) \<and>
    do_upgradeable_capabilities env' gid = Inr default_capabilities"
proof -
  obtain ms where ms: "env_members env gid = Inr ms" and loop: "upgradeable_loop env gid
      (required_capabilities_from_group g) ms default_capabilities (env_registry env) = Inr up"
    using do_upgradeable_cases [OF assms(1)] assms(2) by force
  have load': "load_group env' gid = Inr g'" and ms': "env_members env' gid = Inr ms"
    and reg': "env_registry env' = env_registry env"
    by (simp_all add: env'_def load_group_def ms)
  have loop': "upgradeable_loop env' gid (required_capabilities_from_group g') ms
      default_capabilities (env_registry env') = Inr default_capabilities"
    unfolding env'_def using upgradeable_loop_grown [OF loop upgraded_required [OF assms(3)]] by simp
  note eq = feature_status_eq [OF assms(2) ms loop] feature_status_eq [OF load' ms' loop', unfolded reg']
  have mem: "req \<in> snd ` set (env_registry env) \<longleftrightarrow> (\<exists>f. registry_get (env_registry env) f = Some req)" for req
    using assms(4) by (force simp: registry_get_def)
  have "contains_capability up c \<longleftrightarrow> (\<exists>f req. registry_get (env_registry env) f = Some req \<and> requires req = c \<and>
      \<not> is_transport_required (level req) \<and> do_feature_status env gid f = Inr Upgradeable)" for c
  proof -
    have "contains_capability up c \<longleftrightarrow> (\<exists>spec\<in>snd ` set (env_registry env). requires spec = c \<and>
        \<not> is_transport_required (level spec) \<and> contains_capability up (requires spec) \<and>
        \<not> contains_capability (required_capabilities_from_group g) (requires spec))"
      unfolding upgradeable_loop_spec [OF loop] by auto
    also have "\<dots> \<longleftrightarrow> (\<exists>f req. registry_get (env_registry env) f = Some req \<and> requires req = c \<and>
        \<not> is_transport_required (level req) \<and> contains_capability up (requires req) \<and>
        \<not> contains_capability (required_capabilities_from_group g) (requires req))"
      unfolding Bex_def mem by blast
    also have "\<dots> \<longleftrightarrow> (\<exists>f req. registry_get (env_registry env) f = Some req \<and> requires req = c \<and>
        \<not> is_transport_required (level req) \<and> do_feature_status env gid f = Inr Upgradeable)"
      by (intro ex_cong1 conj_cong refl) (simp add: eq(1))
    finally show ?thesis .
  qed
  moreover have "do_feature_status env' gid f = (if do_feature_status env gid f = Inr Upgradeable
      then Inr Available else do_feature_status env gid f)"
    if "registry_get (env_registry env) f = Some req" "\<not> is_transport_required (level req)" for f req
    using upgraded_required [OF assms(3), of "requires req"] by (auto simp: eq [OF that])
  moreover have "do_upgradeable_capabilities env' gid = Inr default_capabilities"
    by (simp add: do_upgradeable_capabilities_def load' ms' loop')
  ultimately show ?thesis by blast
qed

definition example_env :: "unit capability_env" where
  "example_env =
     \<lparr>env_registry = [(''self-remove'', \<lparr>requires = Proposal 10, level = Optional, description = []\<rparr>),
                      (''stream'', \<lparr>requires = Extension 0xF2D1, level = Optional, description = []\<rparr>)],
      env_mls_load = (\<lambda>_. Inr (Some \<lparr>mg_required_capabilities = [([6], [8])], mg_dictionary = Map.empty\<rparr>)),
      env_members = (\<lambda>_. Inr [[1], [2]]),
      env_member_capabilities = (\<lambda>_ m. Inr (Some \<lparr>proposals = {8, 10},
        extensions = (if m = [1] then {6, 0xF2D1} else {6}), app_components = {}\<rparr>))\<rparr>"

definition example_upgradeable :: GroupCapabilities where
  "example_upgradeable = \<lparr>proposals = {10}, extensions = {}, app_components = {}\<rparr>"

theorem upgrade_matches_status_witness:
  "do_upgradeable_capabilities example_env [7] = Inr example_upgradeable \<and>
   do_feature_status (example_env\<lparr>env_mls_load := (env_mls_load example_env)([7] :=
       Inr (Some \<lparr>mg_required_capabilities = [([6], [8, 10])], mg_dictionary = Map.empty\<rparr>))\<rparr>)
     [7] ''self-remove'' = Inr Available"
proof -
  let ?g = "\<lparr>mg_required_capabilities = [([6], [8])], mg_dictionary = Map.empty\<rparr>"
  have up: "do_upgradeable_capabilities example_env [7] = Inr example_upgradeable"
    by (simp add: do_upgradeable_capabilities_def load_group_def example_env_def example_upgradeable_def
        required_capabilities_from_group_def required_app_components_of_group_def
        default_capabilities_def insert_capability.simps)
  have g: "load_group example_env [7] = Inr ?g" by (simp add: load_group_def example_env_def)
  have g': "upgraded_group ?g example_upgradeable =
      Inr \<lparr>mg_required_capabilities = [([6], [8, 10])], mg_dictionary = Map.empty\<rparr>"
    by (simp add: upgraded_group_def example_upgradeable_def upgraded_required_types_def push_missing_def Let_def)
  have "do_feature_status example_env [7] ''self-remove'' = Inr Upgradeable"
    by (simp add: do_feature_status_def load_group_def example_env_def registry_get_def
        required_capabilities_from_group_def required_app_components_of_group_def default_capabilities_def)
  then show ?thesis
    using upgrade_matches_status [OF up g g'] up by (simp add: example_env_def registry_get_def)
qed

end
