(* ===== verification/Agent_Text_Stream.thy ===== *)
theory Agent_Text_Stream
  imports Capabilities
begin

text \<open>
  The agent text stream values of \<open>traits/src/agent_text_stream.rs\<close>: the QUIC policy component, the
  record framing, the key context and the transcript hash chain.

  \<open>Vec<u8>\<close> is \<open>bytes\<close>, the integer fields are words of their width, \<open>usize\<close> is \<open>nat\<close> (a \<open>u64\<close>
  length always fits the 64-bit \<open>usize\<close>).  SHA-256 comes from a third-party crate and is the
  parameter \<open>H\<close>: an incremental hasher fed \<open>a\<close> then \<open>b\<close> is \<open>H (a @ b)\<close>.
\<close>

unbundle bit_operations_syntax

section \<open>Roles and policy\<close>

definition ROLE_RECEIVE :: u8 where "ROLE_RECEIVE = 0x01"
definition ROLE_SEND :: u8 where "ROLE_SEND = 0x02"
definition ROLE_FANOUT :: u8 where "ROLE_FANOUT = 0x04"
definition ROLE_MASK :: u8 where "ROLE_MASK = ROLE_RECEIVE OR ROLE_SEND OR ROLE_FANOUT"

definition AGENT_TEXT_STREAM_QUIC_ROLES :: "(u8 \<times> Feature \<times> Capability) list" where
  "AGENT_TEXT_STREAM_QUIC_ROLES =
     [(ROLE_RECEIVE, ''marmot.feature.agent_text_stream_quic.receive.v1'', Extension 0xF2D1),
      (ROLE_SEND, ''marmot.feature.agent_text_stream_quic.send.v1'', Extension 0xF2D2),
      (ROLE_FANOUT, ''marmot.feature.agent_text_stream_quic.fanout.v1'', Extension 0xF2D4)]"

definition required_role_capabilities :: "u8 \<Rightarrow> GroupCapabilities" where
  "required_role_capabilities roles =
     foldl (\<lambda>out (bit, _, cap). if roles AND bit \<noteq> 0 then insert_capability out cap else out)
       default_capabilities AGENT_TEXT_STREAM_QUIC_ROLES"

definition MAX_STREAM_ID_LEN :: nat where "MAX_STREAM_ID_LEN = 64"
definition MAX_PLAINTEXT_FRAME_LEN :: u32 where "MAX_PLAINTEXT_FRAME_LEN = 65519"
definition MAX_RECORD_CIPHERTEXT_LEN :: nat where "MAX_RECORD_CIPHERTEXT_LEN = 65535"
definition AEAD_TAG_LEN :: nat where "AEAD_TAG_LEN = 16"
definition MAX_REPLAY_TTL_SECS :: u32 where "MAX_REPLAY_TTL_SECS = 300"
definition MAX_PADDING_BUCKET_BYTES :: u16 where "MAX_PADDING_BUCKET_BYTES = 4096"
definition COMPONENT_STATE_LEN :: nat where "COMPONENT_STATE_LEN = 12"
definition RECORD_VERSION :: u8 where "RECORD_VERSION = 1"
definition RECORD_TEXT_DELTA :: u8 where "RECORD_TEXT_DELTA = 1"
definition AGENT_TEXT_STREAM_QUIC_COMPONENT_ID :: AppComponentId where
  "AGENT_TEXT_STREAM_QUIC_COMPONENT_ID = 0x8006"

record AgentTextStreamQuicPolicyV1 =
  required_member_roles :: u8
  allowed_member_roles :: u8
  max_plaintext_frame_len :: u32
  replay_ttl_secs :: u32
  padding_bucket_bytes :: u16

datatype AgentTextStreamPolicyError =
    EmptyRequiredRoles
  | UnknownRequiredRoleBits u8
  | UnknownAllowedRoleBits u8
  | RequiredRolesNotAllowed
  | EmptyFrameLimit
  | InvalidComponentStateLength nat
  | FrameLimitTooLarge u32
  | ReplayTtlTooLarge u32
  | PaddingBucketTooLarge u16

definition validate_policy :: "AgentTextStreamQuicPolicyV1 \<Rightarrow> AgentTextStreamPolicyError + unit" where
  "validate_policy p =
     (if required_member_roles p = 0 then Inl EmptyRequiredRoles
      else if required_member_roles p AND NOT ROLE_MASK \<noteq> 0
      then Inl (UnknownRequiredRoleBits (required_member_roles p))
      else if allowed_member_roles p AND NOT ROLE_MASK \<noteq> 0
      then Inl (UnknownAllowedRoleBits (allowed_member_roles p))
      else if required_member_roles p AND NOT (allowed_member_roles p) \<noteq> 0
      then Inl RequiredRolesNotAllowed
      else if max_plaintext_frame_len p = 0 then Inl EmptyFrameLimit
      else if max_plaintext_frame_len p > MAX_PLAINTEXT_FRAME_LEN
      then Inl (FrameLimitTooLarge (max_plaintext_frame_len p))
      else if replay_ttl_secs p > MAX_REPLAY_TTL_SECS then Inl (ReplayTtlTooLarge (replay_ttl_secs p))
      else if padding_bucket_bytes p > MAX_PADDING_BUCKET_BYTES
      then Inl (PaddingBucketTooLarge (padding_bucket_bytes p))
      else Inr ())"

definition user_to_agent_default :: AgentTextStreamQuicPolicyV1 where
  "user_to_agent_default =
     \<lparr>required_member_roles = ROLE_RECEIVE, allowed_member_roles = ROLE_RECEIVE OR ROLE_SEND,
      max_plaintext_frame_len = 4096, replay_ttl_secs = 0, padding_bucket_bytes = 0\<rparr>"

definition encode_component_state :: "AgentTextStreamQuicPolicyV1 \<Rightarrow> AgentTextStreamPolicyError + bytes" where
  "encode_component_state p =
     (case validate_policy p of
        Inl e \<Rightarrow> Inl e
      | Inr _ \<Rightarrow> Inr ([required_member_roles p, allowed_member_roles p]
                  @ to_be_bytes 4 (max_plaintext_frame_len p)
                  @ to_be_bytes 4 (replay_ttl_secs p)
                  @ to_be_bytes 2 (padding_bucket_bytes p)))"

text \<open>The standard library's \<open>from_be_bytes\<close>: the big-endian value of the bytes.\<close>
definition from_be_bytes :: "bytes \<Rightarrow> 'a::len word" where
  "from_be_bytes bs = word_of_nat (be_value 0 bs)"

definition decode_component_state :: "bytes \<Rightarrow> AgentTextStreamPolicyError + AgentTextStreamQuicPolicyV1" where
  "decode_component_state bs =
     (if length bs \<noteq> COMPONENT_STATE_LEN then Inl (InvalidComponentStateLength (length bs))
      else let p = \<lparr>required_member_roles = bs ! 0, allowed_member_roles = bs ! 1,
                    max_plaintext_frame_len = from_be_bytes (take 4 (drop 2 bs)),
                    replay_ttl_secs = from_be_bytes (take 4 (drop 6 bs)),
                    padding_bucket_bytes = from_be_bytes (take 2 (drop 10 bs))\<rparr>
           in case validate_policy p of Inl e \<Rightarrow> Inl e | Inr _ \<Rightarrow> Inr p)"

record AppComponentData =
  component_id :: AppComponentId
  component_data :: bytes

definition to_app_component_data :: "AgentTextStreamQuicPolicyV1 \<Rightarrow> AgentTextStreamPolicyError + AppComponentData" where
  "to_app_component_data p =
     (case encode_component_state p of
        Inl e \<Rightarrow> Inl e
      | Inr bs \<Rightarrow> Inr \<lparr>component_id = AGENT_TEXT_STREAM_QUIC_COMPONENT_ID, component_data = bs\<rparr>)"

text \<open>The two readers of the engine's \<open>capability_manager.rs\<close>: a missing or malformed component
  requires no roles.\<close>
definition roles_of_component_bytes :: "bytes option \<Rightarrow> GroupCapabilities" where
  "roles_of_component_bytes obs =
     (case obs of
        None \<Rightarrow> default_capabilities
      | Some bs \<Rightarrow>
          (case decode_component_state bs of
             Inl _ \<Rightarrow> default_capabilities
           | Inr p \<Rightarrow> required_role_capabilities (required_member_roles p)))"

definition required_role_capabilities_from_group :: "MlsGroupView \<Rightarrow> GroupCapabilities" where
  "required_role_capabilities_from_group g =
     roles_of_component_bytes (mg_dictionary g AGENT_TEXT_STREAM_QUIC_COMPONENT_ID)"

definition required_role_capabilities_from_request_components :: "AppComponentData list \<Rightarrow> GroupCapabilities" where
  "required_role_capabilities_from_request_components comps =
     roles_of_component_bytes
       (map_option component_data (find (\<lambda>c. component_id c = AGENT_TEXT_STREAM_QUIC_COMPONENT_ID) comps))"

section \<open>Records\<close>

record AgentTextStreamRecordV1 =
  rec_stream_id :: bytes
  rec_seq :: u64
  rec_type :: u8
  rec_flags :: u8
  rec_plaintext_frame :: bytes

datatype AgentTextStreamRecordError =
    Truncated string
  | UnsupportedVersion u8
  | TrailingBytes nat
  | LengthDecode string string
  | EmptyStreamId
  | StreamIdTooLong nat
  | UnknownRecordType u8
  | PlaintextFrameTooLarge nat

definition new_record :: "bytes \<Rightarrow> u64 \<Rightarrow> u8 \<Rightarrow> bytes \<Rightarrow> AgentTextStreamRecordV1" where
  "new_record stream_id seq record_type frame =
     \<lparr>rec_stream_id = stream_id, rec_seq = seq, rec_type = record_type, rec_flags = 0,
      rec_plaintext_frame = frame\<rparr>"

definition text_delta :: "bytes \<Rightarrow> u64 \<Rightarrow> bytes \<Rightarrow> AgentTextStreamRecordV1" where
  "text_delta stream_id seq frame = new_record stream_id seq RECORD_TEXT_DELTA frame"

definition validate_record :: "AgentTextStreamRecordV1 \<Rightarrow> AgentTextStreamRecordError + unit" where
  "validate_record r =
     (if rec_stream_id r = [] then Inl EmptyStreamId
      else if length (rec_stream_id r) > MAX_STREAM_ID_LEN
      then Inl (StreamIdTooLong (length (rec_stream_id r)))
      else if length (rec_plaintext_frame r) > MAX_RECORD_CIPHERTEXT_LEN
      then Inl (PlaintextFrameTooLarge (length (rec_plaintext_frame r)))
      else Inr ())"

definition quic_varint_encoded_len :: "u64 \<Rightarrow> nat" where
  "quic_varint_encoded_len value =
     (if value < 64 then 1 else if value < 16384 then 2 else if value < 1073741824 then 4 else 8)"

definition encoded_len :: "AgentTextStreamRecordV1 \<Rightarrow> AgentTextStreamRecordError + nat" where
  "encoded_len r =
     (case validate_record r of
        Inl e \<Rightarrow> Inl e
      | Inr _ \<Rightarrow> Inr (1 + quic_varint_encoded_len (word_of_nat (length (rec_stream_id r)))
                  + length (rec_stream_id r) + 8 + 1 + 1
                  + quic_varint_encoded_len (word_of_nat (length (rec_plaintext_frame r)))
                  + length (rec_plaintext_frame r)))"

definition push_len_prefixed :: "bytes \<Rightarrow> bytes" where
  "push_len_prefixed bs = encode_quic_varint (word_of_nat (length bs)) @ bs"

definition encode_record :: "AgentTextStreamRecordV1 \<Rightarrow> AgentTextStreamRecordError + bytes" where
  "encode_record r =
     (case encoded_len r of
        Inl e \<Rightarrow> Inl e
      | Inr _ \<Rightarrow> Inr ([RECORD_VERSION]
                  @ (encode_quic_varint (word_of_nat (length (rec_stream_id r))) @ rec_stream_id r)
                  @ to_be_bytes 8 (rec_seq r) @ [rec_type r] @ [rec_flags r]
                  @ (encode_quic_varint (word_of_nat (length (rec_plaintext_frame r))) @ rec_plaintext_frame r)))"

definition take_exact :: "bytes \<Rightarrow> nat \<Rightarrow> string \<Rightarrow> AgentTextStreamRecordError + (bytes \<times> bytes)" where
  "take_exact bs len field =
     (if length bs < len then Inl (Truncated field) else Inr (take len bs, drop len bs))"

definition take_len_prefixed :: "bytes \<Rightarrow> string \<Rightarrow> AgentTextStreamRecordError + (bytes \<times> bytes)" where
  "take_len_prefixed bs field =
     (case decode_quic_varint bs of
        Inl reason \<Rightarrow> Inl (LengthDecode field reason)
      | Inr (len, prefix_len) \<Rightarrow>
          (if prefix_len > length bs then Inl (Truncated field)
           else take_exact (drop prefix_len bs) (unat len) field))"

definition decode_fields :: "bytes \<Rightarrow> AgentTextStreamRecordError + AgentTextStreamRecordV1" where
  "decode_fields rest0 =
     result_bind (take_len_prefixed rest0 ''stream_id'') (\<lambda>(stream_id, rest1).
     result_bind (take_exact rest1 8 ''seq'') (\<lambda>(seq_bytes, rest2).
     result_bind (take_exact rest2 1 ''record_type'') (\<lambda>(record_type_bytes, rest3).
     result_bind (take_exact rest3 1 ''flags'') (\<lambda>(flags_bytes, rest4).
     result_bind (take_len_prefixed rest4 ''plaintext_frame'') (\<lambda>(plaintext_frame, rest5).
       if rest5 \<noteq> [] then Inl (TrailingBytes (length rest5))
       else let r = \<lparr>rec_stream_id = stream_id, rec_seq = from_be_bytes seq_bytes,
                     rec_type = record_type_bytes ! 0, rec_flags = flags_bytes ! 0,
                     rec_plaintext_frame = plaintext_frame\<rparr>
            in result_bind (validate_record r) (\<lambda>_. Inr r))))))"

fun decode_record :: "bytes \<Rightarrow> AgentTextStreamRecordError + AgentTextStreamRecordV1" where
  "decode_record [] = Inl (Truncated ''version'')"
| "decode_record (version # rest) =
     (if version \<noteq> RECORD_VERSION then Inl (UnsupportedVersion version) else decode_fields rest)"

section \<open>Key context and transcript\<close>

record AgentTextStreamKeyContextV1 =
  kc_group_id :: GroupId
  kc_stream_id :: bytes
  kc_mls_epoch :: EpochId
  kc_sender_id :: bytes
  kc_start_event_id :: bytes

text \<open>\<open>b"v1"\<close> and \<open>b"marmot agent text stream transcript v1"\<close>.\<close>
definition ascii :: "string \<Rightarrow> bytes" where
  "ascii s = map (\<lambda>c. word_of_nat (of_char c)) s"

definition KEY_CONTEXT_VERSION :: bytes where "KEY_CONTEXT_VERSION = ascii ''v1''"
definition TRANSCRIPT_HASH_CONTEXT :: bytes where
  "TRANSCRIPT_HASH_CONTEXT = ascii ''marmot agent text stream transcript v1''"

definition encode_key_context :: "AgentTextStreamKeyContextV1 \<Rightarrow> bytes" where
  "encode_key_context c =
     push_len_prefixed KEY_CONTEXT_VERSION @ push_len_prefixed (kc_group_id c)
     @ push_len_prefixed (kc_stream_id c) @ to_be_bytes 8 (kc_mls_epoch c)
     @ push_len_prefixed (kc_sender_id c) @ push_len_prefixed (kc_start_event_id c)"

record AgentTextStreamTranscriptV1 =
  tr_stream_id :: bytes
  tr_start_event_id :: bytes
  tr_hash :: bytes
  tr_chunk_count :: u64

definition transcript_seed :: "bytes \<Rightarrow> bytes \<Rightarrow> bytes" where
  "transcript_seed stream_id start_event_id =
     TRANSCRIPT_HASH_CONTEXT @ push_len_prefixed stream_id @ push_len_prefixed start_event_id"

definition new_transcript :: "(bytes \<Rightarrow> bytes) \<Rightarrow> bytes \<Rightarrow> bytes \<Rightarrow> AgentTextStreamTranscriptV1" where
  "new_transcript H stream_id start_event_id =
     \<lparr>tr_stream_id = stream_id, tr_start_event_id = start_event_id,
      tr_hash = H (transcript_seed stream_id start_event_id), tr_chunk_count = 0\<rparr>"

definition from_state :: "bytes \<Rightarrow> bytes \<Rightarrow> bytes \<Rightarrow> u64 \<Rightarrow> AgentTextStreamTranscriptV1" where
  "from_state stream_id start_event_id hash chunk_count =
     \<lparr>tr_stream_id = stream_id, tr_start_event_id = start_event_id, tr_hash = hash,
      tr_chunk_count = chunk_count\<rparr>"

definition append_transcript ::
  "(bytes \<Rightarrow> bytes) \<Rightarrow> AgentTextStreamTranscriptV1 \<Rightarrow> u64 \<Rightarrow> u8 \<Rightarrow> bytes \<Rightarrow> AgentTextStreamTranscriptV1" where
  "append_transcript H t seq record_type frame =
     t\<lparr>tr_hash := H (tr_hash t @ to_be_bytes 8 seq @ [record_type] @ frame),
       tr_chunk_count := tr_chunk_count t + 1\<rparr>"

section \<open>Big-endian fields\<close>

lemma from_to_be_bytes:
  "LENGTH('a) = 8 * n \<Longrightarrow> from_be_bytes (to_be_bytes n w) = (w :: 'a::len word)"
proof -
  assume n: "LENGTH('a) = 8 * n"
  have "unat w < 256 ^ n" using unat_less_exp [of w] unfolding n by (simp add: power_mult)
  then show ?thesis by (simp add: from_be_bytes_def to_be_bytes_digits be_value_digits)
qed

lemma to_from_be_bytes:
  "LENGTH('a) = 8 * length bs \<Longrightarrow> to_be_bytes (length bs) (from_be_bytes bs :: 'a::len word) = bs"
proof -
  assume n: "LENGTH('a) = 8 * length bs"
  have "be_value 0 bs < 2 ^ LENGTH('a)" using be_value_bound [of bs] unfolding n by (simp add: power_mult)
  then have "unat (from_be_bytes bs :: 'a word) = be_value 0 bs"
    unfolding from_be_bytes_def by (rule unat_word_of_nat)
  then show ?thesis by (simp add: to_be_bytes_digits be_digits_value)
qed

lemma from_be_bytes_iff:
  assumes "LENGTH('a) = 8 * n" and "length bs = n"
  shows "from_be_bytes bs = (w :: 'a::len word) \<longleftrightarrow> bs = to_be_bytes n w"
  using from_to_be_bytes [OF assms(1), of w] to_from_be_bytes [where 'a = 'a and bs = bs] assms by auto

lemma length_to_be_bytes [simp]: "length (to_be_bytes n w) = n"
  by (simp add: to_be_bytes_digits)

lemma to_be_bytes_inj: "LENGTH('a) = 8 * n \<Longrightarrow> to_be_bytes n v = to_be_bytes n (w :: 'a::len word) \<longleftrightarrow> v = w"
  using from_to_be_bytes by metis

lemma u64_of_nat_inj:
  assumes "m < 2 ^ 64" and "n < 2 ^ 64"
  shows "(word_of_nat m :: u64) = word_of_nat n \<longleftrightarrow> m = n"
proof -
  have "unat (word_of_nat k :: u64) = k" if "k < 2 ^ 64" for k
    using that by (intro unat_word_of_nat) simp
  then show ?thesis using assms by metis
qed

section \<open>The policy component\<close>

lemma split_12:
  assumes "length bs = 12"
  shows "bs = [bs ! 0, bs ! 1] @ take 4 (drop 2 bs) @ take 4 (drop 6 bs) @ take 2 (drop 10 bs)"
  using assms by (auto simp: numeral_eq_Suc length_Suc_conv)

text \<open>
  The policy component codec is exact. Decoding accepts a byte string as a policy precisely when that
  string is the encoding of the policy; both sides apply the same validation, so no byte string that
  decodes carries an invalid policy, and no valid policy is lost.\<close>

lemma policy_state_exact:
  "decode_component_state bs = Inr p \<longleftrightarrow> encode_component_state p = Inr bs"
proof
  assume dec: "decode_component_state bs = Inr p"
  then have len: "length bs = 12" by (auto simp: decode_component_state_def COMPONENT_STATE_LEN_def split: if_splits)
  define q where "q = \<lparr>required_member_roles = bs ! 0, allowed_member_roles = bs ! 1,
    max_plaintext_frame_len = from_be_bytes (take 4 (drop 2 bs)),
    replay_ttl_secs = from_be_bytes (take 4 (drop 6 bs)),
    padding_bucket_bytes = from_be_bytes (take 2 (drop 10 bs))\<rparr>"
  have q: "q = p" "validate_policy p = Inr ()"
    using dec len unfolding decode_component_state_def COMPONENT_STATE_LEN_def Let_def q_def [symmetric]
    by (auto split: sum.splits)
  have "to_be_bytes 4 (from_be_bytes (take 4 (drop k bs)) :: u32) = take 4 (drop k bs)" if "k \<le> 8" for k
    using to_from_be_bytes [where bs = "take 4 (drop k bs)" and 'a = 32] len that by simp
  moreover have "to_be_bytes 2 (from_be_bytes (take 2 (drop 10 bs)) :: u16) = take 2 (drop 10 bs)"
    using to_from_be_bytes [where bs = "take 2 (drop 10 bs)" and 'a = 16] len by simp
  ultimately show "encode_component_state p = Inr bs"
    using q split_12 [OF len] by (simp add: encode_component_state_def q_def [symmetric]) (auto simp: q_def)
next
  assume enc: "encode_component_state p = Inr bs"
  then have v: "validate_policy p = Inr ()" by (auto simp: encode_component_state_def split: sum.splits)
  then have bs: "bs = [required_member_roles p, allowed_member_roles p] @ to_be_bytes 4 (max_plaintext_frame_len p)
      @ to_be_bytes 4 (replay_ttl_secs p) @ to_be_bytes 2 (padding_bucket_bytes p)"
    using enc by (simp add: encode_component_state_def)
  show "decode_component_state bs = Inr p"
    using v unfolding bs
    by (cases p) (simp add: decode_component_state_def COMPONENT_STATE_LEN_def from_to_be_bytes Let_def)
qed

section \<open>Records\<close>

lemma quic_varint_encoded_len_eq: "quic_varint_encoded_len v = minimal_width v"
  by (simp add: quic_varint_encoded_len_def minimal_width_def)

lemma take_exact_Inr: "take_exact bs n f = Inr (x, rest) \<longleftrightarrow> length x = n \<and> bs = x @ rest"
  by (auto simp: take_exact_def)

lemma take_len_prefixed_Inr:
  "take_len_prefixed bs f = Inr (x, rest) \<longleftrightarrow> length x < 2 ^ 62 \<and> bs = push_len_prefixed x @ rest"
proof
  assume t: "take_len_prefixed bs f = Inr (x, rest)"
  then obtain l w where v: "decode_quic_varint bs = Inr (l, w)"
    by (cases "decode_quic_varint bs") (auto simp: take_len_prefixed_def)
  then have x: "length x = unat l" "drop w bs = x @ rest"
    using t by (auto simp: take_len_prefixed_def take_exact_Inr split: if_splits)
  note s = varint_decode_sound [OF v]
  have "word_of_nat (length x) = l" by (simp add: x(1))
  then show "length x < 2 ^ 62 \<and> bs = push_len_prefixed x @ rest"
    using s x append_take_drop_id [of w bs] by (auto simp: push_len_prefixed_def)
next
  assume r: "length x < 2 ^ 62 \<and> bs = push_len_prefixed x @ rest"
  define l where "l = (word_of_nat (length x) :: u64)"
  have l: "unat l = length x" unfolding l_def using r by (intro unat_length) simp
  have "decode_quic_varint bs = Inr (l, minimal_width l)"
    using r varint_decode_complete [of l "x @ rest"] l by (simp add: push_len_prefixed_def l_def)
  moreover have "length (encode_quic_varint l) = minimal_width l"
    using r l by (intro length_encode_varint) simp
  ultimately show "take_len_prefixed bs f = Inr (x, rest)"
    using r l by (simp add: take_len_prefixed_def take_exact_def push_len_prefixed_def l_def [symmetric])
qed

lemma take_exact_append: "length x = n \<Longrightarrow> take_exact (x @ rest) n f = Inr (x, rest)"
  by (simp add: take_exact_Inr)

lemma take_len_prefixed_append:
  "length x < 2 ^ 62 \<Longrightarrow> take_len_prefixed (push_len_prefixed x @ rest) f = Inr (x, rest)"
  by (simp only: take_len_prefixed_Inr)

lemma valid_record_lengths:
  "validate_record r = Inr () \<longleftrightarrow> rec_stream_id r \<noteq> [] \<and> length (rec_stream_id r) \<le> 64 \<and>
     length (rec_plaintext_frame r) \<le> 65535"
  by (auto simp: validate_record_def MAX_STREAM_ID_LEN_def MAX_RECORD_CIPHERTEXT_LEN_def)

lemma encode_record_Inr:
  "encode_record r = Inr bs \<longleftrightarrow> validate_record r = Inr () \<and>
     bs = RECORD_VERSION # push_len_prefixed (rec_stream_id r) @ to_be_bytes 8 (rec_seq r)
            @ [rec_type r] @ [rec_flags r] @ push_len_prefixed (rec_plaintext_frame r)"
  by (auto simp: encode_record_def encoded_len_def push_len_prefixed_def split: sum.splits)

lemma decode_fields_Inr:
  "decode_fields bs = Inr r \<longleftrightarrow> validate_record r = Inr () \<and>
     bs = push_len_prefixed (rec_stream_id r) @ to_be_bytes 8 (rec_seq r)
            @ [rec_type r] @ [rec_flags r] @ push_len_prefixed (rec_plaintext_frame r)"
  (is "?dec \<longleftrightarrow> ?valid \<and> bs = ?enc")
proof
  assume ?dec
  then obtain sid r1 sb r2 tb r3 fb r4 pf where p:
      "length sid < 2 ^ 62 \<and> bs = push_len_prefixed sid @ r1" "length sb = 8 \<and> r1 = sb @ r2"
      "length tb = 1 \<and> r2 = tb @ r3" "length fb = 1 \<and> r3 = fb @ r4"
      "length pf < 2 ^ 62 \<and> r4 = push_len_prefixed pf @ []"
      "r = \<lparr>rec_stream_id = sid, rec_seq = from_be_bytes sb, rec_type = tb ! 0, rec_flags = fb ! 0,
            rec_plaintext_frame = pf\<rparr>" "?valid"
    unfolding decode_fields_def result_bind_Inr split_paired_Ex
    by (auto simp: Let_def result_bind_Inr take_exact_Inr take_len_prefixed_Inr split: if_splits)
  have "tb = [tb ! 0]" "fb = [fb ! 0]" using p(3,4) by (auto simp: length_Suc_conv)
  moreover have "to_be_bytes 8 (from_be_bytes sb :: u64) = sb"
    using to_from_be_bytes [where bs = sb and 'a = 64] p(2) by simp
  ultimately show "?valid \<and> bs = ?enc" using p by (simp add: p(6))
next
  assume "?valid \<and> bs = ?enc"
  then have v: ?valid and bs: "bs = ?enc" by blast+
  have "length (rec_stream_id r) < 2 ^ 62" "length (rec_plaintext_frame r) < 2 ^ 62"
    using v by (simp_all add: valid_record_lengths)
  with v show ?dec
    using take_len_prefixed_append [of "rec_plaintext_frame r" "[]"]
      take_exact_append [of "[rec_type r]" 1] take_exact_append [of "[rec_flags r]" 1] unfolding bs
    by (cases r) (simp add: decode_fields_def Let_def take_exact_append take_len_prefixed_append from_to_be_bytes)
qed

text \<open>
  C35: The record framing is exact, and its length is known in advance. Decoding yields a record precisely
  when the input is that record's encoding: wrong versions, truncations, non-minimal lengths and
  trailing bytes are all rejected, every accepted record satisfies the size bounds, and
  \<open>encoded_len\<close> is the length of the encoding, with the same error when there is none.\<close>

theorem record_framing_exact:
  "(decode_record bs = Inr r \<longleftrightarrow> encode_record r = Inr bs) \<and>
   encoded_len r = map_sum id length (encode_record r)"
proof
  show "decode_record bs = Inr r \<longleftrightarrow> encode_record r = Inr bs"
    by (cases bs) (auto simp: encode_record_Inr decode_fields_Inr)
  show "encoded_len r = map_sum id length (encode_record r)"
  proof (cases "validate_record r")
    case (Inr u)
    then have "length (rec_stream_id r) < 2 ^ 62" "length (rec_plaintext_frame r) < 2 ^ 62"
      using valid_record_lengths [of r] by auto
    then show ?thesis
      by (simp add: encode_record_def encoded_len_def Inr quic_varint_encoded_len_eq length_encode_varint
          unat_length)
  qed (simp add: encode_record_def encoded_len_def)
qed

section \<open>Key context\<close>

lemma push_len_prefixed_inj:
  assumes "length a < 2 ^ 62" and "length b < 2 ^ 62"
  shows "push_len_prefixed a @ x = push_len_prefixed b @ y \<longleftrightarrow> a = b \<and> x = y"
proof
  assume eq: "push_len_prefixed a @ x = push_len_prefixed b @ y"
  have "take_len_prefixed (push_len_prefixed a @ x) [] = Inr (a, x)"
    using assms(1) by (simp only: take_len_prefixed_Inr)
  moreover have "take_len_prefixed (push_len_prefixed a @ x) [] = Inr (b, y)"
    using assms(2) unfolding eq by (simp only: take_len_prefixed_Inr)
  ultimately show "a = b \<and> x = y" by simp
qed simp

lemmas push_len_prefixed_inj_end = push_len_prefixed_inj [where x = "[]" and y = "[]", simplified]

lemma to_be_bytes_append_inj:
  "to_be_bytes 8 v @ x = to_be_bytes 8 (w :: u64) @ y \<longleftrightarrow> v = w \<and> x = y"
  using to_be_bytes_inj [of 8 v w] by (auto simp: append_eq_append_conv)

definition short_fields :: "AgentTextStreamKeyContextV1 \<Rightarrow> bool" where
  "short_fields c = list_all (\<lambda>bs. length bs < 2 ^ 62)
     [kc_group_id c, kc_stream_id c, kc_sender_id c, kc_start_event_id c]"

text \<open>
  The key context binds every field. Two contexts whose byte fields are shorter than the varint limit
  have the same encoding only if group, stream, epoch, sender and start event all agree, so two
  different streams never derive keys from one context string.\<close>

lemma key_context_injective:
  assumes "short_fields c" and "short_fields c'"
  shows "encode_key_context c = encode_key_context c' \<longleftrightarrow> c = c'"
proof
  assume "encode_key_context c = encode_key_context c'"
  then show "c = c'"
    using assms unfolding encode_key_context_def short_fields_def
    by (simp add: push_len_prefixed_inj push_len_prefixed_inj_end to_be_bytes_append_inj)
qed simp

lemma key_context_injective_witness:
  "encode_key_context \<lparr>kc_group_id = [1], kc_stream_id = [2, 3], kc_mls_epoch = 7, kc_sender_id = [4],
     kc_start_event_id = [5]\<rparr> \<noteq>
   encode_key_context \<lparr>kc_group_id = [1, 2], kc_stream_id = [3], kc_mls_epoch = 7, kc_sender_id = [4],
     kc_start_event_id = [5]\<rparr>"
  using key_context_injective
      [of "\<lparr>kc_group_id = [1], kc_stream_id = [2, 3], kc_mls_epoch = 7, kc_sender_id = [4],
            kc_start_event_id = [5]\<rparr>"
          "\<lparr>kc_group_id = [1, 2], kc_stream_id = [3], kc_mls_epoch = 7, kc_sender_id = [4],
            kc_start_event_id = [5]\<rparr>"]
  by (simp add: short_fields_def)

section \<open>The transcript binds the delivered records\<close>

type_synonym chunk = "u64 \<times> u8 \<times> bytes"

definition chunk_input :: "bytes \<Rightarrow> chunk \<Rightarrow> bytes" where
  "chunk_input h c = h @ to_be_bytes 8 (fst c) @ [fst (snd c)] @ snd (snd c)"

definition append_chunks ::
  "(bytes \<Rightarrow> bytes) \<Rightarrow> AgentTextStreamTranscriptV1 \<Rightarrow> chunk list \<Rightarrow> AgentTextStreamTranscriptV1" where
  "append_chunks H t cs = foldl (\<lambda>t (seq, ty, frame). append_transcript H t seq ty frame) t cs"

text \<open>The strings a transcript run feeds to the hash.\<close>
fun chunk_inputs :: "(bytes \<Rightarrow> bytes) \<Rightarrow> bytes \<Rightarrow> chunk list \<Rightarrow> bytes set" where
  "chunk_inputs H h [] = {}"
| "chunk_inputs H h (c # cs) = insert (chunk_input h c) (chunk_inputs H (H (chunk_input h c)) cs)"

definition transcript_inputs :: "(bytes \<Rightarrow> bytes) \<Rightarrow> bytes \<Rightarrow> bytes \<Rightarrow> chunk list \<Rightarrow> bytes set" where
  "transcript_inputs H sid eid cs =
     insert (transcript_seed sid eid) (chunk_inputs H (H (transcript_seed sid eid)) cs)"

lemma append_chunks_simps [simp]:
  "append_chunks H t [] = t"
  "append_chunks H t (c # cs) =
     append_chunks H (append_transcript H t (fst c) (fst (snd c)) (snd (snd c))) cs"
  by (auto simp: append_chunks_def case_prod_unfold)

lemma append_transcript_hash [simp]:
  "tr_hash (append_transcript H t (fst c) (fst (snd c)) (snd (snd c))) = H (chunk_input (tr_hash t) c)"
  by (simp add: append_transcript_def chunk_input_def)

lemma chunk_input_inj:
  "length h = length h' \<Longrightarrow> chunk_input h c = chunk_input h' c' \<longleftrightarrow> h = h' \<and> c = c'"
  by (cases c; cases c') (auto simp: chunk_input_def to_be_bytes_append_inj append_eq_append_conv)

text \<open>The hash chain behind a transcript.\<close>

definition chain_hash :: "(bytes \<Rightarrow> bytes) \<Rightarrow> bytes \<Rightarrow> chunk list \<Rightarrow> bytes" where
  "chain_hash H h cs = foldl (\<lambda>h c. H (chunk_input h c)) h cs"

lemma append_chunks_hash: "tr_hash (append_chunks H t cs) = chain_hash H (tr_hash t) cs"
  by (induction cs arbitrary: t) (simp_all add: chain_hash_def)

lemma chain_hash_simps [simp]:
  "chain_hash H h [] = h" "chain_hash H h (cs @ [c]) = H (chunk_input (chain_hash H h cs) c)"
  by (simp_all add: chain_hash_def)

lemma chunk_inputs_snoc [simp]:
  "chunk_inputs H h (cs @ [c]) = insert (chunk_input (chain_hash H h cs) c) (chunk_inputs H h cs)"
  by (induction cs arbitrary: h) (auto simp: chain_hash_def)

lemma seed_in_inputs [simp]: "transcript_seed sid eid \<in> transcript_inputs H sid eid cs"
  by (simp add: transcript_inputs_def)

lemma transcript_inputs_snoc [simp]:
  "transcript_inputs H sid eid (cs @ [c]) =
     insert (chunk_input (chain_hash H (H (transcript_seed sid eid)) cs) c) (transcript_inputs H sid eid cs)"
  by (auto simp: transcript_inputs_def)

lemma chain_hash_in: "chain_hash H (H (transcript_seed sid eid)) cs \<in> H ` transcript_inputs H sid eid cs"
  by (induction cs rule: rev_induct) (simp_all add: transcript_inputs_def)

text \<open>A seed starts with the context string; a chunk's input starts with a hash.\<close>

lemma seed_not_chunk_input:
  assumes "length h = 32" and "h \<noteq> take 32 TRANSCRIPT_HASH_CONTEXT"
  shows "transcript_seed sid eid \<noteq> chunk_input h c"
proof
  assume "transcript_seed sid eid = chunk_input h c"
  then have "take 32 (transcript_seed sid eid) = take 32 (chunk_input h c)" by simp
  then show False using assms by (simp add: transcript_seed_def chunk_input_def TRANSCRIPT_HASH_CONTEXT_def ascii_def)
qed

lemma chain_hash_binds:
  assumes len: "\<And>x. length (H x) = 32"
    and "inj_on H (transcript_inputs H sid eid cs \<union> transcript_inputs H sid' eid' cs')"
    and "take 32 TRANSCRIPT_HASH_CONTEXT \<notin> H ` (transcript_inputs H sid eid cs \<union> transcript_inputs H sid' eid' cs')"
    and "chain_hash H (H (transcript_seed sid eid)) cs = chain_hash H (H (transcript_seed sid' eid')) cs'"
  shows "transcript_seed sid eid = transcript_seed sid' eid' \<and> cs = cs'"
  using assms(2-)
proof (induction cs arbitrary: cs' rule: rev_induct)
  case Nil
  show ?case
  proof (cases cs' rule: rev_cases)
    case Nil
    have "transcript_seed sid eid = transcript_seed sid' eid'"
      by (rule inj_onD [OF Nil.prems(1)]) (use Nil.prems(3) \<open>cs' = []\<close> in simp_all)
    then show ?thesis using \<open>cs' = []\<close> by simp
  next
    case (snoc ds d)
    let ?h = "chain_hash H (H (transcript_seed sid' eid')) ds"
    have h: "?h \<in> H ` transcript_inputs H sid' eid' ds" by (rule chain_hash_in)
    then have "length ?h = 32" "?h \<noteq> take 32 TRANSCRIPT_HASH_CONTEXT" using len Nil.prems(2) snoc by auto
    moreover have "transcript_seed sid eid = chunk_input ?h d"
      by (rule inj_onD [OF Nil.prems(1)]) (use Nil.prems(3) snoc in simp_all)
    ultimately show ?thesis using seed_not_chunk_input by blast
  qed
next
  case (snoc c cs)
  let ?h = "chain_hash H (H (transcript_seed sid eid)) cs"
  have h: "?h \<in> H ` transcript_inputs H sid eid cs" by (rule chain_hash_in)
  then have lh: "length ?h = 32" "?h \<noteq> take 32 TRANSCRIPT_HASH_CONTEXT" using len snoc.prems(2) by auto
  show ?case
  proof (cases cs' rule: rev_cases)
    case Nil
    have "transcript_seed sid' eid' = chunk_input ?h c"
      by (rule inj_onD [OF snoc.prems(1)]) (use snoc.prems(3) Nil in simp_all)
    then show ?thesis using seed_not_chunk_input lh by blast
  next
    case cs': (snoc ds d)
    let ?h' = "chain_hash H (H (transcript_seed sid' eid')) ds"
    have "?h' \<in> H ` transcript_inputs H sid' eid' ds" by (rule chain_hash_in)
    then have "length ?h' = 32" using len by auto
    moreover have "chunk_input ?h c = chunk_input ?h' d"
      by (rule inj_onD [OF snoc.prems(1)]) (use snoc.prems(3) cs' in simp_all)
    ultimately have "?h = ?h'" "c = d" using lh(1) chunk_input_inj [of ?h ?h' c d] by simp_all
    moreover have "inj_on H (transcript_inputs H sid eid cs \<union> transcript_inputs H sid' eid' ds)"
      by (rule inj_on_subset [OF snoc.prems(1)]) (auto simp: cs')
    ultimately show ?thesis using snoc.IH [of ds] snoc.prems(2) cs' by auto
  qed
qed

text \<open>
  C30: The final transcript hash binds the whole stream. If the hash has 32-byte outputs, does not collide on the strings
  the two runs feed to it, and maps none of them to the first 32 bytes of the transcript's fixed context string, then
  two transcripts with the same final hash were started for the same stream and start event and received the same
  records (sequence number, type and plaintext) in the same order. Stream and event ids are shorter than the
  varint limit; the numbers of records need not be known to agree.\<close>

theorem transcript_binds_stream:
  assumes "\<And>x. length (H x) = 32"
    and "inj_on H (transcript_inputs H sid eid cs \<union> transcript_inputs H sid' eid' cs')"
    and "take 32 TRANSCRIPT_HASH_CONTEXT \<notin> H ` (transcript_inputs H sid eid cs \<union> transcript_inputs H sid' eid' cs')"
    and "length sid < 2 ^ 62" "length sid' < 2 ^ 62" "length eid < 2 ^ 62" "length eid' < 2 ^ 62"
    and "tr_hash (append_chunks H (new_transcript H sid eid) cs) =
         tr_hash (append_chunks H (new_transcript H sid' eid') cs')"
  shows "sid = sid' \<and> eid = eid' \<and> cs = cs'"
proof -
  have "chain_hash H (H (transcript_seed sid eid)) cs = chain_hash H (H (transcript_seed sid' eid')) cs'"
    using assms(8) by (simp add: append_chunks_hash new_transcript_def)
  from chain_hash_binds [OF assms(1-3) this] show ?thesis
    using assms(4-7) by (simp add: transcript_seed_def push_len_prefixed_inj push_len_prefixed_inj_end)
qed

text \<open>A hash with 32-byte outputs that keeps the tail of its input; it does not collide on the two runs below, of which
  one has a record more.\<close>
definition tail_hash :: "bytes \<Rightarrow> bytes" where
  "tail_hash bs = take 32 (rev bs @ replicate 32 0)"

lemma tail_hash_length: "length (tail_hash bs) = 32"
  by (simp add: tail_hash_def)

theorem transcript_binds_stream_witness:
  "tr_hash (append_chunks tail_hash (new_transcript tail_hash [9] [8]) [(1, 1, [5])]) \<noteq>
   tr_hash (append_chunks tail_hash (new_transcript tail_hash [9] [8]) [(1, 1, [5]), (2, 1, [6])])"
proof
  let ?I = "transcript_inputs tail_hash [9] [8] [(1, 1, [5])] \<union>
    transcript_inputs tail_hash [9] [8] [(1, 1, [5]), (2, 1, [6])]"
  assume eq: "tr_hash (append_chunks tail_hash (new_transcript tail_hash [9] [8]) [(1, 1, [5])]) =
    tr_hash (append_chunks tail_hash (new_transcript tail_hash [9] [8]) [(1, 1, [5]), (2, 1, [6])])"
  have hds: "hd (tail_hash (transcript_seed [9] [8])) = 8" "hd (tail_hash (chunk_input h (n, 1, [b]))) = b"
    "hd (take 32 TRANSCRIPT_HASH_CONTEXT) = 109" for h n b
    by (simp_all add: tail_hash_def transcript_seed_def push_len_prefixed_def chunk_input_def
        TRANSCRIPT_HASH_CONTEXT_def ascii_def)
  have "inj_on tail_hash ?I"
    unfolding transcript_inputs_def chunk_inputs.simps
    by (intro inj_onI) (use hds in \<open>auto dest!: arg_cong [where f = hd]\<close>)
  moreover have "take 32 TRANSCRIPT_HASH_CONTEXT \<notin> tail_hash ` ?I"
    unfolding transcript_inputs_def chunk_inputs.simps using hds by (auto dest!: arg_cong [where f = hd])
  ultimately have "[(1 :: u64, 1 :: u8, [5] :: bytes)] = [(1, 1, [5]), (2, 1, [6])]"
    using transcript_binds_stream [of tail_hash "[9]" "[8]" "[(1, 1, [5])]" "[9]" "[8]" "[(1, 1, [5]), (2, 1, [6])]",
        OF tail_hash_length] eq by simp
  then show False by simp
qed

section \<open>Role requirements\<close>

lemma required_roles_contains:
  "contains_capability (required_role_capabilities roles) c \<longleftrightarrow>
     (\<exists>(bit, _, cap) \<in> set AGENT_TEXT_STREAM_QUIC_ROLES. roles AND bit \<noteq> 0 \<and> cap = c)"
  by (auto simp: required_role_capabilities_def AGENT_TEXT_STREAM_QUIC_ROLES_def)

text \<open>A valid policy never requires a role that maps to no capability: the mask names at least one
  role, and every role it names is enforced.\<close>
lemma valid_policy_requires_a_role:
  assumes "validate_policy p = Inr ()"
  shows "\<not> capabilities_is_empty (required_role_capabilities (required_member_roles p))"
proof -
  let ?r = "required_member_roles p"
  have r: "?r \<noteq> 0" "?r AND NOT ROLE_MASK = 0"
    using assms by (auto simp: validate_policy_def split: if_splits)
  have "?r = ?r AND (ROLE_MASK OR NOT ROLE_MASK)" by simp
  also have "\<dots> = (?r AND ROLE_MASK) OR (?r AND NOT ROLE_MASK)" by (rule bit.conj_disj_distrib)
  finally have "?r AND ROLE_MASK \<noteq> 0" using r by simp
  then have "?r AND ROLE_RECEIVE \<noteq> 0 \<or> ?r AND ROLE_SEND \<noteq> 0 \<or> ?r AND ROLE_FANOUT \<noteq> 0"
    unfolding ROLE_MASK_def by (auto simp: bit.conj_disj_distrib)
  then show ?thesis
    unfolding is_empty_iff required_roles_contains AGENT_TEXT_STREAM_QUIC_ROLES_def by auto
qed

end
