(* ===== verification/Utf8.thy ===== *)
theory Utf8
  imports Codec
begin

text \<open>
  The parts of the standard library's string handling the code uses.  A \<open>char\<close> is its scalar value, a
  \<open>str\<close> is the list of its characters, \<open>String\<close> and \<open>Vec<u8>\<close> values are the bytes of the UTF-8
  encoding.  \<open>utf8_scan\<close> is one step of the validating scanner that \<open>str::from_utf8\<close> and
  \<open>String::from_utf8_lossy\<close> share: how many bytes it consumes, and whether they form a character.
\<close>

section \<open>Encoding\<close>

type_synonym uchar = nat

definition is_scalar :: "uchar \<Rightarrow> bool" where
  "is_scalar c = (c < 0x110000 \<and> \<not> (0xD800 \<le> c \<and> c \<le> 0xDFFF))"

definition utf8_char :: "uchar \<Rightarrow> bytes" where
  "utf8_char c = map word_of_nat
     (if c < 0x80 then [c]
      else if c < 0x800 then [0xC0 + c div 64, 0x80 + c mod 64]
      else if c < 0x10000 then [0xE0 + c div 4096, 0x80 + c div 64 mod 64, 0x80 + c mod 64]
      else [0xF0 + c div 262144, 0x80 + c div 4096 mod 64, 0x80 + c div 64 mod 64, 0x80 + c mod 64])"

definition len_utf8 :: "uchar \<Rightarrow> nat" where
  "len_utf8 c = (if c < 0x80 then 1 else if c < 0x800 then 2 else if c < 0x10000 then 3 else 4)"

definition utf8_string :: "uchar list \<Rightarrow> bytes" where
  "utf8_string cs = concat (map utf8_char cs)"

section \<open>Scanning\<close>

definition is_cont :: "nat \<Rightarrow> bool" where
  "is_cont b = (0x80 \<le> b \<and> b \<le> 0xBF)"

definition safe_get :: "bytes \<Rightarrow> nat \<Rightarrow> nat" where
  "safe_get bs i = (if i < length bs then unat (bs ! i) else 0)"

definition second_of_three :: "nat \<Rightarrow> nat \<Rightarrow> bool" where
  "second_of_three b c =
     (if b = 0xE0 then 0xA0 \<le> c \<and> c \<le> 0xBF else if b = 0xED then 0x80 \<le> c \<and> c \<le> 0x9F else is_cont c)"

definition second_of_four :: "nat \<Rightarrow> nat \<Rightarrow> bool" where
  "second_of_four b c =
     (if b = 0xF0 then 0x90 \<le> c \<and> c \<le> 0xBF else if b = 0xF4 then 0x80 \<le> c \<and> c \<le> 0x8F else is_cont c)"

definition utf8_scan :: "bytes \<Rightarrow> nat \<times> bool" where
  "utf8_scan bs =
     (let b = safe_get bs 0 in
      if b < 128 then (1, True)
      else if 0xC2 \<le> b \<and> b \<le> 0xDF then (if is_cont (safe_get bs 1) then (2, True) else (1, False))
      else if 0xE0 \<le> b \<and> b \<le> 0xEF then
        (if \<not> second_of_three b (safe_get bs 1) then (1, False)
         else if \<not> is_cont (safe_get bs 2) then (2, False) else (3, True))
      else if 0xF0 \<le> b \<and> b \<le> 0xF4 then
        (if \<not> second_of_four b (safe_get bs 1) then (1, False)
         else if \<not> is_cont (safe_get bs 2) then (2, False)
         else if \<not> is_cont (safe_get bs 3) then (3, False) else (4, True))
      else (1, False))"

lemma utf8_scan_pos: "0 < fst (utf8_scan bs)"
  by (simp add: utf8_scan_def Let_def)

definition REPLACEMENT :: bytes where
  "REPLACEMENT = [0xEF, 0xBF, 0xBD]"

function from_utf8_lossy :: "bytes \<Rightarrow> bytes" where
  "from_utf8_lossy bs =
     (if bs = [] then []
      else (if snd (utf8_scan bs) then take (fst (utf8_scan bs)) bs else REPLACEMENT)
           @ from_utf8_lossy (drop (fst (utf8_scan bs)) bs))"
  by auto
termination
  by (relation "measure length") (auto simp: utf8_scan_pos)

function from_utf8_ok :: "bytes \<Rightarrow> bool" where
  "from_utf8_ok bs =
     (if bs = [] then True
      else snd (utf8_scan bs) \<and> from_utf8_ok (drop (fst (utf8_scan bs)) bs))"
  by auto
termination
  by (relation "measure length") (auto simp: utf8_scan_pos)

declare from_utf8_lossy.simps [simp del] from_utf8_ok.simps [simp del]

lemma from_utf8_Nil [simp]: "from_utf8_lossy [] = []" "from_utf8_ok []"
  by (simp_all add: from_utf8_lossy.simps from_utf8_ok.simps)

section \<open>Encoded characters scan as themselves\<close>

lemma length_utf8_char [simp]: "length (utf8_char c) = len_utf8 c"
  by (simp add: utf8_char_def len_utf8_def)

lemma len_utf8_bounds: "1 \<le> len_utf8 c" "len_utf8 c \<le> 4"
  by (simp_all add: len_utf8_def)

lemma safe_get_Cons [simp]:
  "safe_get (b # bs) 0 = unat b"
  "safe_get (b # c # bs) 1 = unat c" "safe_get (b # c # bs) (Suc 0) = unat c"
  "safe_get (b # c # d # bs) 2 = unat d" "safe_get (b # c # d # e # bs) 3 = unat e"
  by (simp_all add: safe_get_def)

lemma unat_u8 [simp]: "n < 256 \<Longrightarrow> unat (word_of_nat n :: u8) = n"
  by (simp add: unat_u8_of_nat)

lemma second_is_cont: "second_of_three b c \<Longrightarrow> is_cont c" "second_of_four b c \<Longrightarrow> is_cont c"
  by (auto simp: second_of_three_def second_of_four_def is_cont_def split: if_splits)

lemma is_cont_256: "is_cont b \<Longrightarrow> b < 256"
  by (simp add: is_cont_def)

lemma is_cont_mod: "is_cont (0x80 + n mod 64)"
proof -
  have "n mod 64 < 64" by simp
  then show ?thesis by (simp add: is_cont_def)
qed

lemma utf8_scan_two:
  "0xC2 \<le> a \<Longrightarrow> a \<le> 0xDF \<Longrightarrow> is_cont b \<Longrightarrow>
     utf8_scan (word_of_nat a # word_of_nat b # rest) = (2, True)"
  using is_cont_256 [of b] by (simp add: utf8_scan_def Let_def)

lemma utf8_scan_three:
  "0xE0 \<le> a \<Longrightarrow> a \<le> 0xEF \<Longrightarrow> second_of_three a b \<Longrightarrow> is_cont c \<Longrightarrow>
     utf8_scan (word_of_nat a # word_of_nat b # word_of_nat c # rest) = (3, True)"
  using is_cont_256 [of b] is_cont_256 [of c] second_is_cont(1) [of a b]
  by (simp add: utf8_scan_def Let_def)

lemma utf8_scan_four:
  "0xF0 \<le> a \<Longrightarrow> a \<le> 0xF4 \<Longrightarrow> second_of_four a b \<Longrightarrow> is_cont c \<Longrightarrow> is_cont d \<Longrightarrow>
     utf8_scan (word_of_nat a # word_of_nat b # word_of_nat c # word_of_nat d # rest) = (4, True)"
  using is_cont_256 [of b] is_cont_256 [of c] is_cont_256 [of d] second_is_cont(2) [of a b]
  by (simp add: utf8_scan_def Let_def)

lemma second_three_scalar:
  assumes "is_scalar c" and "0x800 \<le> c" and "c < 0x10000"
  shows "second_of_three (0xE0 + c div 4096) (0x80 + c div 64 mod 64)"
proof -
  have c: "c div 64 = 64 * (c div 4096) + c div 64 mod 64"
    using div_mult2_eq [of c 64 64] mult_div_mod_eq [of 64 "c div 64"] by simp
  consider "c div 4096 = 0" | "c div 4096 = 13" | "c div 4096 \<noteq> 0" "c div 4096 \<noteq> 13" by blast
  then show ?thesis
  proof cases
    case 1
    then have "32 \<le> c div 64 mod 64" using c assms(2) by auto
    then show ?thesis using 1 is_cont_mod [of "c div 64"] by (simp add: second_of_three_def is_cont_def)
  next
    case 2
    have "c div 64 < 864" using 2 c assms(1) by (auto simp: is_scalar_def)
    then have "c div 64 mod 64 < 32" using 2 c by linarith
    then show ?thesis using 2 by (simp add: second_of_three_def is_cont_def)
  next
    case 3
    then show ?thesis using is_cont_mod [of "c div 64"] by (simp add: second_of_three_def)
  qed
qed

lemma second_four_scalar:
  assumes "is_scalar c" and "0x10000 \<le> c"
  shows "second_of_four (0xF0 + c div 262144) (0x80 + c div 4096 mod 64)"
proof -
  have c: "c div 4096 = 64 * (c div 262144) + c div 4096 mod 64"
    using div_mult2_eq [of c 4096 64] mult_div_mod_eq [of 64 "c div 4096"] by simp
  consider "c div 262144 = 0" | "c div 262144 = 4" | "c div 262144 \<noteq> 0" "c div 262144 \<noteq> 4" by blast
  then show ?thesis
  proof cases
    case 1
    then have "16 \<le> c div 4096 mod 64" using c assms(2) by auto
    then show ?thesis using 1 is_cont_mod [of "c div 4096"] by (simp add: second_of_four_def is_cont_def)
  next
    case 2
    have "c div 4096 < 272" using assms(1) by (auto simp: is_scalar_def)
    then have "c div 4096 mod 64 < 16" using 2 c by linarith
    then show ?thesis using 2 by (simp add: second_of_four_def is_cont_def)
  next
    case 3
    then show ?thesis using is_cont_mod [of "c div 4096"] by (simp add: second_of_four_def)
  qed
qed

lemma utf8_scan_char:
  assumes "is_scalar c"
  shows "utf8_scan (utf8_char c @ rest) = (len_utf8 c, True)"
proof -
  consider "c < 0x80" | "0x80 \<le> c" "c < 0x800" | "0x800 \<le> c" "c < 0x10000" | "0x10000 \<le> c" by linarith
  then show ?thesis
  proof cases
    case 1
    then show ?thesis by (simp add: utf8_char_def utf8_scan_def len_utf8_def)
  next
    case 2
    have "0xC2 \<le> 0xC0 + c div 64" "0xC0 + c div 64 \<le> 0xDF" using 2 by auto
    then show ?thesis
      using 2 utf8_scan_two [of "0xC0 + c div 64", OF _ _ is_cont_mod] by (simp add: utf8_char_def len_utf8_def)
  next
    case 3
    have "0xE0 + c div 4096 \<le> 0xEF" using 3 by auto
    then show ?thesis
      using 3 utf8_scan_three [OF _ _ second_three_scalar [OF assms 3] is_cont_mod]
      by (simp add: utf8_char_def len_utf8_def)
  next
    case 4
    have "0xF0 + c div 262144 \<le> 0xF4" using assms by (auto simp: is_scalar_def)
    then show ?thesis
      using 4 utf8_scan_four [OF _ _ second_four_scalar [OF assms 4] is_cont_mod is_cont_mod]
      by (simp add: utf8_char_def len_utf8_def)
  qed
qed

lemma utf8_string_simps [simp]:
  "utf8_string [] = []" "utf8_string (c # cs) = utf8_char c @ utf8_string cs"
  "utf8_string (cs @ ds) = utf8_string cs @ utf8_string ds"
  by (simp_all add: utf8_string_def)

lemma utf8_char_not_Nil [simp]: "utf8_char c \<noteq> []"
  using len_utf8_bounds(1) [of c] by (metis length_utf8_char list.size(3) not_one_le_zero)

text \<open>A string that was encoded from characters survives the lossy decoder unchanged, whatever
  follows it.\<close>

lemma from_utf8_lossy_string:
  "list_all is_scalar cs \<Longrightarrow> from_utf8_lossy (utf8_string cs @ rest) = utf8_string cs @ from_utf8_lossy rest"
  by (induction cs) (simp_all add: from_utf8_lossy.simps [of "utf8_char _ @ _"] utf8_scan_char)

lemma from_utf8_ok_string:
  "list_all is_scalar cs \<Longrightarrow> from_utf8_ok (utf8_string cs @ rest) = from_utf8_ok rest"
  by (induction cs) (simp_all add: from_utf8_ok.simps [of "utf8_char _ @ _"] utf8_scan_char)

end
