(* ===== verification/Stored_Message.thy ===== *)
theory Stored_Message
  imports Convergence Utf8 Agent_Text_Stream
begin

text \<open>
  Stored message payloads, \<open>traits/src/message.rs\<close>, over the transport types of \<open>traits/src/transport.rs\<close>
  and \<open>traits/src/types.rs\<close>.

  An encoder that pushes onto \<open>out\<close> is a function to the bytes it pushes; the \<open>Decoder\<close> is a function from the
  remaining bytes to the value and the bytes that remain after it.  A \<open>String\<close> is the bytes of its
  UTF-8 encoding, so the values an encoder can meet are those whose strings are valid
  (\<open>payload_strings\<close>).  \<open>usize\<close> has 64 bits.  The two JSON readers that \<open>decode\<close> tries on rows
  without the magic are serde's and are arguments.
\<close>

section \<open>Types\<close>

type_synonym MessageId = bytes
type_synonym MemberId = bytes

datatype TransportEnvelope =
    GroupMessage (transport_group_id: bytes)
  | Welcome (recipient: MemberId)

record TransportMessage =
  tm_id :: MessageId
  tm_payload :: bytes
  tm_timestamp :: u64
  tm_causal_deps :: "MessageId list"
  tm_source :: bytes
  tm_envelope :: TransportEnvelope

record OwnCommitConvergenceStamp =
  stamp_committer :: MemberId
  stamp_priority :: CommitOrderingPriority
  stamp_consumed_proposal_refs :: "bytes list"
  stamp_checkpoint_id :: "bytes option"
  stamp_resulting_epoch_authenticator :: "bytes option"

record OwnApplicationConvergenceStamp =
  app_stamp_sender :: MemberId
  app_stamp_source_epoch_authenticator :: bytes

datatype StoredMessagePayload =
    RawTransport TransportMessage
  | OutboundWelcome TransportMessage
  | StagedInviteWelcome TransportMessage MessageId
  | OpenMlsWire TransportMessage
  | SignedOpenMlsWire TransportMessage TransportMessage "OwnCommitConvergenceStamp option"
      "OwnApplicationConvergenceStamp option"
  | OwnCommitWire TransportMessage OwnCommitConvergenceStamp

datatype StoredMessagePayloadCodecError = Invalid string | LegacyJson

type_synonym 'a decoder = "bytes \<Rightarrow> StoredMessagePayloadCodecError + ('a \<times> bytes)"
type_synonym 'a encoder = "'a \<Rightarrow> StoredMessagePayloadCodecError + bytes"

definition STORED_MESSAGE_PAYLOAD_MAGIC :: bytes where
  "STORED_MESSAGE_PAYLOAD_MAGIC = [0x4D, 0x44, 0x4B, 0x4D, 0x50]"
definition STORED_MESSAGE_PAYLOAD_VERSION :: u16 where "STORED_MESSAGE_PAYLOAD_VERSION = 2"
definition MAX_STORED_MESSAGE_FIELD_LEN :: nat where "MAX_STORED_MESSAGE_FIELD_LEN = 2 ^ 30"
definition MAX_STORED_MESSAGE_LIST_ITEMS :: nat where "MAX_STORED_MESSAGE_LIST_ITEMS = 2 ^ 20"

fun as_openmls_wire :: "StoredMessagePayload \<Rightarrow> TransportMessage option" where
  "as_openmls_wire (RawTransport m) = None"
| "as_openmls_wire (OutboundWelcome m) = None"
| "as_openmls_wire (StagedInviteWelcome m i) = None"
| "as_openmls_wire (OpenMlsWire m) = Some m"
| "as_openmls_wire (OwnCommitWire m stamp) = Some m"
| "as_openmls_wire (SignedOpenMlsWire exact_message openmls_message stamp app_stamp) = Some openmls_message"

fun as_exact_transport :: "StoredMessagePayload \<Rightarrow> TransportMessage option" where
  "as_exact_transport (RawTransport m) = Some m"
| "as_exact_transport (OutboundWelcome m) = Some m"
| "as_exact_transport (SignedOpenMlsWire exact_message openmls_message stamp app_stamp) = Some exact_message"
| "as_exact_transport (StagedInviteWelcome m i) = None"
| "as_exact_transport (OpenMlsWire m) = None"
| "as_exact_transport (OwnCommitWire m stamp) = None"

fun own_application_stamp :: "StoredMessagePayload \<Rightarrow> OwnApplicationConvergenceStamp option" where
  "own_application_stamp (SignedOpenMlsWire exact_message openmls_message stamp app_stamp) = app_stamp"
| "own_application_stamp (RawTransport m) = None"
| "own_application_stamp (OutboundWelcome m) = None"
| "own_application_stamp (StagedInviteWelcome m i) = None"
| "own_application_stamp (OpenMlsWire m) = None"
| "own_application_stamp (OwnCommitWire m stamp) = None"

section \<open>Encoders\<close>

definition encode_field :: "string \<Rightarrow> bytes encoder" where
  "encode_field label bs =
     (if length bs > MAX_STORED_MESSAGE_FIELD_LEN then Inl (Invalid (label @ '' exceeds storage format limit''))
      else Inr (encode_var_bytes bs))"

fun encode_option :: "'a encoder \<Rightarrow> 'a option encoder" where
  "encode_option enc None = Inr [0]"
| "encode_option enc (Some v) = result_bind (enc v) (\<lambda>bs. Inr (1 # bs))"

text \<open>The loop that encodes the items one after the other.\<close>
fun encode_items :: "'a encoder \<Rightarrow> 'a list encoder" where
  "encode_items enc [] = Inr []"
| "encode_items enc (v # vs) = result_bind (enc v) (\<lambda>b. result_bind (encode_items enc vs) (\<lambda>bs. Inr (b @ bs)))"

definition encode_list :: "'a encoder \<Rightarrow> 'a list encoder" where
  "encode_list enc values =
     (if length values > MAX_STORED_MESSAGE_LIST_ITEMS then Inl (Invalid ''stored-message list exceeds item limit'')
      else result_bind (encode_items enc values) (encode_field ''stored-message list''))"

definition encode_envelope :: "TransportEnvelope encoder" where
  "encode_envelope e =
     (case e of
        GroupMessage gid \<Rightarrow> result_bind (encode_field ''transport group id'' gid) (\<lambda>b. Inr (0 # b))
      | Welcome r \<Rightarrow> result_bind (encode_field ''welcome recipient'' r) (\<lambda>b. Inr (1 # b)))"

definition encode_transport_message :: "TransportMessage encoder" where
  "encode_transport_message m =
     result_bind (encode_field ''message id'' (tm_id m)) (\<lambda>a.
     result_bind (encode_field ''transport payload'' (tm_payload m)) (\<lambda>b.
     result_bind (encode_list (encode_field ''causal dependency'') (tm_causal_deps m)) (\<lambda>c.
     result_bind (encode_field ''transport source'' (tm_source m)) (\<lambda>d.
     result_bind (encode_envelope (tm_envelope m)) (\<lambda>e.
       Inr (a @ b @ to_be_bytes 8 (tm_timestamp m) @ c @ d @ e))))))"

definition priority_byte :: "CommitOrderingPriority \<Rightarrow> u8" where
  "priority_byte p = (case p of Privileged \<Rightarrow> 0 | Ordinary \<Rightarrow> 1)"

definition encode_own_commit_stamp :: "OwnCommitConvergenceStamp encoder" where
  "encode_own_commit_stamp s =
     result_bind (encode_field ''commit stamp committer'' (stamp_committer s)) (\<lambda>a.
     result_bind (encode_list (encode_field ''consumed proposal reference'') (stamp_consumed_proposal_refs s)) (\<lambda>b.
     result_bind (encode_option (encode_field ''checkpoint id'') (stamp_checkpoint_id s)) (\<lambda>c.
     result_bind (encode_option (encode_field ''epoch authenticator'') (stamp_resulting_epoch_authenticator s)) (\<lambda>d.
       Inr (a @ [priority_byte (stamp_priority s)] @ b @ c @ d)))))"

definition encode_own_application_stamp :: "OwnApplicationConvergenceStamp encoder" where
  "encode_own_application_stamp s =
     result_bind (encode_field ''application stamp sender'' (app_stamp_sender s)) (\<lambda>a.
     result_bind (encode_field ''source epoch authenticator'' (app_stamp_source_epoch_authenticator s)) (\<lambda>b.
       Inr (a @ b)))"

text \<open>The variant byte and the fields of the variant.\<close>
fun encode_variant :: "StoredMessagePayload encoder" where
  "encode_variant (RawTransport m) = result_bind (encode_transport_message m) (\<lambda>a. Inr (0 # a))"
| "encode_variant (OutboundWelcome m) = result_bind (encode_transport_message m) (\<lambda>a. Inr (1 # a))"
| "encode_variant (StagedInviteWelcome m i) =
     result_bind (encode_transport_message m) (\<lambda>a.
     result_bind (encode_field ''staged Welcome origin commit id'' i) (\<lambda>b. Inr (5 # a @ b)))"
| "encode_variant (OpenMlsWire m) = result_bind (encode_transport_message m) (\<lambda>a. Inr (2 # a))"
| "encode_variant (SignedOpenMlsWire exact_message openmls_message stamp app_stamp) =
     result_bind (encode_transport_message exact_message) (\<lambda>a.
     result_bind (encode_transport_message openmls_message) (\<lambda>b.
     result_bind (encode_option encode_own_commit_stamp stamp) (\<lambda>c.
     result_bind (encode_option encode_own_application_stamp app_stamp) (\<lambda>d. Inr (3 # a @ b @ c @ d)))))"
| "encode_variant (OwnCommitWire m stamp) =
     result_bind (encode_transport_message m) (\<lambda>a.
     result_bind (encode_own_commit_stamp stamp) (\<lambda>b. Inr (4 # a @ b)))"

definition encode_stored_message_payload_v2 :: "StoredMessagePayload encoder" where
  "encode_stored_message_payload_v2 payload =
     result_bind (encode_variant payload) (\<lambda>bs.
       Inr (STORED_MESSAGE_PAYLOAD_MAGIC @ to_be_bytes 2 STORED_MESSAGE_PAYLOAD_VERSION @ bs))"

section \<open>Decoders\<close>

definition expect :: "bytes \<Rightarrow> string \<Rightarrow> unit decoder" where
  "expect expected label bs =
     (if take (length expected) bs \<noteq> expected then Inl (Invalid (''invalid '' @ label))
      else Inr ((), drop (length expected) bs))"

fun take_u8 :: "string \<Rightarrow> u8 decoder" where
  "take_u8 label [] = Inl (Invalid (''truncated '' @ label))"
| "take_u8 label (b # bs) = Inr (b, bs)"

definition take_u16 :: "string \<Rightarrow> u16 decoder" where
  "take_u16 label bs =
     (if length bs < 2 then Inl (Invalid (''truncated '' @ label))
      else Inr (u16_from_be_bytes (bs ! 0) (bs ! 1), drop 2 bs))"

definition take_u64 :: "string \<Rightarrow> u64 decoder" where
  "take_u64 label bs =
     (if length bs < 8 then Inl (Invalid (''truncated '' @ label))
      else Inr (from_be_bytes (take 8 bs), drop 8 bs))"

definition var_bytes :: "string \<Rightarrow> bytes decoder" where
  "var_bytes label bs =
     (case decode_quic_varint bs of
        Inl e \<Rightarrow> Inl (Invalid (label @ '' length: '' @ e))
      | Inr (len, prefix_len) \<Rightarrow>
          (if unat len > MAX_STORED_MESSAGE_FIELD_LEN then Inl (Invalid (label @ '' exceeds storage format limit''))
           else if length bs < prefix_len + unat len then Inl (Invalid (''truncated '' @ label))
           else Inr (take (unat len) (drop prefix_len bs), drop (prefix_len + unat len) bs)))"

definition take_string :: "string \<Rightarrow> bytes decoder" where
  "take_string label bs =
     result_bind (var_bytes label bs) (\<lambda>(s, rest).
       if from_utf8_ok s then Inr (s, rest) else Inl (Invalid (label @ '' is not UTF-8'')))"

text \<open>The item loop, with the number of items still allowed.\<close>
fun decode_items :: "'a decoder \<Rightarrow> string \<Rightarrow> nat \<Rightarrow> bytes \<Rightarrow> StoredMessagePayloadCodecError + 'a list" where
  "decode_items dec label k bs =
     (if bs = [] then Inr []
      else if k = 0 then Inl (Invalid (label @ '' exceeds item limit''))
      else case dec bs of
             Inl e \<Rightarrow> Inl e
           | Inr (v, rest) \<Rightarrow>
               (case decode_items dec label (k - 1) rest of Inl e \<Rightarrow> Inl e | Inr vs \<Rightarrow> Inr (v # vs)))"

declare decode_items.simps [simp del]

definition decode_list :: "'a decoder \<Rightarrow> string \<Rightarrow> 'a list decoder" where
  "decode_list dec label bs =
     result_bind (var_bytes label bs) (\<lambda>(body, rest).
     result_bind (decode_items dec label MAX_STORED_MESSAGE_LIST_ITEMS body) (\<lambda>vs. Inr (vs, rest)))"

definition decode_option :: "'a decoder \<Rightarrow> 'a option decoder" where
  "decode_option dec bs =
     result_bind (take_u8 ''option discriminant'' bs) (\<lambda>(d, rest).
       if d = 0 then Inr (None, rest)
       else if d = 1 then result_bind (dec rest) (\<lambda>(v, rest). Inr (Some v, rest))
       else Inl (Invalid (''invalid option discriminant '' @ nat_to_string (unat d))))"

definition decode_envelope :: "TransportEnvelope decoder" where
  "decode_envelope bs =
     result_bind (take_u8 ''transport envelope variant'' bs) (\<lambda>(v, bs).
       if v = 0 then result_bind (var_bytes ''transport group id'' bs) (\<lambda>(gid, bs). Inr (GroupMessage gid, bs))
       else if v = 1 then result_bind (var_bytes ''welcome recipient'' bs) (\<lambda>(r, bs). Inr (Welcome r, bs))
       else Inl (Invalid (''unknown transport envelope variant '' @ nat_to_string (unat v))))"

definition decode_transport_message :: "TransportMessage decoder" where
  "decode_transport_message bs =
     result_bind (var_bytes ''message id'' bs) (\<lambda>(i, bs).
     result_bind (var_bytes ''transport payload'' bs) (\<lambda>(payload, bs).
     result_bind (take_u64 ''transport timestamp'' bs) (\<lambda>(timestamp, bs).
     result_bind (decode_list (var_bytes ''causal dependency'') ''causal dependencies'' bs) (\<lambda>(deps, bs).
     result_bind (take_string ''transport source'' bs) (\<lambda>(source, bs).
     result_bind (decode_envelope bs) (\<lambda>(envelope, bs).
       Inr (\<lparr>tm_id = i, tm_payload = payload, tm_timestamp = timestamp, tm_causal_deps = deps,
             tm_source = source, tm_envelope = envelope\<rparr>, bs)))))))"

definition decode_priority :: "CommitOrderingPriority decoder" where
  "decode_priority bs =
     result_bind (take_u8 ''commit ordering priority'' bs) (\<lambda>(p, bs).
       if p = 0 then Inr (Privileged, bs) else if p = 1 then Inr (Ordinary, bs)
       else Inl (Invalid (''unknown commit ordering priority '' @ nat_to_string (unat p))))"

definition decode_own_commit_stamp :: "OwnCommitConvergenceStamp decoder" where
  "decode_own_commit_stamp bs =
     result_bind (var_bytes ''commit stamp committer'' bs) (\<lambda>(committer, bs).
     result_bind (decode_priority bs) (\<lambda>(priority, bs).
     result_bind (decode_list (take_string ''consumed proposal reference'') ''consumed proposal references'' bs) (\<lambda>(refs, bs).
     result_bind (decode_option (take_string ''checkpoint id'') bs) (\<lambda>(checkpoint, bs).
     result_bind (decode_option (take_string ''epoch authenticator'') bs) (\<lambda>(authenticator, bs).
       Inr (\<lparr>stamp_committer = committer, stamp_priority = priority, stamp_consumed_proposal_refs = refs,
             stamp_checkpoint_id = checkpoint, stamp_resulting_epoch_authenticator = authenticator\<rparr>, bs))))))"

definition decode_own_application_stamp :: "OwnApplicationConvergenceStamp decoder" where
  "decode_own_application_stamp bs =
     result_bind (var_bytes ''application stamp sender'' bs) (\<lambda>(sender, bs).
     result_bind (take_string ''source epoch authenticator'' bs) (\<lambda>(authenticator, bs).
       Inr (\<lparr>app_stamp_sender = sender, app_stamp_source_epoch_authenticator = authenticator\<rparr>, bs)))"

text \<open>The fields of the variant \<open>v\<close>.\<close>
definition decode_variant_fields :: "u8 \<Rightarrow> StoredMessagePayload decoder" where
  "decode_variant_fields v bs =
     (if v = 0 then result_bind (decode_transport_message bs) (\<lambda>(m, bs). Inr (RawTransport m, bs))
      else if v = 1 then result_bind (decode_transport_message bs) (\<lambda>(m, bs). Inr (OutboundWelcome m, bs))
      else if v = 2 then result_bind (decode_transport_message bs) (\<lambda>(m, bs). Inr (OpenMlsWire m, bs))
      else if v = 3 then
        result_bind (decode_transport_message bs) (\<lambda>(exact_message, bs).
        result_bind (decode_transport_message bs) (\<lambda>(openmls_message, bs).
        result_bind (decode_option decode_own_commit_stamp bs) (\<lambda>(stamp, bs).
        result_bind (decode_option decode_own_application_stamp bs) (\<lambda>(app_stamp, bs).
          Inr (SignedOpenMlsWire exact_message openmls_message stamp app_stamp, bs)))))
      else if v = 4 then
        result_bind (decode_transport_message bs) (\<lambda>(m, bs).
        result_bind (decode_own_commit_stamp bs) (\<lambda>(stamp, bs). Inr (OwnCommitWire m stamp, bs)))
      else if v = 5 then
        result_bind (decode_transport_message bs) (\<lambda>(m, bs).
        result_bind (var_bytes ''staged Welcome origin commit id'' bs) (\<lambda>(i, bs). Inr (StagedInviteWelcome m i, bs)))
      else Inl (Invalid (''unknown stored-message payload variant '' @ nat_to_string (unat v))))"

definition decode_stored_message_payload_v2 :: "bytes \<Rightarrow> StoredMessagePayloadCodecError + StoredMessagePayload" where
  "decode_stored_message_payload_v2 bs =
     result_bind (expect STORED_MESSAGE_PAYLOAD_MAGIC ''stored-message payload magic'' bs) (\<lambda>(_, bs).
     result_bind (take_u16 ''stored-message payload version'' bs) (\<lambda>(version, bs).
       if version \<noteq> STORED_MESSAGE_PAYLOAD_VERSION
       then Inl (Invalid (''unsupported stored-message payload version '' @ nat_to_string (unat version)))
       else result_bind (take_u8 ''stored-message payload variant'' bs) (\<lambda>(v, bs).
            result_bind (decode_variant_fields v bs) (\<lambda>(payload, bs).
              if bs = [] then Inr payload else Inl (Invalid ''stored-message payload has trailing bytes'')))))"

definition decode_payload ::
  "(bytes \<Rightarrow> StoredMessagePayload option) \<Rightarrow> (bytes \<Rightarrow> TransportMessage option) \<Rightarrow> bytes
     \<Rightarrow> StoredMessagePayloadCodecError + StoredMessagePayload" where
  "decode_payload envelope_json message_json bs =
     (if take (length STORED_MESSAGE_PAYLOAD_MAGIC) bs = STORED_MESSAGE_PAYLOAD_MAGIC
      then decode_stored_message_payload_v2 bs
      else case envelope_json bs of
             Some payload \<Rightarrow> Inr payload
           | None \<Rightarrow> (case message_json bs of Some m \<Rightarrow> Inr (OpenMlsWire m) | None \<Rightarrow> Inl LegacyJson))"

section \<open>Exact codecs\<close>

text \<open>
  What a field's encoder and decoder owe each other: the decoder accepts exactly the encodings, followed by
  anything, of the values the type allows.\<close>

locale wire_codec =
  fixes enc :: "'a encoder" and dec :: "'a decoder" and ok :: "'a \<Rightarrow> bool"
  assumes exact: "dec bs = Inr (v, rest) \<longleftrightarrow> ok v \<and> (\<exists>out. enc v = Inr out \<and> bs = out @ rest)"
begin

lemma option_exact:
  "decode_option dec bs = Inr (v, rest) \<longleftrightarrow> (\<forall>x. v = Some x \<longrightarrow> ok x) \<and> (\<exists>out. encode_option enc v = Inr out \<and> bs = out @ rest)"
proof (cases bs)
  case Nil
  then show ?thesis by (cases v) (auto simp: decode_option_def result_bind_Inr)
next
  case (Cons d bs')
  then show ?thesis by (cases v) (auto simp: decode_option_def result_bind_Inr exact)
qed

end

text \<open>A codec whose encodings are not empty can be repeated.\<close>

locale item_codec = wire_codec +
  assumes nonempty: "enc v = Inr out \<Longrightarrow> out \<noteq> []"
begin

lemma items_exact:
  "decode_items dec label k bs = Inr vs \<longleftrightarrow> list_all ok vs \<and> length vs \<le> k \<and> encode_items enc vs = Inr bs"
proof (induction vs arbitrary: bs k)
  case Nil
  show ?case by (subst decode_items.simps) (auto split: sum.splits)
next
  case (Cons v vs)
  have "decode_items dec label k bs = Inr (v # vs) \<longleftrightarrow>
      bs \<noteq> [] \<and> 0 < k \<and> (\<exists>rest. dec bs = Inr (v, rest) \<and> decode_items dec label (k - 1) rest = Inr vs)"
    by (subst decode_items.simps) (auto split: sum.splits)
  also have "\<dots> \<longleftrightarrow> list_all ok (v # vs) \<and> length (v # vs) \<le> k \<and> encode_items enc (v # vs) = Inr bs"
    by (auto simp: exact Cons.IH result_bind_Inr dest: nonempty)
  finally show ?case .
qed

end

lemma var_bytes_field: "var_bytes dl bs = Inr (v, rest) \<longleftrightarrow> (\<exists>out. encode_field el v = Inr out \<and> bs = out @ rest)"
proof
  assume "var_bytes dl bs = Inr (v, rest)"
  then obtain len w where d: "decode_quic_varint bs = Inr (len, w)" "unat len \<le> MAX_STORED_MESSAGE_FIELD_LEN" "w + unat len \<le> length bs"
      "v = take (unat len) (drop w bs)" "rest = drop (w + unat len) bs"
    by (auto simp: var_bytes_def not_less split: sum.splits if_splits)
  have l: "length v = unat len" using d(3,4) by simp
  then have "encode_var_bytes v @ rest = encode_quic_varint len @ drop w bs"
    using d(4,5) append_take_drop_id [of "unat len" "drop w bs"] by (simp add: encode_var_bytes_def add.commute)
  also have "\<dots> = bs" using varint_decode_sound [OF d(1)] by (metis append_take_drop_id)
  finally show "\<exists>out. encode_field el v = Inr out \<and> bs = out @ rest" using l d(2) by (simp add: encode_field_def)
next
  assume "\<exists>out. encode_field el v = Inr out \<and> bs = out @ rest"
  then have v: "length v \<le> MAX_STORED_MESSAGE_FIELD_LEN" "bs = encode_var_bytes v @ rest"
    by (auto simp: encode_field_def split: if_splits)
  then have small: "length v < 2 ^ 62" by (simp add: MAX_STORED_MESSAGE_FIELD_LEN_def)
  let ?l = "word_of_nat (length v) :: u64"
  have "unat ?l = length v" using small by (rule unat_length)
  moreover from this have "unat ?l < 2 ^ 62" using small by simp
  ultimately show "var_bytes dl bs = Inr (v, rest)"
    using v varint_decode_complete [of ?l "v @ rest"] length_encode_varint [of ?l]
    by (simp add: var_bytes_def encode_var_bytes_def)
qed

interpretation field: item_codec "encode_field el" "var_bytes dl" "\<lambda>_. True" for el dl
proof
  show "var_bytes dl bs = Inr (v, rest) \<longleftrightarrow> True \<and> (\<exists>out. encode_field el v = Inr out \<and> bs = out @ rest)" for bs v rest
    by (simp add: var_bytes_field)
  show "encode_field el v = Inr out \<Longrightarrow> out \<noteq> []" for v out
    by (auto simp: encode_field_def encode_var_bytes_def encode_quic_varint_def to_be_bytes_def split: if_splits)
qed

interpretation str: item_codec "encode_field el" "take_string dl" from_utf8_ok for el dl
proof
  show "take_string dl bs = Inr (v, rest) \<longleftrightarrow> from_utf8_ok v \<and> (\<exists>out. encode_field el v = Inr out \<and> bs = out @ rest)" for bs v rest
    using field.exact [of dl bs v rest el] by (auto simp: take_string_def result_bind_Inr split: if_splits)
qed (rule field.nonempty)

context item_codec
begin

lemma list_exact:
  "decode_list dec label bs = Inr (vs, rest) \<longleftrightarrow> list_all ok vs \<and> (\<exists>out. encode_list enc vs = Inr out \<and> bs = out @ rest)"
  by (auto simp: decode_list_def encode_list_def result_bind_Inr items_exact
      var_bytes_field [where el = "''stored-message list''"])

end

lemma take_u64_exact: "take_u64 label bs = Inr (w, rest) \<longleftrightarrow> bs = to_be_bytes 8 w @ rest"
proof
  assume "take_u64 label bs = Inr (w, rest)"
  then have "8 \<le> length bs" "w = from_be_bytes (take 8 bs)" "rest = drop 8 bs"
    by (auto simp: take_u64_def split: if_splits)
  then show "bs = to_be_bytes 8 w @ rest" using to_from_be_bytes [of "take 8 bs", where 'a = 64] by simp
next
  assume "bs = to_be_bytes 8 w @ rest"
  moreover have "length (to_be_bytes 8 w) = 8" by (simp add: to_be_bytes_def)
  ultimately show "take_u64 label bs = Inr (w, rest)" by (simp add: take_u64_def from_to_be_bytes)
qed

lemma take_u8_exact: "take_u8 label bs = Inr (b, rest) \<longleftrightarrow> bs = b # rest"
  by (cases bs) auto

section \<open>Payloads\<close>

text \<open>The strings of a value are strings.\<close>

definition stamp_strings :: "OwnCommitConvergenceStamp \<Rightarrow> bool" where
  "stamp_strings s =
     (list_all from_utf8_ok (stamp_consumed_proposal_refs s) \<and> pred_option from_utf8_ok (stamp_checkpoint_id s) \<and>
      pred_option from_utf8_ok (stamp_resulting_epoch_authenticator s))"

fun payload_strings :: "StoredMessagePayload \<Rightarrow> bool" where
  "payload_strings (RawTransport m) = from_utf8_ok (tm_source m)"
| "payload_strings (OutboundWelcome m) = from_utf8_ok (tm_source m)"
| "payload_strings (StagedInviteWelcome m i) = from_utf8_ok (tm_source m)"
| "payload_strings (OpenMlsWire m) = from_utf8_ok (tm_source m)"
| "payload_strings (SignedOpenMlsWire exact_message openmls_message stamp app_stamp) =
     (from_utf8_ok (tm_source exact_message) \<and> from_utf8_ok (tm_source openmls_message) \<and> pred_option stamp_strings stamp \<and>
      pred_option (\<lambda>s. from_utf8_ok (app_stamp_source_epoch_authenticator s)) app_stamp)"
| "payload_strings (OwnCommitWire m stamp) = (from_utf8_ok (tm_source m) \<and> stamp_strings stamp)"

lemma pred_option_iff: "pred_option P v \<longleftrightarrow> (\<forall>x. v = Some x \<longrightarrow> P x)"
  by (cases v) auto

interpretation envelope: wire_codec encode_envelope decode_envelope "\<lambda>_. True"
proof
  show "decode_envelope bs = Inr (v, rest) \<longleftrightarrow> True \<and> (\<exists>out. encode_envelope v = Inr out \<and> bs = out @ rest)" for bs v rest
    by (cases v; cases bs)
      (auto simp: decode_envelope_def encode_envelope_def result_bind_Inr
        field.exact [of "''transport group id''" _ _ _ "''transport group id''"]
        field.exact [of "''welcome recipient''" _ _ _ "''welcome recipient''"])
qed

interpretation priority: wire_codec "\<lambda>p. Inr [priority_byte p]" decode_priority "\<lambda>_. True"
proof
  show "decode_priority bs = Inr (v, rest) \<longleftrightarrow> True \<and> (\<exists>out. Inr [priority_byte v] = Inr out \<and> bs = out @ rest)" for bs v rest
    by (cases v; cases bs) (auto simp: decode_priority_def priority_byte_def)
qed

interpretation message: wire_codec encode_transport_message decode_transport_message "\<lambda>m. from_utf8_ok (tm_source m)"
proof
  show "decode_transport_message bs = Inr (m, rest) \<longleftrightarrow>
      from_utf8_ok (tm_source m) \<and> (\<exists>out. encode_transport_message m = Inr out \<and> bs = out @ rest)" for bs m rest
    by (cases m)
      (auto simp: decode_transport_message_def encode_transport_message_def result_bind_Inr take_u64_exact envelope.exact list_all_iff
        field.exact [of "''message id''" _ _ _ "''message id''"] field.exact [of "''transport payload''" _ _ _ "''transport payload''"]
        field.list_exact [of "''causal dependency''" _ _ _ _ "''causal dependency''"]
        str.exact [of "''transport source''" _ _ _ "''transport source''"])
qed

interpretation commit_stamp: wire_codec encode_own_commit_stamp decode_own_commit_stamp stamp_strings
proof
  show "decode_own_commit_stamp bs = Inr (s, rest) \<longleftrightarrow>
      stamp_strings s \<and> (\<exists>out. encode_own_commit_stamp s = Inr out \<and> bs = out @ rest)" for bs s rest
    by (cases s)
      (auto simp: decode_own_commit_stamp_def encode_own_commit_stamp_def stamp_strings_def pred_option_iff result_bind_Inr priority.exact
        field.exact [of "''commit stamp committer''" _ _ _ "''commit stamp committer''"]
        str.list_exact [of "''consumed proposal reference''" _ _ _ _ "''consumed proposal reference''"]
        str.option_exact [of "''checkpoint id''" _ _ _ "''checkpoint id''"]
        str.option_exact [of "''epoch authenticator''" _ _ _ "''epoch authenticator''"])
qed

interpretation app_stamp: wire_codec encode_own_application_stamp decode_own_application_stamp
  "\<lambda>s. from_utf8_ok (app_stamp_source_epoch_authenticator s)"
proof
  show "decode_own_application_stamp bs = Inr (s, rest) \<longleftrightarrow> from_utf8_ok (app_stamp_source_epoch_authenticator s) \<and>
      (\<exists>out. encode_own_application_stamp s = Inr out \<and> bs = out @ rest)" for bs s rest
    by (cases s)
      (auto simp: decode_own_application_stamp_def encode_own_application_stamp_def result_bind_Inr
        field.exact [of "''application stamp sender''" _ _ _ "''application stamp sender''"]
        str.exact [of "''source epoch authenticator''" _ _ _ "''source epoch authenticator''"])
qed

lemma decode_variant_fields_exact:
  "decode_variant_fields v bs = Inr (p, rest) \<longleftrightarrow> payload_strings p \<and> (\<exists>out. encode_variant p = Inr (v # out) \<and> bs = out @ rest)"
  by (cases p)
    (auto simp: decode_variant_fields_def result_bind_Inr message.exact commit_stamp.exact pred_option_iff
      commit_stamp.option_exact app_stamp.option_exact
      field.exact [of "''staged Welcome origin commit id''" _ _ _ "''staged Welcome origin commit id''"])

lemma take_u16_exact: "take_u16 label bs = Inr (w, rest) \<longleftrightarrow> bs = to_be_bytes 2 w @ rest"
proof (cases "length bs < 2")
  case False
  then obtain hi lo bs' where bs: "bs = hi # lo # bs'"
    by (cases bs; cases "tl bs") auto
  obtain a b where w: "to_be_bytes 2 w = [a, b]" by (simp add: to_be_bytes_def numeral_2_eq_2)
  then show ?thesis using bs u16_bytes [of hi lo w] by (auto simp: take_u16_def)
qed (auto simp: take_u16_def to_be_bytes_def)

lemma expect_exact: "expect expected label bs = Inr (u, rest) \<longleftrightarrow> bs = expected @ rest"
  using append_take_drop_id [of "length expected" bs] by (auto simp: expect_def simp del: append_take_drop_id)

lemma payload_v2_exact:
  "decode_stored_message_payload_v2 bs = Inr p \<longleftrightarrow> payload_strings p \<and> encode_stored_message_payload_v2 p = Inr bs"
proof -
  let ?magic = "STORED_MESSAGE_PAYLOAD_MAGIC" and ?version = "to_be_bytes 2 STORED_MESSAGE_PAYLOAD_VERSION"
  have variant: "encode_variant p = Inr out \<Longrightarrow> out \<noteq> []" for out
    by (cases p) (auto simp: result_bind_Inr)
  have "decode_stored_message_payload_v2 bs = Inr p \<longleftrightarrow>
      (\<exists>v out. bs = ?magic @ ?version @ v # out \<and> decode_variant_fields v out = Inr (p, []))"
    by (auto simp: decode_stored_message_payload_v2_def expect_exact result_bind_Inr take_u16_exact take_u8_exact
        split: if_splits)
  also have "\<dots> \<longleftrightarrow> payload_strings p \<and> encode_stored_message_payload_v2 p = Inr bs"
    using variant by (auto simp: encode_stored_message_payload_v2_def result_bind_Inr decode_variant_fields_exact neq_Nil_conv)
  finally show ?thesis .
qed

text \<open>
  C27: Stored payloads survive storage.  Whatever the JSON readers accept, decoding an encoded payload returns it; a row
  that starts with the magic decodes to a payload exactly when it is that payload's encoding.  So the binary
  format has one encoding per payload, and no row with trailing, truncated or unknown fields is
  accepted.\<close>

theorem stored_payload_exact:
  "(payload_strings p \<and> encode_stored_message_payload_v2 p = Inr bs \<longrightarrow> decode_payload envelope_json message_json bs = Inr p) \<and>
   (take 5 bs = STORED_MESSAGE_PAYLOAD_MAGIC \<longrightarrow>
      (decode_payload envelope_json message_json bs = Inr p \<longleftrightarrow>
       payload_strings p \<and> encode_stored_message_payload_v2 p = Inr bs))"
proof -
  have five: "length STORED_MESSAGE_PAYLOAD_MAGIC = 5" by (simp add: STORED_MESSAGE_PAYLOAD_MAGIC_def)
  have "take 5 bs = STORED_MESSAGE_PAYLOAD_MAGIC" if "encode_stored_message_payload_v2 p = Inr bs"
    using that five by (auto simp: encode_stored_message_payload_v2_def result_bind_Inr)
  then show ?thesis using payload_v2_exact five by (auto simp: decode_payload_def)
qed

definition example_message :: TransportMessage where
  "example_message = \<lparr>tm_id = [1, 2], tm_payload = [7], tm_timestamp = 9, tm_causal_deps = [[3], []], tm_source = [0x61],
     tm_envelope = Welcome [8]\<rparr>"

theorem stored_payload_exact_witness:
  "\<exists>bs. encode_stored_message_payload_v2 (StagedInviteWelcome example_message [5]) = Inr bs \<and>
     decode_payload (\<lambda>_. None) (\<lambda>_. None) bs = Inr (StagedInviteWelcome example_message [5]) \<and>
     decode_payload (\<lambda>_. None) (\<lambda>_. None) (bs @ [0]) \<noteq> Inr (StagedInviteWelcome example_message [5])"
proof -
  let ?p = "StagedInviteWelcome example_message [5]"
  have "\<exists>bs. encode_stored_message_payload_v2 ?p = Inr bs \<and> 5 \<le> length bs \<and> take 5 bs = STORED_MESSAGE_PAYLOAD_MAGIC"
    by (simp add: encode_stored_message_payload_v2_def encode_transport_message_def encode_field_def encode_list_def encode_envelope_def
        example_message_def STORED_MESSAGE_PAYLOAD_MAGIC_def MAX_STORED_MESSAGE_FIELD_LEN_def MAX_STORED_MESSAGE_LIST_ITEMS_def
        encode_var_bytes_def encode_quic_varint_def)
  then obtain bs where bs: "encode_stored_message_payload_v2 ?p = Inr bs" "take 5 bs = STORED_MESSAGE_PAYLOAD_MAGIC" "5 \<le> length bs"
    by blast
  moreover have "payload_strings ?p"
    by (simp add: example_message_def from_utf8_ok.simps utf8_scan_def)
  ultimately show ?thesis
    using stored_payload_exact [of ?p bs "\<lambda>_. None" "\<lambda>_. None"] stored_payload_exact [of ?p "bs @ [0]" "\<lambda>_. None" "\<lambda>_. None"] by auto
qed

end
