(* ===== verification/Convergence_Input.thy ===== *)
theory Convergence_Input
  imports Stored_Message Epoch_State
begin

text \<open>
  The roles of retained convergence inputs, \<open>cgka-engine/src/convergence_input.rs\<close>, over the durable pass types of
  \<open>traits/src/convergence_pass.rs\<close> and the message states of \<open>traits/src/message.rs\<close>.

  The lemmas read the commit-edge map as the set of commit edges it was built from; the property shows that
  the single scan that pass admission runs gives the verdict of the map for every input, which
  the code pins by one test.
\<close>

section \<open>Passes\<close>

datatype ConvergencePassPhase = Collecting | Frozen | PassResolving | Completed

definition phase_is_active :: "ConvergencePassPhase \<Rightarrow> bool" where
  "phase_is_active p = (p \<noteq> Completed)"

datatype ConvergenceCutoffCause = Quiescence | AbsoluteDeadline | ClockDiscontinuity

datatype ConvergencePassMemberRole = CommitEdge | ProposalDependency | AppWitnessCandidate

record ConvergencePassMember =
  member_message_id :: MessageId
  member_payload_digest :: bytes
  member_role :: ConvergencePassMemberRole
  member_source_epoch :: u64

record DurableConvergencePass =
  pass_group_id :: GroupId
  pass_generation :: u64
  pass_phase :: ConvergencePassPhase
  pass_base_epoch :: EpochId
  pass_clock_instance_id :: u64
  opened_monotonic_ms :: u64
  quiescence_deadline_monotonic_ms :: u64
  absolute_deadline_monotonic_ms :: u64
  opened_wall_ms :: u64
  quiescence_deadline_wall_ms :: u64
  absolute_deadline_wall_ms :: u64
  pass_members :: "ConvergencePassMember list"
  frozen_at_wall_ms :: "u64 option"
  cutoff_cause :: "ConvergenceCutoffCause option"
  fairness_slot_available :: bool

definition pass_is_active :: "DurableConvergencePass \<Rightarrow> bool" where
  "pass_is_active p = phase_is_active (pass_phase p)"

definition cutoff_monotonic_ms :: "DurableConvergencePass \<Rightarrow> u64" where
  "cutoff_monotonic_ms p = min (quiescence_deadline_monotonic_ms p) (absolute_deadline_monotonic_ms p)"

definition cutoff_wall_ms :: "DurableConvergencePass \<Rightarrow> u64" where
  "cutoff_wall_ms p = min (quiescence_deadline_wall_ms p) (absolute_deadline_wall_ms p)"

datatype MessageState =
    Sent | Created | Processed | Failed | Retryable | ConvergenceDeferred | PeelDeferred | EpochInvalidated

datatype OpenMlsContentKind = ApplicationContent | ProposalContent | CommitContent | WelcomeContent | OtherContent

section \<open>Classified inputs\<close>

fun role_for_content_kind :: "OpenMlsContentKind \<Rightarrow> ConvergencePassMemberRole option" where
  "role_for_content_kind CommitContent = Some CommitEdge"
| "role_for_content_kind ProposalContent = Some ProposalDependency"
| "role_for_content_kind ApplicationContent = Some AppWitnessCandidate"
| "role_for_content_kind WelcomeContent = None"
| "role_for_content_kind OtherContent = None"

record ClassifiedConvergenceInput =
  input_role :: ConvergencePassMemberRole
  input_source_epoch :: u64
  input_state :: MessageState
  input_digest :: bytes

definition from_projection ::
  "OpenMlsContentKind \<Rightarrow> u64 \<Rightarrow> MessageState \<Rightarrow> bytes \<Rightarrow> ClassifiedConvergenceInput option" where
  "from_projection kind source_epoch state digest =
     map_option (\<lambda>role. \<lparr>input_role = role, input_source_epoch = source_epoch, input_state = state, input_digest = digest\<rparr>)
       (role_for_content_kind kind)"

definition OUTBOUND_GATING_STATES :: "MessageState list" where
  "OUTBOUND_GATING_STATES = [Created, Retryable]"

definition PASS_OPENING_STATES :: "MessageState list" where
  "PASS_OPENING_STATES = [Sent, Created, Retryable]"

definition can_start_pass :: "ClassifiedConvergenceInput \<Rightarrow> bool" where
  "can_start_pass i = (input_state i \<in> set PASS_OPENING_STATES)"

definition can_gate_outbound :: "ClassifiedConvergenceInput \<Rightarrow> bool" where
  "can_gate_outbound i = (input_state i \<in> set OUTBOUND_GATING_STATES)"

section \<open>The commit-edge map\<close>

type_synonym ConvergenceInputContext = "(u64, bytes set) btree_map"

text \<open>\<open>entry(epoch).or_default().insert(digest)\<close>\<close>
definition insert_edge :: "u64 \<Rightarrow> bytes \<Rightarrow> ConvergenceInputContext \<Rightarrow> ConvergenceInputContext" where
  "insert_edge e d context =
     bt_insert e (insert d (case bt_get context e of None \<Rightarrow> {} | Some edges \<Rightarrow> edges)) context"

definition from_inputs :: "ClassifiedConvergenceInput list \<Rightarrow> ConvergenceInputContext" where
  "from_inputs inputs =
     fold (\<lambda>i context. if input_role i = CommitEdge then insert_edge (input_source_epoch i) (input_digest i) context else context)
       inputs []"

definition from_pass_members :: "ConvergencePassMember list \<Rightarrow> ConvergenceInputContext" where
  "from_pass_members members =
     fold (\<lambda>m context. if member_role m = CommitEdge then insert_edge (member_source_epoch m) (member_payload_digest m) context else context)
       members []"

definition has_commit_at :: "ConvergenceInputContext \<Rightarrow> u64 \<Rightarrow> bool" where
  "has_commit_at context e = (case bt_get context e of None \<Rightarrow> False | Some edges \<Rightarrow> edges \<noteq> {})"

definition has_competing_commit_before :: "ConvergenceInputContext \<Rightarrow> u64 \<Rightarrow> bool" where
  "has_competing_commit_before context e = list_ex (\<lambda>(k, edges). k < e \<and> card edges > 1) context"

definition is_potentially_selection_relevant :: "ConvergenceInputContext \<Rightarrow> ClassifiedConvergenceInput \<Rightarrow> bool" where
  "is_potentially_selection_relevant context i =
     (case input_role i of
        CommitEdge \<Rightarrow> True
      | ProposalDependency \<Rightarrow> has_commit_at context (input_source_epoch i)
      | AppWitnessCandidate \<Rightarrow> has_competing_commit_before context (input_source_epoch i))"

definition opens_pass :: "ConvergenceInputContext \<Rightarrow> ClassifiedConvergenceInput \<Rightarrow> bool" where
  "opens_pass context i =
     (can_start_pass i \<and>
      (case input_role i of
         CommitEdge \<Rightarrow> True
       | ProposalDependency \<Rightarrow> False
       | AppWitnessCandidate \<Rightarrow> has_competing_commit_before context (input_source_epoch i)))"

definition gates_outbound :: "ConvergenceInputContext \<Rightarrow> ClassifiedConvergenceInput \<Rightarrow> bool" where
  "gates_outbound context i =
     (can_gate_outbound i \<and>
      (case input_role i of
         CommitEdge \<Rightarrow> True
       | ProposalDependency \<Rightarrow> False
       | AppWitnessCandidate \<Rightarrow> has_competing_commit_before context (input_source_epoch i)))"

definition active_pass_member_gates_outbound :: "ConvergenceInputContext \<Rightarrow> ConvergencePassMember \<Rightarrow> bool" where
  "active_pass_member_gates_outbound context m =
     (case member_role m of
        CommitEdge \<Rightarrow> True
      | ProposalDependency \<Rightarrow> False
      | AppWitnessCandidate \<Rightarrow> has_competing_commit_before context (member_source_epoch m))"

section \<open>The scan\<close>

text \<open>The loop over the members, with the first digest seen at each epoch.\<close>
fun competing_scan :: "u64 \<Rightarrow> ConvergencePassMember list \<Rightarrow> (u64 \<rightharpoonup> bytes) \<Rightarrow> bool" where
  "competing_scan e [] first_digest_by_epoch = False"
| "competing_scan e (m # ms) first_digest_by_epoch =
     (if member_role m \<noteq> CommitEdge \<or> member_source_epoch m \<ge> e then competing_scan e ms first_digest_by_epoch
      else case first_digest_by_epoch (member_source_epoch m) of
             None \<Rightarrow> competing_scan e ms (first_digest_by_epoch(member_source_epoch m \<mapsto> member_payload_digest m))
           | Some d \<Rightarrow> (if d \<noteq> member_payload_digest m then True else competing_scan e ms first_digest_by_epoch))"

definition scan_selection_relevance :: "ConvergencePassMember list \<Rightarrow> ClassifiedConvergenceInput \<Rightarrow> bool" where
  "scan_selection_relevance members i =
     (case input_role i of
        CommitEdge \<Rightarrow> True
      | ProposalDependency \<Rightarrow>
          list_ex (\<lambda>m. member_role m = CommitEdge \<and> member_source_epoch m = input_source_epoch i) members
      | AppWitnessCandidate \<Rightarrow> competing_scan (input_source_epoch i) members Map.empty)"

section \<open>What the map and the scan know\<close>

text \<open>The commit edges of a list of inputs or members, as epoch and digest.\<close>

definition input_edges :: "ClassifiedConvergenceInput list \<Rightarrow> (u64 \<times> bytes) list" where
  "input_edges inputs = map (\<lambda>i. (input_source_epoch i, input_digest i)) (filter (\<lambda>i. input_role i = CommitEdge) inputs)"

definition member_edges :: "ConvergencePassMember list \<Rightarrow> (u64 \<times> bytes) list" where
  "member_edges members = map (\<lambda>m. (member_source_epoch m, member_payload_digest m)) (filter (\<lambda>m. member_role m = CommitEdge) members)"

text \<open>Two different commits from one epoch before \<open>e\<close>.\<close>
definition contested_before :: "(u64 \<times> bytes) set \<Rightarrow> u64 \<Rightarrow> bool" where
  "contested_before edges e = (\<exists>k a b. k < e \<and> (k, a) \<in> edges \<and> (k, b) \<in> edges \<and> a \<noteq> b)"

definition edge_context :: "(u64 \<times> bytes) list \<Rightarrow> ConvergenceInputContext" where
  "edge_context edges = fold (\<lambda>(e, d). insert_edge e d) edges []"

lemma fold_edges:
  "fold (\<lambda>x c. if P x then insert_edge (e x) (d x) c else c) xs c =
   fold (\<lambda>(e, d). insert_edge e d) (map (\<lambda>x. (e x, d x)) (filter P xs)) c"
  by (induction xs arbitrary: c) auto

lemma contexts_of_edges:
  "from_inputs inputs = edge_context (input_edges inputs)"
  "from_pass_members members = edge_context (member_edges members)"
  unfolding from_inputs_def from_pass_members_def edge_context_def input_edges_def member_edges_def
  by (rule fold_edges)+

lemma edge_context_laws:
  "bt_wf (edge_context edges) \<and>
   bt_get (edge_context edges) e = (if \<exists>d. (e, d) \<in> set edges then Some {d. (e, d) \<in> set edges} else None)"
proof (induction edges arbitrary: e rule: rev_induct)
  case Nil
  show ?case by (simp add: edge_context_def)
next
  case (snoc x edges)
  obtain k d where x: "x = (k, d)" by (cases x)
  have "edge_context (edges @ [x]) = insert_edge k d (edge_context edges)" by (simp add: edge_context_def x)
  then show ?case using snoc by (auto simp: insert_edge_def x)
qed

lemma has_commit_at_edges: "has_commit_at (edge_context edges) e \<longleftrightarrow> e \<in> fst ` set edges"
  using edge_context_laws [of edges e] by (force simp: has_commit_at_def)

lemma competing_edges: "has_competing_commit_before (edge_context edges) e \<longleftrightarrow> contested_before (set edges) e"
proof -
  have fin: "finite {d. (k, d) \<in> set edges}" for k
    by (rule finite_subset [of _ "snd ` set edges"]) force+
  have two: "card {d. (k, d) \<in> set edges} > 1 \<longleftrightarrow> (\<exists>a b. (k, a) \<in> set edges \<and> (k, b) \<in> set edges \<and> a \<noteq> b)" for k
    using card_le_Suc0_iff_eq [OF fin [of k]] by (auto simp: not_le [symmetric])
  have entries: "(k, es) \<in> set (edge_context edges) \<longleftrightarrow> (\<exists>d. (k, d) \<in> set edges) \<and> es = {d. (k, d) \<in> set edges}" for k es
    using edge_context_laws [of edges k] bt_get_mem [of "edge_context edges" k es] by (auto split: if_splits)
  have "has_competing_commit_before (edge_context edges) e \<longleftrightarrow>
      (\<exists>k es. (k, es) \<in> set (edge_context edges) \<and> k < e \<and> card es > 1)"
    by (simp add: has_competing_commit_before_def list_ex_iff Bex_def)
  also have "\<dots> \<longleftrightarrow> (\<exists>k. k < e \<and> (\<exists>d. (k, d) \<in> set edges) \<and> card {d. (k, d) \<in> set edges} > 1)"
    unfolding entries by blast
  also have "\<dots> \<longleftrightarrow> contested_before (set edges) e" unfolding two contested_before_def by blast
  finally show ?thesis .
qed

lemma competing_scan_edges:
  assumes "\<forall>k d. first k = Some d \<longrightarrow> (k, d) \<in> E" and "\<forall>k d. (k, d) \<in> E \<and> k < e \<longrightarrow> first k = Some d"
  shows "competing_scan e members first \<longleftrightarrow> contested_before (E \<union> set (member_edges members)) e"
  using assms
proof (induction members arbitrary: first E)
  case Nil
  then have "\<not> contested_before E e" unfolding contested_before_def by (metis option.inject)
  then show ?case by (simp add: member_edges_def)
next
  case (Cons m ms)
  let ?k = "member_source_epoch m" and ?d = "member_payload_digest m"
  show ?case
  proof (cases "member_role m = CommitEdge")
    case False
    then show ?thesis using Cons.IH [OF Cons.prems] by (simp add: member_edges_def)
  next
    case edge: True
    have edges: "E \<union> set (member_edges (m # ms)) = insert (?k, ?d) E \<union> set (member_edges ms)"
      using edge by (simp add: member_edges_def)
    show ?thesis
    proof (cases "?k < e")
      case False
      then have "contested_before (insert (?k, ?d) E \<union> set (member_edges ms)) e \<longleftrightarrow> contested_before (E \<union> set (member_edges ms)) e"
        by (auto simp: contested_before_def)
      then show ?thesis using Cons.IH [OF Cons.prems] edges False by (simp add: not_less)
    next
      case early: True
      show ?thesis
      proof (cases "first ?k")
        case None
        have "\<forall>k d. (first(?k \<mapsto> ?d)) k = Some d \<longrightarrow> (k, d) \<in> insert (?k, ?d) E" using Cons.prems(1) by auto
        moreover have "\<forall>k d. (k, d) \<in> insert (?k, ?d) E \<and> k < e \<longrightarrow> (first(?k \<mapsto> ?d)) k = Some d"
          using Cons.prems(2) None early by fastforce
        ultimately have "competing_scan e ms (first(?k \<mapsto> ?d)) \<longleftrightarrow> contested_before (insert (?k, ?d) E \<union> set (member_edges ms)) e"
          by (rule Cons.IH)
        then show ?thesis using edge early None edges by (simp add: not_le [symmetric])
      next
        case (Some d)
        then have d: "(?k, d) \<in> E" using Cons.prems(1) by blast
        show ?thesis
        proof (cases "d = ?d")
          case True
          then have "insert (?k, ?d) E = E" using d by blast
          then show ?thesis using Cons.IH [OF Cons.prems] edge early Some True edges by (simp add: not_le [symmetric])
        next
          case False
          then have "contested_before (insert (?k, ?d) E \<union> set (member_edges ms)) e"
            using d early unfolding contested_before_def by blast
          then show ?thesis using edge early Some False edges by (simp add: not_le [symmetric])
        qed
      qed
    qed
  qed
qed

text \<open>
  C26: The fast path of pass admission is exact.  One scan over the members of a pass, which builds no map and stops at the
  first competing pair, judges every input as the commit-edge map of those members does.\<close>

theorem scan_matches_context:
  "scan_selection_relevance members i = is_potentially_selection_relevant (from_pass_members members) i"
proof -
  have "competing_scan e members Map.empty \<longleftrightarrow> contested_before (set (member_edges members)) e" for e
    using competing_scan_edges [of Map.empty "{}" e members] by simp
  moreover have "list_ex (\<lambda>m. member_role m = CommitEdge \<and> member_source_epoch m = e) members \<longleftrightarrow> e \<in> fst ` set (member_edges members)" for e
    by (force simp: list_ex_iff member_edges_def)
  ultimately show ?thesis
    by (simp add: scan_selection_relevance_def is_potentially_selection_relevant_def contexts_of_edges
        has_commit_at_edges competing_edges split: ConvergencePassMemberRole.split)
qed

end
