(* ===== verification/Message_Store.thy ===== *)
theory Message_Store
  imports Convergence_Input Canonical_Types
begin

text \<open>
  The account storage that convergence reads and writes: the traits of \<open>traits/src/storage.rs\<close> as
  \<open>storage-sqlite/src/storage\<close> implements them.

  The messages table is the list of its rows in insert order, a keyed table is a map.  A row reads back as it was written and
  SQLite itself does not fail; the failures of the storage code are kept: an epoch that does not fit
  into a signed column, a missing row, a transport id claimed by another group.  An operation that writes is a
  function from the storage to its result and the storage afterwards.

  The locale \<open>indexed_messages\<close> is what the engine relies on when it asks for an existence probe or a filtered listing
  instead of the whole group; the message table interprets it.
\<close>

section \<open>Operations that may fail\<close>

type_synonym ('s, 'e, 'a) op = "'s \<Rightarrow> ('e + 'a) \<times> 's"

definition op_return :: "'a \<Rightarrow> ('s, 'e, 'a) op" where
  "op_return x = (\<lambda>s. (Inr x, s))"

definition op_bind :: "('s, 'e, 'a) op \<Rightarrow> ('a \<Rightarrow> ('s, 'e, 'b) op) \<Rightarrow> ('s, 'e, 'b) op" where
  "op_bind m f = (\<lambda>s. case m s of (Inl e, s') \<Rightarrow> (Inl e, s') | (Inr x, s') \<Rightarrow> f x s')"

text \<open>A call that only reads.\<close>
definition op_read :: "('s \<Rightarrow> 'e + 'a) \<Rightarrow> ('s, 'e, 'a) op" where
  "op_read f = (\<lambda>s. (f s, s))"

text \<open>\<open>map_err\<close>\<close>
fun map_err :: "('e \<Rightarrow> 'f) \<Rightarrow> 'e + 'a \<Rightarrow> 'f + 'a" where
  "map_err f (Inl e) = Inl (f e)"
| "map_err f (Inr x) = Inr x"

definition op_map_err :: "('e \<Rightarrow> 'f) \<Rightarrow> ('s, 'e, 'a) op \<Rightarrow> ('s, 'f, 'a) op" where
  "op_map_err f m = (\<lambda>s. case m s of (r, s') \<Rightarrow> (map_err f r, s'))"

text \<open>An error rolls the transaction back.\<close>
definition with_transaction :: "('s, 'e, 'a) op \<Rightarrow> ('s, 'e, 'a) op" where
  "with_transaction m = (\<lambda>s. case m s of (Inl e, s') \<Rightarrow> (Inl e, s) | (Inr x, s') \<Rightarrow> (Inr x, s'))"

section \<open>Rows\<close>

datatype StorageError = NotFound | Serialization string | Backend string

record DeferredPeelLifecycle =
  first_observed_wall_ms :: u64
  wall_high_water_ms :: u64
  lifecycle_clock_instance_id :: u64
  residence_deadline_monotonic_ms :: u64
  residence_deadline_wall_ms :: u64
  distinct_context_attempts :: u32
  last_context_fingerprint :: "bytes option"
  live_context_attempts :: u32
  last_live_context_fingerprint :: "bytes option"

record MessageRecord =
  mr_id :: MessageId
  mr_group_id :: GroupId
  mr_epoch :: EpochId
  mr_state :: MessageState
  mr_payload :: bytes
  mr_deferred_peel :: "DeferredPeelLifecycle option"

record KeyPackage =
  kp_bytes :: bytes
  kp_source :: "MessageId option"
  kp_protocol_profile :: ProtocolProfile

datatype SendIntent =
    AppMessageIntent GroupId bytes "EpochId option"
  | InviteIntent GroupId "KeyPackage list" "MemberId list"
  | RemoveMembersIntent GroupId "MemberId list"
  | LeaveIntent GroupId
  | SelfUpdateIntent GroupId
  | UpdateAppComponentsIntent GroupId "AppComponentData list"
  | UpdateGroupDataIntent GroupId "bytes option" "bytes option"
  | EnableDisbandingIntent GroupId
  | DisbandIntent GroupId

record QueuedOutboundIntent =
  qi_id :: MessageId
  qi_group_id :: GroupId
  qi_intent :: SendIntent
  qi_created_at_ms :: u64
  qi_reissue_attempts :: u32

text \<open>The fields the convergence code reads of a candidate and of a group.\<close>

record DisbandCandidate =
  dc_group_id :: GroupId
  dc_commit_id :: MessageId
  dc_content_commit_id :: MessageId

record Group =
  group_epoch :: EpochId
  group_removed :: bool
  group_unrecoverable :: bool
  group_disbanded :: bool

definition is_terminal :: "Group \<Rightarrow> bool" where
  "is_terminal g = (group_removed g \<or> group_disbanded g)"

record AccountStorage =
  st_messages :: "MessageRecord list"
  st_passes :: "GroupId \<rightharpoonup> DurableConvergencePass"
  st_groups :: "GroupId \<rightharpoonup> Group"
  st_queued_outbound :: "QueuedOutboundIntent list"
  st_disband_candidates :: "DisbandCandidate list"
  st_convergence_policies :: "GroupId \<rightharpoonup> bytes"
  st_deferred_peel_generations :: "GroupId set"
  st_processed_transport_ids :: "MessageId \<rightharpoonup> GroupId"

type_synonym 'a storage_op = "(AccountStorage, StorageError, 'a) op"

section \<open>Messages\<close>

definition epoch_to_i64 :: "EpochId \<Rightarrow> StorageError + int" where
  "epoch_to_i64 e = (if uint e < 2 ^ 63 then Inr (uint e) else Inl (Serialization (''epoch too large: '' @ u64_to_string e)))"

definition upsert_row :: "MessageRecord \<Rightarrow> MessageRecord list \<Rightarrow> MessageRecord list" where
  "upsert_row r rows =
     (if mr_id r \<in> set (map mr_id rows) then map (\<lambda>r'. if mr_id r' = mr_id r then r else r') rows else rows @ [r])"

definition put_message :: "MessageRecord \<Rightarrow> unit storage_op" where
  "put_message r = (\<lambda>st. case epoch_to_i64 (mr_epoch r) of
       Inl e \<Rightarrow> (Inl e, st)
     | Inr _ \<Rightarrow> (Inr (), st\<lparr>st_messages := upsert_row r (st_messages st)\<rparr>))"

definition get_message :: "AccountStorage \<Rightarrow> MessageId \<Rightarrow> StorageError + MessageRecord" where
  "get_message st i = (case find (\<lambda>r. mr_id r = i) (st_messages st) of None \<Rightarrow> Inl NotFound | Some r \<Rightarrow> Inr r)"

definition set_row_state :: "MessageState \<Rightarrow> MessageRecord \<Rightarrow> MessageRecord" where
  "set_row_state s r = r\<lparr>mr_state := s, mr_deferred_peel := (if s = PeelDeferred then mr_deferred_peel r else None)\<rparr>"

definition update_message_state :: "MessageId \<Rightarrow> MessageState \<Rightarrow> unit storage_op" where
  "update_message_state i s = (\<lambda>st. case get_message st i of
       Inl e \<Rightarrow> (Inl e, st)
     | Inr _ \<Rightarrow> (Inr (), st\<lparr>st_messages := map (\<lambda>r. if mr_id r = i then set_row_state s r else r) (st_messages st)\<rparr>))"

definition list_messages :: "AccountStorage \<Rightarrow> GroupId \<Rightarrow> EpochId \<Rightarrow> StorageError + MessageRecord list" where
  "list_messages st g floor =
     result_bind (epoch_to_i64 floor) (\<lambda>_. Inr (filter (\<lambda>r. mr_group_id r = g \<and> mr_epoch r \<ge> floor) (st_messages st)))"

definition list_messages_in_states ::
  "AccountStorage \<Rightarrow> GroupId \<Rightarrow> MessageState list \<Rightarrow> EpochId \<Rightarrow> StorageError + MessageRecord list" where
  "list_messages_in_states st g states floor =
     (if states = [] then Inr []
      else result_bind (epoch_to_i64 floor)
             (\<lambda>_. Inr (filter (\<lambda>r. mr_group_id r = g \<and> mr_epoch r \<ge> floor \<and> mr_state r \<in> set states) (st_messages st))))"

definition has_messages_in_states ::
  "AccountStorage \<Rightarrow> GroupId \<Rightarrow> MessageState list \<Rightarrow> EpochId \<Rightarrow> StorageError + bool" where
  "has_messages_in_states st g states floor =
     (if states = [] then Inr False
      else result_bind (epoch_to_i64 floor)
             (\<lambda>_. Inr (list_ex (\<lambda>r. mr_group_id r = g \<and> mr_epoch r \<ge> floor \<and> mr_state r \<in> set states) (st_messages st))))"

definition put_processed_transport_id :: "GroupId \<Rightarrow> MessageId \<Rightarrow> unit storage_op" where
  "put_processed_transport_id g i = (\<lambda>st.
     let ids = (case st_processed_transport_ids st i of
                  None \<Rightarrow> (st_processed_transport_ids st)(i \<mapsto> g) | Some _ \<Rightarrow> st_processed_transport_ids st);
         st = st\<lparr>st_processed_transport_ids := ids\<rparr>
     in if ids i \<noteq> Some g then (Inl (Backend ''processed transport id is already assigned to another group''), st)
        else (Inr (), st))"

section \<open>Passes, groups, intents, candidates\<close>

definition put_convergence_pass :: "DurableConvergencePass \<Rightarrow> AccountStorage \<Rightarrow> AccountStorage" where
  "put_convergence_pass p st = st\<lparr>st_passes := (st_passes st)(pass_group_id p \<mapsto> p)\<rparr>"

definition delete_convergence_pass :: "GroupId \<Rightarrow> AccountStorage \<Rightarrow> AccountStorage" where
  "delete_convergence_pass g st = st\<lparr>st_passes := (st_passes st)(g := None)\<rparr>"

definition get_group :: "AccountStorage \<Rightarrow> GroupId \<Rightarrow> StorageError + Group" where
  "get_group st g = (case st_groups st g of None \<Rightarrow> Inl NotFound | Some gr \<Rightarrow> Inr gr)"

definition put_group :: "GroupId \<Rightarrow> Group \<Rightarrow> unit storage_op" where
  "put_group g gr = (\<lambda>st. case epoch_to_i64 (group_epoch gr) of
       Inl e \<Rightarrow> (Inl e, st)
     | Inr _ \<Rightarrow> (Inr (), st\<lparr>st_groups := (st_groups st)(g \<mapsto> gr)\<rparr>))"

definition list_queued_outbound_intents :: "AccountStorage \<Rightarrow> GroupId \<Rightarrow> QueuedOutboundIntent list" where
  "list_queued_outbound_intents st g = filter (\<lambda>q. qi_group_id q = g) (st_queued_outbound st)"

definition list_disband_candidates :: "AccountStorage \<Rightarrow> GroupId \<Rightarrow> DisbandCandidate list" where
  "list_disband_candidates st g = filter (\<lambda>c. dc_group_id c = g) (st_disband_candidates st)"

section \<open>Laws\<close>

text \<open>The \<open>UNIQUE\<close> constraint on the id column.\<close>
definition rows_unique :: "AccountStorage \<Rightarrow> bool" where
  "rows_unique st = distinct (map mr_id (st_messages st))"

lemma upsert_row_ids:
  "map mr_id (upsert_row r rows) = (if mr_id r \<in> set (map mr_id rows) then map mr_id rows else map mr_id rows @ [mr_id r])"
  by (induction rows) (auto simp: upsert_row_def)

lemma rows_unique_put_message: "rows_unique st \<Longrightarrow> rows_unique (snd (put_message r st))"
  using upsert_row_ids [of r "st_messages st"] by (simp add: rows_unique_def put_message_def split: sum.split)

lemma rows_unique_update: "rows_unique st \<Longrightarrow> rows_unique (snd (update_message_state i s st))"
proof -
  have "mr_id \<circ> (\<lambda>r. if mr_id r = i then set_row_state s r else r) = mr_id" by (auto simp: set_row_state_def)
  then show "rows_unique st \<Longrightarrow> rows_unique (snd (update_message_state i s st))"
    by (simp add: rows_unique_def update_message_state_def split: sum.split)
qed

lemma get_message_put:
  assumes "put_message r st = (Inr (), st')"
  shows "get_message st' (mr_id r) = Inr r"
proof -
  have "find (\<lambda>r'. mr_id r' = mr_id r) (map (\<lambda>r'. if mr_id r' = mr_id r then r else r') rows) = Some r"
    if "mr_id r \<in> mr_id ` set rows" for rows
    using that by (induction rows) auto
  moreover have "find (\<lambda>r'. mr_id r' = mr_id r) (rows @ [r]) = Some r" if "mr_id r \<notin> mr_id ` set rows" for rows
    using that by (induction rows) auto
  ultimately show ?thesis
    using assms by (auto simp: put_message_def get_message_def upsert_row_def split: sum.splits if_splits)
qed

text \<open>What an indexed query owes the listing it stands for.\<close>

locale indexed_messages =
  fixes listing :: "GroupId \<Rightarrow> EpochId \<Rightarrow> StorageError + MessageRecord list"
    and in_states :: "GroupId \<Rightarrow> MessageState list \<Rightarrow> EpochId \<Rightarrow> StorageError + MessageRecord list"
    and any_in_states :: "GroupId \<Rightarrow> MessageState list \<Rightarrow> EpochId \<Rightarrow> StorageError + bool"
  assumes in_states_law:
      "states \<noteq> [] \<Longrightarrow> in_states g states floor = result_bind (listing g floor) (\<lambda>rs. Inr (filter (\<lambda>r. mr_state r \<in> set states) rs))"
    and any_in_states_law:
      "states \<noteq> [] \<Longrightarrow> any_in_states g states floor = result_bind (listing g floor) (\<lambda>rs. Inr (\<exists>r\<in>set rs. mr_state r \<in> set states))"
begin

text \<open>
  A decision over a group's rows that ignores the states outside \<open>used\<close> and is negative without a row in \<open>needed\<close> can be
  taken by an existence probe followed by a filtered listing.\<close>

lemma probe_then_list:
  assumes "needed \<noteq> []" and "used \<noteq> []"
    and blind: "\<And>rs. decide (filter (\<lambda>r. mr_state r \<in> set used) rs) = decide rs"
    and idle: "\<And>rs. (\<forall>r\<in>set rs. mr_state r \<notin> set needed) \<Longrightarrow> \<not> decide rs"
  shows "result_bind (any_in_states g needed floor)
      (\<lambda>found. if \<not> found then Inr False else result_bind (in_states g used floor) (\<lambda>rs. Inr (decide rs))) =
    result_bind (listing g floor) (\<lambda>rs. Inr (decide rs))"
proof (cases "listing g floor")
  case (Inr rs)
  then show ?thesis using assms(1,2) blind idle [of rs] by (auto simp: in_states_law any_in_states_law)
qed (use assms(1) in \<open>simp add: any_in_states_law\<close>)

end

interpretation table: indexed_messages "list_messages st" "list_messages_in_states st" "has_messages_in_states st" for st
proof
  fix states :: "MessageState list" and g floor
  assume "states \<noteq> []"
  then show "list_messages_in_states st g states floor =
      result_bind (list_messages st g floor) (\<lambda>rs. Inr (filter (\<lambda>r. mr_state r \<in> set states) rs))"
    and "has_messages_in_states st g states floor =
      result_bind (list_messages st g floor) (\<lambda>rs. Inr (\<exists>r\<in>set rs. mr_state r \<in> set states))"
    by (auto simp: list_messages_in_states_def has_messages_in_states_def list_messages_def list_ex_iff conj_ac
        epoch_to_i64_def intro: filter_cong)
qed

end
