(* ===== verification/Convergence_Pass.thy ===== *)
theory Convergence_Pass
  imports Message_Store Epoch_Manager
begin

text \<open>
  The durable convergence pass, \<open>cgka-engine/src/distributed_convergence.rs\<close>: admission of retained messages, the
  cutoff, freezing, verification and resolution, with the projections of \<open>openmls_projection.rs\<close>, the outbound gate of
  \<open>message_processor/mod.rs\<close> and the application backlog of \<open>message_processor/application_replay.rs\<close>.

  The engine is a record; a method that takes \<open>&self\<close> and writes through the storage is an operation on the
  storage that reads the engine.  SHA-256, the OpenMLS parser and serde's JSON readers are fields of \<open>convergence_lib\<close>.
  The OpenMLS replay of a frozen batch, its application and the reports after it are fields of
  \<open>convergence_replay\<close>.  Every group is hydrated, so \<open>ensure_hydrated\<close> does nothing; the text of a
  wrapped error is the error it prints; audit records, log output and metrics are left out; the build is the normal
  one, without \<open>test-policy-overrides\<close>.
\<close>

section \<open>Libraries, errors and projections\<close>

datatype ContentType = ApplicationType | ProposalType | CommitType

datatype MlsMessageBodyIn =
    PrivateMessage ContentType u64
  | PublicMessage ContentType u64
  | WelcomeMessage
  | GroupInfoMessage
  | KeyPackageMessage

record convergence_lib =
  lib_sha256 :: "bytes \<Rightarrow> bytes"
  lib_mls_body :: "bytes \<Rightarrow> string + MlsMessageBodyIn"
  lib_envelope_json :: "bytes \<Rightarrow> StoredMessagePayload option"
  lib_message_json :: "bytes \<Rightarrow> TransportMessage option"
  lib_policy_json :: "bytes \<Rightarrow> string + CanonicalizationPolicy"

datatype OpenMlsProjectionError =
    ProjectionDecode string
  | UnsupportedMessageKind OpenMlsContentKind
  | MissingGroup
  | ProjectionReplay StorageError
  | ProjectionSerialize StoredMessagePayloadCodecError
  | PolicySerialize string
  | ProjectionStorage StorageError
  | InvalidPolicy CanonicalizationPolicyError

record OpenMlsMessageProjection =
  proj_kind :: OpenMlsContentKind
  proj_source_epoch :: "u64 option"
  proj_message_digest :: bytes

fun kind_from_content_type :: "ContentType \<Rightarrow> OpenMlsContentKind" where
  "kind_from_content_type ApplicationType = ApplicationContent"
| "kind_from_content_type ProposalType = ProposalContent"
| "kind_from_content_type CommitType = CommitContent"

fun protocol_message_from_body :: "MlsMessageBodyIn \<Rightarrow> OpenMlsProjectionError + (ContentType \<times> u64) option" where
  "protocol_message_from_body (PrivateMessage t e) = Inr (Some (t, e))"
| "protocol_message_from_body (PublicMessage t e) = Inr (Some (t, e))"
| "protocol_message_from_body WelcomeMessage = Inr None"
| "protocol_message_from_body GroupInfoMessage = Inl (UnsupportedMessageKind OtherContent)"
| "protocol_message_from_body KeyPackageMessage = Inl (UnsupportedMessageKind OtherContent)"

definition project_mls_message :: "convergence_lib \<Rightarrow> bytes \<Rightarrow> OpenMlsProjectionError + OpenMlsMessageProjection" where
  "project_mls_message lib bs =
     (let digest = lib_sha256 lib bs in
      result_bind (map_err ProjectionDecode (lib_mls_body lib bs)) (\<lambda>body.
      result_bind (protocol_message_from_body body) (\<lambda>protocol.
        Inr (case protocol of
               None \<Rightarrow> \<lparr>proj_kind = WelcomeContent, proj_source_epoch = None, proj_message_digest = digest\<rparr>
             | Some (t, e) \<Rightarrow>
                 \<lparr>proj_kind = kind_from_content_type t, proj_source_epoch = Some e, proj_message_digest = digest\<rparr>))))"

abbreviation decode_row :: "convergence_lib \<Rightarrow> bytes \<Rightarrow> StoredMessagePayloadCodecError + StoredMessagePayload" where
  "decode_row lib \<equiv> decode_payload (lib_envelope_json lib) (lib_message_json lib)"

definition decode_openmls_wire_projection ::
  "convergence_lib \<Rightarrow> bytes \<Rightarrow> (TransportMessage \<times> OpenMlsMessageProjection) option" where
  "decode_openmls_wire_projection lib payload =
     (case decode_row lib payload of
        Inl _ \<Rightarrow> None
      | Inr stored \<Rightarrow>
          (case as_openmls_wire stored of
             None \<Rightarrow> None
           | Some message \<Rightarrow>
               (case project_mls_message lib (tm_payload message) of
                  Inl _ \<Rightarrow> None
                | Inr projection \<Rightarrow> Some (message, projection))))"

definition content_dedup_id :: "convergence_lib \<Rightarrow> bytes \<Rightarrow> MessageId" where
  "content_dedup_id lib mls_bytes = lib_sha256 lib mls_bytes"

fun is_admin_group_state_intent :: "SendIntent \<Rightarrow> bool" where
  "is_admin_group_state_intent (InviteIntent g kps as) = True"
| "is_admin_group_state_intent (RemoveMembersIntent g ms) = True"
| "is_admin_group_state_intent (UpdateAppComponentsIntent g updates) = True"
| "is_admin_group_state_intent (UpdateGroupDataIntent g n d) = True"
| "is_admin_group_state_intent (EnableDisbandingIntent g) = True"
| "is_admin_group_state_intent (DisbandIntent g) = True"
| "is_admin_group_state_intent (AppMessageIntent g payload e) = False"
| "is_admin_group_state_intent (LeaveIntent g) = False"
| "is_admin_group_state_intent (SelfUpdateIntent g) = False"

section \<open>The engine\<close>

record ConvergenceTime =
  time_monotonic_ms :: u64
  time_wall_ms :: u64

datatype GroupEvent = GroupUnrecoverable GroupId

record ('msg, 'audit) Engine =
  eng_storage :: AccountStorage
  eng_epoch_manager :: "('msg, 'audit) EpochManager"
  eng_convergence_policy :: CanonicalizationPolicy
  eng_max_past_epochs :: nat
  eng_clock_instance_id :: u64
  eng_quarantined_groups :: "GroupId set"
  eng_pending_convergence_groups :: "GroupId set"
  eng_events_buf :: "GroupEvent list"

type_synonym 'a pass_op = "(AccountStorage, OpenMlsProjectionError, 'a) op"
type_synonym ('msg, 'audit, 'a) engine_op = "(('msg, 'audit) Engine, OpenMlsProjectionError, 'a) op"

text \<open>A storage operation run by the engine.\<close>
definition on_storage :: "('msg, 'audit) Engine \<Rightarrow> ('e + 'a) \<times> AccountStorage \<Rightarrow> ('e + 'a) \<times> ('msg, 'audit) Engine" where
  "on_storage en r = (fst r, en\<lparr>eng_storage := snd r\<rparr>)"

definition ensure_group_live :: "('msg, 'audit) Engine \<Rightarrow> GroupId \<Rightarrow> EngineError + unit" where
  "ensure_group_live en g = (if g \<in> eng_quarantined_groups en then Inl (UnknownGroup g) else Inr ())"

definition schedule_pending_convergence_group :: "GroupId \<Rightarrow> ('msg, 'audit) Engine \<Rightarrow> ('msg, 'audit) Engine" where
  "schedule_pending_convergence_group g en =
     en\<lparr>eng_pending_convergence_groups := insert g (eng_pending_convergence_groups en)\<rparr>"

definition schedule_drain_for_retained_outbound_intents :: "GroupId \<Rightarrow> ('msg, 'audit) Engine \<Rightarrow> ('msg, 'audit) Engine" where
  "schedule_drain_for_retained_outbound_intents g en =
     (if list_queued_outbound_intents (eng_storage en) g \<noteq> [] then schedule_pending_convergence_group g en else en)"

definition accept_convergence_policy :: "('msg, 'audit) Engine \<Rightarrow> CanonicalizationPolicy \<Rightarrow> OpenMlsProjectionError + unit" where
  "accept_convergence_policy en policy = map_err InvalidPolicy (ensure_acceptable policy (eng_max_past_epochs en))"

definition set_convergence_policy :: "CanonicalizationPolicy \<Rightarrow> ('msg, 'audit, unit) engine_op" where
  "set_convergence_policy policy = (\<lambda>en.
     case accept_convergence_policy en policy of
       Inl e \<Rightarrow> (Inl e, en)
     | Inr _ \<Rightarrow> (Inr (), en\<lparr>eng_convergence_policy := policy\<rparr>))"

definition decode_convergence_policy :: "convergence_lib \<Rightarrow> bytes \<Rightarrow> OpenMlsProjectionError + CanonicalizationPolicy" where
  "decode_convergence_policy lib bs =
     result_bind (map_err PolicySerialize (lib_policy_json lib bs)) (\<lambda>policy.
     result_bind (map_err (InvalidPolicy \<circ> ConvergenceError) (validate_canonicalization policy)) (\<lambda>_. Inr policy))"

definition convergence_policy_for_group_ungated ::
  "convergence_lib \<Rightarrow> ('msg, 'audit) Engine \<Rightarrow> AccountStorage \<Rightarrow> GroupId \<Rightarrow> OpenMlsProjectionError + CanonicalizationPolicy" where
  "convergence_policy_for_group_ungated lib en st g =
     (case st_convergence_policies st g of
        None \<Rightarrow>
          (let policy = eng_convergence_policy en in
           result_bind (accept_convergence_policy en policy) (\<lambda>_. Inr policy))
      | Some policy_bytes \<Rightarrow>
          result_bind (decode_convergence_policy lib policy_bytes) (\<lambda>policy.
          result_bind (accept_convergence_policy en policy) (\<lambda>_. Inr policy)))"

definition convergence_policy_for_group ::
  "convergence_lib \<Rightarrow> ('msg, 'audit) Engine \<Rightarrow> AccountStorage \<Rightarrow> GroupId \<Rightarrow> OpenMlsProjectionError + CanonicalizationPolicy" where
  "convergence_policy_for_group lib en st g =
     result_bind (map_err (\<lambda>_. MissingGroup) (ensure_group_live en g)) (\<lambda>_.
       convergence_policy_for_group_ungated lib en st g)"

definition convergence_tip_epoch ::
  "('msg, 'audit) Engine \<Rightarrow> AccountStorage \<Rightarrow> GroupId \<Rightarrow> OpenMlsProjectionError + EpochId" where
  "convergence_tip_epoch en st g =
     (case manager_epoch (eng_epoch_manager en) g of
        Some e \<Rightarrow> Inr e
      | None \<Rightarrow> map_err ProjectionStorage (result_bind (get_group st g) (\<lambda>gr. Inr (group_epoch gr))))"

definition admission_allowed :: "('msg, 'audit) Engine \<Rightarrow> GroupId \<Rightarrow> bool" where
  "admission_allowed en g = (case state_of (eng_epoch_manager en) g of Some (Stable _) \<Rightarrow> True | _ \<Rightarrow> False)"

section \<open>The clock\<close>

definition normalize_convergence_pass_for_runtime ::
  "DurableConvergencePass \<Rightarrow> ConvergenceTime \<Rightarrow> u64 \<Rightarrow> DurableConvergencePass \<times> bool" where
  "normalize_convergence_pass_for_runtime p now clock =
     (if pass_phase p \<noteq> Collecting \<or> pass_clock_instance_id p = clock then (p, False)
      else
        let backwards = time_wall_ms now < opened_wall_ms p;
            quiescence_remaining =
              (if backwards then 0 else saturating_sub (quiescence_deadline_wall_ms p) (time_wall_ms now));
            absolute_remaining =
              (if backwards then 0 else saturating_sub (absolute_deadline_wall_ms p) (time_wall_ms now))
        in (p\<lparr>pass_clock_instance_id := clock,
              opened_monotonic_ms :=
                saturating_sub (time_monotonic_ms now) (saturating_sub (time_wall_ms now) (opened_wall_ms p)),
              quiescence_deadline_monotonic_ms := saturating_add (time_monotonic_ms now) quiescence_remaining,
              absolute_deadline_monotonic_ms := saturating_add (time_monotonic_ms now) absolute_remaining\<rparr>, True))"

definition freeze_collecting_convergence_pass ::
  "ConvergenceTime \<Rightarrow> DurableConvergencePass \<Rightarrow> DurableConvergencePass" where
  "freeze_collecting_convergence_pass now p =
     p\<lparr>pass_phase := Frozen,
       frozen_at_wall_ms := Some (time_wall_ms now),
       cutoff_cause := Some
         (if time_wall_ms now < opened_wall_ms p then ClockDiscontinuity
          else if absolute_deadline_monotonic_ms p \<le> quiescence_deadline_monotonic_ms p then AbsoluteDeadline
          else Quiescence)\<rparr>"

section \<open>Opening a pass\<close>

definition OPENMLS_GRAPH_INPUT_STATES :: "MessageState list" where
  "OPENMLS_GRAPH_INPUT_STATES = [Sent, Created, Retryable, ConvergenceDeferred, Processed]"

text \<open>The row is a commit from before the retained anchor.\<close>
definition stale_commit :: "convergence_lib \<Rightarrow> u64 \<Rightarrow> MessageRecord \<Rightarrow> u64 option" where
  "stale_commit lib anchor r =
     (case decode_openmls_wire_projection lib (mr_payload r) of
        Some (_, projection) \<Rightarrow>
          (case proj_source_epoch projection of
             Some e \<Rightarrow> if proj_kind projection \<noteq> CommitContent \<or> e \<ge> anchor then None else Some e
           | None \<Rightarrow> None)
      | None \<Rightarrow> None)"

fun retire_rows :: "convergence_lib \<Rightarrow> u64 \<Rightarrow> MessageRecord list \<Rightarrow> (MessageId \<times> EpochId) list storage_op" where
  "retire_rows lib anchor [] = op_return []"
| "retire_rows lib anchor (r # rs) =
     (case stale_commit lib anchor r of
        None \<Rightarrow> retire_rows lib anchor rs
      | Some e \<Rightarrow>
          op_bind (update_message_state (mr_id r) EpochInvalidated) (\<lambda>_.
          op_bind (retire_rows lib anchor rs) (\<lambda>retired. op_return ((mr_id r, e) # retired))))"

definition retire_stale_convergence_deferred_commits ::
  "convergence_lib \<Rightarrow> GroupId \<Rightarrow> u64 \<Rightarrow> (MessageId \<times> EpochId) list pass_op" where
  "retire_stale_convergence_deferred_commits lib g anchor =
     op_map_err ProjectionStorage (with_transaction
       (op_bind (op_read (\<lambda>st. list_messages_in_states st g [ConvergenceDeferred] 0)) (retire_rows lib anchor)))"

definition pass_member :: "MessageId \<Rightarrow> OpenMlsMessageProjection \<Rightarrow> ClassifiedConvergenceInput \<Rightarrow> ConvergencePassMember" where
  "pass_member i projection input =
     \<lparr>member_message_id = i, member_payload_digest = proj_message_digest projection, member_role = input_role input,
      member_source_epoch = input_source_epoch input\<rparr>"

text \<open>One step of the seeding iterator: skip the row, fail, or keep a member with its input.\<close>
definition seed_row ::
  "convergence_lib \<Rightarrow> u64 \<Rightarrow> u64 \<Rightarrow> MessageRecord
     \<Rightarrow> OpenMlsProjectionError + (ConvergencePassMember \<times> ClassifiedConvergenceInput) option" where
  "seed_row lib floor ceiling r =
     result_bind (map_err ProjectionSerialize (decode_row lib (mr_payload r))) (\<lambda>payload.
     case as_openmls_wire payload of
       None \<Rightarrow> Inr None
     | Some message \<Rightarrow>
         result_bind (project_mls_message lib (tm_payload message)) (\<lambda>projection.
         Inr (case proj_source_epoch projection of
           None \<Rightarrow> None
         | Some e \<Rightarrow>
             if e < floor \<or> e > ceiling then None
             else map_option (\<lambda>input. (pass_member (mr_id r) projection input, input))
               (from_projection (proj_kind projection) e (mr_state r) (proj_message_digest projection)))))"

fun seed_rows ::
  "convergence_lib \<Rightarrow> u64 \<Rightarrow> u64 \<Rightarrow> MessageRecord list
     \<Rightarrow> OpenMlsProjectionError + (ConvergencePassMember \<times> ClassifiedConvergenceInput) list" where
  "seed_rows lib floor ceiling [] = Inr []"
| "seed_rows lib floor ceiling (r # rs) =
     result_bind (seed_row lib floor ceiling r) (\<lambda>item.
     result_bind (seed_rows lib floor ceiling rs) (\<lambda>items.
       Inr (case item of None \<Rightarrow> items | Some i \<Rightarrow> i # items)))"

definition horizon_floor :: "CanonicalizationPolicy \<Rightarrow> EpochId \<Rightarrow> u64" where
  "horizon_floor policy base = saturating_sub base (max_rewind_commits (cp_convergence policy))"

definition horizon_ceiling :: "CanonicalizationPolicy \<Rightarrow> EpochId \<Rightarrow> u64" where
  "horizon_ceiling policy base = saturating_add base (max_rewind_commits (cp_convergence policy))"

definition candidate_ids :: "AccountStorage \<Rightarrow> GroupId \<Rightarrow> MessageId list" where
  "candidate_ids st g = concat (map (\<lambda>c. [dc_commit_id c, dc_content_commit_id c]) (list_disband_candidates st g))"

definition seed_convergence_pass_members ::
  "convergence_lib \<Rightarrow> GroupId \<Rightarrow> EpochId \<Rightarrow> CanonicalizationPolicy \<Rightarrow> (ConvergencePassMember list \<times> bool) pass_op" where
  "seed_convergence_pass_members lib g base policy =
     op_bind (retire_stale_convergence_deferred_commits lib g (horizon_floor policy base)) (\<lambda>_.
     op_read (\<lambda>st.
       result_bind
         (if candidate_ids st g \<noteq> [] then Inr True
          else map_err ProjectionStorage (has_messages_in_states st g PASS_OPENING_STATES (horizon_floor policy base)))
         (\<lambda>maybe. if \<not> maybe then Inr ([], False)
           else
             result_bind (map_err ProjectionStorage
               (list_messages_in_states st g OPENMLS_GRAPH_INPUT_STATES (horizon_floor policy base))) (\<lambda>records.
             result_bind (seed_rows lib (horizon_floor policy base) (horizon_ceiling policy base) records) (\<lambda>projected.
               let context = from_inputs (map snd projected);
                   has_terminal_trigger = list_ex (\<lambda>(m, _). member_message_id m \<in> set (candidate_ids st g)) projected;
                   has_trigger = (has_terminal_trigger \<or> list_ex (\<lambda>(_, input). opens_pass context input) projected)
               in Inr (map fst projected, has_trigger))))))"

definition new_convergence_pass ::
  "('msg, 'audit) Engine \<Rightarrow> GroupId \<Rightarrow> EpochId \<Rightarrow> CanonicalizationPolicy \<Rightarrow> ConvergenceTime
     \<Rightarrow> DurableConvergencePass option \<Rightarrow> ConvergencePassMember list \<Rightarrow> DurableConvergencePass" where
  "new_convergence_pass en g base policy now previous members =
     \<lparr>pass_group_id = g,
      pass_generation = (case previous of None \<Rightarrow> 0 | Some p \<Rightarrow> saturating_add (pass_generation p) 1),
      pass_phase = Collecting,
      pass_base_epoch = base,
      pass_clock_instance_id = eng_clock_instance_id en,
      opened_monotonic_ms = time_monotonic_ms now,
      quiescence_deadline_monotonic_ms = saturating_add (time_monotonic_ms now) (settlement_quiescence_ms policy),
      absolute_deadline_monotonic_ms = saturating_add (time_monotonic_ms now) (max_convergence_pass_ms policy),
      opened_wall_ms = time_wall_ms now,
      quiescence_deadline_wall_ms = saturating_add (time_wall_ms now) (settlement_quiescence_ms policy),
      absolute_deadline_wall_ms = saturating_add (time_wall_ms now) (max_convergence_pass_ms policy),
      pass_members = members,
      frozen_at_wall_ms = None,
      cutoff_cause = None,
      fairness_slot_available = False\<rparr>"

definition open_convergence_pass ::
  "convergence_lib \<Rightarrow> ('msg, 'audit) Engine \<Rightarrow> GroupId \<Rightarrow> EpochId \<Rightarrow> CanonicalizationPolicy \<Rightarrow> ConvergenceTime
     \<Rightarrow> DurableConvergencePass option \<Rightarrow> (DurableConvergencePass option \<times> bool) pass_op" where
  "open_convergence_pass lib en g base policy now previous =
     (if \<not> admission_allowed en g then op_return (None, False)
      else
        op_bind (seed_convergence_pass_members lib g base policy) (\<lambda>(members, has_trigger).
          if members = [] \<or> \<not> has_trigger then op_return (None, False)
          else (\<lambda>st. let p = new_convergence_pass en g base policy now previous members
                     in (Inr (Some p, True), put_convergence_pass p st))))"

text \<open>
  The fairness slot of the completed pass first: an admin intent holds it and the pass stays; otherwise the slot is consumed.
  Then a pass against another epoch is discarded, an active one is returned, and otherwise one is opened.\<close>

definition load_or_open_convergence_pass ::
  "convergence_lib \<Rightarrow> ('msg, 'audit) Engine \<Rightarrow> GroupId \<Rightarrow> EpochId \<Rightarrow> CanonicalizationPolicy \<Rightarrow> ConvergenceTime
     \<Rightarrow> (DurableConvergencePass option \<times> bool) pass_op" where
  "load_or_open_convergence_pass lib en g base policy now = (\<lambda>st.
     case st_passes st g of
       None \<Rightarrow> open_convergence_pass lib en g base policy now None st
     | Some p \<Rightarrow>
         if pass_phase p = Completed \<and> fairness_slot_available p then
           if list_ex (\<lambda>q. is_admin_group_state_intent (qi_intent q)) (list_queued_outbound_intents st g)
           then (Inr (Some p, False), st)
           else open_convergence_pass lib en g base policy now (Some p)
                  (put_convergence_pass (p\<lparr>fairness_slot_available := False\<rparr>) st)
         else if pass_is_active p \<and> pass_base_epoch p \<noteq> base then
           open_convergence_pass lib en g base policy now (Some p) (delete_convergence_pass (pass_group_id p) st)
         else if pass_is_active p then
           (case normalize_convergence_pass_for_runtime p now (eng_clock_instance_id en) of
              (p', rebased) \<Rightarrow> (Inr (Some p', False), if rebased then put_convergence_pass p' st else st))
         else open_convergence_pass lib en g base policy now (Some p) st)"

section \<open>Verifying a batch\<close>

datatype FrozenPassVerificationError = FrozenStorage StorageError | Integrity

definition verify_member :: "convergence_lib \<Rightarrow> AccountStorage \<Rightarrow> ConvergencePassMember \<Rightarrow> FrozenPassVerificationError + unit" where
  "verify_member lib st m =
     result_bind (map_err (\<lambda>e. if e = NotFound then Integrity else FrozenStorage e) (get_message st (member_message_id m))) (\<lambda>record.
     result_bind (map_err (\<lambda>_. Integrity) (decode_row lib (mr_payload record))) (\<lambda>payload.
     case as_openmls_wire payload of
       None \<Rightarrow> Inl Integrity
     | Some message \<Rightarrow>
         if lib_sha256 lib (tm_payload message) \<noteq> member_payload_digest m then Inl Integrity
         else
           result_bind (map_err (\<lambda>_. Integrity) (project_mls_message lib (tm_payload message))) (\<lambda>projection.
           case role_for_content_kind (proj_kind projection) of
             None \<Rightarrow> Inl Integrity
           | Some role \<Rightarrow>
               if role \<noteq> member_role m \<or> proj_source_epoch projection \<noteq> Some (member_source_epoch m) then Inl Integrity
               else Inr ())))"

fun verify_members :: "convergence_lib \<Rightarrow> AccountStorage \<Rightarrow> ConvergencePassMember list \<Rightarrow> FrozenPassVerificationError + unit" where
  "verify_members lib st [] = Inr ()"
| "verify_members lib st (m # ms) = result_bind (verify_member lib st m) (\<lambda>_. verify_members lib st ms)"

definition verify_frozen_pass_members ::
  "convergence_lib \<Rightarrow> AccountStorage \<Rightarrow> DurableConvergencePass \<Rightarrow> FrozenPassVerificationError + unit" where
  "verify_frozen_pass_members lib st p = verify_members lib st (pass_members p)"

section \<open>Admission\<close>

datatype ConvergenceAdmissionOutcome = Retained | Admitted | AdmissionFrozen | FrozenIntegrityFailure

definition convergence_pass_candidate ::
  "convergence_lib \<Rightarrow> AccountStorage \<Rightarrow> MessageId
     \<Rightarrow> OpenMlsProjectionError + (ConvergencePassMember \<times> ClassifiedConvergenceInput) option" where
  "convergence_pass_candidate lib st i =
     result_bind (map_err ProjectionStorage (get_message st i)) (\<lambda>record.
     result_bind (map_err ProjectionSerialize (decode_row lib (mr_payload record))) (\<lambda>payload.
     case as_openmls_wire payload of
       None \<Rightarrow> Inr None
     | Some message \<Rightarrow>
         result_bind (project_mls_message lib (tm_payload message)) (\<lambda>projection.
         Inr (case proj_source_epoch projection of
           None \<Rightarrow> None
         | Some e \<Rightarrow>
             map_option (\<lambda>input. (pass_member i projection input, input))
               (from_projection (proj_kind projection) e (mr_state record) (proj_message_digest projection))))))"

definition push_member ::
  "CanonicalizationPolicy \<Rightarrow> ConvergenceTime \<Rightarrow> ConvergencePassMember \<Rightarrow> ClassifiedConvergenceInput
     \<Rightarrow> DurableConvergencePass \<Rightarrow> DurableConvergencePass" where
  "push_member policy now m input p =
     (let selection_relevant = scan_selection_relevance (pass_members p) input;
          p = p\<lparr>pass_members := pass_members p @ [m]\<rparr>
      in if selection_relevant then
           p\<lparr>quiescence_deadline_monotonic_ms := saturating_add (time_monotonic_ms now) (settlement_quiescence_ms policy),
             quiescence_deadline_wall_ms := saturating_add (time_wall_ms now) (settlement_quiescence_ms policy)\<rparr>
         else p)"

definition admit_to_collecting ::
  "convergence_lib \<Rightarrow> CanonicalizationPolicy \<Rightarrow> MessageId \<Rightarrow> ConvergenceTime \<Rightarrow> DurableConvergencePass
     \<Rightarrow> ConvergenceAdmissionOutcome pass_op" where
  "admit_to_collecting lib policy i now p = (\<lambda>st.
     if time_monotonic_ms now \<ge> cutoff_monotonic_ms p then
       let p = freeze_collecting_convergence_pass now p in
       (case verify_frozen_pass_members lib st p of
          Inr _ \<Rightarrow> (Inr AdmissionFrozen, put_convergence_pass p st)
        | Inl Integrity \<Rightarrow> (Inr FrozenIntegrityFailure, put_convergence_pass p st)
        | Inl (FrozenStorage e) \<Rightarrow> (Inl (ProjectionStorage e), st))
     else
       case convergence_pass_candidate lib st i of
         Inl e \<Rightarrow> (Inl e, st)
       | Inr None \<Rightarrow> (Inr Retained, st)
       | Inr (Some (m, input)) \<Rightarrow>
           if input_source_epoch input < horizon_floor policy (pass_base_epoch p)
              \<or> input_source_epoch input > horizon_ceiling policy (pass_base_epoch p)
           then (Inr Retained, st)
           else (Inr Admitted, put_convergence_pass (push_member policy now m input p) st))"

text \<open>Admission to the pass that was loaded.\<close>
definition admit_loaded ::
  "convergence_lib \<Rightarrow> CanonicalizationPolicy \<Rightarrow> MessageId \<Rightarrow> ConvergenceTime \<Rightarrow> DurableConvergencePass option \<Rightarrow> bool
     \<Rightarrow> (ConvergenceAdmissionOutcome \<times> bool) pass_op" where
  "admit_loaded lib policy i now pass opened =
     (case pass of
        None \<Rightarrow> op_return (Retained, opened)
      | Some p \<Rightarrow>
          if pass_phase p \<noteq> Collecting then op_return (Retained, opened)
          else if list_ex (\<lambda>m. member_message_id m = i) (pass_members p) then op_return (Retained, opened)
          else op_bind (admit_to_collecting lib policy i now p) (\<lambda>outcome. op_return (outcome, opened)))"

definition admit_stored_message_to_convergence_pass ::
  "convergence_lib \<Rightarrow> ('msg, 'audit) Engine \<Rightarrow> GroupId \<Rightarrow> MessageId \<Rightarrow> ConvergenceTime
     \<Rightarrow> (ConvergenceAdmissionOutcome \<times> bool) pass_op" where
  "admit_stored_message_to_convergence_pass lib en g i now =
     (if \<not> admission_allowed en g then op_return (Retained, False)
      else
        op_bind (op_read (\<lambda>st. convergence_tip_epoch en st g)) (\<lambda>tip.
        op_bind (op_read (\<lambda>st. convergence_policy_for_group lib en st g)) (\<lambda>policy.
        op_bind (load_or_open_convergence_pass lib en g tip policy now) (\<lambda>(pass, opened).
          admit_loaded lib policy i now pass opened))))"

section \<open>Halting\<close>

definition realize_group_unrecoverable_for_frozen_pass :: "GroupId \<Rightarrow> ('msg, 'audit) Engine \<Rightarrow> ('msg, 'audit) Engine" where
  "realize_group_unrecoverable_for_frozen_pass g en =
     en\<lparr>eng_epoch_manager := mark_unrecoverable (eng_epoch_manager en) g,
        eng_events_buf := eng_events_buf en @ [GroupUnrecoverable g]\<rparr>"

text \<open>The durable half of the halt.\<close>
definition set_group_unrecoverable :: "GroupId \<Rightarrow> unit storage_op" where
  "set_group_unrecoverable g =
     op_bind (op_read (\<lambda>st. get_group st g)) (\<lambda>gr.
       if group_unrecoverable gr then op_return () else put_group g (gr\<lparr>group_unrecoverable := True\<rparr>))"

definition mark_group_unrecoverable_for_frozen_pass :: "GroupId \<Rightarrow> ('msg, 'audit, unit) engine_op" where
  "mark_group_unrecoverable_for_frozen_pass g = (\<lambda>en.
     case on_storage en (op_map_err ProjectionStorage (set_group_unrecoverable g) (eng_storage en)) of
       (Inl e, en) \<Rightarrow> (Inl e, en)
     | (Inr _, en) \<Rightarrow> (Inr (), realize_group_unrecoverable_for_frozen_pass g en))"

definition sync_unrecoverable_halt_from_storage :: "GroupId \<Rightarrow> ('msg, 'audit) Engine \<Rightarrow> bool \<times> ('msg, 'audit) Engine" where
  "sync_unrecoverable_halt_from_storage g en =
     (if manager_is_unrecoverable (eng_epoch_manager en) g then (True, en)
      else case st_groups (eng_storage en) g of
             None \<Rightarrow> (False, en)
           | Some gr \<Rightarrow>
               if \<not> group_unrecoverable gr then (False, en)
               else (True, en\<lparr>eng_epoch_manager := restore_unrecoverable (eng_epoch_manager en) g (group_epoch gr)\<rparr>))"

section \<open>Buffering an inbound message\<close>

definition buffer_transaction ::
  "convergence_lib \<Rightarrow> ('msg, 'audit) Engine \<Rightarrow> GroupId \<Rightarrow> MessageRecord \<Rightarrow> ConvergenceTime \<Rightarrow> MessageId option
     \<Rightarrow> (ConvergenceAdmissionOutcome \<times> bool) pass_op" where
  "buffer_transaction lib en g r now processed =
     op_bind (op_map_err ProjectionStorage (put_message r)) (\<lambda>_.
     op_bind (case processed of
                None \<Rightarrow> op_return ()
              | Some t \<Rightarrow> op_map_err ProjectionStorage (put_processed_transport_id g t)) (\<lambda>_.
     op_bind (admit_stored_message_to_convergence_pass lib en g (mr_id r) now) (\<lambda>(admission, opened).
       if admission = FrozenIntegrityFailure then
         op_bind (op_map_err ProjectionStorage (op_read (\<lambda>st. get_group st g))) (\<lambda>gr.
         op_bind (op_map_err ProjectionStorage (put_group g (gr\<lparr>group_unrecoverable := True\<rparr>))) (\<lambda>_.
           op_return (admission, opened)))
       else op_return (admission, opened))))"

definition buffer_new_message ::
  "convergence_lib \<Rightarrow> GroupId \<Rightarrow> TransportMessage \<Rightarrow> ConvergenceTime \<Rightarrow> MessageId option \<Rightarrow> ('msg, 'audit, unit) engine_op" where
  "buffer_new_message lib g message now processed = (\<lambda>en.
     case project_mls_message lib (tm_payload message) of
       Inl e \<Rightarrow> (Inl e, en)
     | Inr projection \<Rightarrow>
         (case proj_source_epoch projection of
            None \<Rightarrow> (Inr (), en)
          | Some source_epoch \<Rightarrow>
              if proj_kind projection \<notin> {CommitContent, ProposalContent, ApplicationContent} then (Inr (), en)
              else
                let content_id = content_dedup_id lib (tm_payload message);
                    message = message\<lparr>tm_id := content_id\<rparr>
                in case map_err ProjectionSerialize (encode_stored_message_payload_v2 (OpenMlsWire message)) of
                     Inl e \<Rightarrow> (Inl e, en)
                   | Inr payload \<Rightarrow>
                       let r = \<lparr>mr_id = content_id, mr_group_id = g, mr_epoch = source_epoch, mr_state = Created,
                                mr_payload = payload, mr_deferred_peel = None\<rparr>
                       in case on_storage en (with_transaction (buffer_transaction lib en g r now processed) (eng_storage en)) of
                            (Inl e, en) \<Rightarrow> (Inl e, en)
                          | (Inr (admission, opened), en) \<Rightarrow>
                              if admission = FrozenIntegrityFailure then
                                (case get_group (eng_storage en) g of
                                   Inl e \<Rightarrow> (Inl (ProjectionStorage e), en)
                                 | Inr gr \<Rightarrow> (Inr (), realize_group_unrecoverable_for_frozen_pass g en))
                              else (Inr (), en)))"

definition buffer_openmls_convergence_message_with_time ::
  "convergence_lib \<Rightarrow> GroupId \<Rightarrow> TransportMessage \<Rightarrow> ConvergenceTime \<Rightarrow> MessageId option \<Rightarrow> ('msg, 'audit, unit) engine_op" where
  "buffer_openmls_convergence_message_with_time lib g message now processed = (\<lambda>en.
     case get_message (eng_storage en) (content_dedup_id lib (tm_payload message)) of
       Inr r \<Rightarrow>
         if mr_state r = PeelDeferred then buffer_new_message lib g message now processed en
         else (case processed of
                 None \<Rightarrow> (Inr (), en)
               | Some t \<Rightarrow>
                   on_storage en (op_map_err ProjectionStorage (put_processed_transport_id g t) (eng_storage en)))
     | Inl NotFound \<Rightarrow> buffer_new_message lib g message now processed en
     | Inl e \<Rightarrow> (Inl (ProjectionStorage e), en))"

section \<open>The application backlog\<close>

datatype RetainedConvergenceRow = ApplicationRow TransportMessage | CommitRow

definition retained_convergence_row :: "convergence_lib \<Rightarrow> u64 \<Rightarrow> MessageRecord \<Rightarrow> RetainedConvergenceRow option" where
  "retained_convergence_row lib tip r =
     (if mr_state r \<notin> {Created, Retryable, ConvergenceDeferred} then None
      else case decode_row lib (mr_payload r) of
        Inl _ \<Rightarrow> None
      | Inr payload \<Rightarrow>
          (case as_openmls_wire payload of
             None \<Rightarrow> None
           | Some message \<Rightarrow>
               (case project_mls_message lib (tm_payload message) of
                  Inl _ \<Rightarrow> None
                | Inr projection \<Rightarrow>
                    (case proj_kind projection of
                       CommitContent \<Rightarrow> Some CommitRow
                     | ApplicationContent \<Rightarrow>
                         if own_application_stamp payload \<noteq> None then None
                         else (case proj_source_epoch projection of
                                 Some e \<Rightarrow> if e \<le> tip then Some (ApplicationRow message) else None
                               | None \<Rightarrow> None)
                     | _ \<Rightarrow> None))))"

text \<open>The visitor, over the rows in insert order, until \<open>limit\<close> fresh applications are found.\<close>
fun visit_rows ::
  "convergence_lib \<Rightarrow> u64 \<Rightarrow> nat \<Rightarrow> MessageRecord list \<Rightarrow> TransportMessage list \<Rightarrow> TransportMessage list \<Rightarrow> bool
     \<Rightarrow> TransportMessage list \<times> TransportMessage list \<times> bool" where
  "visit_rows lib tip limit [] fresh parked rival = (fresh, parked, rival)"
| "visit_rows lib tip limit (r # rs) fresh parked rival =
     (let parked_row = (mr_state r = ConvergenceDeferred);
          (fresh, parked, rival) =
            (case retained_convergence_row lib tip r of
               Some (ApplicationRow message) \<Rightarrow>
                 if parked_row then (fresh, if length parked < limit then parked @ [message] else parked, rival)
                 else (fresh @ [message], parked, rival)
             | Some CommitRow \<Rightarrow> (fresh, parked, rival \<or> parked_row)
             | None \<Rightarrow> (fresh, parked, rival))
      in if length fresh < limit then visit_rows lib tip limit rs fresh parked rival else (fresh, parked, rival))"

definition pending_canonical_applications ::
  "convergence_lib \<Rightarrow> ('msg, 'audit) Engine \<Rightarrow> GroupId \<Rightarrow> nat \<Rightarrow> StorageError + TransportMessage list" where
  "pending_canonical_applications lib en g limit =
     (let st = eng_storage en in
      if limit = 0 \<or> isl (ensure_group_live en g) then Inr []
      else if (case state_of (eng_epoch_manager en) g of None \<Rightarrow> False | Some (Stable _) \<Rightarrow> False | Some _ \<Rightarrow> True)
          \<or> (case st_passes st g of None \<Rightarrow> False | Some p \<Rightarrow> pass_is_active p)
          \<or> g \<in> st_deferred_peel_generations st
      then Inr []
      else case st_groups st g of
        None \<Rightarrow> Inr []
      | Some gr \<Rightarrow>
          if is_terminal gr \<or> group_unrecoverable gr then Inr []
          else
            result_bind (list_messages_in_states st g [Created, Retryable, ConvergenceDeferred] 0) (\<lambda>records.
              case visit_rows lib (group_epoch gr) limit records [] [] False of
                (fresh, parked, rival_branch_parked) \<Rightarrow>
                  Inr (if rival_branch_parked then fresh else take limit (fresh @ parked))))"

definition has_pending_canonical_applications ::
  "convergence_lib \<Rightarrow> ('msg, 'audit) Engine \<Rightarrow> GroupId \<Rightarrow> StorageError + bool" where
  "has_pending_canonical_applications lib en g =
     result_bind (pending_canonical_applications lib en g 1) (\<lambda>messages. Inr (messages \<noteq> []))"

section \<open>Scheduling\<close>

definition prepare_convergence_cutoff_delay_ms ::
  "convergence_lib \<Rightarrow> GroupId \<Rightarrow> ConvergenceTime \<Rightarrow> ('msg, 'audit, u64 option) engine_op" where
  "prepare_convergence_cutoff_delay_ms lib g now = (\<lambda>en.
     if isl (ensure_group_live en g) then (Inr None, en)
     else
       case on_storage en
         (op_bind (op_read (\<lambda>st. convergence_tip_epoch en st g)) (\<lambda>tip.
          op_bind (op_read (\<lambda>st. convergence_policy_for_group lib en st g)) (\<lambda>policy.
            load_or_open_convergence_pass lib en g tip policy now)) (eng_storage en)) of
         (Inl e, en) \<Rightarrow> (Inl e, en)
       | (Inr (pass, opened), en) \<Rightarrow>
           if (case pass of None \<Rightarrow> False | Some p \<Rightarrow> pass_phase p = Collecting)
           then (Inr (Some (saturating_sub (cutoff_monotonic_ms (the pass)) (time_monotonic_ms now))), en)
           else if (case pass of None \<Rightarrow> False | Some p \<Rightarrow> pass_is_active p) then (Inr (Some 0), en)
           else
             case has_pending_canonical_applications lib en g of
               Inl e \<Rightarrow> (Inl (ProjectionReplay e), en)
             | Inr pending \<Rightarrow> (Inr (if pending then Some 0 else None), en))"

definition consume_convergence_fairness_slot :: "GroupId \<Rightarrow> ('msg, 'audit) Engine \<Rightarrow> ('msg, 'audit) Engine" where
  "consume_convergence_fairness_slot g en =
     schedule_pending_convergence_group g
       (case st_passes (eng_storage en) g of
          None \<Rightarrow> en
        | Some p \<Rightarrow> en\<lparr>eng_storage := put_convergence_pass (p\<lparr>fairness_slot_available := False\<rparr>) (eng_storage en)\<rparr>)"

section \<open>Resolution\<close>

definition waiting_result :: "u64 \<Rightarrow> CanonicalizationResult" where
  "waiting_result current_tip =
     \<lparr>previous_tip = current_tip, selected_tip = None, selected_fork_epoch = None, selected_branch_id = None,
      candidate_count = 0, eligible_count = 0, convergence_status = Syncing, accepted_commits = [],
      accepted_proposals = [], accepted_app_messages = [], deferred_messages = [], invalidated_app_messages = [],
      dropped_messages = [], already_seen = [], queued_outbound_intents = [], publishable_outbound_messages = [],
      errors = [], selection_trace = None\<rparr>"

definition settled_empty_result :: "u64 \<Rightarrow> CanonicalizationResult" where
  "settled_empty_result current_tip = (waiting_result current_tip)\<lparr>convergence_status := Settled\<rparr>"

definition quarantined_result :: "u64 \<Rightarrow> CanonicalizationResult" where
  "quarantined_result current_tip =
     \<lparr>previous_tip = current_tip, selected_tip = None, selected_fork_epoch = None, selected_branch_id = None,
      candidate_count = 0, eligible_count = 0, convergence_status = Blocked, accepted_commits = [],
      accepted_proposals = [], accepted_app_messages = [], deferred_messages = [], invalidated_app_messages = [],
      dropped_messages = [], already_seen = [], queued_outbound_intents = [], publishable_outbound_messages = [],
      errors = [], selection_trace = None\<rparr>"

definition unrecoverable_result :: "u64 \<Rightarrow> CanonicalizationResult" where
  "unrecoverable_result current_tip =
     \<lparr>previous_tip = current_tip, selected_tip = None, selected_fork_epoch = None, selected_branch_id = None,
      candidate_count = 0, eligible_count = 0, convergence_status = Blocked, accepted_commits = [],
      accepted_proposals = [], accepted_app_messages = [], deferred_messages = [], invalidated_app_messages = [],
      dropped_messages = [], already_seen = [], queued_outbound_intents = [], publishable_outbound_messages = [],
      errors = [MissingRetainedAnchor], selection_trace = None\<rparr>"

text \<open>Either the run is over with a report, or a batch is to be resolved against a tip under a policy.\<close>
datatype resolution_start = Report CanonicalizationResult | Resolve EpochId CanonicalizationPolicy DurableConvergencePass

definition verified_or_halt ::
  "convergence_lib \<Rightarrow> GroupId \<Rightarrow> EpochId \<Rightarrow> DurableConvergencePass
     \<Rightarrow> ('msg, 'audit, resolution_start) engine_op \<Rightarrow> ('msg, 'audit, resolution_start) engine_op" where
  "verified_or_halt lib g tip p proceed = (\<lambda>en.
     case verify_frozen_pass_members lib (eng_storage en) p of
       Inr _ \<Rightarrow> proceed en
     | Inl (FrozenStorage e) \<Rightarrow> (Inl (ProjectionStorage e), en)
     | Inl Integrity \<Rightarrow>
         (case mark_group_unrecoverable_for_frozen_pass g en of
            (Inl e, en) \<Rightarrow> (Inl e, en)
          | (Inr _, en) \<Rightarrow> (Inr (Report (unrecoverable_result tip)), en)))"

definition put_pass :: "DurableConvergencePass \<Rightarrow> ('msg, 'audit) Engine \<Rightarrow> ('msg, 'audit) Engine" where
  "put_pass p en = en\<lparr>eng_storage := put_convergence_pass p (eng_storage en)\<rparr>"

definition begin_resolving :: "EpochId \<Rightarrow> CanonicalizationPolicy \<Rightarrow> DurableConvergencePass \<Rightarrow> ('msg, 'audit, resolution_start) engine_op" where
  "begin_resolving tip policy p = (\<lambda>en.
     if pass_phase p = Frozen then
       let p = p\<lparr>pass_phase := PassResolving\<rparr> in (Inr (Resolve tip policy p), put_pass p en)
     else if pass_phase p = Completed then (Inr (Report (settled_empty_result tip)), en)
     else (Inr (Resolve tip policy p), en))"

definition freeze_and_verify ::
  "convergence_lib \<Rightarrow> GroupId \<Rightarrow> EpochId \<Rightarrow> CanonicalizationPolicy \<Rightarrow> ConvergenceTime \<Rightarrow> DurableConvergencePass
     \<Rightarrow> ('msg, 'audit, resolution_start) engine_op" where
  "freeze_and_verify lib g tip policy now p =
     (if pass_phase p = Collecting then
        if time_monotonic_ms now < cutoff_monotonic_ms p then op_return (Report (waiting_result tip))
        else
          let p = freeze_collecting_convergence_pass now p
          in verified_or_halt lib g tip p (\<lambda>en. begin_resolving tip policy p (put_pass p en))
      else if pass_phase p \<in> {Frozen, PassResolving} then verified_or_halt lib g tip p (begin_resolving tip policy p)
      else begin_resolving tip policy p)"

definition manager_epoch_or_default :: "('msg, 'audit) Engine \<Rightarrow> GroupId \<Rightarrow> u64" where
  "manager_epoch_or_default en g = (case manager_epoch (eng_epoch_manager en) g of None \<Rightarrow> 0 | Some e \<Rightarrow> e)"

definition start_resolution :: "convergence_lib \<Rightarrow> GroupId \<Rightarrow> ConvergenceTime \<Rightarrow> ('msg, 'audit, resolution_start) engine_op" where
  "start_resolution lib g now = (\<lambda>en.
     if g \<in> eng_quarantined_groups en then (Inr (Report (quarantined_result (manager_epoch_or_default en g))), en)
     else
       case sync_unrecoverable_halt_from_storage g en of
         (True, en) \<Rightarrow> (Inr (Report (unrecoverable_result (manager_epoch_or_default en g))), en)
       | (False, en) \<Rightarrow>
           if g \<in> st_deferred_peel_generations (eng_storage en)
           then (Inr (Report (waiting_result (manager_epoch_or_default en g))), en)
           else
             case convergence_tip_epoch en (eng_storage en) g of
               Inl e \<Rightarrow> (Inl e, en)
             | Inr tip \<Rightarrow>
                 (case convergence_policy_for_group lib en (eng_storage en) g of
                    Inl e \<Rightarrow> (Inl e, en)
                  | Inr policy \<Rightarrow>
                      (case on_storage en (load_or_open_convergence_pass lib en g tip policy now (eng_storage en)) of
                         (Inl e, en) \<Rightarrow> (Inl e, en)
                       | (Inr (None, opened), en) \<Rightarrow> (Inr (Report (settled_empty_result tip)), en)
                       | (Inr (Some p, opened), en) \<Rightarrow> freeze_and_verify lib g tip policy now p en)))"

text \<open>
  The stages that run OpenMLS: the replay of the admitted messages (\<open>None\<close> when its time slice ends first), the
  application of its result inside the transaction (with the application events it stores there), and what follows the
  transaction, which settles a disband and reports the changes.\<close>

record ('msg, 'audit) convergence_replay =
  rp_canonicalize ::
    "GroupId \<Rightarrow> CanonicalizationState \<Rightarrow> CanonicalizationPolicy \<Rightarrow> u64 \<Rightarrow> MessageId list \<Rightarrow> CanonicalizationResult option pass_op"
  rp_apply :: "GroupId \<Rightarrow> CanonicalizationResult \<Rightarrow> u64 \<Rightarrow> unit pass_op"
  rp_settle :: "GroupId \<Rightarrow> CanonicalizationResult \<Rightarrow> ('msg, 'audit, unit) engine_op"

definition halt_for_missing_state :: "GroupId \<Rightarrow> CanonicalizationResult \<Rightarrow> ('msg, 'audit, CanonicalizationResult) engine_op" where
  "halt_for_missing_state g result = (\<lambda>en.
     case on_storage en (op_map_err ProjectionStorage (set_group_unrecoverable g) (eng_storage en)) of
       (Inl e, en) \<Rightarrow> (Inl e, en)
     | (Inr _, en) \<Rightarrow> (Inr result, realize_group_unrecoverable_for_frozen_pass g en))"

definition finish_pass ::
  "convergence_lib \<Rightarrow> ('msg, 'audit) convergence_replay \<Rightarrow> GroupId \<Rightarrow> CanonicalizationPolicy \<Rightarrow> DurableConvergencePass
     \<Rightarrow> CanonicalizationResult \<Rightarrow> ('msg, 'audit, CanonicalizationResult) engine_op" where
  "finish_pass lib rp g policy p result = (\<lambda>en.
     let completed_pass = p\<lparr>pass_phase := Completed, fairness_slot_available := True\<rparr> in
     case on_storage en
       (with_transaction (op_bind (rp_apply rp g result (max_rewind_commits (cp_convergence policy)))
          (\<lambda>_ st. (Inr (), put_convergence_pass completed_pass st))) (eng_storage en)) of
       (Inl e, en) \<Rightarrow> (Inl e, en)
     | (Inr _, en) \<Rightarrow>
         (let en = schedule_drain_for_retained_outbound_intents g en;
              en = (case selected_tip result of
                      None \<Rightarrow> en
                    | Some t \<Rightarrow> en\<lparr>eng_epoch_manager := set_stable (eng_epoch_manager en) g t\<rparr>)
          in case rp_settle rp g result en of
               (Inl e, en) \<Rightarrow> (Inl e, en)
             | (Inr _, en) \<Rightarrow>
                 (case has_pending_canonical_applications lib en g of
                    Inl e \<Rightarrow> (Inl (ProjectionReplay e), en)
                  | Inr pending \<Rightarrow> (Inr result, if pending then schedule_pending_convergence_group g en else en))))"

definition resolve_pass ::
  "convergence_lib \<Rightarrow> ('msg, 'audit) convergence_replay \<Rightarrow> GroupId \<Rightarrow> ConvergenceTime \<Rightarrow> EpochId \<Rightarrow> CanonicalizationPolicy
     \<Rightarrow> DurableConvergencePass \<Rightarrow> ('msg, 'audit, CanonicalizationResult) engine_op" where
  "resolve_pass lib rp g now tip policy p = (\<lambda>en.
     let state = \<lparr>current_tip_epoch = tip,
                  retained_anchor_epoch = saturating_sub tip (max_rewind_commits (cp_convergence policy)),
                  last_convergence_relevant_input_ms = saturating_sub (time_monotonic_ms now) (settlement_quiescence_ms policy),
                  seen_message_ids = {}\<rparr>
     in case get_group (eng_storage en) g of
          Inl e \<Rightarrow> (Inl (ProjectionStorage e), en)
        | Inr _ \<Rightarrow> case on_storage en (rp_canonicalize rp g state policy (time_monotonic_ms now) (map member_message_id (pass_members p)) (eng_storage en)) of
          (Inl e, en) \<Rightarrow> (Inl e, en)
        | (Inr None, en) \<Rightarrow> (Inr (waiting_result tip), schedule_pending_convergence_group g en)
        | (Inr (Some result), en) \<Rightarrow>
            (let result = (if convergence_status result \<in> {Syncing, Resolving} then result\<lparr>convergence_status := Settled\<rparr> else result)
             in if list_ex (\<lambda>e. e \<in> {MissingRetainedAnchor, MissingOwnCommitCheckpoint}) (errors result)
                then halt_for_missing_state g result en
                else if convergence_status result = Blocked
                then (Inr result, schedule_drain_for_retained_outbound_intents g
                       (put_pass (p\<lparr>pass_phase := Completed, fairness_slot_available := False\<rparr>) en))
                else finish_pass lib rp g policy p result en))"

definition converge_stored_openmls_messages ::
  "convergence_lib \<Rightarrow> ('msg, 'audit) convergence_replay \<Rightarrow> GroupId \<Rightarrow> ConvergenceTime
     \<Rightarrow> ('msg, 'audit, CanonicalizationResult) engine_op" where
  "converge_stored_openmls_messages lib rp g now =
     op_bind (start_resolution lib g now) (\<lambda>start.
       case start of
         Report result \<Rightarrow> op_return result
       | Resolve tip policy p \<Rightarrow> resolve_pass lib rp g now tip policy p)"

section \<open>The outbound gate\<close>

definition GATE_CLASSIFIER_STATES :: "MessageState list" where
  "GATE_CLASSIFIER_STATES = [Sent, Created, Retryable, ConvergenceDeferred, Processed]"

definition convergence_pass_gates_outbound :: "DurableConvergencePass \<Rightarrow> bool" where
  "convergence_pass_gates_outbound p =
     (let context = from_pass_members (pass_members p)
      in list_ex (active_pass_member_gates_outbound context) (pass_members p))"

definition has_unresolved_non_record_convergence_state :: "AccountStorage \<Rightarrow> GroupId \<Rightarrow> bool" where
  "has_unresolved_non_record_convergence_state st g =
     ((case st_passes st g of None \<Rightarrow> False | Some p \<Rightarrow> pass_is_active p \<and> convergence_pass_gates_outbound p)
      \<or> list_disband_candidates st g \<noteq> [])"

text \<open>The classified input of a row inside the horizon; a row that cannot be resolved contributes nothing.\<close>
definition gate_input :: "convergence_lib \<Rightarrow> u64 \<Rightarrow> u64 \<Rightarrow> MessageRecord \<Rightarrow> ClassifiedConvergenceInput option" where
  "gate_input lib anchor ceiling r =
     (if mr_epoch r < anchor then None
      else if mr_state r \<notin> set GATE_CLASSIFIER_STATES then None
      else case decode_openmls_wire_projection lib (mr_payload r) of
        None \<Rightarrow> None
      | Some (_, projection) \<Rightarrow>
          (case proj_source_epoch projection of
             None \<Rightarrow> None
           | Some e \<Rightarrow>
               if e > ceiling then None
               else from_projection (proj_kind projection) e (mr_state r) (proj_message_digest projection)))"

definition any_gating_convergence_input :: "convergence_lib \<Rightarrow> u64 \<Rightarrow> u64 \<Rightarrow> MessageRecord list \<Rightarrow> bool" where
  "any_gating_convergence_input lib anchor ceiling records =
     (let classified = List.map_filter (gate_input lib anchor ceiling) records;
          context = from_inputs classified
      in list_ex (gates_outbound context) classified)"

definition convergence_gate_horizon ::
  "convergence_lib \<Rightarrow> ('msg, 'audit) Engine \<Rightarrow> GroupId \<Rightarrow> Group \<Rightarrow> OpenMlsProjectionError + u64 \<times> u64" where
  "convergence_gate_horizon lib en g gr =
     result_bind (convergence_policy_for_group_ungated lib en (eng_storage en) g) (\<lambda>policy.
       Inr (horizon_floor policy (group_epoch gr), horizon_ceiling policy (group_epoch gr)))"

definition has_unresolved_convergence_inputs ::
  "convergence_lib \<Rightarrow> ('msg, 'audit) Engine \<Rightarrow> GroupId \<Rightarrow> OpenMlsProjectionError + bool" where
  "has_unresolved_convergence_inputs lib en g =
     (let st = eng_storage en in
      if has_unresolved_non_record_convergence_state st g then Inr True
      else case st_groups st g of
        None \<Rightarrow> Inr False
      | Some gr \<Rightarrow>
          result_bind (convergence_gate_horizon lib en g gr) (\<lambda>(anchor, ceiling).
          map_err ProjectionStorage
            (result_bind (has_messages_in_states st g OUTBOUND_GATING_STATES anchor) (\<lambda>found.
               if \<not> found then Inr False
               else result_bind (list_messages_in_states st g GATE_CLASSIFIER_STATES anchor) (\<lambda>records.
                 Inr (any_gating_convergence_input lib anchor ceiling records))))))"

definition has_unresolved_convergence_inputs_in_records ::
  "convergence_lib \<Rightarrow> ('msg, 'audit) Engine \<Rightarrow> GroupId \<Rightarrow> Group \<Rightarrow> MessageRecord list \<Rightarrow> OpenMlsProjectionError + bool" where
  "has_unresolved_convergence_inputs_in_records lib en g gr records =
     (if has_unresolved_non_record_convergence_state (eng_storage en) g then Inr True
      else
        result_bind (convergence_gate_horizon lib en g gr) (\<lambda>(anchor, ceiling).
          Inr (any_gating_convergence_input lib anchor ceiling records)))"

end
