(* ===== verification/Convergence_Pass_Correct.thy ===== *)
theory Convergence_Pass_Correct
  imports Convergence_Pass "HOL-Library.Sublist"
begin

text \<open>
  Correctness of the durable convergence pass: what every stored pass satisfies, how a held pass evolves, when it is
  resolved and with what, and what it does to outbound work.
\<close>

section \<open>Frames\<close>

text \<open>An operation that only rewrites the states of message rows.\<close>
definition rewrites_rows :: "AccountStorage \<Rightarrow> AccountStorage \<Rightarrow> bool" where
  "rewrites_rows st st' \<longleftrightarrow>
     (\<exists>rows. st' = st\<lparr>st_messages := rows\<rparr> \<and>
        map (\<lambda>r. (mr_id r, mr_payload r)) rows = map (\<lambda>r. (mr_id r, mr_payload r)) (st_messages st))"

lemma rewrites_rows_refl: "rewrites_rows st st"
  unfolding rewrites_rows_def by (rule exI [of _ "st_messages st"]) simp

lemma rewrites_rows_trans: "rewrites_rows st st' \<Longrightarrow> rewrites_rows st' st'' \<Longrightarrow> rewrites_rows st st''"
  by (auto simp: rewrites_rows_def)

lemma rewrites_rows_frame:
  assumes "rewrites_rows st st'"
  shows "st_passes st' = st_passes st" "st_groups st' = st_groups st" "rows_unique st' = rows_unique st"
    "candidate_ids st' g = candidate_ids st g"
    "r' \<in> set (st_messages st') \<Longrightarrow> \<exists>r\<in>set (st_messages st). mr_id r = mr_id r' \<and> mr_payload r = mr_payload r'"
proof -
  obtain rows where st': "st' = st\<lparr>st_messages := rows\<rparr>"
    and rows: "map (\<lambda>r. (mr_id r, mr_payload r)) rows = map (\<lambda>r. (mr_id r, mr_payload r)) (st_messages st)"
    using assms by (auto simp: rewrites_rows_def)
  have "map mr_id rows = map mr_id (st_messages st)" using arg_cong [OF rows, of "map fst"] by (simp add: comp_def)
  then show "rows_unique st' = rows_unique st" by (simp add: rows_unique_def st')
  show "\<exists>r\<in>set (st_messages st). mr_id r = mr_id r' \<and> mr_payload r = mr_payload r'" if "r' \<in> set (st_messages st')"
  proof -
    have "(mr_id r', mr_payload r') \<in> set (map (\<lambda>r. (mr_id r, mr_payload r)) (st_messages st))"
      using that unfolding rows [symmetric] st' by simp
    then show ?thesis by auto
  qed
qed (use assms in \<open>auto simp: rewrites_rows_def candidate_ids_def list_disband_candidates_def\<close>)

lemma update_rewrites: "rewrites_rows st (snd (update_message_state i s st))"
proof (cases "get_message st i")
  case (Inr r)
  have "(\<lambda>r. (mr_id r, mr_payload r)) \<circ> (\<lambda>r. if mr_id r = i then set_row_state s r else r) = (\<lambda>r. (mr_id r, mr_payload r))"
    by (auto simp: set_row_state_def)
  then show ?thesis using Inr by (auto simp: rewrites_rows_def update_message_state_def)
qed (simp add: update_message_state_def rewrites_rows_refl)

lemma op_bind_rewrites:
  assumes "\<And>st. rewrites_rows st (snd (m st))" and "\<And>x st. rewrites_rows st (snd (f x st))"
  shows "rewrites_rows st (snd (op_bind m f st))"
  using assms(1) [of st] assms(2) rewrites_rows_trans
  by (auto simp: op_bind_def split: prod.split sum.split)

lemma op_rest_rewrites:
  "rewrites_rows st (snd (op_return x st))" "rewrites_rows st (snd (op_read f st))"
  "rewrites_rows st (snd (m st)) \<Longrightarrow> rewrites_rows st (snd (op_map_err h m st))"
  "rewrites_rows st (snd (m st)) \<Longrightarrow> rewrites_rows st (snd (with_transaction m st))"
  by (auto simp: op_return_def op_read_def op_map_err_def with_transaction_def rewrites_rows_refl split: prod.split sum.split)

lemma retire_rewrites: "rewrites_rows st (snd (retire_stale_convergence_deferred_commits lib g anchor st))"
proof -
  have "rewrites_rows st (snd (retire_rows lib anchor rs st))" for rs st
    by (induction rs arbitrary: st)
      (auto simp: op_rest_rewrites split: option.split intro!: op_bind_rewrites update_rewrites)
  then show ?thesis unfolding retire_stale_convergence_deferred_commits_def
    by (intro op_rest_rewrites op_bind_rewrites)
qed

lemma seed_rewrites: "rewrites_rows st (snd (seed_convergence_pass_members lib g base policy st))"
  unfolding seed_convergence_pass_members_def by (intro op_bind_rewrites retire_rewrites op_rest_rewrites)

section \<open>Seeding\<close>

lemma map_err_Inr [simp]: "map_err f r = Inr x \<longleftrightarrow> r = Inr x"
  by (cases r) auto


definition in_horizon :: "CanonicalizationPolicy \<Rightarrow> EpochId \<Rightarrow> u64 \<Rightarrow> bool" where
  "in_horizon policy base e \<longleftrightarrow> horizon_floor policy base \<le> e \<and> e \<le> horizon_ceiling policy base"

text \<open>What a member says of the row it was admitted from.\<close>
definition row_member :: "convergence_lib \<Rightarrow> MessageRecord \<Rightarrow> ConvergencePassMember \<times> ClassifiedConvergenceInput \<Rightarrow> bool" where
  "row_member lib r = (\<lambda>(m, input).
     (\<exists>message projection. decode_openmls_wire_projection lib (mr_payload r) = Some (message, projection) \<and>
        role_for_content_kind (proj_kind projection) = Some (member_role m) \<and>
        proj_source_epoch projection = Some (member_source_epoch m) \<and> proj_message_digest projection = member_payload_digest m) \<and>
     member_message_id m = mr_id r \<and> input_role input = member_role m \<and> input_source_epoch input = member_source_epoch m \<and>
     input_state input = mr_state r \<and> input_digest input = member_payload_digest m)"

lemma seed_row_member:
  assumes "seed_row lib floor ceiling r = Inr (Some item)"
  shows "row_member lib r item \<and> floor \<le> member_source_epoch (fst item) \<and> member_source_epoch (fst item) \<le> ceiling"
proof -
  from assms obtain payload message projection e where row: "decode_row lib (mr_payload r) = Inr payload"
      "as_openmls_wire payload = Some message" "project_mls_message lib (tm_payload message) = Inr projection"
      "proj_source_epoch projection = Some e" "\<not> (e < floor \<or> e > ceiling)"
    and item: "map_option (\<lambda>input. (pass_member (mr_id r) projection input, input))
        (from_projection (proj_kind projection) e (mr_state r) (proj_message_digest projection)) = Some item"
    unfolding seed_row_def by (auto simp: result_bind_Inr split: option.splits if_splits)
  then show ?thesis
    by (auto simp: row_member_def from_projection_def pass_member_def decode_openmls_wire_projection_def not_less)
qed

lemma seed_rows_members:
  assumes "seed_rows lib floor ceiling rs = Inr items"
  shows "(\<forall>item\<in>set items. \<exists>r\<in>set rs. row_member lib r item \<and> floor \<le> member_source_epoch (fst item)
            \<and> member_source_epoch (fst item) \<le> ceiling) \<and>
         (distinct (map mr_id rs) \<longrightarrow> distinct (map (member_message_id \<circ> fst) items))"
  using assms
proof (induction rs arbitrary: items)
  case (Cons r rs)
  then obtain item tail where item: "seed_row lib floor ceiling r = Inr item" and rest: "seed_rows lib floor ceiling rs = Inr tail"
    and items: "items = (case item of None \<Rightarrow> tail | Some i \<Rightarrow> i # tail)"
    by (auto simp: result_bind_Inr)
  have tail: "member_message_id (fst i) \<in> mr_id ` set rs" if "i \<in> set tail" for i
    using Cons.IH [OF rest] that by (fastforce simp: row_member_def case_prod_unfold)
  show ?case
  proof (cases item)
    case None
    then show ?thesis using Cons.IH [OF rest] items by auto
  next
    case (Some i)
    then have "row_member lib r i" "floor \<le> member_source_epoch (fst i)" "member_source_epoch (fst i) \<le> ceiling"
      using seed_row_member item by blast+
    moreover have "member_message_id (fst i) = mr_id r" using calculation(1) by (auto simp: row_member_def)
    ultimately show ?thesis using Cons.IH [OF rest] items Some tail by fastforce
  qed
qed simp

lemma seed_members:
  assumes "seed_convergence_pass_members lib g base policy st = (Inr (members, trigger), st')"
  shows "members = [] \<and> \<not> trigger \<or>
    (\<exists>projected. members = map fst projected \<and>
       (\<forall>item\<in>set projected. (\<exists>r\<in>set (st_messages st'). row_member lib r item) \<and> in_horizon policy base (member_source_epoch (fst item))) \<and>
       (rows_unique st' \<longrightarrow> distinct (map member_message_id members)) \<and>
       (trigger \<longleftrightarrow> (\<exists>item\<in>set projected. member_message_id (fst item) \<in> set (candidate_ids st' g))
          \<or> (\<exists>item\<in>set projected. opens_pass (from_inputs (map snd projected)) (snd item))))"
proof -
  let ?rows = "filter (\<lambda>r. mr_group_id r = g \<and> mr_epoch r \<ge> horizon_floor policy base \<and> mr_state r \<in> set OPENMLS_GRAPH_INPUT_STATES)
      (st_messages st')"
  have distinct: "rows_unique st' \<Longrightarrow> distinct (map mr_id ?rows)"
    by (simp add: rows_unique_def distinct_map_filter)
  obtain r where "retire_stale_convergence_deferred_commits lib g (horizon_floor policy base) st = (Inr r, st')"
    using assms by (auto simp: seed_convergence_pass_members_def op_bind_def op_read_def split: prod.splits sum.splits)
  with assms consider "members = [] \<and> \<not> trigger"
    | projected where "seed_rows lib (horizon_floor policy base) (horizon_ceiling policy base) ?rows = Inr projected"
        "members = map fst projected"
        "trigger \<longleftrightarrow> (\<exists>item\<in>set projected. member_message_id (fst item) \<in> set (candidate_ids st' g))
            \<or> (\<exists>item\<in>set projected. opens_pass (from_inputs (map snd projected)) (snd item))"
    unfolding seed_convergence_pass_members_def op_bind_def op_read_def list_messages_in_states_def Let_def case_prod_unfold list_ex_iff
    by (auto simp: result_bind_Inr split: if_splits)
  then show ?thesis
  proof cases
    case (2 projected)
    note seeded = seed_rows_members [OF 2(1)]
    have "\<forall>item\<in>set projected. (\<exists>r\<in>set (st_messages st'). row_member lib r item) \<and> in_horizon policy base (member_source_epoch (fst item))"
      using seeded unfolding in_horizon_def by fastforce
    moreover have "rows_unique st' \<longrightarrow> distinct (map member_message_id members)" using seeded distinct 2(2) by simp
    ultimately show ?thesis using 2(2,3) by (intro disjI2 exI [of _ projected] conjI)
  qed simp
qed

section \<open>Passes\<close>

text \<open>
  What a stored pass is: it belongs to its group, it is not empty, its members are different messages from within the rewind
  horizon of its base epoch, its wall deadline is its opening plus the fixed length, the cutoff is recorded exactly
  when it has stopped collecting, and only a completed pass holds the fairness slot.\<close>

definition pass_wf :: "GroupId \<Rightarrow> DurableConvergencePass \<Rightarrow> bool" where
  "pass_wf g p \<longleftrightarrow> pass_group_id p = g \<and> pass_members p \<noteq> [] \<and> distinct (map member_message_id (pass_members p)) \<and>
     (\<forall>m\<in>set (pass_members p). in_horizon default_canonicalization_policy (pass_base_epoch p) (member_source_epoch m)) \<and>
     absolute_deadline_wall_ms p = saturating_add (opened_wall_ms p) V1_MAX_CONVERGENCE_PASS_MS \<and>
     (pass_phase p = Collecting \<longleftrightarrow> frozen_at_wall_ms p = None) \<and> (frozen_at_wall_ms p = None \<longleftrightarrow> cutoff_cause p = None) \<and>
     (fairness_slot_available p \<longrightarrow> pass_phase p = Completed)"

definition storage_ok :: "AccountStorage \<Rightarrow> bool" where
  "storage_ok st \<longleftrightarrow> rows_unique st \<and> (\<forall>g p. st_passes st g = Some p \<longrightarrow> pass_wf g p)"

fun phase_rank :: "ConvergencePassPhase \<Rightarrow> nat" where
  "phase_rank Collecting = 0"
| "phase_rank Frozen = 1"
| "phase_rank PassResolving = 2"
| "phase_rank Completed = 3"

text \<open>
  How one and the same pass may change while the clock instance \<open>c\<close> runs: it keeps its identity and its wall deadline,
  gains members only at the end, moves forward only, keeps its batch once it is frozen and its absolute deadline once
  it is on this clock.\<close>

definition pass_evolves :: "u64 \<Rightarrow> DurableConvergencePass \<Rightarrow> DurableConvergencePass \<Rightarrow> bool" where
  "pass_evolves c p p' \<longleftrightarrow>
     pass_group_id p' = pass_group_id p \<and> pass_generation p' = pass_generation p \<and> pass_base_epoch p' = pass_base_epoch p \<and>
     opened_wall_ms p' = opened_wall_ms p \<and> absolute_deadline_wall_ms p' = absolute_deadline_wall_ms p \<and>
     prefix (pass_members p) (pass_members p') \<and> phase_rank (pass_phase p) \<le> phase_rank (pass_phase p') \<and>
     (pass_phase p \<noteq> Collecting \<longrightarrow>
        pass_members p' = pass_members p \<and> frozen_at_wall_ms p' = frozen_at_wall_ms p \<and> cutoff_cause p' = cutoff_cause p) \<and>
     (pass_clock_instance_id p = c \<longrightarrow>
        pass_clock_instance_id p' = c \<and> opened_monotonic_ms p' = opened_monotonic_ms p \<and>
        absolute_deadline_monotonic_ms p' = absolute_deadline_monotonic_ms p)"

lemma pass_evolves_refl: "pass_evolves c p p"
  by (simp add: pass_evolves_def)

lemma phase_rank_0 [simp]: "phase_rank p = 0 \<longleftrightarrow> p = Collecting"
  by (cases p) auto

lemma pass_evolves_trans: "pass_evolves c p p' \<Longrightarrow> pass_evolves c p' p'' \<Longrightarrow> pass_evolves c p p''"
  unfolding pass_evolves_def by (metis phase_rank_0 le_zero_eq prefix_order.trans order_trans)

lemma policy_pinned:
  "convergence_policy_for_group_ungated lib en st g = Inr policy \<Longrightarrow> policy = default_canonicalization_policy"
  "convergence_policy_for_group lib en st g = Inr policy \<Longrightarrow> policy = default_canonicalization_policy"
proof -
  have accepted: "accept_convergence_policy en p = Inr () \<Longrightarrow> p = default_canonicalization_policy" for p
    by (auto simp: accept_convergence_policy_def ensure_acceptable_def is_pinned_v1_def split: sum.splits if_splits)
  show "convergence_policy_for_group_ungated lib en st g = Inr policy \<Longrightarrow> policy = default_canonicalization_policy"
    by (auto simp: convergence_policy_for_group_ungated_def result_bind_Inr Let_def accepted split: option.splits)
  then show "convergence_policy_for_group lib en st g = Inr policy \<Longrightarrow> policy = default_canonicalization_policy"
    by (auto simp: convergence_policy_for_group_def result_bind_Inr)
qed

text \<open>The steps of a pass.\<close>

lemma normalize_step:
  assumes "normalize_convergence_pass_for_runtime p now c = (p', rebased)"
  shows "pass_evolves c p p'" and "pass_wf g p \<Longrightarrow> pass_wf g p'" and "pass_phase p' = pass_phase p"
    and "\<not> rebased \<Longrightarrow> p' = p" and "pass_phase p = Collecting \<Longrightarrow> pass_clock_instance_id p' = c" and "pass_is_active p' = pass_is_active p"
    and "pass_base_epoch p' = pass_base_epoch p" and "pass_group_id p' = pass_group_id p"
  using assms
  by (auto simp: normalize_convergence_pass_for_runtime_def Let_def pass_evolves_def pass_wf_def pass_is_active_def split: if_splits)

lemma freeze_step:
  assumes "pass_phase p = Collecting"
  shows "pass_evolves c p (freeze_collecting_convergence_pass now p)"
    and "pass_wf g p \<Longrightarrow> pass_wf g (freeze_collecting_convergence_pass now p)"
  using assms by (simp_all add: freeze_collecting_convergence_pass_def pass_evolves_def pass_wf_def)

lemma push_step:
  assumes "pass_phase p = Collecting"
  shows "pass_evolves c p (push_member policy now m input p)"
    and "pass_wf g p \<Longrightarrow> member_message_id m \<notin> member_message_id ` set (pass_members p) \<Longrightarrow>
      in_horizon default_canonicalization_policy (pass_base_epoch p) (member_source_epoch m) \<Longrightarrow>
      pass_wf g (push_member policy now m input p)"
    and "pass_group_id (push_member policy now m input p) = pass_group_id p"
  using assms by (auto simp: push_member_def Let_def pass_evolves_def pass_wf_def)

lemma advance_step:
  assumes "pass_phase p \<noteq> Collecting" and "phase_rank (pass_phase p) \<le> phase_rank ph" and "slot \<longrightarrow> ph = Completed"
  shows "pass_evolves c p (p\<lparr>pass_phase := ph, fairness_slot_available := slot\<rparr>)"
    and "pass_wf g p \<Longrightarrow> pass_wf g (p\<lparr>pass_phase := ph, fairness_slot_available := slot\<rparr>)"
proof -
  have "ph \<noteq> Collecting" using assms(1,2) by auto
  then show "pass_evolves c p (p\<lparr>pass_phase := ph, fairness_slot_available := slot\<rparr>)"
    and "pass_wf g p \<Longrightarrow> pass_wf g (p\<lparr>pass_phase := ph, fairness_slot_available := slot\<rparr>)"
    using assms by (auto simp: pass_evolves_def pass_wf_def)
qed

lemma resolving_step:
  assumes "pass_phase p = Frozen"
  shows "pass_evolves c p (p\<lparr>pass_phase := PassResolving\<rparr>)" and "pass_wf g p \<Longrightarrow> pass_wf g (p\<lparr>pass_phase := PassResolving\<rparr>)"
  using assms by (auto simp: pass_evolves_def pass_wf_def)

lemma consume_step:
  shows "pass_evolves c p (p\<lparr>fairness_slot_available := False\<rparr>)" and "pass_wf g p \<Longrightarrow> pass_wf g (p\<lparr>fairness_slot_available := False\<rparr>)"
  by (auto simp: pass_evolves_def pass_wf_def)

lemma storage_ok_put: "storage_ok st \<Longrightarrow> pass_wf (pass_group_id p) p \<Longrightarrow> storage_ok (put_convergence_pass p st)"
  by (auto simp: storage_ok_def put_convergence_pass_def rows_unique_def)

lemma storage_ok_rewrites: "rewrites_rows st st' \<Longrightarrow> storage_ok st \<Longrightarrow> storage_ok st'"
  by (simp add: storage_ok_def rewrites_rows_frame)

section \<open>Opening a pass\<close>

text \<open>No row that is not a commit carries the id of a disband candidate.\<close>
definition candidates_are_commits :: "convergence_lib \<Rightarrow> AccountStorage \<Rightarrow> GroupId \<Rightarrow> bool" where
  "candidates_are_commits lib st g \<longleftrightarrow>
     (\<forall>r\<in>set (st_messages st). mr_id r \<in> set (candidate_ids st g) \<longrightarrow>
        (\<forall>message projection. decode_openmls_wire_projection lib (mr_payload r) = Some (message, projection) \<longrightarrow>
           proj_kind projection = CommitContent))"

definition has_commit_edge :: "DurableConvergencePass \<Rightarrow> bool" where
  "has_commit_edge p \<longleftrightarrow> (\<exists>m\<in>set (pass_members p). member_role m = CommitEdge)"

lemma opener_has_commit:
  assumes "opens_pass (from_inputs inputs) input" and "input \<in> set inputs"
  shows "\<exists>i\<in>set inputs. input_role i = CommitEdge"
proof (cases "input_role input")
  case AppWitnessCandidate
  then have "contested_before (set (input_edges inputs)) (input_source_epoch input)"
    using assms(1) by (simp add: opens_pass_def contexts_of_edges competing_edges)
  then show ?thesis by (auto simp: contested_before_def input_edges_def)
qed (use assms in \<open>auto simp: opens_pass_def\<close>)

lemma seeded_has_commit:
  assumes rows: "rewrites_rows st st1" and candidates: "candidates_are_commits lib st g"
    and members: "\<forall>item\<in>set projected. \<exists>r\<in>set (st_messages st1). row_member lib r item"
    and trigger: "(\<exists>item\<in>set projected. member_message_id (fst item) \<in> set (candidate_ids st1 g))
      \<or> (\<exists>item\<in>set projected. opens_pass (from_inputs (map snd projected)) (snd item))"
  shows "\<exists>m\<in>set (map fst projected). member_role m = CommitEdge"
  using trigger
proof
  assume "\<exists>item\<in>set projected. member_message_id (fst item) \<in> set (candidate_ids st1 g)"
  then obtain item row where item: "item \<in> set projected" "member_message_id (fst item) \<in> set (candidate_ids st1 g)"
    "row \<in> set (st_messages st1)" "row_member lib row item" using members by blast
  obtain row' where row': "row' \<in> set (st_messages st)" "mr_id row' = mr_id row" "mr_payload row' = mr_payload row"
    using rewrites_rows_frame(5) [OF rows item(3)] by blast
  have "member_role (fst item) = CommitEdge"
    using item(2,4) row' candidates rewrites_rows_frame(4) [OF rows]
    unfolding candidates_are_commits_def row_member_def case_prod_unfold by fastforce
  then show ?thesis using item(1) by auto
next
  assume "\<exists>item\<in>set projected. opens_pass (from_inputs (map snd projected)) (snd item)"
  then have "\<exists>i\<in>set (map snd projected). input_role i = CommitEdge"
    using opener_has_commit by (metis image_eqI list.set_map)
  then obtain item where item: "item \<in> set projected" "input_role (snd item) = CommitEdge" by auto
  then have "member_role (fst item) = CommitEdge" using members by (fastforce simp: row_member_def)
  then show ?thesis using item(1) by auto
qed

lemma open_cases:
  assumes "open_convergence_pass lib en g base policy now previous st = (r, st')"
  obtains (closed) "rewrites_rows st st'" and "\<And>p b. r \<noteq> Inr (Some p, b)"
  | (opened) members st1 p where "rewrites_rows st st1" and "p = new_convergence_pass en g base policy now previous members"
      and "r = Inr (Some p, True)" and "st' = put_convergence_pass p st1" and "members \<noteq> []"
      and "rows_unique st \<Longrightarrow> distinct (map member_message_id members)"
      and "\<forall>m\<in>set members. in_horizon policy base (member_source_epoch m)"
      and "candidates_are_commits lib st g \<Longrightarrow> has_commit_edge p"
proof (cases "admission_allowed en g")
  case True
  obtain seeded st1 where seed: "seed_convergence_pass_members lib g base policy st = (seeded, st1)" by fastforce
  have rows: "rewrites_rows st st1" using seed_rewrites [of st lib g base policy] seed by simp
  show ?thesis
  proof (cases "\<exists>members. seeded = Inr (members, True) \<and> members \<noteq> []")
    case False
    then have "st' = st1 \<and> (\<forall>p b. r \<noteq> Inr (Some p, b))"
      using assms seed True by (auto simp: open_convergence_pass_def op_bind_def op_return_def split: sum.splits if_splits)
    then show ?thesis using closed rows by blast
  next
    case True
    then obtain members where members: "seeded = Inr (members, True)" "members \<noteq> []" by blast
    let ?p = "new_convergence_pass en g base policy now previous members"
    have r: "r = Inr (Some ?p, True)" "st' = put_convergence_pass ?p st1"
      using assms seed members \<open>admission_allowed en g\<close> by (auto simp: open_convergence_pass_def op_bind_def Let_def)
    obtain projected where projected: "members = map fst projected"
        "\<forall>item\<in>set projected. (\<exists>r\<in>set (st_messages st1). row_member lib r item) \<and> in_horizon policy base (member_source_epoch (fst item))"
        "rows_unique st1 \<longrightarrow> distinct (map member_message_id members)"
        "(\<exists>item\<in>set projected. member_message_id (fst item) \<in> set (candidate_ids st1 g))
          \<or> (\<exists>item\<in>set projected. opens_pass (from_inputs (map snd projected)) (snd item))"
      using seed_members [OF seed [unfolded members(1)]] members(2) by blast
    have "candidates_are_commits lib st g \<Longrightarrow> has_commit_edge ?p"
      using seeded_has_commit [OF rows _ _ projected(4)] projected(1,2) by (simp add: has_commit_edge_def new_convergence_pass_def)
    then show ?thesis
      using opened [OF rows refl r members(2)] projected rewrites_rows_frame(3) [OF rows] by auto
  qed
next
  case False
  then show ?thesis using assms closed rewrites_rows_refl by (auto simp: open_convergence_pass_def op_return_def)
qed

section \<open>The invariant through every operation\<close>

text \<open>From \<open>P\<close> the operation succeeds into \<open>Q\<close> or fails into \<open>E\<close>.\<close>
definition triple :: "('s \<Rightarrow> bool) \<Rightarrow> ('s, 'e, 'a) op \<Rightarrow> ('a \<Rightarrow> 's \<Rightarrow> bool) \<Rightarrow> ('s \<Rightarrow> bool) \<Rightarrow> bool" where
  "triple P m Q E \<longleftrightarrow> (\<forall>s. P s \<longrightarrow> (case m s of (Inl e, s') \<Rightarrow> E s' | (Inr x, s') \<Rightarrow> Q x s'))"

lemma triple_bind:
  assumes "triple P m Q E" and "\<And>x. triple (Q x) (f x) R E"
  shows "triple P (op_bind m f) R E"
  using assms unfolding triple_def op_bind_def by (fastforce split: prod.splits sum.splits)

lemma tripleI:
  assumes "\<And>s e s'. P s \<Longrightarrow> m s = (Inl e, s') \<Longrightarrow> E s'" and "\<And>s x s'. P s \<Longrightarrow> m s = (Inr x, s') \<Longrightarrow> Q x s'"
  shows "triple P m Q E"
  unfolding triple_def using assms by (auto split: prod.split sum.split)

lemma triple_return: "(\<And>s. P s \<Longrightarrow> Q x s) \<Longrightarrow> triple P (op_return x) Q E"
  by (simp add: triple_def op_return_def)

lemma triple_read: "(\<And>s x. P s \<Longrightarrow> f s = Inr x \<Longrightarrow> Q x s) \<Longrightarrow> (\<And>s. P s \<Longrightarrow> E s) \<Longrightarrow> triple P (op_read f) Q E"
  by (auto simp: triple_def op_read_def split: sum.split)

lemma triple_map_err: "triple P m Q E \<Longrightarrow> triple P (op_map_err h m) Q E"
  unfolding triple_def op_map_err_def by (fastforce split: prod.splits sum.splits elim: map_err.elims)

lemma triple_transaction: "triple P m Q (\<lambda>_. True) \<Longrightarrow> (\<And>s. P s \<Longrightarrow> E s) \<Longrightarrow> triple P (with_transaction m) Q E"
  unfolding triple_def with_transaction_def by (fastforce split: prod.splits sum.splits)

lemma triple_weaken: "triple P m Q E \<Longrightarrow> (\<And>x s. Q x s \<Longrightarrow> R x s) \<Longrightarrow> (\<And>s. E s \<Longrightarrow> F s) \<Longrightarrow> triple P m R F"
  unfolding triple_def by (fastforce split: prod.splits sum.splits)

lemma triple_snd: "triple P m (\<lambda>_. Q) Q \<Longrightarrow> P s \<Longrightarrow> Q (snd (m s))"
  unfolding triple_def by (cases "m s", cases "fst (m s)") (fastforce split: sum.splits)+

lemma triple_of_snd: "(\<And>s. P s \<Longrightarrow> Q (snd (m s))) \<Longrightarrow> triple P m (\<lambda>_. Q) Q"
  unfolding triple_def by (auto split: prod.split sum.split) (metis snd_conv)+

text \<open>
  A storage that has not touched the passes yet, and one in which only the pass of \<open>g\<close> has moved: if it was active against the
  tip, it has evolved.\<close>

definition untouched :: "(GroupId \<rightharpoonup> DurableConvergencePass) \<Rightarrow> (GroupId \<rightharpoonup> Group) \<Rightarrow> AccountStorage \<Rightarrow> bool" where
  "untouched ps gs st \<longleftrightarrow> storage_ok st \<and> st_passes st = ps \<and> st_groups st = gs"

definition pass_moved :: "u64 \<Rightarrow> GroupId \<Rightarrow> OpenMlsProjectionError + EpochId \<Rightarrow> (GroupId \<rightharpoonup> DurableConvergencePass) \<Rightarrow> AccountStorage \<Rightarrow> bool" where
  "pass_moved c g tip ps st \<longleftrightarrow> storage_ok st \<and> (\<forall>h. h \<noteq> g \<longrightarrow> st_passes st h = ps h) \<and>
     (\<forall>p. ps g = Some p \<and> pass_is_active p \<and> tip = Inr (pass_base_epoch p) \<longrightarrow> (\<exists>p'. st_passes st g = Some p' \<and> pass_evolves c p p'))"

lemma untouched_moved: "untouched ps gs st \<Longrightarrow> pass_moved c g tip ps st"
  using pass_evolves_refl by (auto simp: untouched_def pass_moved_def)

lemma moved_put:
  assumes "pass_moved c g tip ps st" and "st_passes st g = Some p" and "pass_evolves c p p'" and "pass_wf g p'"
  shows "pass_moved c g tip ps (put_convergence_pass p' st)"
proof -
  have g: "pass_group_id p' = g" using assms(4) by (simp add: pass_wf_def)
  have "storage_ok (put_convergence_pass p' st)" using assms(1,4) storage_ok_put g by (simp add: pass_moved_def)
  moreover have "pass_evolves c q p'" if "ps g = Some q" "pass_is_active q" "tip = Inr (pass_base_epoch q)" for q
  proof -
    have "pass_evolves c q p" using assms(1,2) that by (auto simp: pass_moved_def)
    then show ?thesis using assms(3) pass_evolves_trans by blast
  qed
  ultimately show ?thesis using assms(1) g by (simp add: pass_moved_def put_convergence_pass_def)
qed

lemma put_message_untouched: "triple (untouched ps gs) (put_message r) (\<lambda>_. untouched ps gs) (untouched ps gs)"
  using rows_unique_put_message
  by (intro triple_of_snd) (auto simp: untouched_def storage_ok_def put_message_def split: sum.split)

lemma put_processed_untouched: "triple (untouched ps gs) (put_processed_transport_id g i) (\<lambda>_. untouched ps gs) (untouched ps gs)"
  by (intro triple_of_snd) (auto simp: untouched_def storage_ok_def rows_unique_def put_processed_transport_id_def Let_def)

lemma put_group_moved: "triple (pass_moved c g tip ps) (put_group h gr) (\<lambda>_. pass_moved c g tip ps) (pass_moved c g tip ps)"
  by (intro triple_of_snd) (auto simp: pass_moved_def storage_ok_def rows_unique_def put_group_def split: sum.split)

lemma set_group_unrecoverable_moved:
  "triple (pass_moved c g tip ps) (set_group_unrecoverable h) (\<lambda>_. pass_moved c g tip ps) (pass_moved c g tip ps)"
  unfolding set_group_unrecoverable_def
  by (rule triple_bind [where Q = "\<lambda>_. pass_moved c g tip ps"]) (auto intro: triple_read triple_return put_group_moved)

lemma new_pass_wf:
  assumes "members \<noteq> []" and "distinct (map member_message_id members)"
    and "\<forall>m\<in>set members. in_horizon default_canonicalization_policy base (member_source_epoch m)"
  shows "pass_wf g (new_convergence_pass en g base default_canonicalization_policy now previous members)"
  using assms by (simp add: pass_wf_def new_convergence_pass_def default_canonicalization_policy_def)

lemma open_ok:
  assumes ok: "storage_ok st" and "open_convergence_pass lib en g base default_canonicalization_policy now previous st = (r, st')"
  shows "storage_ok st' \<and> (\<forall>h. h \<noteq> g \<longrightarrow> st_passes st' h = st_passes st h) \<and>
    (\<forall>p b. r = Inr (Some p, b) \<longrightarrow> st_passes st' g = Some p \<and> pass_wf g p \<and> b)"
  using assms(2)
proof (cases rule: open_cases)
  case closed
  then show ?thesis using storage_ok_rewrites [OF closed(1) ok] rewrites_rows_frame(1) [OF closed(1)] by simp
next
  case (opened members st1 p)
  have "rows_unique st" using ok by (simp add: storage_ok_def)
  then have wf: "pass_wf g p" using new_pass_wf opened by blast
  then have g: "pass_group_id p = g" by (simp add: pass_wf_def)
  then have "storage_ok st'" using opened(4) wf storage_ok_put [OF storage_ok_rewrites [OF opened(1) ok], of p] by simp
  then show ?thesis using opened(3,4) wf g rewrites_rows_frame(1) [OF opened(1)] by (simp add: put_convergence_pass_def)
qed

lemma load_cases:
  assumes ok: "storage_ok st" and load: "load_or_open_convergence_pass lib en g base policy now st = (r, st')"
  obtains (slot) p where "st_passes st g = Some p" "r = Inr (Some p, False)" "st' = st"
  | (opens) previous s where "storage_ok s" "st_messages s = st_messages st" "candidate_ids s g = candidate_ids st g"
      "\<forall>h. h \<noteq> g \<longrightarrow> st_passes s h = st_passes st h"
      "\<forall>p. st_passes st g = Some p \<longrightarrow> \<not> (pass_is_active p \<and> pass_base_epoch p = base)"
      "open_convergence_pass lib en g base policy now previous s = (r, st')"
  | (active) p p' rebased where "st_passes st g = Some p" "pass_is_active p" "pass_base_epoch p = base"
      "normalize_convergence_pass_for_runtime p now (eng_clock_instance_id en) = (p', rebased)"
      "r = Inr (Some p', False)" "st' = (if rebased then put_convergence_pass p' st else st)"
proof (cases "st_passes st g")
  case None
  then have "open_convergence_pass lib en g base policy now None st = (r, st')"
    using load by (simp add: load_or_open_convergence_pass_def)
  then show ?thesis by (rule opens [OF ok refl refl, rotated 2]) (use None in simp_all)
next
  case (Some p)
  let ?completed = "pass_phase p = Completed \<and> fairness_slot_available p"
  let ?used = "put_convergence_pass (p\<lparr>fairness_slot_available := False\<rparr>) st" and ?gone = "delete_convergence_pass g st"
  have wf: "pass_wf g p" using ok Some by (simp add: storage_ok_def)
  then have g: "pass_group_id p = g" by (simp add: pass_wf_def)
  have used: "storage_ok ?used" using storage_ok_put [OF ok, of "p\<lparr>fairness_slot_available := False\<rparr>"] consume_step(2) [OF wf] g by simp
  have gone: "storage_ok ?gone" using ok by (auto simp: storage_ok_def delete_convergence_pass_def rows_unique_def)
  have frame: "st_messages ?used = st_messages st" "candidate_ids ?used g = candidate_ids st g"
      "st_messages ?gone = st_messages st" "candidate_ids ?gone g = candidate_ids st g"
      "\<forall>h. h \<noteq> g \<longrightarrow> st_passes ?used h = st_passes st h" "\<forall>h. h \<noteq> g \<longrightarrow> st_passes ?gone h = st_passes st h"
    using g by (simp_all add: put_convergence_pass_def delete_convergence_pass_def candidate_ids_def list_disband_candidates_def)
  consider ?completed "list_ex (\<lambda>q. is_admin_group_state_intent (qi_intent q)) (list_queued_outbound_intents st g)"
    | ?completed "\<not> list_ex (\<lambda>q. is_admin_group_state_intent (qi_intent q)) (list_queued_outbound_intents st g)"
    | "\<not> ?completed" "pass_is_active p" "pass_base_epoch p \<noteq> base"
    | "\<not> ?completed" "pass_is_active p" "pass_base_epoch p = base" | "\<not> ?completed" "\<not> pass_is_active p" by blast
  then show ?thesis
  proof cases
    case 1
    then have "r = Inr (Some p, False) \<and> st' = st" using load Some by (auto simp: load_or_open_convergence_pass_def)
    then show ?thesis using slot [OF Some] by blast
  next
    case 2
    then have "open_convergence_pass lib en g base policy now (Some p) ?used = (r, st')"
      using load Some by (simp add: load_or_open_convergence_pass_def)
    then show ?thesis by (rule opens [OF used frame(1,2,5), rotated]) (use 2 Some in \<open>simp add: pass_is_active_def phase_is_active_def\<close>)
  next
    case 3
    then have "open_convergence_pass lib en g base policy now (Some p) ?gone = (r, st')"
      using load Some g by (auto simp: load_or_open_convergence_pass_def)
    then show ?thesis by (rule opens [OF gone frame(3,4,6), rotated]) (use 3 Some in simp)
  next
    case 4
    obtain p' rebased where norm: "normalize_convergence_pass_for_runtime p now (eng_clock_instance_id en) = (p', rebased)" by fastforce
    then have "r = Inr (Some p', False) \<and> st' = (if rebased then put_convergence_pass p' st else st)"
      using load Some 4 by (auto simp: load_or_open_convergence_pass_def)
    then show ?thesis using active [OF Some 4(2,3) norm] by blast
  next
    case 5
    then have "open_convergence_pass lib en g base policy now (Some p) st = (r, st')"
      using load Some by (auto simp: load_or_open_convergence_pass_def)
    then show ?thesis by (rule opens [OF ok refl refl, rotated 2]) (use 5 Some in simp_all)
  qed
qed

lemma load_moved:
  assumes "storage_ok st" and "load_or_open_convergence_pass lib en g base default_canonicalization_policy now st = (r, st')"
  shows "pass_moved (eng_clock_instance_id en) g (Inr base) (st_passes st) st' \<and>
    (\<forall>p b. r = Inr (Some p, b) \<longrightarrow> st_passes st' g = Some p \<and> pass_wf g p)"
  using assms
proof (cases rule: load_cases)
  case (slot p)
  then show ?thesis using assms(1) pass_evolves_refl by (auto simp: pass_moved_def storage_ok_def)
next
  case (opens previous s)
  have "pass_moved (eng_clock_instance_id en) g (Inr base) (st_passes st) st'"
    using open_ok [OF opens(1,6)] opens(4,5) by (auto simp: pass_moved_def)
  then show ?thesis using open_ok [OF opens(1,6)] by blast
next
  case (active p p' rebased)
  have wf: "pass_wf g p'" using assms(1) active(1) normalize_step(2) [OF active(4)] by (simp add: storage_ok_def)
  have "pass_moved (eng_clock_instance_id en) g (Inr base) (st_passes st) st"
    using assms(1) by (intro untouched_moved [of _ "st_groups st"]) (simp add: untouched_def)
  then have "pass_moved (eng_clock_instance_id en) g (Inr base) (st_passes st) st'"
    using active(6) moved_put [OF _ active(1) normalize_step(1) [OF active(4)] wf] by (cases rebased) simp_all
  then show ?thesis using active wf normalize_step(4) [OF active(4)] by (auto simp: put_convergence_pass_def pass_wf_def)
qed

lemma load_triple:
  "triple (untouched ps gs) (load_or_open_convergence_pass lib en g base default_canonicalization_policy now)
     (\<lambda>(pass, opened) st. pass_moved (eng_clock_instance_id en) g (Inr base) ps st \<and> (\<forall>p. pass = Some p \<longrightarrow> st_passes st g = Some p \<and> pass_wf g p))
     (pass_moved (eng_clock_instance_id en) g (Inr base) ps)"
proof (rule tripleI)
  fix st e st'
  assume "untouched ps gs st" and load: "load_or_open_convergence_pass lib en g base default_canonicalization_policy now st = (Inl e, st')"
  then have "storage_ok st" and ps: "st_passes st = ps" by (auto simp: untouched_def)
  from load_moved [OF this(1) load] show "pass_moved (eng_clock_instance_id en) g (Inr base) ps st'" unfolding ps ..
next
  fix st x st'
  assume "untouched ps gs st" and load: "load_or_open_convergence_pass lib en g base default_canonicalization_policy now st = (Inr x, st')"
  then have "storage_ok st" and ps: "st_passes st = ps" by (auto simp: untouched_def)
  from load_moved [OF this(1) load] show "(case x of (pass, opened) \<Rightarrow> \<lambda>st. pass_moved (eng_clock_instance_id en) g (Inr base) ps st \<and>
      (\<forall>p. pass = Some p \<longrightarrow> st_passes st g = Some p \<and> pass_wf g p)) st'"
    unfolding ps by (cases x) simp
qed

lemma candidate_member:
  "convergence_pass_candidate lib st i = Inr (Some (m, input)) \<Longrightarrow>
     member_message_id m = i \<and> member_source_epoch m = input_source_epoch input"
  by (auto simp: convergence_pass_candidate_def result_bind_Inr pass_member_def split: option.splits)

lemma admit_to_collecting_moved:
  assumes pass_moved: "pass_moved c g tip ps st" and p: "st_passes st g = Some p" and wf: "pass_wf g p" and phase: "pass_phase p = Collecting"
    and fresh: "i \<notin> member_message_id ` set (pass_members p)"
  shows "pass_moved c g tip ps (snd (admit_to_collecting lib default_canonicalization_policy i now p st))"
proof (cases "time_monotonic_ms now \<ge> cutoff_monotonic_ms p")
  case True
  have "pass_moved c g tip ps (put_convergence_pass (freeze_collecting_convergence_pass now p) st)"
    by (rule moved_put [OF pass_moved p freeze_step(1) [OF phase] freeze_step(2) [OF phase wf]])
  then show ?thesis using True pass_moved
    by (auto simp: admit_to_collecting_def Let_def split: sum.split FrozenPassVerificationError.split)
next
  case False
  have "pass_moved c g tip ps (put_convergence_pass (push_member default_canonicalization_policy now m input p) st)"
    if "convergence_pass_candidate lib st i = Inr (Some (m, input))"
      "\<not> (input_source_epoch input < horizon_floor default_canonicalization_policy (pass_base_epoch p)
        \<or> horizon_ceiling default_canonicalization_policy (pass_base_epoch p) < input_source_epoch input)" for m input
  proof -
    have "pass_wf g (push_member default_canonicalization_policy now m input p)"
      using candidate_member [OF that(1)] fresh that(2) by (intro push_step(2) [OF phase wf]) (auto simp: in_horizon_def not_less)
    then show ?thesis by (rule moved_put [OF pass_moved p push_step(1) [OF phase]])
  qed
  then show ?thesis using False pass_moved by (auto simp: admit_to_collecting_def split: sum.split option.split)
qed

lemma admit_loaded_triple:
  "triple (\<lambda>st. pass_moved c g tip ps st \<and> (\<forall>p. pass = Some p \<longrightarrow> st_passes st g = Some p \<and> pass_wf g p))
     (admit_loaded lib default_canonicalization_policy i now pass opened) (\<lambda>_. pass_moved c g tip ps) (pass_moved c g tip ps)"
proof (cases pass)
  case (Some p)
  have "triple (\<lambda>st. pass_moved c g tip ps st \<and> st_passes st g = Some p \<and> pass_wf g p)
      (admit_to_collecting lib default_canonicalization_policy i now p) (\<lambda>_. pass_moved c g tip ps) (pass_moved c g tip ps)"
    if "pass_phase p = Collecting" "\<not> list_ex (\<lambda>m. member_message_id m = i) (pass_members p)"
  proof (rule triple_of_snd)
    fix st assume "pass_moved c g tip ps st \<and> st_passes st g = Some p \<and> pass_wf g p"
    then show "pass_moved c g tip ps (snd (admit_to_collecting lib default_canonicalization_policy i now p st))"
      using admit_to_collecting_moved [of c g tip ps st p i lib now] that by (auto simp: list_ex_iff)
  qed
  then show ?thesis using Some by (auto simp: admit_loaded_def intro: triple_return triple_bind [where Q = "\<lambda>_. pass_moved c g tip ps"])
qed (auto simp: admit_loaded_def intro: triple_return)

lemma tip_of_groups: "st_groups st' = st_groups st \<Longrightarrow> convergence_tip_epoch en st' g = convergence_tip_epoch en st g"
  unfolding convergence_tip_epoch_def get_group_def by (simp split: option.split)

lemma admit_triple:
  assumes gs: "st_groups st0 = gs"
  shows "triple (untouched ps gs) (admit_stored_message_to_convergence_pass lib en g i now)
    (\<lambda>_. pass_moved (eng_clock_instance_id en) g (convergence_tip_epoch en st0 g) ps) (pass_moved (eng_clock_instance_id en) g (convergence_tip_epoch en st0 g) ps)"
    (is "triple _ _ (\<lambda>_. ?pass_moved) _")
proof (cases "admission_allowed en g")
  case True
  have tip: "triple (untouched ps gs) (op_read (\<lambda>st. convergence_tip_epoch en st g))
      (\<lambda>tip st. untouched ps gs st \<and> convergence_tip_epoch en st0 g = Inr tip) ?pass_moved"
  proof (rule triple_read)
    fix st tip assume st: "untouched ps gs st" and "convergence_tip_epoch en st g = Inr tip"
    then show "untouched ps gs st \<and> convergence_tip_epoch en st0 g = Inr tip"
      using tip_of_groups [of st st0 en g] gs by (simp add: untouched_def)
  qed (rule untouched_moved)
  have policy: "triple (\<lambda>st. untouched ps gs st \<and> convergence_tip_epoch en st0 g = Inr tip) (op_read (\<lambda>st. convergence_policy_for_group lib en st g))
      (\<lambda>policy st. untouched ps gs st \<and> convergence_tip_epoch en st0 g = Inr tip \<and> policy = default_canonicalization_policy) ?pass_moved" for tip
  proof (rule triple_read)
    fix st policy assume "untouched ps gs st \<and> convergence_tip_epoch en st0 g = Inr tip" and "convergence_policy_for_group lib en st g = Inr policy"
    then show "untouched ps gs st \<and> convergence_tip_epoch en st0 g = Inr tip \<and> policy = default_canonicalization_policy"
      using policy_pinned(2) by blast
  qed (blast intro: untouched_moved)
  have load: "triple (\<lambda>st. untouched ps gs st \<and> convergence_tip_epoch en st0 g = Inr tip \<and> policy = default_canonicalization_policy)
      (op_bind (load_or_open_convergence_pass lib en g tip policy now) (\<lambda>(pass, opened). admit_loaded lib policy i now pass opened))
      (\<lambda>_. ?pass_moved) ?pass_moved" for tip policy
  proof (cases "convergence_tip_epoch en st0 g = Inr tip \<and> policy = default_canonicalization_policy")
    case True
    have "triple (untouched ps gs)
        (op_bind (load_or_open_convergence_pass lib en g tip default_canonicalization_policy now)
          (\<lambda>(pass, opened). admit_loaded lib default_canonicalization_policy i now pass opened))
        (\<lambda>_. pass_moved (eng_clock_instance_id en) g (Inr tip) ps) (pass_moved (eng_clock_instance_id en) g (Inr tip) ps)"
    proof (rule triple_bind [OF load_triple])
      fix x show "triple (case x of (pass, opened) \<Rightarrow> \<lambda>st. pass_moved (eng_clock_instance_id en) g (Inr tip) ps st \<and>
            (\<forall>p. pass = Some p \<longrightarrow> st_passes st g = Some p \<and> pass_wf g p))
          (case x of (pass, opened) \<Rightarrow> admit_loaded lib default_canonicalization_policy i now pass opened)
          (\<lambda>_. pass_moved (eng_clock_instance_id en) g (Inr tip) ps) (pass_moved (eng_clock_instance_id en) g (Inr tip) ps)"
        by (cases x) (simp only: prod.case admit_loaded_triple)
    qed
    then show ?thesis using True by (simp add: pass_moved_def)
  qed (auto simp: triple_def)
  show ?thesis
    using True triple_bind [OF tip triple_bind [OF policy load]] by (simp add: admit_stored_message_to_convergence_pass_def)
qed (auto simp: admit_stored_message_to_convergence_pass_def intro: triple_return untouched_moved)

lemma buffer_transaction_triple:
  assumes "st_groups st0 = gs"
  shows "triple (untouched ps gs) (buffer_transaction lib en g r now processed)
    (\<lambda>_. pass_moved (eng_clock_instance_id en) g (convergence_tip_epoch en st0 g) ps) (pass_moved (eng_clock_instance_id en) g (convergence_tip_epoch en st0 g) ps)"
    (is "triple _ _ (\<lambda>_. ?pass_moved) _")
proof -
  have put: "triple (untouched ps gs) (op_map_err ProjectionStorage (put_message r)) (\<lambda>_. untouched ps gs) ?pass_moved"
    by (rule triple_map_err [OF triple_weaken [OF put_message_untouched]]) (auto intro: untouched_moved)
  have processed: "triple (untouched ps gs) (case processed of None \<Rightarrow> op_return () | Some t \<Rightarrow> op_map_err ProjectionStorage (put_processed_transport_id g t))
      (\<lambda>_. untouched ps gs) ?pass_moved"
    by (auto intro: triple_return triple_map_err triple_weaken [OF put_processed_untouched] untouched_moved split: option.split)
  have halt: "triple ?pass_moved
      (case ao of (admission, opened) \<Rightarrow>
         if admission = FrozenIntegrityFailure then
           op_bind (op_map_err ProjectionStorage (op_read (\<lambda>st. get_group st g))) (\<lambda>gr.
           op_bind (op_map_err ProjectionStorage (put_group g (gr\<lparr>group_unrecoverable := True\<rparr>))) (\<lambda>_.
             op_return (admission, opened)))
         else op_return (admission, opened)) (\<lambda>_. ?pass_moved) ?pass_moved" for ao
    by (cases ao) (auto intro!: triple_return triple_bind [where Q = "\<lambda>_. ?pass_moved"] triple_map_err put_group_moved triple_read)
  show ?thesis unfolding buffer_transaction_def
    by (intro triple_bind [OF put] triple_bind [OF processed] triple_bind [OF admit_triple [OF assms]] halt)
qed

section \<open>Verified batches\<close>

text \<open>The stored row still holds the bytes, the role and the epoch the member was admitted with.\<close>
definition member_verified :: "convergence_lib \<Rightarrow> AccountStorage \<Rightarrow> ConvergencePassMember \<Rightarrow> bool" where
  "member_verified lib st m \<longleftrightarrow>
     (\<exists>r message projection. get_message st (member_message_id m) = Inr r \<and>
        decode_openmls_wire_projection lib (mr_payload r) = Some (message, projection) \<and>
        lib_sha256 lib (tm_payload message) = member_payload_digest m \<and>
        role_for_content_kind (proj_kind projection) = Some (member_role m) \<and>
        proj_source_epoch projection = Some (member_source_epoch m))"

lemma verify_member_exact: "verify_member lib st m = (if member_verified lib st m then Inr () else Inl Integrity)"
proof (cases "get_message st (member_message_id m)")
  case (Inl e)
  then have "e = NotFound" by (simp add: get_message_def split: option.splits)
  then show ?thesis using Inl by (simp add: verify_member_def member_verified_def)
next
  case row: (Inr r)
  show ?thesis
  proof (cases "decode_row lib (mr_payload r)")
    case payload: (Inr payload)
    show ?thesis
    proof (cases "as_openmls_wire payload")
      case message: (Some message)
      show ?thesis using row payload message
        by (cases "project_mls_message lib (tm_payload message)")
          (auto simp: verify_member_def member_verified_def decode_openmls_wire_projection_def split: option.split)
    qed (use row payload in \<open>simp add: verify_member_def member_verified_def decode_openmls_wire_projection_def\<close>)
  qed (use row in \<open>simp add: verify_member_def member_verified_def decode_openmls_wire_projection_def\<close>)
qed

text \<open>A row that is missing or has changed is an integrity failure; no other error arises.\<close>
lemma verify_exact:
  "verify_frozen_pass_members lib st p = (if \<forall>m\<in>set (pass_members p). member_verified lib st m then Inr () else Inl Integrity)"
proof -
  have "verify_members lib st ms = (if \<forall>m\<in>set ms. member_verified lib st m then Inr () else Inl Integrity)" for ms
    by (induction ms) (auto simp: verify_member_exact)
  then show ?thesis by (simp add: verify_frozen_pass_members_def)
qed

lemma member_verified_put [simp]: "member_verified lib (put_convergence_pass p st) m = member_verified lib st m"
  by (simp add: member_verified_def get_message_def put_convergence_pass_def)

section \<open>Resolution\<close>

lemma triple_pre: "triple P m Q E \<Longrightarrow> (\<And>s. P' s \<Longrightarrow> P s) \<Longrightarrow> triple P' m Q E"
  by (simp add: triple_def)

lemma tripleD: "triple P m Q E \<Longrightarrow> P s \<Longrightarrow> (case m s of (Inl e, s') \<Rightarrow> E s' | (Inr x, s') \<Rightarrow> Q x s')"
  by (simp add: triple_def)

text \<open>What every run leaves behind: the invariant and the evolution of the pass, on the clock of the engine.\<close>
abbreviation engine_moved ::
  "GroupId \<Rightarrow> OpenMlsProjectionError + EpochId \<Rightarrow> (GroupId \<rightharpoonup> DurableConvergencePass) \<Rightarrow> u64 \<Rightarrow> ('msg, 'audit) Engine \<Rightarrow> bool" where
  "engine_moved g tip ps c en \<equiv> pass_moved c g tip ps (eng_storage en) \<and> eng_clock_instance_id en = c"

text \<open>A started resolution holds a verified batch.\<close>
definition resolving :: "convergence_lib \<Rightarrow> GroupId \<Rightarrow> resolution_start \<Rightarrow> ('msg, 'audit) Engine \<Rightarrow> bool" where
  "resolving lib g start en \<longleftrightarrow>
     (\<forall>tip policy p. start = Resolve tip policy p \<longrightarrow>
        st_passes (eng_storage en) g = Some p \<and> pass_wf g p \<and> pass_phase p = PassResolving \<and>
        (\<forall>m\<in>set (pass_members p). member_verified lib (eng_storage en) m))"

lemma halt_moved:
  "triple (engine_moved g tip ps c) (mark_group_unrecoverable_for_frozen_pass h) (\<lambda>_. engine_moved g tip ps c) (engine_moved g tip ps c)"
proof (rule triple_of_snd)
  fix en :: "('msg, 'audit) Engine" assume en: "engine_moved g tip ps c en"
  have "pass_moved c g tip ps (snd (op_map_err ProjectionStorage (set_group_unrecoverable h) (eng_storage en)))"
    using triple_snd [OF triple_map_err [OF set_group_unrecoverable_moved]] en by blast
  then show "engine_moved g tip ps c (snd (mark_group_unrecoverable_for_frozen_pass h en))"
    using en by (auto simp: mark_group_unrecoverable_for_frozen_pass_def on_storage_def realize_group_unrecoverable_for_frozen_pass_def
        split: prod.split sum.split)
qed

lemma begin_resolving_triple:
  assumes "pass_phase p \<noteq> Collecting"
  shows "triple (\<lambda>en. engine_moved g tip ps c en \<and> st_passes (eng_storage en) g = Some p \<and> pass_wf g p \<and>
        (pass_phase p \<noteq> Completed \<longrightarrow> (\<forall>m\<in>set (pass_members p). member_verified lib (eng_storage en) m)))
      (begin_resolving e policy p) (\<lambda>start en. engine_moved g tip ps c en \<and> resolving lib g start en) (engine_moved g tip ps c)"
proof (rule tripleI)
  fix en start en'
  assume pre: "engine_moved g tip ps c en \<and> st_passes (eng_storage en) g = Some p \<and> pass_wf g p \<and>
      (pass_phase p \<noteq> Completed \<longrightarrow> (\<forall>m\<in>set (pass_members p). member_verified lib (eng_storage en) m))"
    and run: "begin_resolving e policy p en = (Inr start, en')"
  let ?q = "p\<lparr>pass_phase := PassResolving\<rparr>"
  show "engine_moved g tip ps c en' \<and> resolving lib g start en'"
  proof (cases "pass_phase p = Frozen")
    case True
    then have "pass_moved c g tip ps (put_convergence_pass ?q (eng_storage en))" and wf: "pass_wf g ?q"
      using pre moved_put resolving_step [of p] by blast+
    moreover have "en' = put_pass ?q en" "start = Resolve e policy ?q" using run True by (auto simp: begin_resolving_def Let_def)
    moreover have "pass_group_id p = g" using wf by (simp add: pass_wf_def)
    ultimately show ?thesis using pre True by (simp add: put_pass_def resolving_def) (simp add: put_convergence_pass_def)
  next
    case False
    then show ?thesis using run pre assms by (cases "pass_phase p") (auto simp: begin_resolving_def resolving_def)
  qed
qed (auto simp: begin_resolving_def Let_def split: if_splits)

lemma verified_or_halt_triple:
  assumes "triple (\<lambda>en. P en \<and> (\<forall>m\<in>set (pass_members p). member_verified lib (eng_storage en) m)) proceed
      (\<lambda>start en. engine_moved g tip ps c en \<and> resolving lib g start en) (engine_moved g tip ps c)"
    and P: "\<And>en. P en \<Longrightarrow> engine_moved g tip ps c en"
  shows "triple P (verified_or_halt lib g e p proceed) (\<lambda>start en. engine_moved g tip ps c en \<and> resolving lib g start en) (engine_moved g tip ps c)"
  unfolding triple_def
proof (intro allI impI)
  fix en assume en: "P en"
  show "case verified_or_halt lib g e p proceed en of (Inl e, s') \<Rightarrow> engine_moved g tip ps c s'
      | (Inr x, s') \<Rightarrow> engine_moved g tip ps c s' \<and> resolving lib g x s'"
  proof (cases "\<forall>m\<in>set (pass_members p). member_verified lib (eng_storage en) m")
    case True
    then have "verified_or_halt lib g e p proceed en = proceed en" by (simp add: verified_or_halt_def verify_exact)
    then show ?thesis using assms(1) en True unfolding triple_def by simp
  next
    case False
    then have "verify_frozen_pass_members lib (eng_storage en) p = Inl Integrity" by (simp add: verify_exact)
    then have "verified_or_halt lib g e p proceed en = (case mark_group_unrecoverable_for_frozen_pass g en of
        (Inl e, en) \<Rightarrow> (Inl e, en) | (Inr _, en) \<Rightarrow> (Inr (Report (unrecoverable_result e)), en))"
      by (simp add: verified_or_halt_def)
    moreover have "engine_moved g tip ps c (snd (mark_group_unrecoverable_for_frozen_pass g en))"
      using triple_snd [OF halt_moved P [OF en]] .
    ultimately show ?thesis by (auto simp: resolving_def split: prod.splits sum.splits)
  qed
qed

lemma freeze_and_verify_triple:
  "triple (\<lambda>en :: ('msg, 'audit) Engine. engine_moved g tip ps c en \<and> st_passes (eng_storage en) g = Some p \<and> pass_wf g p)
     (freeze_and_verify lib g e policy now p) (\<lambda>start en. engine_moved g tip ps c en \<and> resolving lib g start en) (engine_moved g tip ps c)"
proof (cases "pass_phase p = Collecting")
  case phase: True
  show ?thesis
  proof (cases "time_monotonic_ms now < cutoff_monotonic_ms p")
    case True
    then show ?thesis using phase by (auto simp: freeze_and_verify_def resolving_def intro: triple_return)
  next
    case False
    let ?q = "freeze_collecting_convergence_pass now p"
    have q: "pass_members ?q = pass_members p" "pass_phase ?q = Frozen" by (simp_all add: freeze_collecting_convergence_pass_def)
    have "triple (\<lambda>en :: ('msg, 'audit) Engine. (engine_moved g tip ps c en \<and> st_passes (eng_storage en) g = Some p \<and> pass_wf g p) \<and>
          (\<forall>m\<in>set (pass_members ?q). member_verified lib (eng_storage en) m))
        (\<lambda>en. begin_resolving e policy ?q (put_pass ?q en))
        (\<lambda>start en. engine_moved g tip ps c en \<and> resolving lib g start en) (engine_moved g tip ps c)"
      unfolding triple_def
    proof (intro allI impI)
      fix en :: "('msg, 'audit) Engine"
      assume pre: "(engine_moved g tip ps c en \<and> st_passes (eng_storage en) g = Some p \<and> pass_wf g p) \<and>
          (\<forall>m\<in>set (pass_members ?q). member_verified lib (eng_storage en) m)"
      then have wf: "pass_wf g ?q" and "pass_moved c g tip ps (put_convergence_pass ?q (eng_storage en))"
        using freeze_step [OF phase] moved_put by blast+
      moreover have "st_passes (put_convergence_pass ?q (eng_storage en)) g = Some ?q"
        using wf by (simp add: put_convergence_pass_def pass_wf_def)
      ultimately show "case begin_resolving e policy ?q (put_pass ?q en) of (Inl e, s') \<Rightarrow> engine_moved g tip ps c s'
          | (Inr x, s') \<Rightarrow> engine_moved g tip ps c s' \<and> resolving lib g x s'"
        by (intro tripleD [OF begin_resolving_triple]) (use pre q in \<open>simp_all add: put_pass_def\<close>)
    qed
    from verified_or_halt_triple [OF this, of e] show ?thesis using phase False by (simp add: freeze_and_verify_def Let_def)
  qed
next
  case False
  have "pass_phase p \<in> {Frozen, PassResolving} \<or> pass_phase p = Completed" using False by (cases "pass_phase p") auto
  then show ?thesis
  proof
    assume phase: "pass_phase p \<in> {Frozen, PassResolving}"
    have "triple (\<lambda>en :: ('msg, 'audit) Engine. (engine_moved g tip ps c en \<and> st_passes (eng_storage en) g = Some p \<and> pass_wf g p) \<and>
          (\<forall>m\<in>set (pass_members p). member_verified lib (eng_storage en) m)) (begin_resolving e policy p)
        (\<lambda>start en. engine_moved g tip ps c en \<and> resolving lib g start en) (engine_moved g tip ps c)"
      by (rule triple_pre [OF begin_resolving_triple [OF False]]) simp
    from verified_or_halt_triple [OF this, of e] show ?thesis using phase False by (simp add: freeze_and_verify_def)
  next
    assume "pass_phase p = Completed"
    then have run: "freeze_and_verify lib g e policy now p = begin_resolving e policy p"
      using False by (simp add: freeze_and_verify_def)
    show ?thesis unfolding run by (rule triple_pre [OF begin_resolving_triple [OF False]]) (simp add: \<open>pass_phase p = Completed\<close>)
  qed
qed

lemma sync_frame:
  assumes "sync_unrecoverable_halt_from_storage g en = (halted, en')"
  shows "eng_storage en' = eng_storage en \<and> eng_clock_instance_id en' = eng_clock_instance_id en \<and> (\<not> halted \<longrightarrow> en' = en)"
  using assms by (auto simp: sync_unrecoverable_halt_from_storage_def split: if_splits option.splits)

lemma start_moved:
  assumes ok: "storage_ok (eng_storage en)" and run: "start_resolution lib g now en = (r, en')"
  shows "engine_moved g (convergence_tip_epoch en (eng_storage en) g) (st_passes (eng_storage en)) (eng_clock_instance_id en) en' \<and>
    (\<forall>start. r = Inr start \<longrightarrow> resolving lib g start en')"
proof -
  let ?tip = "convergence_tip_epoch en (eng_storage en) g" and ?ps = "st_passes (eng_storage en)" and ?c = "eng_clock_instance_id en"
  have same: "pass_moved ?c g ?tip ?ps (eng_storage en)"
    using ok by (intro untouched_moved [of _ "st_groups (eng_storage en)"]) (simp add: untouched_def)
  obtain halted en1 where sync: "sync_unrecoverable_halt_from_storage g en = (halted, en1)" by fastforce
  note frame = sync_frame [OF sync]
  show ?thesis
  proof (cases "\<exists>tip policy. g \<notin> eng_quarantined_groups en \<and> \<not> halted \<and> g \<notin> st_deferred_peel_generations (eng_storage en) \<and>
      ?tip = Inr tip \<and> convergence_policy_for_group lib en (eng_storage en) g = Inr policy")
    case False
    then have "eng_storage en' = eng_storage en \<and> eng_clock_instance_id en' = ?c \<and> (\<forall>start. r = Inr start \<longrightarrow> (\<exists>result. start = Report result))"
      using run sync frame by (auto simp: start_resolution_def split: if_splits bool.splits sum.splits)
    then show ?thesis using same by (auto simp: resolving_def)
  next
    case True
    then obtain tip policy where g: "g \<notin> eng_quarantined_groups en" "\<not> halted" "g \<notin> st_deferred_peel_generations (eng_storage en)"
      and tip: "?tip = Inr tip" and policy: "convergence_policy_for_group lib en (eng_storage en) g = Inr policy" by blast
    have default: "policy = default_canonicalization_policy" using policy_pinned(2) [OF policy] .
    obtain loaded st where load: "load_or_open_convergence_pass lib en g tip default_canonicalization_policy now (eng_storage en) = (loaded, st)"
      by fastforce
    note pass_moved = load_moved [OF ok load]
    have run': "(case (loaded, en\<lparr>eng_storage := st\<rparr>) of
        (Inl e, en) \<Rightarrow> (Inl e, en)
      | (Inr (None, opened), en) \<Rightarrow> (Inr (Report (settled_empty_result tip)), en)
      | (Inr (Some p, opened), en) \<Rightarrow> freeze_and_verify lib g tip default_canonicalization_policy now p en) = (r, en')"
      using run sync g frame tip policy default load by (auto simp: start_resolution_def on_storage_def)
    show ?thesis
    proof (cases "\<exists>p opened. loaded = Inr (Some p, opened)")
      case False
      then show ?thesis using run' pass_moved tip by (auto simp: resolving_def split: sum.splits option.splits)
    next
      case True
      then obtain p opened where loaded: "loaded = Inr (Some p, opened)" by blast
      have "case freeze_and_verify lib g tip default_canonicalization_policy now p (en\<lparr>eng_storage := st\<rparr>) of
          (Inl e, en) \<Rightarrow> engine_moved g ?tip ?ps ?c en | (Inr start, en) \<Rightarrow> engine_moved g ?tip ?ps ?c en \<and> resolving lib g start en"
        by (rule tripleD [OF freeze_and_verify_triple]) (use pass_moved loaded tip in simp)
      then show ?thesis using run' loaded by (auto split: sum.splits)
    qed
  qed
qed

text \<open>
  What the OpenMLS stages keep: the replay leaves the passes, the application and the reports leave the passes of other groups,
  the reports may delete the pass of their own group (a disbanded group has none), and rows keep their ids.\<close>

definition replay_ok :: "('msg, 'audit) convergence_replay \<Rightarrow> bool" where
  "replay_ok rp \<longleftrightarrow>
     (\<forall>g state policy now ids st. let st' = snd (rp_canonicalize rp g state policy now ids st) in
        (rows_unique st \<longrightarrow> rows_unique st') \<and> st_passes st' = st_passes st) \<and>
     (\<forall>g result n st. let st' = snd (rp_apply rp g result n st) in
        (rows_unique st \<longrightarrow> rows_unique st') \<and> (\<forall>h. h \<noteq> g \<longrightarrow> st_passes st' h = st_passes st h)) \<and>
     (\<forall>g result en. let en' = snd (rp_settle rp g result en) in
        (rows_unique (eng_storage en) \<longrightarrow> rows_unique (eng_storage en')) \<and>
        (\<forall>h. h \<noteq> g \<longrightarrow> st_passes (eng_storage en') h = st_passes (eng_storage en) h) \<and>
        st_passes (eng_storage en') g \<in> {None, st_passes (eng_storage en) g} \<and>
        eng_clock_instance_id en' = eng_clock_instance_id en)"

lemma replay_okD:
  assumes "replay_ok rp"
  shows "rows_unique st \<Longrightarrow> rows_unique (snd (rp_canonicalize rp g state policy now ids st))"
    and "st_passes (snd (rp_canonicalize rp g state policy now ids st)) = st_passes st"
    and "rows_unique st \<Longrightarrow> rows_unique (snd (rp_apply rp g result n st))"
    and "h \<noteq> g \<Longrightarrow> st_passes (snd (rp_apply rp g result n st)) h = st_passes st h"
    and "rows_unique (eng_storage en) \<Longrightarrow> rows_unique (eng_storage (snd (rp_settle rp g result en)))"
    and "h \<noteq> g \<Longrightarrow> st_passes (eng_storage (snd (rp_settle rp g result en))) h = st_passes (eng_storage en) h"
    and "st_passes (eng_storage (snd (rp_settle rp g result en))) g \<in> {None, st_passes (eng_storage en) g}"
    and "eng_clock_instance_id (snd (rp_settle rp g result en)) = eng_clock_instance_id en"
  using assms by (simp_all add: replay_ok_def Let_def)

text \<open>As \<open>pass_moved\<close>, but the pass may be gone.\<close>
definition settled :: "u64 \<Rightarrow> GroupId \<Rightarrow> OpenMlsProjectionError + EpochId \<Rightarrow> (GroupId \<rightharpoonup> DurableConvergencePass) \<Rightarrow> AccountStorage \<Rightarrow> bool" where
  "settled c g tip ps st \<longleftrightarrow> storage_ok st \<and> (\<forall>h. h \<noteq> g \<longrightarrow> st_passes st h = ps h) \<and>
     (\<forall>p. ps g = Some p \<and> pass_is_active p \<and> tip = Inr (pass_base_epoch p) \<longrightarrow>
        (\<forall>p'. st_passes st g = Some p' \<longrightarrow> pass_evolves c p p'))"

lemma moved_settled: "pass_moved c g tip ps st \<Longrightarrow> settled c g tip ps st"
  by (auto simp: pass_moved_def settled_def)

lemma settle_settled:
  assumes rp: "replay_ok rp" and pass_moved: "pass_moved c g tip ps (eng_storage en)"
  shows "settled c g tip ps (eng_storage (snd (rp_settle rp g result en)))"
proof -
  let ?st = "eng_storage (snd (rp_settle rp g result en))"
  have frame: "rows_unique (eng_storage en) \<longrightarrow> rows_unique ?st" "\<forall>h. h \<noteq> g \<longrightarrow> st_passes ?st h = st_passes (eng_storage en) h"
      "st_passes ?st g \<in> {None, st_passes (eng_storage en) g}"
    using replay_okD [OF rp] by simp_all
  have "pass_wf h q" if "st_passes ?st h = Some q" for h q
  proof (cases "h = g")
    case True
    then show ?thesis using that frame(3) pass_moved by (auto simp: pass_moved_def storage_ok_def)
  qed (use that frame(2) pass_moved in \<open>simp add: pass_moved_def storage_ok_def\<close>)
  then show ?thesis using frame pass_moved by (auto simp: settled_def pass_moved_def storage_ok_def)
qed

lemma apply_moved:
  assumes rp: "replay_ok rp" and pass_moved: "pass_moved c g tip ps st" and p: "st_passes st g = Some p" "pass_wf g p" "pass_phase p = PassResolving"
  shows "pass_moved c g tip ps (put_convergence_pass (p\<lparr>pass_phase := Completed, fairness_slot_available := True\<rparr>) (snd (rp_apply rp g result n st)))"
proof -
  let ?q = "p\<lparr>pass_phase := Completed, fairness_slot_available := True\<rparr>" and ?st = "snd (rp_apply rp g result n st)"
  have frame: "rows_unique st \<longrightarrow> rows_unique ?st" "\<forall>h. h \<noteq> g \<longrightarrow> st_passes ?st h = st_passes st h"
    using replay_okD [OF rp] by simp_all
  have q: "pass_evolves c p ?q" "pass_wf g ?q" using advance_step [of p Completed True] p by auto
  have g: "pass_group_id p = g" using p(2) by (simp add: pass_wf_def)
  have "storage_ok (put_convergence_pass ?q ?st)"
    using pass_moved frame q(2) g by (auto simp: pass_moved_def storage_ok_def put_convergence_pass_def rows_unique_def)
  moreover have "pass_evolves c r ?q" if "ps g = Some r" "pass_is_active r" "tip = Inr (pass_base_epoch r)" for r
  proof -
    have "pass_evolves c r p" using pass_moved p(1) that by (auto simp: pass_moved_def)
    then show ?thesis using q(1) pass_evolves_trans by blast
  qed
  ultimately show ?thesis using pass_moved frame(2) g by (simp add: pass_moved_def put_convergence_pass_def)
qed

abbreviation engine_settled ::
  "GroupId \<Rightarrow> OpenMlsProjectionError + EpochId \<Rightarrow> (GroupId \<rightharpoonup> DurableConvergencePass) \<Rightarrow> u64 \<Rightarrow> ('msg, 'audit) Engine \<Rightarrow> bool" where
  "engine_settled g tip ps c en \<equiv> settled c g tip ps (eng_storage en) \<and> eng_clock_instance_id en = c"

lemma schedule_frame [simp]:
  "eng_storage (schedule_pending_convergence_group g en) = eng_storage en"
  "eng_clock_instance_id (schedule_pending_convergence_group g en) = eng_clock_instance_id en"
  "eng_storage (schedule_drain_for_retained_outbound_intents g en) = eng_storage en"
  "eng_clock_instance_id (schedule_drain_for_retained_outbound_intents g en) = eng_clock_instance_id en"
  by (auto simp: schedule_pending_convergence_group_def schedule_drain_for_retained_outbound_intents_def)

lemma finish_settled:
  assumes rp: "replay_ok rp" and en: "engine_moved g tip ps c en"
    and p: "st_passes (eng_storage en) g = Some p" "pass_wf g p" "pass_phase p = PassResolving"
  shows "engine_settled g tip ps c (snd (finish_pass lib rp g policy p result en))"
proof -
  let ?q = "p\<lparr>pass_phase := Completed, fairness_slot_available := True\<rparr>"
  let ?apply = "rp_apply rp g result (max_rewind_commits (cp_convergence policy)) (eng_storage en)"
  let ?en = "(let en = schedule_drain_for_retained_outbound_intents g (en\<lparr>eng_storage := put_convergence_pass ?q (snd ?apply)\<rparr>)
     in case selected_tip result of None \<Rightarrow> en | Some t \<Rightarrow> en\<lparr>eng_epoch_manager := set_stable (eng_epoch_manager en) g t\<rparr>)"
  have storage: "eng_storage ?en = put_convergence_pass ?q (snd ?apply)" "eng_clock_instance_id ?en = c"
    using en by (auto simp: Let_def split: option.split)
  have settled: "settled c g tip ps (eng_storage (snd (rp_settle rp g result ?en)))"
    using settle_settled [OF rp, of c g tip ps ?en] apply_moved [OF rp _ p] en unfolding storage by blast
  have clock: "eng_clock_instance_id (snd (rp_settle rp g result ?en)) = c"
    using replay_okD(8) [OF rp] storage(2) by simp
  have same: "settled c g tip ps (eng_storage en)" using en moved_settled by blast
  show ?thesis
  proof (cases "fst ?apply")
    case (Inl e)
    then show ?thesis using en same
      by (auto simp: finish_pass_def Let_def on_storage_def with_transaction_def op_bind_def split: prod.splits)
  next
    case (Inr u)
    then have "snd (finish_pass lib rp g policy p result en) = (case rp_settle rp g result ?en of
          (Inl e, en) \<Rightarrow> en
        | (Inr _, en) \<Rightarrow> (case has_pending_canonical_applications lib en g of
              Inl e \<Rightarrow> en | Inr pending \<Rightarrow> if pending then schedule_pending_convergence_group g en else en))"
      by (cases ?apply) (auto simp: finish_pass_def Let_def on_storage_def with_transaction_def op_bind_def split: prod.split sum.split option.split)
    then show ?thesis using settled clock by (auto split: prod.split sum.split)
  qed
qed

lemma resolve_settled:
  assumes rp: "replay_ok rp" and en: "engine_moved g tip ps c en"
    and p: "st_passes (eng_storage en) g = Some p" "pass_wf g p" "pass_phase p = PassResolving"
  shows "engine_settled g tip ps c (snd (resolve_pass lib rp g now e policy p en))"
proof -
  let ?state = "\<lparr>current_tip_epoch = e, retained_anchor_epoch = saturating_sub e (max_rewind_commits (cp_convergence policy)),
      last_convergence_relevant_input_ms = saturating_sub (time_monotonic_ms now) (settlement_quiescence_ms policy), seen_message_ids = {}\<rparr>"
  let ?replay = "rp_canonicalize rp g ?state policy (time_monotonic_ms now) (map member_message_id (pass_members p)) (eng_storage en)"
  let ?en = "en\<lparr>eng_storage := snd ?replay\<rparr>"
  have frame: "rows_unique (eng_storage en) \<longrightarrow> rows_unique (snd ?replay)" "st_passes (snd ?replay) = st_passes (eng_storage en)"
    using replay_okD [OF rp] by simp_all
  then have en': "engine_moved g tip ps c ?en" and p': "st_passes (eng_storage ?en) g = Some p"
    using en p(1) by (simp_all add: pass_moved_def storage_ok_def)
  have settled: "engine_settled g tip ps c ?en" using en' moved_settled by blast
  have blocked: "pass_moved c g tip ps (put_convergence_pass (p\<lparr>pass_phase := Completed, fairness_slot_available := False\<rparr>) (snd ?replay))"
    using moved_put [of c g tip ps "snd ?replay" p] en' p' advance_step [of p Completed False] p(2,3) by auto
  have halt: "engine_settled g tip ps c (snd (halt_for_missing_state g result ?en))" for result
  proof -
    have "pass_moved c g tip ps (snd (op_map_err ProjectionStorage (set_group_unrecoverable g) (eng_storage ?en)))"
      using triple_snd [OF triple_map_err [OF set_group_unrecoverable_moved]] en' by blast
    then show ?thesis using en' moved_settled
      by (auto simp: halt_for_missing_state_def on_storage_def realize_group_unrecoverable_for_frozen_pass_def split: prod.split sum.split)
  qed
  have finish: "engine_settled g tip ps c (snd (finish_pass lib rp g policy p result ?en))" for result
    by (rule finish_settled [OF rp en' p' p(2,3)])
  show ?thesis
    using settled halt finish moved_settled [OF blocked] en' en moved_settled [of c g tip ps "eng_storage en"]
    by (cases ?replay) (auto simp: resolve_pass_def on_storage_def Let_def put_pass_def split: sum.split option.split)
qed

section \<open>Every operation\<close>

text \<open>An operation of the engine on one group.\<close>
inductive convergence_step ::
  "convergence_lib \<Rightarrow> ('msg, 'audit) convergence_replay \<Rightarrow> GroupId \<Rightarrow> ('msg, 'audit) Engine \<Rightarrow> ('msg, 'audit) Engine \<Rightarrow> bool"
  for lib rp g where
  buffer: "convergence_step lib rp g en (snd (buffer_openmls_convergence_message_with_time lib g message now processed en))"
| prepare: "convergence_step lib rp g en (snd (prepare_convergence_cutoff_delay_ms lib g now en))"
| converge: "convergence_step lib rp g en (snd (converge_stored_openmls_messages lib rp g now en))"
| consume: "convergence_step lib rp g en (consume_convergence_fairness_slot g en)"

abbreviation step_settled :: "GroupId \<Rightarrow> ('msg, 'audit) Engine \<Rightarrow> ('msg, 'audit) Engine \<Rightarrow> bool" where
  "step_settled g en en' \<equiv>
     engine_settled g (convergence_tip_epoch en (eng_storage en) g) (st_passes (eng_storage en)) (eng_clock_instance_id en) en'"

lemma step_settled_same: "storage_ok (eng_storage en) \<Longrightarrow> step_settled g en en"
  using pass_evolves_refl by (auto simp: settled_def)

lemma converge_settled:
  assumes rp: "replay_ok rp" and ok: "storage_ok (eng_storage en)"
  shows "step_settled g en (snd (converge_stored_openmls_messages lib rp g now en))"
proof -
  obtain r en1 where start: "start_resolution lib g now en = (r, en1)" by fastforce
  note pass_moved = start_moved [OF ok start]
  show ?thesis
  proof (cases "\<exists>tip policy p. r = Inr (Resolve tip policy p)")
    case True
    then obtain tip policy p where r: "r = Inr (Resolve tip policy p)" by blast
    have "snd (converge_stored_openmls_messages lib rp g now en) = snd (resolve_pass lib rp g now tip policy p en1)"
      using start r by (simp add: converge_stored_openmls_messages_def op_bind_def)
    moreover have "st_passes (eng_storage en1) g = Some p" "pass_wf g p" "pass_phase p = PassResolving"
      using pass_moved r by (auto simp: resolving_def)
    ultimately show ?thesis using resolve_settled [OF rp conjunct1 [OF pass_moved]] by simp
  next
    case False
    then have "snd (converge_stored_openmls_messages lib rp g now en) = en1"
      using start by (auto simp: converge_stored_openmls_messages_def op_bind_def op_return_def split: sum.split resolution_start.split)
    then show ?thesis using pass_moved moved_settled by blast
  qed
qed

lemma prepare_settled:
  assumes ok: "storage_ok (eng_storage en)"
  shows "step_settled g en (snd (prepare_convergence_cutoff_delay_ms lib g now en))"
proof -
  let ?load = "op_bind (op_read (\<lambda>st. convergence_tip_epoch en st g)) (\<lambda>tip.
      op_bind (op_read (\<lambda>st. convergence_policy_for_group lib en st g)) (\<lambda>policy.
        load_or_open_convergence_pass lib en g tip policy now)) (eng_storage en)"
  let ?tip = "convergence_tip_epoch en (eng_storage en) g" and ?policy = "convergence_policy_for_group lib en (eng_storage en) g"
  have "settled (eng_clock_instance_id en) g ?tip (st_passes (eng_storage en)) (snd ?load)"
  proof (cases "\<exists>tip policy. ?tip = Inr tip \<and> ?policy = Inr policy")
    case True
    then obtain tip policy where tip: "?tip = Inr tip" and policy: "?policy = Inr policy" by blast
    obtain r st where load: "load_or_open_convergence_pass lib en g tip default_canonicalization_policy now (eng_storage en) = (r, st)" by fastforce
    have "snd ?load = st" using tip policy policy_pinned(2) [OF policy] load by (simp add: op_bind_def op_read_def)
    then show ?thesis using load_moved [OF ok load] moved_settled tip by simp
  next
    case False
    then have "snd ?load = eng_storage en" by (auto simp: op_bind_def op_read_def split: sum.split)
    then show ?thesis using step_settled_same [OF ok] by simp
  qed
  moreover have "snd (prepare_convergence_cutoff_delay_ms lib g now en) \<in> {en, en\<lparr>eng_storage := snd ?load\<rparr>}"
    by (auto simp: prepare_convergence_cutoff_delay_ms_def on_storage_def split: prod.split sum.split)
  ultimately show ?thesis using step_settled_same [OF ok] by auto
qed

lemma buffer_new_settled:
  assumes ok: "storage_ok (eng_storage en)"
  shows "step_settled g en (snd (buffer_new_message lib g message now processed en))"
proof -
  let ?st = "\<lambda>r. snd (with_transaction (buffer_transaction lib en g r now processed) (eng_storage en))"
  have "triple (untouched (st_passes (eng_storage en)) (st_groups (eng_storage en))) (with_transaction (buffer_transaction lib en g r now processed))
      (\<lambda>_. pass_moved (eng_clock_instance_id en) g (convergence_tip_epoch en (eng_storage en) g) (st_passes (eng_storage en)))
      (pass_moved (eng_clock_instance_id en) g (convergence_tip_epoch en (eng_storage en) g) (st_passes (eng_storage en)))" for r
    by (rule triple_transaction [OF triple_weaken [OF buffer_transaction_triple [OF refl]]]) (auto intro: untouched_moved)
  from triple_snd [OF this, of "eng_storage en"]
  have pass_moved: "pass_moved (eng_clock_instance_id en) g (convergence_tip_epoch en (eng_storage en) g) (st_passes (eng_storage en)) (?st r)" for r
    using ok by (simp add: untouched_def)
  have cases: "eng_storage (snd (buffer_new_message lib g message now processed en)) \<in> insert (eng_storage en) (range ?st)"
    unfolding buffer_new_message_def on_storage_def realize_group_unrecoverable_for_frozen_pass_def Let_def
    by (auto split: sum.split option.split prod.split)
  have clock: "eng_clock_instance_id (snd (buffer_new_message lib g message now processed en)) = eng_clock_instance_id en"
    unfolding buffer_new_message_def on_storage_def realize_group_unrecoverable_for_frozen_pass_def Let_def
    by (auto split: sum.split option.split prod.split)
  from cases show ?thesis
  proof
    assume "eng_storage (snd (buffer_new_message lib g message now processed en)) = eng_storage en"
    then show ?thesis using clock step_settled_same [OF ok] by simp
  next
    assume "eng_storage (snd (buffer_new_message lib g message now processed en)) \<in> range ?st"
    then obtain r where "eng_storage (snd (buffer_new_message lib g message now processed en)) = ?st r" by blast
    then show ?thesis using clock moved_settled [OF pass_moved [of r]] by simp
  qed
qed

lemma buffer_settled:
  assumes ok: "storage_ok (eng_storage en)"
  shows "step_settled g en (snd (buffer_openmls_convergence_message_with_time lib g message now processed en))"
proof -
  let ?st = "\<lambda>t. snd (op_map_err ProjectionStorage (put_processed_transport_id g t) (eng_storage en))"
  have "untouched (st_passes (eng_storage en)) (st_groups (eng_storage en)) (?st t)" for t
    by (rule triple_snd [OF triple_map_err [OF put_processed_untouched]]) (use ok in \<open>simp add: untouched_def\<close>)
  then have "settled (eng_clock_instance_id en) g (convergence_tip_epoch en (eng_storage en) g) (st_passes (eng_storage en)) (?st t)" for t
    using untouched_moved moved_settled by blast
  then show ?thesis
    using buffer_new_settled [OF ok] step_settled_same [OF ok]
    by (auto simp: buffer_openmls_convergence_message_with_time_def on_storage_def split: sum.split option.split StorageError.split)
qed

lemma consume_settled:
  assumes ok: "storage_ok (eng_storage en)"
  shows "step_settled g en (consume_convergence_fairness_slot g en)"
proof (cases "st_passes (eng_storage en) g")
  case (Some p)
  then have wf: "pass_wf g p" using ok by (simp add: storage_ok_def)
  have "pass_moved (eng_clock_instance_id en) g (convergence_tip_epoch en (eng_storage en) g) (st_passes (eng_storage en)) (eng_storage en)"
    using ok by (intro untouched_moved [of _ "st_groups (eng_storage en)"]) (simp add: untouched_def)
  from moved_put [OF this Some consume_step(1) consume_step(2) [OF wf]] show ?thesis
    using Some moved_settled by (simp add: consume_convergence_fairness_slot_def)
qed (use step_settled_same [OF ok] in \<open>simp add: consume_convergence_fairness_slot_def\<close>)

lemma step_settled:
  assumes "replay_ok rp" and "convergence_step lib rp g en en'" and "storage_ok (eng_storage en)"
  shows "step_settled g en en'"
  using assms(2)
proof cases
  case buffer
  show ?thesis unfolding buffer by (rule buffer_settled [OF assms(3)])
next
  case prepare
  show ?thesis unfolding prepare by (rule prepare_settled [OF assms(3)])
next
  case converge
  show ?thesis unfolding converge by (rule converge_settled [OF assms(1,3)])
next
  case consume
  show ?thesis unfolding consume by (rule consume_settled [OF assms(3)])
qed

end
