(* ===== verification/Convergence_Pass_Safety.thy ===== *)
theory Convergence_Pass_Safety
  imports Convergence_Pass_Correct
begin

text \<open>
  The properties of the durable convergence pass, over every sequence of the engine's operations, with examples on a small
  library in which a message of two bytes is a content type and an epoch.
\<close>

section \<open>Runs of the engine\<close>

definition fresh_engine :: "('msg, 'audit) Engine \<Rightarrow> bool" where
  "fresh_engine en \<longleftrightarrow> st_passes (eng_storage en) = Map.empty \<and> rows_unique (eng_storage en)"

text \<open>
  A step is an operation on a group, or anything else the process, another component or a restart does: it may change every
  part of the engine, the clock included, and delete passes, but it does not write one.\<close>

inductive engine_step ::
  "convergence_lib \<Rightarrow> ('msg, 'audit) convergence_replay \<Rightarrow> ('msg, 'audit) Engine \<Rightarrow> ('msg, 'audit) Engine \<Rightarrow> bool"
  for lib rp where
  operation: "convergence_step lib rp g en en' \<Longrightarrow> engine_step lib rp en en'"
| other: "rows_unique (eng_storage en') \<Longrightarrow> (\<And>g. st_passes (eng_storage en') g \<in> {None, st_passes (eng_storage en) g}) \<Longrightarrow>
    engine_step lib rp en en'"

lemma engine_step_ok:
  assumes rp: "replay_ok rp" and "engine_step lib rp en en'" and ok: "storage_ok (eng_storage en)"
  shows "storage_ok (eng_storage en')"
  using assms(2)
proof cases
  case (operation g)
  then show ?thesis using step_settled [OF rp _ ok] by (auto simp: settled_def)
next
  case other
  have "pass_wf g p" if "st_passes (eng_storage en') g = Some p" for g p
    using other(2) [of g] that ok by (auto simp: storage_ok_def)
  then show ?thesis using other(1) by (simp add: storage_ok_def)
qed

interpretation engine_runs: invariant_system fresh_engine "engine_step lib rp" "\<lambda>en. replay_ok rp \<longrightarrow> storage_ok (eng_storage en)"
  for lib :: convergence_lib and rp :: "('msg, 'audit) convergence_replay"
proof
  show "replay_ok rp \<longrightarrow> storage_ok (eng_storage en)" if "fresh_engine en" for en :: "('msg, 'audit) Engine"
    using that by (simp add: fresh_engine_def storage_ok_def)
  show "replay_ok rp \<longrightarrow> storage_ok (eng_storage en')" if "replay_ok rp \<longrightarrow> storage_ok (eng_storage en)" "engine_step lib rp en en'" for en en'
    using engine_step_ok that by blast
qed

section \<open>The example\<close>

definition pass_example_lib :: convergence_lib where
  "pass_example_lib =
     \<lparr>lib_sha256 = (\<lambda>bs. bs),
      lib_mls_body = (\<lambda>bs. if length bs = 2 then
          Inr (PublicMessage (if hd bs = 0 then CommitType else if hd bs = 1 then ProposalType else ApplicationType) (ucast (last bs)))
        else Inl ''length''),
      lib_envelope_json = (\<lambda>_. None),
      lib_message_json = (\<lambda>bs. Some (example_message\<lparr>tm_payload := bs\<rparr>)),
      lib_policy_json = (\<lambda>_. Inl ''policy'')\<rparr>"

definition example_row :: "u8 \<Rightarrow> u8 \<Rightarrow> MessageState \<Rightarrow> MessageRecord" where
  "example_row t e s = \<lparr>mr_id = [t, e], mr_group_id = [7], mr_epoch = ucast e, mr_state = s, mr_payload = [t, e], mr_deferred_peel = None\<rparr>"

text \<open>A group at epoch 3 with a commit, an application message and a commit beyond the horizon.\<close>
definition example_storage :: AccountStorage where
  "example_storage =
     \<lparr>st_messages = [example_row 0 3 Created, example_row 2 3 Processed, example_row 0 9 Created], st_passes = Map.empty,
      st_groups = [[7] \<mapsto> \<lparr>group_epoch = 3, group_removed = False, group_unrecoverable = False, group_disbanded = False\<rparr>],
      st_queued_outbound = [], st_disband_candidates = [], st_convergence_policies = Map.empty,
      st_deferred_peel_generations = {}, st_processed_transport_ids = Map.empty\<rparr>"

definition example_engine :: "(unit, unit) Engine" where
  "example_engine =
     \<lparr>eng_storage = example_storage, eng_epoch_manager = new_manager\<lparr>em_states := [[7] \<mapsto> Stable 3]\<rparr>,
      eng_convergence_policy = default_canonicalization_policy, eng_max_past_epochs = 5, eng_clock_instance_id = 1,
      eng_quarantined_groups = {}, eng_pending_convergence_groups = {}, eng_events_buf = []\<rparr>"

definition example_member :: "u8 \<Rightarrow> u8 \<Rightarrow> ConvergencePassMemberRole \<Rightarrow> ConvergencePassMember" where
  "example_member t e role = \<lparr>member_message_id = [t, e], member_payload_digest = [t, e], member_role = role, member_source_epoch = ucast e\<rparr>"

definition example_time :: "u64 \<Rightarrow> ConvergenceTime" where
  "example_time t = \<lparr>time_monotonic_ms = t, time_wall_ms = 100000 + t\<rparr>"

definition pass_example :: DurableConvergencePass where
  "pass_example = new_convergence_pass example_engine [7] 3 default_canonicalization_policy (example_time 20) None
     [example_member 0 3 CommitEdge, example_member 2 3 AppWitnessCandidate]"

text \<open>An OpenMLS stage that selects nothing and changes nothing.\<close>
definition example_replay :: "(unit, unit) convergence_replay" where
  "example_replay =
     \<lparr>rp_canonicalize = (\<lambda>g state policy now ids st. (Inr (Some (settled_empty_result (current_tip_epoch state))), st)),
      rp_apply = (\<lambda>g result n st. (Inr (), st)), rp_settle = (\<lambda>g result en. (Inr (), en))\<rparr>"

lemmas example_defs = pass_example_lib_def example_row_def example_storage_def example_engine_def example_member_def pass_example_def
  example_message_def new_manager_def

lemma example_replay_ok: "replay_ok example_replay"
  by (simp add: replay_ok_def example_replay_def)

lemma example_policy: "convergence_policy_for_group pass_example_lib example_engine example_storage [7] = Inr default_canonicalization_policy"
  by (simp add: convergence_policy_for_group_def convergence_policy_for_group_ungated_def ensure_group_live_def accept_convergence_policy_def
      ensure_acceptable_def policy_eval example_engine_def example_storage_def)

lemma example_tip: "convergence_tip_epoch example_engine example_storage [7] = Inr 3"
  by (simp add: convergence_tip_epoch_def manager_epoch_def example_engine_def new_manager_def)

lemma example_rows:
  "seed_row pass_example_lib 0 8 (example_row 0 3 s) = Inr (Some (example_member 0 3 CommitEdge,
     \<lparr>input_role = CommitEdge, input_source_epoch = 3, input_state = s, input_digest = [0, 3]\<rparr>))"
  "seed_row pass_example_lib 0 8 (example_row 2 3 s) = Inr (Some (example_member 2 3 AppWitnessCandidate,
     \<lparr>input_role = AppWitnessCandidate, input_source_epoch = 3, input_state = s, input_digest = [2, 3]\<rparr>))"
  "seed_row pass_example_lib 0 8 (example_row 0 9 s) = Inr None"
  by (simp_all add: seed_row_def decode_payload_def STORED_MESSAGE_PAYLOAD_MAGIC_def project_mls_message_def from_projection_def pass_member_def
      example_defs)

lemma example_opens:
  "load_or_open_convergence_pass pass_example_lib example_engine [7] 3 default_canonicalization_policy (example_time 20) example_storage =
     (Inr (Some pass_example, True), put_convergence_pass pass_example example_storage)"
proof -
  have "retire_stale_convergence_deferred_commits pass_example_lib [7] 0 example_storage = (Inr [], example_storage)"
    by (simp add: retire_stale_convergence_deferred_commits_def op_map_err_def with_transaction_def op_bind_def op_read_def op_return_def
        list_messages_in_states_def epoch_to_i64_def example_storage_def example_row_def)
  then have "seed_convergence_pass_members pass_example_lib [7] 3 default_canonicalization_policy example_storage =
      (Inr ([example_member 0 3 CommitEdge, example_member 2 3 AppWitnessCandidate], True), example_storage)"
    by (simp add: seed_convergence_pass_members_def horizon_floor_def horizon_ceiling_def policy_eval op_bind_def op_read_def saturating_sub_def
        saturating_add_def candidate_ids_def list_disband_candidates_def has_messages_in_states_def list_messages_in_states_def epoch_to_i64_def
        PASS_OPENING_STATES_def OPENMLS_GRAPH_INPUT_STATES_def example_storage_def example_rows opens_pass_def can_start_pass_def)
      (simp add: example_row_def example_rows [unfolded example_row_def] opens_pass_def can_start_pass_def PASS_OPENING_STATES_def)
  moreover have "st_passes example_storage [7] = None" by (simp add: example_storage_def)
  moreover have "admission_allowed example_engine [7]"
    by (simp add: admission_allowed_def state_of_def example_engine_def new_manager_def)
  ultimately show ?thesis
    by (simp add: load_or_open_convergence_pass_def open_convergence_pass_def op_bind_def pass_example_def Let_def)
qed

text \<open>The example after the scheduler has opened its pass.\<close>
definition pass_example_open :: "(unit, unit) Engine" where
  "pass_example_open = example_engine\<lparr>eng_storage := put_convergence_pass pass_example example_storage\<rparr>"

lemma example_prepared: "snd (prepare_convergence_cutoff_delay_ms pass_example_lib [7] (example_time 20) example_engine) = pass_example_open"
proof -
  have "eng_storage example_engine = example_storage" "\<not> isl (ensure_group_live example_engine [7])"
    by (simp_all add: example_engine_def ensure_group_live_def)
  moreover have "pass_phase pass_example = Collecting" by (simp add: pass_example_def new_convergence_pass_def)
  ultimately show ?thesis
    by (simp add: prepare_convergence_cutoff_delay_ms_def op_bind_def op_read_def on_storage_def example_tip example_policy example_opens pass_example_open_def)
qed

lemma example_open_storage:
  "eng_storage pass_example_open = put_convergence_pass pass_example example_storage" "eng_clock_instance_id pass_example_open = 1"
  "st_passes (eng_storage pass_example_open) [7] = Some pass_example" "pass_phase pass_example = Collecting" "pass_base_epoch pass_example = 3"
  "convergence_tip_epoch pass_example_open (eng_storage pass_example_open) [7] = Inr 3"
  "convergence_policy_for_group pass_example_lib pass_example_open (eng_storage pass_example_open) [7] = Inr default_canonicalization_policy"
  "pass_clock_instance_id pass_example = 1" "pass_is_active pass_example"
  by (simp_all add: pass_example_open_def put_convergence_pass_def pass_example_def new_convergence_pass_def example_engine_def example_storage_def
      convergence_tip_epoch_def manager_epoch_def new_manager_def convergence_policy_for_group_def convergence_policy_for_group_ungated_def
      ensure_group_live_def accept_convergence_policy_def ensure_acceptable_def policy_eval pass_is_active_def phase_is_active_def)

lemma example_fresh_engine: "fresh_engine example_engine"
  by (simp add: fresh_engine_def rows_unique_def example_engine_def example_storage_def example_row_def)

lemma example_run: "(engine_step pass_example_lib example_replay)\<^sup>*\<^sup>* example_engine pass_example_open"
  using convergence_step.prepare [of pass_example_lib example_replay "[7]" example_engine "example_time 20"]
  by (auto simp: example_prepared intro: operation)

lemma example_open_ok: "storage_ok (eng_storage pass_example_open)"
  using engine_runs.inv_reachable [OF example_fresh_engine example_run] example_replay_ok by blast

section \<open>The properties\<close>

text \<open>
  C8: Whatever the engine, other components and restarts do, every stored pass belongs to its group and is not empty, its
  members are different messages from within the rewind horizon of its base epoch, its wall deadline is five seconds
  after its opening, its cutoff is recorded exactly when it has stopped collecting, and only a completed pass
  holds the fairness slot.\<close>

theorem convergence_pass_invariant:
  assumes "replay_ok rp" and "fresh_engine en" and "(engine_step lib rp)\<^sup>*\<^sup>* en en'" and "st_passes (eng_storage en') g = Some p"
  shows "pass_wf g p"
  using engine_runs.inv_reachable [OF assms(2,3)] assms(1,4) by (simp add: storage_ok_def)

theorem convergence_pass_invariant_witness:
  "replay_ok example_replay \<and> fresh_engine example_engine \<and> (engine_step pass_example_lib example_replay)\<^sup>*\<^sup>* example_engine pass_example_open \<and>
   st_passes (eng_storage pass_example_open) [7] = Some pass_example \<and> pass_wf [7] pass_example"
  using convergence_pass_invariant [OF example_replay_ok example_fresh_engine example_run] example_open_storage(3)
    example_replay_ok example_fresh_engine example_run by blast

text \<open>The pass of \<open>g\<close> is active and its base is the group's tip.\<close>
definition held :: "GroupId \<Rightarrow> ('msg, 'audit) Engine \<Rightarrow> bool" where
  "held g en \<longleftrightarrow> (\<exists>p. st_passes (eng_storage en) g = Some p \<and> pass_is_active p \<and>
     convergence_tip_epoch en (eng_storage en) g = Inr (pass_base_epoch p))"

text \<open>Steps of one process while the pass of \<open>g\<close> is held: operations on any group, and anything that writes no pass.\<close>
inductive held_step ::
  "convergence_lib \<Rightarrow> ('msg, 'audit) convergence_replay \<Rightarrow> GroupId \<Rightarrow> ('msg, 'audit) Engine \<Rightarrow> ('msg, 'audit) Engine \<Rightarrow> bool"
  for lib rp g where
  held_operation: "held g en \<Longrightarrow> convergence_step lib rp h en en' \<Longrightarrow> held_step lib rp g en en'"
| held_other: "rows_unique (eng_storage en') \<Longrightarrow> st_passes (eng_storage en') = st_passes (eng_storage en) \<Longrightarrow>
    eng_clock_instance_id en' = eng_clock_instance_id en \<Longrightarrow> held_step lib rp g en en'"

lemma held_step_evolves:
  assumes rp: "replay_ok rp" and "held_step lib rp g en en'" and ok: "storage_ok (eng_storage en)"
  shows "storage_ok (eng_storage en') \<and> eng_clock_instance_id en' = eng_clock_instance_id en \<and>
    (\<forall>p p'. st_passes (eng_storage en) g = Some p \<and> st_passes (eng_storage en') g = Some p' \<longrightarrow> pass_evolves (eng_clock_instance_id en) p p') \<and>
    (st_passes (eng_storage en) g = None \<longrightarrow> st_passes (eng_storage en') g = None)"
  using assms(2)
proof cases
  case (held_operation h)
  have settled: "step_settled h en en'" by (rule step_settled [OF rp held_operation(2) ok])
  show ?thesis
  proof (cases "h = g")
    case True
    then show ?thesis using settled held_operation(1) unfolding settled_def held_def by fastforce
  next
    case False
    then show ?thesis using settled held_operation(1) pass_evolves_refl unfolding settled_def held_def by auto
  qed
next
  case held_other
  then show ?thesis using ok pass_evolves_refl by (auto simp: storage_ok_def)
qed

text \<open>
  C5: A batch is fixed once it is frozen.  While the group's tip stays at the base of its active pass, no operation on this or
  another group, in any order, gives the pass another identity, base or deadline or takes a member from it; it only gains
  members at the end while it collects, only moves forward through its phases, and from the freeze on its members, its freeze
  time and its cutoff cause stay as they are, up to its completion or its deletion with the group.\<close>

theorem frozen_batch_immutable:
  assumes "replay_ok rp" and "storage_ok (eng_storage en)" and "(held_step lib rp g)\<^sup>*\<^sup>* en en'" and "st_passes (eng_storage en) g = Some p"
  shows "st_passes (eng_storage en') g = None \<or>
    (\<exists>p'. st_passes (eng_storage en') g = Some p' \<and> pass_evolves (eng_clock_instance_id en) p p')"
proof -
  have "storage_ok (eng_storage en') \<and> eng_clock_instance_id en' = eng_clock_instance_id en \<and>
      (st_passes (eng_storage en') g = None \<or>
        (\<exists>p'. st_passes (eng_storage en') g = Some p' \<and> pass_evolves (eng_clock_instance_id en) p p'))"
    using assms(3)
  proof (induction rule: rtranclp_induct)
    case base
    then show ?case using assms(2,4) pass_evolves_refl by auto
  next
    case (step en1 en2)
    then have ok: "storage_ok (eng_storage en1)" and clock: "eng_clock_instance_id en1 = eng_clock_instance_id en" by auto
    note next_step = held_step_evolves [OF assms(1) step(2) ok, unfolded clock]
    show ?case
    proof (cases "st_passes (eng_storage en2) g")
      case (Some p2)
      then obtain p1 where p1: "st_passes (eng_storage en1) g = Some p1" using next_step by fastforce
      then have "pass_evolves (eng_clock_instance_id en) p p1" using step(3) by simp
      moreover have "pass_evolves (eng_clock_instance_id en) p1 p2" using next_step p1 Some by blast
      ultimately show ?thesis using next_step Some pass_evolves_trans by blast
    qed (use next_step in simp)
  qed
  then show ?thesis by blast
qed

theorem frozen_batch_immutable_witness:
  "\<exists>en'. (held_step pass_example_lib example_replay [7])\<^sup>*\<^sup>* pass_example_open en' \<and>
     en' = snd (converge_stored_openmls_messages pass_example_lib example_replay [7] (example_time 1020) pass_example_open) \<and>
     (st_passes (eng_storage en') [7] = None \<or>
      (\<exists>p'. st_passes (eng_storage en') [7] = Some p' \<and> pass_evolves 1 pass_example p'))"
proof -
  have "held [7] pass_example_open" using example_open_storage by (simp add: held_def)
  then have run: "(held_step pass_example_lib example_replay [7])\<^sup>*\<^sup>* pass_example_open
      (snd (converge_stored_openmls_messages pass_example_lib example_replay [7] (example_time 1020) pass_example_open))"
    by (intro r_into_rtranclp held_operation [OF _ convergence_step.converge])
  then show ?thesis
    using frozen_batch_immutable [OF example_replay_ok example_open_ok run example_open_storage(3)] example_open_storage(2) by auto
qed

text \<open>
  C7: Only a verified batch is resolved.  When a run hands a batch to the OpenMLS replay, that batch is the stored pass of the
  group, it is frozen and resolving, its messages are different ones, and the row of each still holds the bytes, the role
  and the epoch it was admitted with.\<close>

theorem resolved_batch_verified:
  assumes "storage_ok (eng_storage en)" and "start_resolution lib g now en = (Inr (Resolve tip policy p), en')"
  shows "st_passes (eng_storage en') g = Some p \<and> pass_phase p = PassResolving \<and> frozen_at_wall_ms p \<noteq> None \<and>
    distinct (map member_message_id (pass_members p)) \<and> (\<forall>m\<in>set (pass_members p). member_verified lib (eng_storage en') m)"
proof -
  have "resolving lib g (Resolve tip policy p) en'" using start_moved [OF assms] by blast
  then show ?thesis by (auto simp: resolving_def pass_wf_def)
qed

lemma start_collecting:
  assumes "g \<notin> eng_quarantined_groups en" and "\<not> manager_is_unrecoverable (eng_epoch_manager en) g"
    and "st_groups (eng_storage en) g = Some gr" and "\<not> group_unrecoverable gr" and "g \<notin> st_deferred_peel_generations (eng_storage en)"
    and "convergence_tip_epoch en (eng_storage en) g = Inr (pass_base_epoch p)"
    and "convergence_policy_for_group lib en (eng_storage en) g = Inr policy"
    and "st_passes (eng_storage en) g = Some p" and "pass_phase p = Collecting" and "pass_clock_instance_id p = eng_clock_instance_id en"
  shows "start_resolution lib g now en = freeze_and_verify lib g (pass_base_epoch p) policy now p en"
  using assms
  by (simp add: start_resolution_def sync_unrecoverable_halt_from_storage_def load_or_open_convergence_pass_def on_storage_def
      normalize_convergence_pass_for_runtime_def pass_is_active_def phase_is_active_def)

lemma mark_unrecoverable_halts: "manager_is_unrecoverable (mark_unrecoverable em g) g"
  by (simp add: manager_is_unrecoverable_def mark_unrecoverable_def to_unrecoverable_state_def)

lemma freeze_and_verify_collecting:
  assumes "pass_phase p = Collecting" and "cutoff_monotonic_ms p \<le> time_monotonic_ms now" and "pass_group_id p = g"
    and "st_groups (eng_storage en) g = Some gr" and "\<not> group_unrecoverable gr" and "uint (group_epoch gr) < 2 ^ 63"
  shows "\<exists>start en'. freeze_and_verify lib g e policy now p en = (Inr start, en') \<and>
    (if \<forall>m\<in>set (pass_members p). member_verified lib (eng_storage en) m
     then \<exists>q. start = Resolve e policy q \<and> pass_members q = pass_members p \<and> st_passes (eng_storage en') g = Some q
     else start = Report (unrecoverable_result e) \<and> manager_is_unrecoverable (eng_epoch_manager en') g \<and>
       (\<exists>gr'. st_groups (eng_storage en') g = Some gr' \<and> group_unrecoverable gr'))"
proof -
  let ?p = "freeze_collecting_convergence_pass now p"
  have frozen: "pass_members ?p = pass_members p" "pass_phase ?p = Frozen" "pass_group_id ?p = g"
    using assms(3) by (simp_all add: freeze_collecting_convergence_pass_def)
  have "\<not> time_monotonic_ms now < cutoff_monotonic_ms p" using assms(2) by (simp only: not_less)
  then have run: "freeze_and_verify lib g e policy now p en =
      verified_or_halt lib g e ?p (\<lambda>en. begin_resolving e policy ?p (put_pass ?p en)) en"
    using assms(1) by (simp add: freeze_and_verify_def Let_def)
  show ?thesis
  proof (cases "\<forall>m\<in>set (pass_members p). member_verified lib (eng_storage en) m")
    case True
    then show ?thesis using frozen
      by (simp add: run verified_or_halt_def verify_exact begin_resolving_def Let_def put_pass_def put_convergence_pass_def)
  next
    case False
    moreover have "verify_frozen_pass_members lib (eng_storage en) ?p = Inl Integrity" using False frozen by (simp add: verify_exact)
    ultimately show ?thesis using assms(4-6)
      by (simp add: run verified_or_halt_def mark_group_unrecoverable_for_frozen_pass_def set_group_unrecoverable_def op_map_err_def op_bind_def
          op_read_def get_group_def put_group_def epoch_to_i64_def on_storage_def realize_group_unrecoverable_for_frozen_pass_def
          mark_unrecoverable_halts if_not_P)
  qed
qed

lemma opened_pass:
  assumes "storage_ok st" and "load_or_open_convergence_pass lib en g base policy now st = (Inr (Some p, True), st')"
  obtains previous members where "p = new_convergence_pass en g base policy now previous members"
    and "candidates_are_commits lib st g \<Longrightarrow> has_commit_edge p"
  using assms
proof (cases rule: load_cases)
  case (opens previous s)
  have "candidates_are_commits lib st g \<Longrightarrow> candidates_are_commits lib s g"
    using opens(2,3) by (simp add: candidates_are_commits_def)
  with opens(6) show ?thesis
    by (cases rule: open_cases) (use that in auto)
qed auto

text \<open>
  C6: No stream of arrivals holds a pass open.  Whatever a pass has been through while it was collecting, a run of its group
  five seconds after it was opened, on the same clock instance, does not wait: it freezes the pass with the members it has,
  and either starts resolving exactly these, when every stored row still matches its member, or halts the group.  The group
  is live (stored with an epoch below \<open>2\<^sup>63\<close>, neither quarantined nor unrecoverable), has no deferred-peel generation
  open, its tip is still the base of the pass, and its policy loads.\<close>

theorem pass_resolves_by_deadline:
  assumes opened: "storage_ok st" "load_or_open_convergence_pass lib en0 g base policy opening st = (Inr (Some p0, True), st')"
      "eng_clock_instance_id en0 = eng_clock_instance_id en"
    and live: "g \<notin> eng_quarantined_groups en" "\<not> manager_is_unrecoverable (eng_epoch_manager en) g"
      "st_groups (eng_storage en) g = Some gr" "\<not> group_unrecoverable gr" "uint (group_epoch gr) < 2 ^ 63"
      "g \<notin> st_deferred_peel_generations (eng_storage en)" "convergence_policy_for_group lib en (eng_storage en) g = Inr policy"
    and held: "st_passes (eng_storage en) g = Some p" "pass_evolves (eng_clock_instance_id en) p0 p" "pass_phase p = Collecting"
      "convergence_tip_epoch en (eng_storage en) g = Inr base"
    and late: "unat (time_monotonic_ms opening) + 5000 \<le> unat (time_monotonic_ms now)"
  shows "\<exists>start en'. start_resolution lib g now en = (Inr start, en') \<and>
    (if \<forall>m\<in>set (pass_members p). member_verified lib (eng_storage en) m
     then \<exists>q. start = Resolve base policy q \<and> pass_members q = pass_members p \<and> st_passes (eng_storage en') g = Some q
     else start = Report (unrecoverable_result base) \<and> manager_is_unrecoverable (eng_epoch_manager en') g \<and>
       (\<exists>gr'. st_groups (eng_storage en') g = Some gr' \<and> group_unrecoverable gr'))"
proof -
  have policy: "policy = default_canonicalization_policy" using policy_pinned(2) live(7) by blast
  obtain previous members where p0: "p0 = new_convergence_pass en0 g base policy opening previous members"
    using opened_pass [OF opened(1,2)] by blast
  have p: "pass_group_id p = g" "pass_base_epoch p = base" "pass_clock_instance_id p = eng_clock_instance_id en"
      "absolute_deadline_monotonic_ms p = saturating_add (time_monotonic_ms opening) 5000"
    using held(2) opened(3) unfolding p0 policy by (auto simp: pass_evolves_def new_convergence_pass_def policy_eval)
  have "unat (saturating_add (time_monotonic_ms opening) 5000) \<le> unat (time_monotonic_ms now)" using late by (simp add: sat_simps)
  then have "absolute_deadline_monotonic_ms p \<le> time_monotonic_ms now" unfolding p(4) by (simp add: word_le_nat_alt)
  then have cutoff: "cutoff_monotonic_ms p \<le> time_monotonic_ms now" unfolding cutoff_monotonic_ms_def by (rule min.coboundedI2)
  have "start_resolution lib g now en = freeze_and_verify lib g base policy now p en"
    using start_collecting [OF live(1-4,6) _ live(7) held(1,3) p(3)] held(4) p(2) by simp
  then show ?thesis using freeze_and_verify_collecting [OF held(3) cutoff p(1) live(3-5), of lib base policy] by simp
qed

lemma example_verified: "\<forall>m\<in>set (pass_members pass_example). member_verified pass_example_lib (eng_storage pass_example_open) m"
proof -
  have "member_verified pass_example_lib example_storage m" if "m \<in> set (pass_members pass_example)" for m
    using that unfolding pass_example_def new_convergence_pass_def member_verified_def example_storage_def get_message_def
    by (auto simp: example_row_def example_member_def decode_openmls_wire_projection_def decode_payload_def STORED_MESSAGE_PAYLOAD_MAGIC_def
        project_mls_message_def pass_example_lib_def)
  then show ?thesis by (simp add: example_open_storage(1))
qed

lemma example_storage_ok: "storage_ok example_storage"
  using example_fresh_engine by (simp add: storage_ok_def fresh_engine_def example_engine_def)

theorem pass_resolves_by_deadline_witness:
  "\<exists>q en'. start_resolution pass_example_lib [7] (example_time 5020) pass_example_open = (Inr (Resolve 3 default_canonicalization_policy q), en') \<and>
     pass_members q = pass_members pass_example"
proof -
  have "eng_clock_instance_id example_engine = eng_clock_instance_id pass_example_open" by (simp add: pass_example_open_def)
  moreover have "[7] \<notin> eng_quarantined_groups pass_example_open" "\<not> manager_is_unrecoverable (eng_epoch_manager pass_example_open) [7]"
      "[7] \<notin> st_deferred_peel_generations (eng_storage pass_example_open)"
      "st_groups (eng_storage pass_example_open) [7] = Some \<lparr>group_epoch = 3, group_removed = False, group_unrecoverable = False, group_disbanded = False\<rparr>"
    by (simp_all add: pass_example_open_def example_engine_def put_convergence_pass_def example_storage_def manager_is_unrecoverable_def new_manager_def)
  moreover have "unat (time_monotonic_ms (example_time 20)) + 5000 \<le> unat (time_monotonic_ms (example_time 5020))" by (simp add: example_time_def)
  ultimately show ?thesis
    using pass_resolves_by_deadline [OF example_storage_ok example_opens, of pass_example_open _ pass_example "example_time 5020"]
      example_open_storage example_verified pass_evolves_refl by fastforce
qed

theorem resolved_batch_verified_witness:
  "\<exists>q en'. start_resolution pass_example_lib [7] (example_time 5020) pass_example_open = (Inr (Resolve 3 default_canonicalization_policy q), en') \<and>
     st_passes (eng_storage en') [7] = Some q \<and> (\<forall>m\<in>set (pass_members q). member_verified pass_example_lib (eng_storage en') m)"
proof -
  have start: "start_resolution pass_example_lib [7] (example_time 5020) pass_example_open =
      freeze_and_verify pass_example_lib [7] 3 default_canonicalization_policy (example_time 5020) pass_example pass_example_open"
    using start_collecting [of "[7]" pass_example_open _ pass_example pass_example_lib default_canonicalization_policy "example_time 5020"] example_open_storage
    by (simp add: pass_example_open_def example_engine_def put_convergence_pass_def example_storage_def manager_is_unrecoverable_def new_manager_def)
  have "cutoff_monotonic_ms pass_example \<le> time_monotonic_ms (example_time 5020)"
    by (simp add: cutoff_monotonic_ms_def pass_example_def new_convergence_pass_def example_time_def policy_eval saturating_add_def)
  then obtain q en' where "start_resolution pass_example_lib [7] (example_time 5020) pass_example_open = (Inr (Resolve 3 default_canonicalization_policy q), en')"
    unfolding start using freeze_and_verify_collecting [of pass_example "example_time 5020" "[7]" pass_example_open _ pass_example_lib 3 default_canonicalization_policy]
      example_open_storage example_verified
    by (auto simp: pass_example_open_def example_engine_def put_convergence_pass_def example_storage_def pass_example_def new_convergence_pass_def)
  then show ?thesis using resolved_batch_verified [OF example_open_ok] by blast
qed

section \<open>The outbound gate\<close>

lemma commit_edge_gates: "has_commit_edge p \<Longrightarrow> convergence_pass_gates_outbound p"
  by (force simp: has_commit_edge_def convergence_pass_gates_outbound_def active_pass_member_gates_outbound_def list_ex_iff)

text \<open>
  C9: An open pass closes the outbound gate.  If no row but a commit carries the id of a disband candidate, then from
  the moment a pass is opened and through everything it goes through while active, the gate reports unresolved inputs, so
  no outbound work moves the tip underneath it.\<close>

theorem opened_pass_gates_outbound:
  assumes "storage_ok st" and "candidates_are_commits lib st g"
    and "load_or_open_convergence_pass lib en0 g base policy now st = (Inr (Some p0, True), st')"
    and "pass_evolves c p0 p" and "pass_is_active p" and "st_passes (eng_storage en) g = Some p"
  shows "has_unresolved_convergence_inputs lib en g = Inr True"
proof -
  have "has_commit_edge p0" using opened_pass [OF assms(1,3)] assms(2) by blast
  moreover have "set (pass_members p0) \<subseteq> set (pass_members p)"
    using assms(4) by (auto simp: pass_evolves_def dest: set_mono_prefix)
  ultimately have "convergence_pass_gates_outbound p" by (intro commit_edge_gates) (auto simp: has_commit_edge_def)
  then show ?thesis using assms(5,6)
    by (simp add: has_unresolved_convergence_inputs_def has_unresolved_non_record_convergence_state_def)
qed

theorem opened_pass_gates_outbound_witness: "has_unresolved_convergence_inputs pass_example_lib pass_example_open [7] = Inr True"
proof -
  have "candidates_are_commits pass_example_lib example_storage [7]"
    by (simp add: candidates_are_commits_def candidate_ids_def list_disband_candidates_def example_storage_def)
  from opened_pass_gates_outbound [OF example_storage_ok this example_opens pass_evolves_refl example_open_storage(9) example_open_storage(3)]
  show ?thesis .
qed

lemma gating_needs_open_row:
  assumes "\<forall>r\<in>set rs. mr_state r \<notin> set OUTBOUND_GATING_STATES"
  shows "\<not> any_gating_convergence_input lib anchor ceiling rs"
proof -
  have "\<not> can_gate_outbound i" if "i \<in> set (List.map_filter (gate_input lib anchor ceiling) rs)" for i
  proof -
    have "\<exists>r\<in>set rs. gate_input lib anchor ceiling r = Some i"
      using that by (induction rs) (auto simp: List.map_filter_simps split: option.splits)
    then obtain r where r: "r \<in> set rs" "gate_input lib anchor ceiling r = Some i" by blast
    then have "input_state i = mr_state r"
      by (auto simp: gate_input_def from_projection_def split: if_splits option.splits)
    then show ?thesis using assms r(1) by (simp add: can_gate_outbound_def)
  qed
  then show ?thesis by (auto simp: any_gating_convergence_input_def Let_def list_ex_iff gates_outbound_def)
qed

lemma gate_ignores_rows:
  assumes "\<And>r. r \<in> set rs \<Longrightarrow> \<not> P r \<Longrightarrow> gate_input lib anchor ceiling r = None"
  shows "any_gating_convergence_input lib anchor ceiling (filter P rs) = any_gating_convergence_input lib anchor ceiling rs"
proof -
  have "List.map_filter (gate_input lib anchor ceiling) (filter P rs) = List.map_filter (gate_input lib anchor ceiling) rs"
    using assms by (induction rs) (auto simp: List.map_filter_def)
  then show ?thesis by (simp add: any_gating_convergence_input_def)
qed

text \<open>
  C25: The gate's fast path is exact.  The check that runs on every send, an existence probe for a row in a gating state and a listing of
  the classified states above the anchor, gives the verdict of the classifier over all rows of the group, which
  hydration uses, including its errors.\<close>

theorem outbound_gate_fast_path:
  assumes "st_groups (eng_storage en) g = Some gr" and "uint (group_epoch gr) < 2 ^ 63"
    and "list_messages (eng_storage en) g 0 = Inr records"
  shows "has_unresolved_convergence_inputs lib en g = has_unresolved_convergence_inputs_in_records lib en g gr records"
proof -
  have records: "records = filter (\<lambda>r. mr_group_id r = g) (st_messages (eng_storage en))"
    using assms(3) by (auto simp: list_messages_def result_bind_Inr)
  have "map_err ProjectionStorage (result_bind (has_messages_in_states (eng_storage en) g OUTBOUND_GATING_STATES anchor) (\<lambda>found.
          if \<not> found then Inr False
          else result_bind (list_messages_in_states (eng_storage en) g GATE_CLASSIFIER_STATES anchor) (\<lambda>rs.
            Inr (any_gating_convergence_input lib anchor ceiling rs)))) =
      Inr (any_gating_convergence_input lib anchor ceiling records)"
    if "anchor \<le> group_epoch gr" for anchor ceiling
  proof -
    have "uint anchor < 2 ^ 63" using that assms(2) by (simp add: word_le_def)
    then have listed: "list_messages (eng_storage en) g anchor = Inr (filter (\<lambda>r. mr_epoch r \<ge> anchor) records)"
      by (simp add: list_messages_def epoch_to_i64_def records conj_commute)
    have "any_gating_convergence_input lib anchor ceiling (filter (\<lambda>r. mr_epoch r \<ge> anchor) records) =
        any_gating_convergence_input lib anchor ceiling records"
      by (rule gate_ignores_rows) (auto simp: gate_input_def not_le)
    moreover have "result_bind (has_messages_in_states (eng_storage en) g OUTBOUND_GATING_STATES anchor) (\<lambda>found.
          if \<not> found then Inr False
          else result_bind (list_messages_in_states (eng_storage en) g GATE_CLASSIFIER_STATES anchor) (\<lambda>rs.
            Inr (any_gating_convergence_input lib anchor ceiling rs))) =
        result_bind (list_messages (eng_storage en) g anchor) (\<lambda>rs. Inr (any_gating_convergence_input lib anchor ceiling rs))"
    proof (rule table.probe_then_list)
      show "any_gating_convergence_input lib anchor ceiling (filter (\<lambda>r. mr_state r \<in> set GATE_CLASSIFIER_STATES) rs) =
          any_gating_convergence_input lib anchor ceiling rs" for rs
        by (rule gate_ignores_rows) (simp add: gate_input_def)
      show "\<not> any_gating_convergence_input lib anchor ceiling rs" if "\<forall>r\<in>set rs. mr_state r \<notin> set OUTBOUND_GATING_STATES" for rs
        by (rule gating_needs_open_row [OF that])
    qed (simp_all add: OUTBOUND_GATING_STATES_def GATE_CLASSIFIER_STATES_def)
    ultimately show ?thesis by (simp add: listed)
  qed
  moreover have "saturating_sub e n \<le> e" for e n :: u64 by (simp add: word_le_nat_alt sat_simps)
  ultimately show ?thesis
    using assms(1) unfolding has_unresolved_convergence_inputs_def has_unresolved_convergence_inputs_in_records_def convergence_gate_horizon_def
    by (cases "convergence_policy_for_group_ungated lib en (eng_storage en) g") (simp_all add: Let_def horizon_floor_def)
qed

theorem outbound_gate_fast_path_witness:
  "has_unresolved_convergence_inputs pass_example_lib example_engine [7] =
   has_unresolved_convergence_inputs_in_records pass_example_lib example_engine [7]
     \<lparr>group_epoch = 3, group_removed = False, group_unrecoverable = False, group_disbanded = False\<rparr> (st_messages example_storage)"
  by (rule outbound_gate_fast_path)
    (simp_all add: example_engine_def example_storage_def list_messages_def epoch_to_i64_def example_row_def)

section \<open>Restarts\<close>

text \<open>
  C28: A restart never extends a pass.  Rebased on the clock of a new process, a collecting pass keeps its wall deadlines, its
  cutoff lies no further ahead than its wall cutoff and never more than five seconds, it is due at once when the
  wall clock has gone backwards, and it is not rebased again on that clock.\<close>

theorem restart_rebase_bounded:
  assumes wf: "pass_wf g p" and rebase: "normalize_convergence_pass_for_runtime p now c = (p', True)"
  shows "cutoff_wall_ms p' = cutoff_wall_ms p \<and>
    unat (cutoff_monotonic_ms p') \<le> unat (time_monotonic_ms now) + (unat (cutoff_wall_ms p) - unat (time_wall_ms now)) \<and>
    unat (cutoff_monotonic_ms p') \<le> unat (time_monotonic_ms now) + 5000 \<and>
    (time_wall_ms now < opened_wall_ms p \<longrightarrow> cutoff_monotonic_ms p' = time_monotonic_ms now) \<and>
    normalize_convergence_pass_for_runtime p' later c = (p', False)"
proof -
  let ?left = "\<lambda>deadline. if time_wall_ms now < opened_wall_ms p then 0 else saturating_sub deadline (time_wall_ms now)"
  have p': "pass_clock_instance_id p' = c" "quiescence_deadline_wall_ms p' = quiescence_deadline_wall_ms p"
      "absolute_deadline_wall_ms p' = absolute_deadline_wall_ms p"
      "quiescence_deadline_monotonic_ms p' = saturating_add (time_monotonic_ms now) (?left (quiescence_deadline_wall_ms p))"
      "absolute_deadline_monotonic_ms p' = saturating_add (time_monotonic_ms now) (?left (absolute_deadline_wall_ms p))"
    using rebase by (auto simp: normalize_convergence_pass_for_runtime_def Let_def split: if_splits)
  have wall: "absolute_deadline_wall_ms p = saturating_add (opened_wall_ms p) 5000"
    using wf by (simp add: pass_wf_def V1_MAX_CONVERGENCE_PASS_MS_def)
  have min: "unat (min a b) = min (unat a) (unat b)" for a b :: u64 by (simp add: min_def word_le_nat_alt)
  have cutoff: "unat (cutoff_monotonic_ms p') = min (unat (quiescence_deadline_monotonic_ms p')) (unat (absolute_deadline_monotonic_ms p'))"
    by (simp add: cutoff_monotonic_ms_def min)
  have bound: "unat (cutoff_monotonic_ms p') \<le> unat (time_monotonic_ms now) + (unat (cutoff_wall_ms p) - unat (time_wall_ms now))"
    by (simp add: cutoff p'(4,5) cutoff_wall_ms_def min sat_simps min_def)
  have "unat (absolute_deadline_monotonic_ms p') \<le> unat (time_monotonic_ms now) + 5000"
    by (auto simp: p'(5) wall sat_simps word_less_nat_alt)
  then have five: "unat (cutoff_monotonic_ms p') \<le> unat (time_monotonic_ms now) + 5000" by (simp add: cutoff)
  have "normalize_convergence_pass_for_runtime p' later c = (p', False)" by (simp add: normalize_convergence_pass_for_runtime_def p'(1))
  moreover have "cutoff_monotonic_ms p' = time_monotonic_ms now" if "time_wall_ms now < opened_wall_ms p"
    using that by (simp add: cutoff_monotonic_ms_def p'(4,5))
  ultimately show ?thesis using bound five p'(2,3) by (simp add: cutoff_wall_ms_def)
qed

theorem restart_rebase_bounded_witness:
  "\<exists>p'. normalize_convergence_pass_for_runtime pass_example \<lparr>time_monotonic_ms = 3, time_wall_ms = 100520\<rparr> 2 = (p', True) \<and>
     unat (cutoff_monotonic_ms p') \<le> 503 \<and> normalize_convergence_pass_for_runtime p' \<lparr>time_monotonic_ms = 4, time_wall_ms = 0\<rparr> 2 = (p', False)"
proof -
  have wf: "pass_wf [7] pass_example" using example_open_ok example_open_storage(3) by (auto simp: storage_ok_def)
  obtain p' where p': "normalize_convergence_pass_for_runtime pass_example \<lparr>time_monotonic_ms = 3, time_wall_ms = 100520\<rparr> 2 = (p', True)"
    by (simp add: normalize_convergence_pass_for_runtime_def Let_def example_open_storage(4,8))
  have "unat (cutoff_wall_ms pass_example) = 101020"
    by (simp add: cutoff_wall_ms_def pass_example_def new_convergence_pass_def example_time_def policy_eval saturating_add_def)
  then show ?thesis using restart_rebase_bounded [OF wf p', of "\<lparr>time_monotonic_ms = 4, time_wall_ms = 0\<rparr>"] p' by auto
qed

end
