(* ===== verification/Publisher_Sequence.thy ===== *)
theory Publisher_Sequence
  imports Agent_Text_Stream
begin

text \<open>
  Publisher sequence reservation: \<open>transport-quic-stream/src/publisher_sequence.rs\<close> (the trait, its
  client \<open>reserve_publisher_records\<close> and the in-memory store) and the durable store of
  \<open>storage-sqlite/src/agent_stream_sequences.rs\<close> with its adapter
  \<open>marmot-app/src/publisher_sequences.rs\<close>.

  The trait \<open>PublisherSequenceStore\<close> is a record of operations on a state.  A table of the database
  is a map from its primary key to the row; a transaction that returns an error before \<open>commit\<close> leaves
  the table unchanged.  SQLite failures, lock poisoning and the \<open>updated_at_ms\<close> column, which no
  code reads, are not modelled.  The random token of a reservation is an argument.
\<close>

section \<open>The store interface and its client\<close>

record PublisherSequenceSnapshot =
  snap_next_seq :: u64
  snap_transcript_hash :: bytes
  snap_chunk_count :: u64

record PublisherSequenceReservation =
  resv_expected :: PublisherSequenceSnapshot
  resv_resulting :: PublisherSequenceSnapshot
  resv_token :: bytes

record 's publisher_store =
  ps_load :: "'s \<Rightarrow> bytes \<Rightarrow> string + PublisherSequenceSnapshot option"
  ps_reserve :: "'s \<Rightarrow> bytes \<Rightarrow> bytes \<Rightarrow> PublisherSequenceReservation \<Rightarrow> (string + unit) \<times> 's"
  ps_confirm :: "'s \<Rightarrow> bytes \<Rightarrow> bytes \<Rightarrow> (string + unit) \<times> 's"

datatype AgentTextStreamReceiveLimitError =
    RecordLimitExceeded u64 u64
  | PlaintextByteLimitExceeded nat nat

datatype QuicTextStreamError =
    RecordError AgentTextStreamRecordError
  | ReceiveLimit AgentTextStreamReceiveLimitError
  | ReadExact
  | EmptyStream
  | TruncatedFrameLength
  | EmptyFrame
  | FrameTooLarge nat
  | EmptyChunkSize
  | ChunkSizeTooLarge nat
  | EncryptedFrameTooLarge nat
  | MixedStreamIds
  | UnexpectedSequence u64 u64
  | Crypto string
  | PublisherSequenceStateRequired
  | PublisherSequence string

record ReservedPublisherRecords =
  rpr_records :: "AgentTextStreamRecordV1 list"
  rpr_transcript_hash :: bytes
  rpr_chunk_count :: u64
  rpr_context_id :: bytes
  rpr_token :: bytes

definition exhausted :: QuicTextStreamError where
  "exhausted = PublisherSequence ''agent stream publisher sequence exhausted''"

fun build_records ::
  "(bytes \<Rightarrow> bytes) \<Rightarrow> bytes \<Rightarrow> u64 \<Rightarrow> nat \<Rightarrow> AgentTextStreamTranscriptV1 \<Rightarrow> (u8 \<times> bytes) list
     \<Rightarrow> QuicTextStreamError + (AgentTextStreamRecordV1 list \<times> AgentTextStreamTranscriptV1)" where
  "build_records H stream_id next_seq offset transcript [] = Inr ([], transcript)"
| "build_records H stream_id next_seq offset transcript ((record_type, plaintext) # frames) =
     (case checked_add next_seq (word_of_nat offset) of
        None \<Rightarrow> Inl exhausted
      | Some seq \<Rightarrow>
          (let r = new_record stream_id seq record_type plaintext in
           case validate_record r of
             Inl e \<Rightarrow> Inl (RecordError e)
           | Inr _ \<Rightarrow>
               (case build_records H stream_id next_seq (Suc offset)
                       (append_transcript H transcript seq record_type plaintext) frames of
                  Inl e \<Rightarrow> Inl e
                | Inr (rs, t) \<Rightarrow> Inr (r # rs, t))))"

definition expected_snapshot :: "bytes \<Rightarrow> PublisherSequenceSnapshot option \<Rightarrow> PublisherSequenceSnapshot" where
  "expected_snapshot initial loaded =
     (case loaded of
        None \<Rightarrow> \<lparr>snap_next_seq = 1, snap_transcript_hash = initial, snap_chunk_count = 0\<rparr>
      | Some snap \<Rightarrow> snap)"

definition reserve_publisher_records ::
  "(bytes \<Rightarrow> bytes) \<Rightarrow> 's publisher_store option \<Rightarrow> AgentTextStreamKeyContextV1 \<Rightarrow> bytes \<Rightarrow> bytes
     \<Rightarrow> (u8 \<times> bytes) list \<Rightarrow> bytes \<Rightarrow> 's \<Rightarrow> (QuicTextStreamError + ReservedPublisherRecords) \<times> 's" where
  "reserve_publisher_records H store ctx stream_id start_event_id frames token s =
     (case store of
        None \<Rightarrow> (Inl PublisherSequenceStateRequired, s)
      | Some st \<Rightarrow>
          (let context_id = H (encode_key_context ctx);
               initial = tr_hash (new_transcript H stream_id start_event_id)
           in case ps_load st s context_id of
                Inl e \<Rightarrow> (Inl (PublisherSequence e), s)
              | Inr loaded \<Rightarrow>
                  (let expected = expected_snapshot initial loaded;
                       transcript = from_state stream_id start_event_id
                         (snap_transcript_hash expected) (snap_chunk_count expected)
                   in case build_records H stream_id (snap_next_seq expected) 0 transcript frames of
                        Inl e \<Rightarrow> (Inl e, s)
                      | Inr (records, t) \<Rightarrow>
                          (case checked_add (snap_next_seq expected) (word_of_nat (length records)) of
                             None \<Rightarrow> (Inl exhausted, s)
                           | Some next_seq \<Rightarrow>
                               (let resulting = \<lparr>snap_next_seq = next_seq, snap_transcript_hash = tr_hash t,
                                                 snap_chunk_count = tr_chunk_count t\<rparr>
                                in case ps_reserve st s context_id initial
                                          \<lparr>resv_expected = expected, resv_resulting = resulting, resv_token = token\<rparr> of
                                     (Inl e, s') \<Rightarrow> (Inl (PublisherSequence e), s')
                                   | (Inr _, s') \<Rightarrow>
                                       (Inr \<lparr>rpr_records = records, rpr_transcript_hash = tr_hash t,
                                             rpr_chunk_count = tr_chunk_count t, rpr_context_id = context_id,
                                             rpr_token = token\<rparr>, s'))))))"

definition confirm_reserved ::
  "'s publisher_store \<Rightarrow> ReservedPublisherRecords \<Rightarrow> 's \<Rightarrow> (QuicTextStreamError + unit) \<times> 's" where
  "confirm_reserved st rpr s =
     (case ps_confirm st s (rpr_context_id rpr) (rpr_token rpr) of
        (Inl e, s') \<Rightarrow> (Inl (PublisherSequence e), s')
      | (Inr _, s') \<Rightarrow> (Inr (), s'))"

section \<open>The in-memory store\<close>

type_synonym EphemeralPublisherState = "bytes \<rightharpoonup> PublisherSequenceSnapshot \<times> bytes option"

definition ephemeral_load ::
  "EphemeralPublisherState \<Rightarrow> bytes \<Rightarrow> string + PublisherSequenceSnapshot option" where
  "ephemeral_load states context_id =
     (case states context_id of
        Some (_, Some _) \<Rightarrow> Inl ''publisher continuity is ambiguous''
      | Some (snapshot, None) \<Rightarrow> Inr (Some snapshot)
      | None \<Rightarrow> Inr None)"

definition ephemeral_reserve ::
  "EphemeralPublisherState \<Rightarrow> bytes \<Rightarrow> bytes \<Rightarrow> PublisherSequenceReservation
     \<Rightarrow> (string + unit) \<times> EphemeralPublisherState" where
  "ephemeral_reserve states context_id initial reservation =
     (let conflict = (case states context_id of
                        None \<Rightarrow> False
                      | Some (cur, token) \<Rightarrow> cur \<noteq> resv_expected reservation \<or> token \<noteq> None)
      in if conflict then (Inl ''publisher state changed or is ambiguous'', states)
         else (Inr (), states(context_id \<mapsto> (resv_resulting reservation, Some (resv_token reservation)))))"

definition ephemeral_confirm ::
  "EphemeralPublisherState \<Rightarrow> bytes \<Rightarrow> bytes \<Rightarrow> (string + unit) \<times> EphemeralPublisherState" where
  "ephemeral_confirm states context_id token =
     (case states context_id of
        None \<Rightarrow> (Inl ''publisher reservation is missing'', states)
      | Some (snapshot, cur) \<Rightarrow>
          (if cur \<noteq> Some token then (Inl ''publisher reservation is not current'', states)
           else (Inr (), states(context_id \<mapsto> (snapshot, None)))))"

definition ephemeral_store :: "EphemeralPublisherState publisher_store" where
  "ephemeral_store =
     \<lparr>ps_load = ephemeral_load, ps_reserve = ephemeral_reserve, ps_confirm = ephemeral_confirm\<rparr>"

section \<open>The durable store\<close>

record sequence_row =
  row_next_seq :: int
  row_transcript_hash :: bytes
  row_chunk_count :: int
  row_reservation_token :: "bytes option"
  row_disabled :: bool

type_synonym sequence_table = "bytes \<rightharpoonup> sequence_row"

definition MAX_AGENT_STREAM_PUBLISHER_CONTEXTS :: nat where
  "MAX_AGENT_STREAM_PUBLISHER_CONTEXTS = 4096"

record AgentStreamPublisherReservationRequest =
  req_context_id :: bytes
  req_initial_transcript_hash :: bytes
  req_expected_transcript_hash :: bytes
  req_expected_chunk_count :: u64
  req_resulting_transcript_hash :: bytes
  req_record_count :: u64
  req_resulting_chunk_count :: u64
  req_token :: bytes

definition i64_max :: int where "i64_max = 2 ^ 63 - 1"

text \<open>The checks and the final update shared by a known and a new context: \<open>tbl\<close> is the table with
  the row present, \<open>orig\<close> the one a failed transaction rolls back to.\<close>
definition commit_reservation ::
  "sequence_table \<Rightarrow> sequence_table \<Rightarrow> AgentStreamPublisherReservationRequest \<Rightarrow> u64 \<Rightarrow> bytes \<Rightarrow> u64
     \<Rightarrow> (string + u64) \<times> sequence_table" where
  "commit_reservation orig tbl req first_seq current_hash current_chunks =
     (if current_hash \<noteq> req_expected_transcript_hash req \<or> current_chunks \<noteq> req_expected_chunk_count req
      then (Inl ''agent stream publisher state changed concurrently'', orig)
      else if req_resulting_chunk_count req \<noteq> saturating_add current_chunks (req_record_count req)
      then (Inl ''agent stream transcript count does not match reservation'', orig)
      else case checked_add first_seq (req_record_count req) of
             None \<Rightarrow> (Inl ''agent stream publisher sequence exhausted'', orig)
           | Some next_seq \<Rightarrow>
               (if uint next_seq > i64_max then (Inl ''agent stream publisher sequence exhausted'', orig)
                else if uint (req_resulting_chunk_count req) > i64_max
                then (Inl ''agent stream publisher chunk count exhausted'', orig)
                else (Inr first_seq,
                      tbl(req_context_id req \<mapsto>
                        \<lparr>row_next_seq = uint next_seq,
                         row_transcript_hash = req_resulting_transcript_hash req,
                         row_chunk_count = uint (req_resulting_chunk_count req),
                         row_reservation_token = Some (req_token req),
                         row_disabled = (case tbl (req_context_id req) of None \<Rightarrow> False | Some r \<Rightarrow> row_disabled r)\<rparr>))))"

definition reserve_agent_stream_publisher_records ::
  "sequence_table \<Rightarrow> AgentStreamPublisherReservationRequest \<Rightarrow> (string + u64) \<times> sequence_table" where
  "reserve_agent_stream_publisher_records tbl req =
     (if req_record_count req = 0 then (Inl ''agent stream reservation cannot be empty'', tbl)
      else case tbl (req_context_id req) of
        Some row \<Rightarrow>
          (if row_disabled row \<or> row_reservation_token row \<noteq> None
           then (Inl ''agent stream publisher continuity is ambiguous'',
                 tbl(req_context_id req \<mapsto> row\<lparr>row_disabled := True\<rparr>))
           else if length (row_transcript_hash row) \<noteq> 32 \<or> row_chunk_count row < 0 \<or> row_next_seq row < 1
           then (Inl ''agent stream publisher state is corrupt'', tbl)
           else commit_reservation tbl tbl req (word_of_int (row_next_seq row)) (row_transcript_hash row)
                  (word_of_int (row_chunk_count row)))
      | None \<Rightarrow>
          (if card (dom tbl) \<ge> MAX_AGENT_STREAM_PUBLISHER_CONTEXTS
           then (Inl ''agent stream publisher state limit reached'', tbl)
           else commit_reservation tbl
                  (tbl(req_context_id req \<mapsto>
                     \<lparr>row_next_seq = 1, row_transcript_hash = req_initial_transcript_hash req,
                      row_chunk_count = 0, row_reservation_token = None, row_disabled = False\<rparr>))
                  req 1 (req_initial_transcript_hash req) 0))"

definition confirm_agent_stream_publisher_reservation ::
  "sequence_table \<Rightarrow> bytes \<Rightarrow> bytes \<Rightarrow> (string + unit) \<times> sequence_table" where
  "confirm_agent_stream_publisher_reservation tbl context_id token =
     (case tbl context_id of
        Some row \<Rightarrow>
          (if row_reservation_token row = Some token \<and> \<not> row_disabled row
           then (Inr (), tbl(context_id \<mapsto> row\<lparr>row_reservation_token := None\<rparr>))
           else (Inl ''agent stream publisher reservation is not current'', tbl))
      | None \<Rightarrow> (Inl ''agent stream publisher reservation is not current'', tbl))"

record AgentStreamPublisherState =
  asp_next_seq :: u64
  asp_transcript_hash :: bytes
  asp_chunk_count :: u64
  asp_ambiguous :: bool

definition u64_or_default :: "int \<Rightarrow> u64" where
  "u64_or_default n = (if 0 \<le> n then word_of_int n else 0)"

definition agent_stream_publisher_state ::
  "sequence_table \<Rightarrow> bytes \<Rightarrow> string + AgentStreamPublisherState option" where
  "agent_stream_publisher_state tbl context_id =
     (case tbl context_id of
        None \<Rightarrow> Inr None
      | Some row \<Rightarrow>
          (if length (row_transcript_hash row) \<noteq> 32 then Inl ''transcript_hash''
           else Inr (Some \<lparr>asp_next_seq = u64_or_default (row_next_seq row),
                           asp_transcript_hash = row_transcript_hash row,
                           asp_chunk_count = u64_or_default (row_chunk_count row),
                           asp_ambiguous = (row_reservation_token row \<noteq> None \<or> row_disabled row)\<rparr>)))"

definition sqlite_load :: "sequence_table \<Rightarrow> bytes \<Rightarrow> string + PublisherSequenceSnapshot option" where
  "sqlite_load tbl context_id =
     (case agent_stream_publisher_state tbl context_id of
        Inl e \<Rightarrow> Inl e
      | Inr None \<Rightarrow> Inr None
      | Inr (Some state) \<Rightarrow>
          (if asp_ambiguous state then Inl ''publisher continuity is ambiguous''
           else if asp_next_seq state = 0 then Inl ''publisher sequence state is corrupt''
           else Inr (Some \<lparr>snap_next_seq = asp_next_seq state,
                           snap_transcript_hash = asp_transcript_hash state,
                           snap_chunk_count = asp_chunk_count state\<rparr>)))"

definition checked_sub :: "u64 \<Rightarrow> u64 \<Rightarrow> u64 option" where
  "checked_sub a b = (if b \<le> a then Some (a - b) else None)"

definition sqlite_reserve ::
  "sequence_table \<Rightarrow> bytes \<Rightarrow> bytes \<Rightarrow> PublisherSequenceReservation \<Rightarrow> (string + unit) \<times> sequence_table" where
  "sqlite_reserve tbl context_id initial reservation =
     (case checked_sub (snap_chunk_count (resv_resulting reservation)) (snap_chunk_count (resv_expected reservation)) of
        None \<Rightarrow> (Inl ''publisher transcript count regressed'', tbl)
      | Some record_count \<Rightarrow>
          (case reserve_agent_stream_publisher_records tbl
                  \<lparr>req_context_id = context_id, req_initial_transcript_hash = initial,
                   req_expected_transcript_hash = snap_transcript_hash (resv_expected reservation),
                   req_expected_chunk_count = snap_chunk_count (resv_expected reservation),
                   req_resulting_transcript_hash = snap_transcript_hash (resv_resulting reservation),
                   req_record_count = record_count,
                   req_resulting_chunk_count = snap_chunk_count (resv_resulting reservation),
                   req_token = resv_token reservation\<rparr> of
             (Inl e, tbl') \<Rightarrow> (Inl e, tbl')
           | (Inr _, tbl') \<Rightarrow> (Inr (), tbl')))"

definition sqlite_store :: "sequence_table publisher_store" where
  "sqlite_store =
     \<lparr>ps_load = sqlite_load, ps_reserve = sqlite_reserve,
      ps_confirm = confirm_agent_stream_publisher_reservation\<rparr>"

section \<open>The contract of a store\<close>

text \<open>A snapshot is consistent when its next sequence number is one above its chunk count, and a
  reservation when both of its snapshots are and it does not go backwards.\<close>

definition consistent :: "PublisherSequenceSnapshot \<Rightarrow> bool" where
  "consistent snap = (unat (snap_next_seq snap) = unat (snap_chunk_count snap) + 1)"

definition wf_reservation :: "PublisherSequenceReservation \<Rightarrow> bool" where
  "wf_reservation r =
     (consistent (resv_expected r) \<and> consistent (resv_resulting r) \<and>
      snap_next_seq (resv_expected r) \<le> snap_next_seq (resv_resulting r))"

datatype store_op =
    Reserve (op_context: bytes) bytes PublisherSequenceReservation
  | Confirm (op_context: bytes) bytes

fun wf_op :: "store_op \<Rightarrow> bool" where
  "wf_op (Reserve _ _ r) = wf_reservation r"
| "wf_op (Confirm _ _) = True"

fun store_step :: "'s publisher_store \<Rightarrow> 's \<Rightarrow> store_op \<Rightarrow> (bytes \<times> PublisherSequenceReservation) list \<times> 's" where
  "store_step st s (Reserve c h r) =
     (case ps_reserve st s c h r of (Inl _, s') \<Rightarrow> ([], s') | (Inr _, s') \<Rightarrow> ([(c, r)], s'))"
| "store_step st s (Confirm c t) = ([], snd (ps_confirm st s c t))"

text \<open>
  A run on one store: publications, store operations of other processes that share it, confirmations, and restarts. A
  process reserves after it has loaded, so a reservation of another process may arrive between the two calls; such a
  reservation stands on its own. The result lists every grant with its context and the sequence numbers it covers: the
  numbers of the records built for a publication, and the range between its two snapshots for another process's
  reservation. What a restart leaves of the state is the argument \<open>restart\<close>: the durable store keeps its table, the
  in-memory store starts empty.
\<close>

datatype client_op =
    Publish AgentTextStreamKeyContextV1 bytes bytes "(u8 \<times> bytes) list" bytes
  | Raw store_op
  | Restart

fun wf_client_op :: "client_op \<Rightarrow> bool" where
  "wf_client_op (Publish _ _ _ frames _) = (length frames < 2 ^ 64)"
| "wf_client_op (Raw op) = wf_op op"
| "wf_client_op Restart = True"

definition sqlite_restart :: "sequence_table \<Rightarrow> sequence_table" where
  "sqlite_restart tbl = tbl"

definition ephemeral_restart :: "EphemeralPublisherState \<Rightarrow> EphemeralPublisherState" where
  "ephemeral_restart states = Map.empty"

definition reserved_numbers :: "PublisherSequenceReservation \<Rightarrow> u64 list" where
  "reserved_numbers r =
     map word_of_nat [unat (snap_next_seq (resv_expected r))..<unat (snap_next_seq (resv_resulting r))]"

fun client_step ::
  "(bytes \<Rightarrow> bytes) \<Rightarrow> 's publisher_store \<Rightarrow> ('s \<Rightarrow> 's) \<Rightarrow> 's \<Rightarrow> client_op \<Rightarrow> (bytes \<times> u64 list) list \<times> 's" where
  "client_step H st restart s (Publish ctx sid eid frames token) =
     (case reserve_publisher_records H (Some st) ctx sid eid frames token s of
        (Inl _, s') \<Rightarrow> ([], s')
      | (Inr rpr, s') \<Rightarrow> ([(rpr_context_id rpr, map rec_seq (rpr_records rpr))], s'))"
| "client_step H st restart s (Raw op) =
     (let (g, s') = store_step st s op in (map (map_prod id reserved_numbers) g, s'))"
| "client_step H st restart s Restart = ([], restart s)"

fun run_client ::
  "(bytes \<Rightarrow> bytes) \<Rightarrow> 's publisher_store \<Rightarrow> ('s \<Rightarrow> 's) \<Rightarrow> 's \<Rightarrow> client_op list \<Rightarrow> (bytes \<times> u64 list) list \<times> 's" where
  "run_client H st restart s [] = ([], s)"
| "run_client H st restart s (op # ops) =
     (let (g, s') = client_step H st restart s op; (gs, s'') = run_client H st restart s' ops in (g @ gs, s''))"

definition sequence_numbers :: "bytes \<Rightarrow> (bytes \<times> u64 list) list \<Rightarrow> u64 list" where
  "sequence_numbers c gs = concat (map (\<lambda>(d, ns). if d = c then ns else []) gs)"

lemma reserved_numbers_spec:
  "sorted_wrt (<) (reserved_numbers r)"
  "n \<in> set (reserved_numbers r) \<Longrightarrow>
     unat (snap_next_seq (resv_expected r)) \<le> unat n \<and> unat n < unat (snap_next_seq (resv_resulting r))"
proof -
  have small: "unat (word_of_nat k :: u64) = k" if "k < unat (snap_next_seq (resv_resulting r))" for k
    using that unat_less_exp [of "snap_next_seq (resv_resulting r)"] by (intro unat_word_of_nat) simp
  show "sorted_wrt (<) (reserved_numbers r)"
    unfolding reserved_numbers_def sorted_wrt_map
    by (rule sorted_wrt_mono_rel [OF _ sorted_wrt_upt]) (simp add: word_less_nat_alt small)
  show "n \<in> set (reserved_numbers r) \<Longrightarrow>
     unat (snap_next_seq (resv_expected r)) \<le> unat n \<and> unat n < unat (snap_next_seq (resv_resulting r))"
    by (auto simp: reserved_numbers_def small)
qed

section \<open>The records of one batch\<close>

lemma build_records_spec:
  assumes "build_records H sid next off t frames = Inr (rs, t')" and "off + length frames < 2 ^ 64"
  shows "length rs = length frames \<and> tr_chunk_count t' = tr_chunk_count t + word_of_nat (length frames) \<and>
    (\<forall>i<length rs. unat (rec_seq (rs ! i)) = unat next + (off + i))"
  using assms
proof (induction frames arbitrary: off t rs)
  case (Cons f frames)
  obtain ty pt where f: "f = (ty, pt)" by force
  obtain seq rs' where seq: "checked_add next (word_of_nat off) = Some seq"
    and rest: "build_records H sid next (Suc off) (append_transcript H t seq ty pt) frames = Inr (rs', t')"
    and rs: "rs = new_record sid seq ty pt # rs'"
    using Cons.prems(1) by (auto simp: f Let_def split: option.splits sum.splits)
  have "unat (word_of_nat off :: u64) = off" using Cons.prems(2) by (intro unat_word_of_nat) simp
  then have "unat seq = unat next + off" using seq by (simp only: checked_add_Some)
  moreover have "length rs' = length frames \<and>
      tr_chunk_count t' = tr_chunk_count (append_transcript H t seq ty pt) + word_of_nat (length frames) \<and>
      (\<forall>i<length rs'. unat (rec_seq (rs' ! i)) = unat next + (Suc off + i))"
    using Cons.IH [OF rest] Cons.prems(2) by simp
  ultimately show ?case
    by (auto simp: rs new_record_def append_transcript_def nth_Cons' algebra_simps)
qed simp

lemma publish_cases:
  assumes "reserve_publisher_records H (Some st) ctx sid eid frames token s = (res, s')"
    and "length frames < 2 ^ 64"
    and load: "\<forall>snap. ps_load st s (H (encode_key_context ctx)) = Inr (Some snap) \<longrightarrow> consistent snap"
  obtains (unchanged) e where "res = Inl e" "s' = s"
  | (asked) h r res' where "wf_reservation r" "resv_token r = token"
      "\<exists>o'. ps_load st s (H (encode_key_context ctx)) = Inr o'"
      "ps_reserve st s (H (encode_key_context ctx)) h r = (res', s')"
      "\<And>e. res' = Inl e \<Longrightarrow> \<exists>e'. res = Inl e'"
      "\<And>u. res' = Inr u \<Longrightarrow> \<exists>rpr. res = Inr rpr \<and> rpr_context_id rpr = H (encode_key_context ctx) \<and>
         unat (snap_next_seq (resv_resulting r)) = unat (snap_next_seq (resv_expected r)) + length (rpr_records rpr) \<and>
         (\<forall>i<length (rpr_records rpr).
            unat (rec_seq (rpr_records rpr ! i)) = unat (snap_next_seq (resv_expected r)) + i)"
proof -
  let ?c = "H (encode_key_context ctx)" and ?init = "tr_hash (new_transcript H sid eid)"
  show thesis
  proof (cases "ps_load st s ?c")
    case (Inl e)
    then show thesis using assms(1) unchanged by (auto simp: reserve_publisher_records_def)
  next
    case (Inr loaded)
    define ex where "ex = expected_snapshot ?init loaded"
    have ex: "consistent ex"
      using load Inr by (auto simp: ex_def expected_snapshot_def consistent_def split: option.splits)
    let ?t = "from_state sid eid (snap_transcript_hash ex) (snap_chunk_count ex)"
    show thesis
    proof (cases "build_records H sid (snap_next_seq ex) 0 ?t frames")
      case (Inl e)
      then show thesis
        using assms(1) unchanged Inr by (auto simp: reserve_publisher_records_def Let_def ex_def)
    next
      case built: (Inr x)
      obtain rs t where x: "x = (rs, t)" by force
      note B = build_records_spec [OF built [unfolded x]]
      show thesis
      proof (cases "checked_add (snap_next_seq ex) (word_of_nat (length rs))")
        case None
        then show thesis
          using assms(1) unchanged Inr built x by (auto simp: reserve_publisher_records_def Let_def ex_def)
      next
        case (Some nseq)
        have len: "length rs < 2 ^ 64" using B assms(2) by simp
        have wlen: "unat (word_of_nat (length rs) :: u64) = length rs" using len by (intro unat_word_of_nat) simp
        have nseq: "unat nseq = unat (snap_next_seq ex) + length rs"
          using Some wlen by (simp only: checked_add_Some)
        have chunk: "tr_chunk_count t = snap_chunk_count ex + word_of_nat (length rs)"
          using B assms(2) by (simp add: from_state_def)
        have "unat (snap_chunk_count ex) + length rs < 2 ^ 64"
          using nseq ex unat_less_exp [of nseq] by (simp add: consistent_def)
        then have chunk': "unat (tr_chunk_count t) = unat (snap_chunk_count ex) + length rs"
          unfolding chunk using wlen by (subst unat_add_no_overflow) simp_all
        define r where "r = \<lparr>resv_expected = ex, resv_resulting = \<lparr>snap_next_seq = nseq,
          snap_transcript_hash = tr_hash t, snap_chunk_count = tr_chunk_count t\<rparr>, resv_token = token\<rparr>"
        have wf: "wf_reservation r"
          using ex nseq chunk' by (simp add: wf_reservation_def r_def consistent_def word_le_nat_alt)
        obtain res' s1 where res': "ps_reserve st s ?c ?init r = (res', s1)" by force
        have out: "(res, s') = (case res' of Inl e \<Rightarrow> (Inl (PublisherSequence e), s1)
            | Inr _ \<Rightarrow> (Inr \<lparr>rpr_records = rs, rpr_transcript_hash = tr_hash t, rpr_chunk_count = tr_chunk_count t,
                rpr_context_id = ?c, rpr_token = token\<rparr>, s1))"
          using assms(1) Inr built x Some res'
          by (simp add: reserve_publisher_records_def Let_def ex_def r_def split: sum.splits)
        show thesis
          by (rule asked [OF wf, where h = ?init and res' = res'])
             (use out res' nseq B assms(2) Inr in \<open>auto simp: r_def split: sum.splits\<close>)
      qed
    qed
  qed
qed

section \<open>What every store guarantees its publishers\<close>

locale publisher_sequence_store =
  fixes st :: "'s publisher_store"
    and inv :: "'s \<Rightarrow> bool"
    and high :: "'s \<Rightarrow> bytes \<Rightarrow> nat"
    and holder :: "'s \<Rightarrow> bytes \<Rightarrow> bytes option"
  assumes load_known: "inv s \<Longrightarrow> ps_load st s c = Inr (Some snap) \<Longrightarrow> consistent snap"
    and held_load: "holder s c \<noteq> None \<Longrightarrow> \<exists>e. ps_load st s c = Inl e"
    and reserve_granted: "inv s \<Longrightarrow> wf_reservation r \<Longrightarrow> ps_reserve st s c h r = (Inr u, s') \<Longrightarrow>
      inv s' \<and> holder s c = None \<and> high s c \<le> unat (snap_next_seq (resv_expected r)) \<and>
      high s' = (high s)(c := unat (snap_next_seq (resv_resulting r))) \<and>
      holder s' = (holder s)(c \<mapsto> resv_token r)"
    and reserve_refused: "inv s \<Longrightarrow> wf_reservation r \<Longrightarrow> ps_reserve st s c h r = (Inl e, s') \<Longrightarrow>
      inv s' \<and> high s' = high s \<and> holder s' = holder s"
    and confirm_effect: "inv s \<Longrightarrow> ps_confirm st s c t = (res, s') \<Longrightarrow>
      inv s' \<and> high s' = high s \<and> (\<forall>d t'. (d, t') \<noteq> (c, t) \<longrightarrow> holder s d = Some t' \<longrightarrow> holder s' d = Some t')"
begin

lemma step_spec:
  assumes "inv s" and "wf_op op" and "store_step st s op = (g, s')"
  shows "inv s' \<and> (\<forall>c. high s c \<le> high s' c) \<and>
    (\<forall>(c, r)\<in>set g. wf_reservation r \<and> high s c \<le> unat (snap_next_seq (resv_expected r)) \<and>
       unat (snap_next_seq (resv_resulting r)) \<le> high s' c) \<and> length g \<le> 1"
proof (cases op)
  case (Reserve c h r)
  then have wf: "wf_reservation r" using assms(2) by simp
  then have le: "unat (snap_next_seq (resv_expected r)) \<le> unat (snap_next_seq (resv_resulting r))"
    by (simp add: wf_reservation_def word_le_nat_alt)
  show ?thesis
    using reserve_granted [OF assms(1) wf] reserve_refused [OF assms(1) wf] assms(3) le wf Reserve
    by (auto split: prod.splits sum.splits) fastforce+
next
  case (Confirm c t)
  then show ?thesis
    using confirm_effect [OF assms(1), of c t] assms(3) by (cases "ps_confirm st s c t") auto
qed

lemma client_step_spec:
  assumes "inv s" and "wf_client_op op" and "client_step H st restart s op = (g, s')" and "op = Restart \<Longrightarrow> restart s = s"
  shows "inv s' \<and> (\<forall>c. high s c \<le> high s' c) \<and>
    (\<forall>c. sorted_wrt (<) (sequence_numbers c g) \<and>
       (\<forall>n\<in>set (sequence_numbers c g). high s c \<le> unat n \<and> unat n < high s' c))"
proof (cases op)
  case (Raw sop)
  obtain g' where step: "store_step st s sop = (g', s')" and g: "g = map (map_prod id reserved_numbers) g'"
    using assms(3) Raw by (auto split: prod.splits)
  have wf: "wf_op sop" using assms(2) Raw by simp
  note S = step_spec [OF assms(1) wf step]
  show ?thesis
  proof (cases g')
    case Nil
    then show ?thesis using S by (simp add: g sequence_numbers_def)
  next
    case (Cons x xs)
    then obtain d r where g': "g' = [(d, r)]" using S by (cases x) auto
    have "high s d \<le> unat n \<and> unat n < high s' d" if "n \<in> set (reserved_numbers r)" for n
      using reserved_numbers_spec(2) [OF that] S by (auto simp: g')
    then show ?thesis using S by (auto simp: g g' sequence_numbers_def reserved_numbers_spec(1))
  qed
next
  case Restart
  then show ?thesis using assms by (simp add: sequence_numbers_def)
next
  case (Publish ctx sid eid frames token)
  let ?c = "H (encode_key_context ctx)"
  obtain res where res: "reserve_publisher_records H (Some st) ctx sid eid frames token s = (res, s')"
    and g: "g = (case res of Inl _ \<Rightarrow> [] | Inr rpr \<Rightarrow> [(rpr_context_id rpr, map rec_seq (rpr_records rpr))])"
    using assms(3) Publish by (auto split: prod.splits sum.splits)
  have len: "length frames < 2 ^ 64" using assms(2) Publish by simp
  have load: "\<forall>snap. ps_load st s ?c = Inr (Some snap) \<longrightarrow> consistent snap"
    using load_known [OF assms(1)] by blast
  from res len load show ?thesis
  proof (cases rule: publish_cases)
    case (unchanged e)
    then show ?thesis using assms(1) by (simp add: g sequence_numbers_def)
  next
    case (asked h r res')
    show ?thesis
    proof (cases res')
      case (Inl e)
      then show ?thesis
        using asked(5) reserve_refused [OF assms(1) asked(1)] asked(4) by (auto simp: g sequence_numbers_def)
    next
      case (Inr u)
      then obtain rpr where rpr: "res = Inr rpr" "rpr_context_id rpr = ?c"
          "unat (snap_next_seq (resv_resulting r)) =
             unat (snap_next_seq (resv_expected r)) + length (rpr_records rpr)"
          "\<And>i. i < length (rpr_records rpr) \<Longrightarrow>
             unat (rec_seq (rpr_records rpr ! i)) = unat (snap_next_seq (resv_expected r)) + i"
        using asked(6) by blast
      note G = reserve_granted [OF assms(1) asked(1) asked(4) [unfolded Inr]]
      have seqs: "sequence_numbers d g = (if d = ?c then map rec_seq (rpr_records rpr) else [])" for d
        by (simp add: g rpr(1,2) sequence_numbers_def)
      have "sorted_wrt (<) (map rec_seq (rpr_records rpr))"
        by (auto simp: sorted_wrt_iff_nth_less word_less_nat_alt rpr(4))
      moreover have "high s ?c \<le> unat n \<and> unat n < high s' ?c" if "n \<in> rec_seq ` set (rpr_records rpr)" for n
        using that G rpr(3,4) by (auto simp: in_set_conv_nth)
      ultimately show ?thesis using G rpr(3) by (auto simp: seqs)
    qed
  qed
qed

lemma sequence_numbers_append: "sequence_numbers c (g @ gs) = sequence_numbers c g @ sequence_numbers c gs"
  by (simp add: sequence_numbers_def)

lemma client_run_spec:
  assumes "inv s" and "list_all wf_client_op ops" and "run_client H st restart s ops = (gs, s')"
    and "Restart \<in> set ops \<Longrightarrow> \<forall>s. restart s = s"
  shows "inv s' \<and> (\<forall>c. high s c \<le> high s' c) \<and>
    (\<forall>c. sorted_wrt (<) (sequence_numbers c gs) \<and>
       (\<forall>n\<in>set (sequence_numbers c gs). high s c \<le> unat n \<and> unat n < high s' c))"
  using assms
proof (induction ops arbitrary: s gs)
  case (Cons op ops)
  obtain g s1 where step: "client_step H st restart s op = (g, s1)" by force
  obtain rest where run: "run_client H st restart s1 ops = (rest, s')" and gs: "gs = g @ rest"
    using Cons.prems(3) by (auto simp: step split: prod.splits)
  have S: "inv s1 \<and> (\<forall>c. high s c \<le> high s1 c) \<and> (\<forall>c. sorted_wrt (<) (sequence_numbers c g) \<and>
      (\<forall>n\<in>set (sequence_numbers c g). high s c \<le> unat n \<and> unat n < high s1 c))"
    using Cons.prems(2,4) by (intro client_step_spec [OF Cons.prems(1) _ step]) auto
  have I: "inv s' \<and> (\<forall>c. high s1 c \<le> high s' c) \<and> (\<forall>c. sorted_wrt (<) (sequence_numbers c rest) \<and>
      (\<forall>n\<in>set (sequence_numbers c rest). high s1 c \<le> unat n \<and> unat n < high s' c))"
    using Cons.prems(2,4) S run by (intro Cons.IH) auto
  have "x < y" if "x \<in> set (sequence_numbers c g)" "y \<in> set (sequence_numbers c rest)" for x y c
    unfolding word_less_nat_alt using S I that by (meson less_le_trans)
  then have "sorted_wrt (<) (sequence_numbers c g @ sequence_numbers c rest)" for c
    using S I by (simp add: sorted_wrt_append)
  moreover have "high s c \<le> unat n \<and> unat n < high s' c"
    if "n \<in> set (sequence_numbers c g) \<union> set (sequence_numbers c rest)" for n c
    using that S I by (meson Un_iff order_trans less_le_trans)
  moreover have "high s c \<le> high s' c" for c using S I by (meson order_trans)
  ultimately show ?case using I by (auto simp: gs sequence_numbers_append)
qed (simp add: sequence_numbers_def)

lemma client_run_inv:
  assumes "inv s" and "list_all wf_client_op ops" and "\<And>s. inv s \<Longrightarrow> inv (restart s)"
  shows "inv (snd (run_client H st restart s ops))"
  using assms(1,2)
proof (induction ops arbitrary: s)
  case (Cons op ops)
  obtain g s1 where step: "client_step H st restart s op = (g, s1)" by force
  have wf: "wf_client_op op" "list_all wf_client_op ops" using Cons.prems(2) by auto
  have "inv s1"
    using client_step_spec [OF Cons.prems(1) wf(1) step] assms(3) [OF Cons.prems(1)] step by (cases op) auto
  then show ?case using Cons.IH [OF _ wf(2)] by (simp add: step case_prod_unfold Let_def)
qed simp

lemma client_step_holder:
  assumes "inv s" and "wf_client_op op" and "client_step H st restart s op = (g, s')" and "op = Restart \<Longrightarrow> restart s = s"
  shows "\<forall>c t. holder s c = Some t \<longrightarrow> op \<noteq> Raw (Confirm c t) \<longrightarrow> holder s' c = Some t \<and> c \<notin> fst ` set g"
    and "\<forall>ctx sid eid frames t. op = Publish ctx sid eid frames t \<longrightarrow> g \<noteq> [] \<longrightarrow>
      (\<exists>rs. g = [(H (encode_key_context ctx), rs)]) \<and> holder s' (H (encode_key_context ctx)) = Some t"
proof -
  have raw: "holder s' c = Some t \<and> c \<notin> fst ` set g"
    if "op = Raw sop" "holder s c = Some t" "sop \<noteq> Confirm c t" for sop c t
  proof (cases sop)
    case (Reserve d h r)
    then have wf: "wf_reservation r" using assms(2) that(1) by simp
    show ?thesis
      using reserve_granted [OF assms(1) wf, of d h] reserve_refused [OF assms(1) wf, of d h] that assms(3) Reserve
      by (auto split: prod.splits sum.splits)
  next
    case (Confirm d t')
    then show ?thesis
      using confirm_effect [OF assms(1), of d t'] that assms(3) by (cases "ps_confirm st s d t'") fastforce
  qed
  have pub: "(\<forall>c t. holder s c = Some t \<longrightarrow> holder s' c = Some t \<and> c \<notin> fst ` set g) \<and>
      (g \<noteq> [] \<longrightarrow> (\<exists>rs. g = [(H (encode_key_context ctx), rs)]) \<and> holder s' (H (encode_key_context ctx)) = Some token)"
    if op: "op = Publish ctx sid eid frames token" for ctx sid eid frames token
  proof -
    let ?c = "H (encode_key_context ctx)"
    obtain res where res: "reserve_publisher_records H (Some st) ctx sid eid frames token s = (res, s')"
      and g: "g = (case res of Inl _ \<Rightarrow> [] | Inr rpr \<Rightarrow> [(rpr_context_id rpr, map rec_seq (rpr_records rpr))])"
      using assms(3) op by (auto split: prod.splits sum.splits)
    have len: "length frames < 2 ^ 64" using assms(2) op by simp
    have load: "\<forall>snap. ps_load st s ?c = Inr (Some snap) \<longrightarrow> consistent snap"
      using load_known [OF assms(1)] by blast
    from res len load show ?thesis
    proof (cases rule: publish_cases)
      case (unchanged e)
      then show ?thesis by (simp add: g)
    next
      case (asked h r res')
      show ?thesis
      proof (cases res')
        case (Inl e)
        then show ?thesis
          using asked(5) reserve_refused [OF assms(1) asked(1)] asked(4) by (auto simp: g)
      next
        case (Inr u)
        note G = reserve_granted [OF assms(1) asked(1) asked(4) [unfolded Inr]]
        obtain rpr where "res = Inr rpr" "rpr_context_id rpr = ?c" using asked(6) [OF Inr] by blast
        then show ?thesis using G asked(2) by (auto simp: g)
      qed
    qed
  qed
  show "\<forall>c t. holder s c = Some t \<longrightarrow> op \<noteq> Raw (Confirm c t) \<longrightarrow> holder s' c = Some t \<and> c \<notin> fst ` set g"
    using raw pub assms(3,4) by (cases op) auto
  show "\<forall>ctx sid eid frames t. op = Publish ctx sid eid frames t \<longrightarrow> g \<noteq> [] \<longrightarrow>
      (\<exists>rs. g = [(H (encode_key_context ctx), rs)]) \<and> holder s' (H (encode_key_context ctx)) = Some t"
    using pub by blast
qed

text \<open>While a reservation is outstanding, nothing is granted for its context.\<close>

lemma held_until_confirmed:
  assumes "inv s" and "list_all wf_client_op ops" and "holder s c = Some t"
    and "Raw (Confirm c t) \<notin> set ops" and "run_client H st restart s ops = (gs, s')"
    and "Restart \<in> set ops \<Longrightarrow> \<forall>s. restart s = s"
  shows "holder s' c = Some t \<and> c \<notin> fst ` set gs"
  using assms
proof (induction ops arbitrary: s gs)
  case (Cons op ops)
  obtain g s1 where step: "client_step H st restart s op = (g, s1)" by force
  obtain rest where run: "run_client H st restart s1 ops = (rest, s')" and gs: "gs = g @ rest"
    using Cons.prems(5) by (auto simp: step split: prod.splits)
  have wf: "wf_client_op op" "list_all wf_client_op ops" using Cons.prems(2) by auto
  have "holder s1 c = Some t \<and> c \<notin> fst ` set g"
    using client_step_holder(1) [OF Cons.prems(1) wf(1) step] Cons.prems(3,4,6) by auto
  moreover have "inv s1" using client_step_spec [OF Cons.prems(1) wf(1) step] Cons.prems(6) by auto
  ultimately show ?case using Cons.IH [of s1 rest] wf(2) Cons.prems(4,6) run gs by auto
qed auto

lemma unconfirmed_blocks:
  assumes "inv s0" and "list_all wf_client_op before" and "\<And>s. inv s \<Longrightarrow> inv (restart s)"
    and "length frames < 2 ^ 64" and "list_all wf_client_op later"
    and "Raw (Confirm (H (encode_key_context ctx)) t) \<notin> set later"
    and "Restart \<in> set later \<Longrightarrow> \<forall>s. restart s = s"
  shows "let (_, s) = run_client H st restart s0 before;
             (g, s') = client_step H st restart s (Publish ctx sid eid frames t)
         in g \<noteq> [] \<longrightarrow> H (encode_key_context ctx) \<notin> fst ` set (fst (run_client H st restart s' later))"
proof -
  let ?c = "H (encode_key_context ctx)"
  obtain gs s where run: "run_client H st restart s0 before = (gs, s)" by force
  obtain g s' where step: "client_step H st restart s (Publish ctx sid eid frames t) = (g, s')" by force
  have s: "inv s" using client_run_inv [where H = H and restart = restart, OF assms(1-3)] run by simp
  have wf: "wf_client_op (Publish ctx sid eid frames t)" using assms(4) by simp
  have "?c \<notin> fst ` set (fst (run_client H st restart s' later))" if "g \<noteq> []"
  proof -
    have "holder s' ?c = Some t" using client_step_holder(2) [OF s wf step] that by blast
    moreover have "inv s'" using client_step_spec [OF s wf step] by blast
    ultimately show ?thesis
      using held_until_confirmed [OF _ assms(5) _ assms(6)] assms(7) by (cases "run_client H st restart s' later") auto
  qed
  then show ?thesis by (simp only: run step case_prod_conv Let_def) simp
qed

end

section \<open>Both stores meet the contract\<close>

definition ephemeral_inv :: "EphemeralPublisherState \<Rightarrow> bool" where
  "ephemeral_inv states = (\<forall>c. pred_option (\<lambda>x. consistent (fst x)) (states c))"

definition ephemeral_high :: "EphemeralPublisherState \<Rightarrow> bytes \<Rightarrow> nat" where
  "ephemeral_high states c = (case states c of None \<Rightarrow> 1 | Some (snap, _) \<Rightarrow> unat (snap_next_seq snap))"

definition ephemeral_holder :: "EphemeralPublisherState \<Rightarrow> bytes \<Rightarrow> bytes option" where
  "ephemeral_holder states c = (case states c of None \<Rightarrow> None | Some (_, t) \<Rightarrow> t)"

lemma consistent_pos: "consistent snap \<Longrightarrow> 1 \<le> unat (snap_next_seq snap)"
  by (simp add: consistent_def)

lemmas ephemeral_view = ephemeral_inv_def ephemeral_holder_def ephemeral_high_def option.pred_inject

lemma ephemeral_invD: "ephemeral_inv s \<Longrightarrow> s c = Some (snap, t) \<Longrightarrow> consistent snap"
  unfolding ephemeral_inv_def by (drule spec [of _ c]) simp

lemma ephemeral_reserve_cases:
  assumes "ephemeral_reserve s c h r = (res, s')"
  obtains (refused) e where "res = Inl e" "s' = s"
  | (granted) "res = Inr ()" "s' = s(c \<mapsto> (resv_resulting r, Some (resv_token r)))"
      "s c = None \<or> s c = Some (resv_expected r, None)"
  using assms
  by (cases "s c"; cases "snd (the (s c))") (auto simp: ephemeral_reserve_def split: if_splits)

lemma ephemeral_confirm_cases:
  assumes "ephemeral_confirm s c t = (res, s')"
  obtains "s' = s" | snap where "s c = Some (snap, Some t)" "s' = s(c \<mapsto> (snap, None))"
  using assms by (auto simp: ephemeral_confirm_def split: if_splits option.splits)

interpretation ephemeral: publisher_sequence_store ephemeral_store ephemeral_inv ephemeral_high ephemeral_holder
proof unfold_locales
  fix s c h r u s'
  assume "ephemeral_inv s" "wf_reservation r" "ps_reserve ephemeral_store s c h r = (Inr u, s')"
  then show "ephemeral_inv s' \<and> ephemeral_holder s c = None \<and>
      ephemeral_high s c \<le> unat (snap_next_seq (resv_expected r)) \<and>
      ephemeral_high s' = (ephemeral_high s)(c := unat (snap_next_seq (resv_resulting r))) \<and>
      ephemeral_holder s' = (ephemeral_holder s)(c \<mapsto> resv_token r)"
    using consistent_pos [of "resv_expected r"]
    by (intro conjI ext) (auto simp: ephemeral_store_def ephemeral_view wf_reservation_def
        elim!: ephemeral_reserve_cases split: if_splits)
next
  fix s c t res s'
  assume "ephemeral_inv s" "ps_confirm ephemeral_store s c t = (res, s')"
  with ephemeral_invD [OF this(1), of c] show "ephemeral_inv s' \<and> ephemeral_high s' = ephemeral_high s \<and>
      (\<forall>d t'. (d, t') \<noteq> (c, t) \<longrightarrow> ephemeral_holder s d = Some t' \<longrightarrow> ephemeral_holder s' d = Some t')"
    by (intro conjI ext)
       (auto simp: ephemeral_store_def ephemeral_view elim!: ephemeral_confirm_cases split: if_splits)
next
  fix s c snap
  assume "ephemeral_inv s" "ps_load ephemeral_store s c = Inr (Some snap)"
  then show "consistent snap"
    by (auto simp: ephemeral_store_def ephemeral_load_def intro: ephemeral_invD split: option.splits)
qed (auto simp: ephemeral_store_def ephemeral_load_def ephemeral_view
      elim!: ephemeral_reserve_cases split: option.splits)

definition row_ok :: "sequence_row \<Rightarrow> bool" where
  "row_ok row =
     (0 \<le> row_chunk_count row \<and> row_next_seq row = row_chunk_count row + 1 \<and> row_next_seq row \<le> i64_max)"

definition sqlite_inv :: "sequence_table \<Rightarrow> bool" where
  "sqlite_inv tbl = (\<forall>c row. tbl c = Some row \<longrightarrow> row_ok row)"

definition sqlite_high :: "sequence_table \<Rightarrow> bytes \<Rightarrow> nat" where
  "sqlite_high tbl c = (case tbl c of None \<Rightarrow> 1 | Some row \<Rightarrow> nat (row_next_seq row))"

definition sqlite_holder :: "sequence_table \<Rightarrow> bytes \<Rightarrow> bytes option" where
  "sqlite_holder tbl c = (case tbl c of None \<Rightarrow> None | Some row \<Rightarrow> row_reservation_token row)"

lemmas sqlite_view = sqlite_inv_def sqlite_holder_def sqlite_high_def

lemma uint_word_of_row: "0 \<le> n \<Longrightarrow> n \<le> i64_max \<Longrightarrow> uint (word_of_int n :: u64) = n"
  unfolding i64_max_def by (simp add: uint_word_of_int take_bit_int_eq_self)

lemma commit_reservation_cases:
  assumes "commit_reservation orig tbl req first hash chunks = (res, s')"
  obtains (refused) e where "res = Inl e" "s' = orig"
  | (granted) n :: u64 where "res = Inr first" "hash = req_expected_transcript_hash req"
      "chunks = req_expected_chunk_count req"
      "req_resulting_chunk_count req = saturating_add chunks (req_record_count req)"
      "unat n = unat first + unat (req_record_count req)" "uint n \<le> i64_max"
      "s' = tbl(req_context_id req \<mapsto>
        \<lparr>row_next_seq = uint n, row_transcript_hash = req_resulting_transcript_hash req,
         row_chunk_count = uint (req_resulting_chunk_count req),
         row_reservation_token = Some (req_token req),
         row_disabled = (case tbl (req_context_id req) of None \<Rightarrow> False | Some r \<Rightarrow> row_disabled r)\<rparr>)"
proof (cases res)
  case (Inl e)
  then show ?thesis
    using assms by (intro refused) (auto simp: commit_reservation_def split: if_splits option.splits)
next
  case (Inr v)
  then obtain n where n: "checked_add first (req_record_count req) = Some n" and small: "uint n \<le> i64_max"
    using assms by (auto simp: commit_reservation_def split: if_splits option.splits)
  have n': "unat n = unat first + unat (req_record_count req)" using n by (simp only: checked_add_Some)
  show ?thesis
    by (rule granted [OF _ _ _ _ n' small])
       (use assms Inr n in \<open>auto simp: commit_reservation_def split: if_splits\<close>)
qed

text \<open>The state with which a reservation of the adapter is committed: the row's own numbers, or the
  initial ones for a new context.\<close>
lemma sqlite_reserve_cases:
  assumes "sqlite_reserve tbl c h r = (res, tbl')" and inv: "sqlite_inv tbl" and wf: "wf_reservation r"
  obtains (same) e where "res = Inl e" "tbl' = tbl"
  | (disabled) e row where "res = Inl e" "tbl c = Some row" "tbl' = tbl(c \<mapsto> row\<lparr>row_disabled := True\<rparr>)"
  | (granted) row where "res = Inr ()" "sqlite_holder tbl c = None"
      "sqlite_high tbl c = unat (snap_next_seq (resv_expected r))"
      "row_next_seq row = uint (snap_next_seq (resv_resulting r))"
      "row_chunk_count row = uint (snap_chunk_count (resv_resulting r))"
      "row_next_seq row \<le> i64_max" "row_reservation_token row = Some (resv_token r)" "tbl' = tbl(c \<mapsto> row)"
proof -
  let ?e = "resv_expected r" and ?n = "resv_resulting r"
  have le: "snap_chunk_count ?e \<le> snap_chunk_count ?n"
    using wf by (simp add: wf_reservation_def consistent_def word_le_nat_alt)
  define k where "k = snap_chunk_count ?n - snap_chunk_count ?e"
  have k: "unat k = unat (snap_chunk_count ?n) - unat (snap_chunk_count ?e)"
    unfolding k_def using le by (simp add: unat_sub)
  define req where "req = \<lparr>req_context_id = c, req_initial_transcript_hash = h,
    req_expected_transcript_hash = snap_transcript_hash ?e, req_expected_chunk_count = snap_chunk_count ?e,
    req_resulting_transcript_hash = snap_transcript_hash ?n, req_record_count = k,
    req_resulting_chunk_count = snap_chunk_count ?n, req_token = resv_token r\<rparr>"
  obtain res0 where res0: "reserve_agent_stream_publisher_records tbl req = (res0, tbl')"
    and res: "res = (case res0 of Inl e \<Rightarrow> Inl e | Inr _ \<Rightarrow> Inr ())"
    using assms(1) le
    by (auto simp: sqlite_reserve_def checked_sub_def k_def [symmetric] req_def [symmetric]
        split: prod.splits sum.splits)
  note finish = granted
  have grant: thesis
    if com: "commit_reservation tbl base req first hash chunks = (res0, tbl')"
      and first: "unat first = unat chunks + 1" and high: "sqlite_high tbl c = unat first"
      and free: "sqlite_holder tbl c = None" and base: "\<And>x. base(c \<mapsto> x) = tbl(c \<mapsto> x)" for base first hash chunks
    using com
  proof (cases rule: commit_reservation_cases)
    case (refused e)
    then show thesis using same res by simp
  next
    case (granted n)
    have "unat n = unat (snap_next_seq ?n)"
      using granted(3,5) first k le wf
      by (simp add: req_def wf_reservation_def consistent_def word_le_nat_alt)
    then have n: "n = snap_next_seq ?n" by (simp add: word_unat_eq_iff)
    have e: "unat first = unat (snap_next_seq ?e)"
      using granted(3) first wf by (simp add: req_def wf_reservation_def consistent_def)
    show thesis
      by (rule finish [OF _ free]) (use granted res high e n base in \<open>auto simp: req_def\<close>)
  qed
  show thesis
  proof (cases "req_record_count req = 0")
    case True
    then show thesis using same res res0 by (auto simp: reserve_agent_stream_publisher_records_def)
  next
    case nonempty: False
    show thesis
    proof (cases "tbl c")
      case None
      then show thesis
        using res0 res nonempty same grant [where first = 1 and chunks = 0]
        by (auto simp: reserve_agent_stream_publisher_records_def req_def sqlite_view split: if_splits)
    next
      case (Some row)
      have row: "0 \<le> row_chunk_count row" "row_next_seq row = row_chunk_count row + 1" "row_next_seq row \<le> i64_max"
        using inv Some unfolding sqlite_inv_def row_ok_def by blast+
      have w: "unat (word_of_int n :: u64) = nat n" if "0 \<le> n" "n \<le> i64_max" for n
        using uint_word_of_row [OF that] by (metis unat_eq_nat_uint)
      show thesis
      proof (cases "row_disabled row \<or> row_reservation_token row \<noteq> None")
        case True
        then show thesis
          using disabled res res0 nonempty Some
          by (auto simp: reserve_agent_stream_publisher_records_def req_def)
      next
        case False
        then show thesis
          using res0 res nonempty same Some row
            grant [where first = "word_of_int (row_next_seq row)" and chunks = "word_of_int (row_chunk_count row)"
              and hash = "row_transcript_hash row" and base = tbl] w [of "row_next_seq row"] w [of "row_chunk_count row"]
          by (auto simp: reserve_agent_stream_publisher_records_def req_def sqlite_view split: if_splits)
      qed
    qed
  qed
qed

lemma sqlite_invD: "sqlite_inv tbl \<Longrightarrow> tbl c = Some row \<Longrightarrow> row_ok row"
  unfolding sqlite_inv_def by blast

lemma sqlite_inv_upd: "sqlite_inv tbl \<Longrightarrow> row_ok row \<Longrightarrow> sqlite_inv (tbl(c \<mapsto> row))"
  by (simp add: sqlite_inv_def)

lemma row_ok_upd [simp]:
  "row_ok (row\<lparr>row_disabled := b\<rparr>) = row_ok row" "row_ok (row\<lparr>row_reservation_token := t\<rparr>) = row_ok row"
  by (simp_all add: row_ok_def)

lemma sqlite_view_upd:
  "sqlite_high (tbl(c \<mapsto> row)) = (sqlite_high tbl)(c := nat (row_next_seq row))"
  "sqlite_holder (tbl(c \<mapsto> row)) = (sqlite_holder tbl)(c := row_reservation_token row)"
  by (auto simp: sqlite_high_def sqlite_holder_def)

lemma sqlite_load_known:
  assumes "sqlite_inv tbl" and "sqlite_load tbl c = Inr (Some snap)"
  shows "consistent snap"
proof -
  obtain row where row: "tbl c = Some row" and snap: "snap_next_seq snap = u64_or_default (row_next_seq row)"
      "snap_chunk_count snap = u64_or_default (row_chunk_count row)"
    using assms(2) by (auto simp: sqlite_load_def agent_stream_publisher_state_def split: option.splits if_splits)
  note I = sqlite_invD [OF assms(1) row, unfolded row_ok_def]
  have "unat (u64_or_default n) = nat n" if "0 \<le> n" "n \<le> i64_max" for n
    using uint_word_of_row [OF that] that by (simp add: u64_or_default_def unat_eq_nat_uint)
  then show ?thesis using I by (simp add: consistent_def snap nat_add_distrib)
qed

lemma sqlite_confirm_cases:
  assumes "confirm_agent_stream_publisher_reservation tbl c t = (res, tbl')"
  obtains "tbl' = tbl"
  | row where "tbl c = Some row" "row_reservation_token row = Some t"
      "tbl' = tbl(c \<mapsto> row\<lparr>row_reservation_token := None\<rparr>)"
  using assms
  by (auto simp: confirm_agent_stream_publisher_reservation_def split: option.splits if_splits)

interpretation sqlite: publisher_sequence_store sqlite_store sqlite_inv sqlite_high sqlite_holder
proof unfold_locales
  fix s c h r u s'
  assume inv: "sqlite_inv s" and wf: "wf_reservation r" and ok: "ps_reserve sqlite_store s c h r = (Inr u, s')"
  then have "sqlite_reserve s c h r = (Inr u, s')" by (simp add: sqlite_store_def)
  from this inv wf show "sqlite_inv s' \<and> sqlite_holder s c = None \<and>
      sqlite_high s c \<le> unat (snap_next_seq (resv_expected r)) \<and>
      sqlite_high s' = (sqlite_high s)(c := unat (snap_next_seq (resv_resulting r))) \<and>
      sqlite_holder s' = (sqlite_holder s)(c \<mapsto> resv_token r)"
  proof (cases rule: sqlite_reserve_cases)
    case (granted row)
    have next_chunk: "uint (snap_next_seq (resv_resulting r)) = uint (snap_chunk_count (resv_resulting r)) + 1"
      using wf unfolding wf_reservation_def consistent_def by (simp only: uint_nat of_nat_add of_nat_1)
    have "nat (row_next_seq row) = unat (snap_next_seq (resv_resulting r))" by (simp add: granted(4))
    moreover have "sqlite_inv (s(c \<mapsto> row))"
      using granted(4-6) next_chunk by (intro sqlite_inv_upd [OF inv]) (simp add: row_ok_def)
    ultimately show ?thesis
      using granted(2,3,7) by (simp only: granted(8) sqlite_view_upd order_refl simp_thms)
  qed auto
next
  fix s c h r e s'
  assume inv: "sqlite_inv s" and wf: "wf_reservation r" and ok: "ps_reserve sqlite_store s c h r = (Inl e, s')"
  then have "sqlite_reserve s c h r = (Inl e, s')" by (simp add: sqlite_store_def)
  from this inv wf show "sqlite_inv s' \<and> sqlite_high s' = sqlite_high s \<and> sqlite_holder s' = sqlite_holder s"
    by (cases rule: sqlite_reserve_cases)
       (use inv sqlite_invD [OF inv] in \<open>auto simp: sqlite_high_def sqlite_holder_def intro!: sqlite_inv_upd ext\<close>)
next
  fix s c t res s'
  assume inv: "sqlite_inv s" and "ps_confirm sqlite_store s c t = (res, s')"
  then have "confirm_agent_stream_publisher_reservation s c t = (res, s')" by (simp add: sqlite_store_def)
  then show "sqlite_inv s' \<and> sqlite_high s' = sqlite_high s \<and>
      (\<forall>d t'. (d, t') \<noteq> (c, t) \<longrightarrow> sqlite_holder s d = Some t' \<longrightarrow> sqlite_holder s' d = Some t')"
    by (cases rule: sqlite_confirm_cases)
       (use inv sqlite_invD [OF inv] in \<open>auto simp: sqlite_high_def sqlite_holder_def intro!: sqlite_inv_upd ext\<close>)
next
  fix s c snap
  assume "sqlite_inv s" "ps_load sqlite_store s c = Inr (Some snap)"
  then show "consistent snap" by (simp add: sqlite_store_def sqlite_load_known)
next
  fix s c
  assume "sqlite_holder s c \<noteq> None"
  then show "\<exists>e. ps_load sqlite_store s c = Inl e"
    by (auto simp: sqlite_store_def sqlite_load_def agent_stream_publisher_state_def sqlite_holder_def
        split: option.splits)
qed

section \<open>Sequence numbers are never reused\<close>

lemma empty_stores: "ephemeral_inv Map.empty" "sqlite_inv Map.empty"
  by (simp_all add: ephemeral_inv_def sqlite_inv_def)

text \<open>
  C12: No sequence number is granted twice for one stream context. Over any run of publications, well-formed
  reservations of other processes, confirmations and restarts on the durable store, the sequence numbers granted for a
  context, to this publisher and to the others, are strictly increasing; the same holds for the in-memory store in a run
  without a restart, which empties it. Record nonces, which are derived from the context and the sequence
  number, are therefore never reused there.\<close>

theorem sequence_numbers_never_reused:
  assumes "list_all wf_client_op ops"
  shows "sorted_wrt (<) (sequence_numbers c (fst (run_client H sqlite_store sqlite_restart Map.empty ops))) \<and>
    (Restart \<notin> set ops \<longrightarrow>
       sorted_wrt (<) (sequence_numbers c (fst (run_client H ephemeral_store ephemeral_restart Map.empty ops))))"
proof -
  obtain gs s where run: "run_client H sqlite_store sqlite_restart Map.empty ops = (gs, s)" by force
  obtain gs' s' where run': "run_client H ephemeral_store ephemeral_restart Map.empty ops = (gs', s')" by force
  have "sorted_wrt (<) (sequence_numbers c gs)"
    using sqlite.client_run_spec [OF empty_stores(2) assms run] by (simp add: sqlite_restart_def)
  moreover have "Restart \<notin> set ops \<Longrightarrow> sorted_wrt (<) (sequence_numbers c gs')"
    using ephemeral.client_run_spec [OF empty_stores(1) assms run'] by simp
  ultimately show ?thesis by (simp add: run run')
qed

definition example_context :: AgentTextStreamKeyContextV1 where
  "example_context = \<lparr>kc_group_id = [3], kc_stream_id = [2], kc_mls_epoch = 7, kc_sender_id = [5],
     kc_start_event_id = [4]\<rparr>"

definition example_id :: bytes where
  "example_id = tail_hash (encode_key_context example_context)"

text \<open>A publication of two records, its confirmation, a restart, and another publication.\<close>

definition example_ops :: "client_op list" where
  "example_ops =
     [Publish example_context [2] [4] [(1, [10]), (1, [11])] [9], Raw (Confirm example_id [9]), Restart,
      Publish example_context [2] [4] [(1, [12])] [8]]"

lemmas sequence_eval = reserve_publisher_records_def sqlite_store_def sqlite_load_def agent_stream_publisher_state_def
  expected_snapshot_def from_state_def new_record_def validate_record_def append_transcript_def
  MAX_STREAM_ID_LEN_def MAX_RECORD_CIPHERTEXT_LEN_def checked_add_def sqlite_reserve_def checked_sub_def
  reserve_agent_stream_publisher_records_def commit_reservation_def saturating_add_def
  MAX_AGENT_STREAM_PUBLISHER_CONTEXTS_def i64_max_def new_transcript_def Let_def

lemma example_ops_grants:
  "sequence_numbers example_id (fst (run_client tail_hash sqlite_store sqlite_restart Map.empty example_ops)) = [1, 2, 3]"
  by (simp add: example_ops_def sequence_eval sequence_numbers_def example_id_def [symmetric] sqlite_restart_def
      confirm_agent_stream_publisher_reservation_def u64_or_default_def tail_hash_length)

theorem sequence_numbers_never_reused_witness:
  "sequence_numbers example_id (fst (run_client tail_hash sqlite_store sqlite_restart Map.empty example_ops)) = [1, 2, 3] \<and>
   sorted_wrt (<) (sequence_numbers example_id
     (fst (run_client tail_hash sqlite_store sqlite_restart Map.empty example_ops)))"
proof -
  have "list_all wf_client_op example_ops" by (simp add: example_ops_def)
  then show ?thesis
    using sequence_numbers_never_reused [of example_ops example_id tail_hash] example_ops_grants by blast
qed

text \<open>
  C36: An unconfirmed reservation fails closed. After any run on either store, once a publication has been granted, nothing
  further is granted for that stream context, neither to this publisher nor to another process, until that very reservation
  is confirmed with its token; on the durable store this holds across restarts, on the in-memory store until one.\<close>

theorem unconfirmed_reservation_blocks:
  assumes "list_all wf_client_op before" and "length frames < 2 ^ 64" and "list_all wf_client_op later"
    and "Raw (Confirm (H (encode_key_context ctx)) t) \<notin> set later"
  shows "(let (_, s) = run_client H sqlite_store sqlite_restart Map.empty before;
              (g, s') = client_step H sqlite_store sqlite_restart s (Publish ctx sid eid frames t)
          in g \<noteq> [] \<longrightarrow>
               H (encode_key_context ctx) \<notin> fst ` set (fst (run_client H sqlite_store sqlite_restart s' later))) \<and>
         (Restart \<notin> set later \<longrightarrow>
          (let (_, s) = run_client H ephemeral_store ephemeral_restart Map.empty before;
               (g, s') = client_step H ephemeral_store ephemeral_restart s (Publish ctx sid eid frames t)
           in g \<noteq> [] \<longrightarrow>
                H (encode_key_context ctx) \<notin> fst ` set (fst (run_client H ephemeral_store ephemeral_restart s' later))))"
  by (intro conjI impI sqlite.unconfirmed_blocks [where H = H, OF empty_stores(2) assms(1) _ assms(2-4)]
      ephemeral.unconfirmed_blocks [where H = H, OF empty_stores(1) assms(1) _ assms(2-4)])
    (simp_all add: sqlite_restart_def ephemeral_restart_def empty_stores)

theorem unconfirmed_reservation_blocks_witness:
  "fst (client_step tail_hash sqlite_store sqlite_restart Map.empty (Publish example_context [2] [4] [(1, [10])] [9])) \<noteq> [] \<and>
   example_id \<notin> fst ` set (fst (run_client tail_hash sqlite_store sqlite_restart
     (snd (client_step tail_hash sqlite_store sqlite_restart Map.empty (Publish example_context [2] [4] [(1, [10])] [9])))
     [Restart, Publish example_context [2] [4] [(1, [12])] [8]]))"
proof -
  let ?p = "client_step tail_hash sqlite_store sqlite_restart Map.empty (Publish example_context [2] [4] [(1, [10])] [9])"
  have granted: "fst ?p \<noteq> []" by (simp add: sequence_eval)
  obtain g s' where p: "?p = (g, s')" by force
  show ?thesis
    using granted p unconfirmed_reservation_blocks [of "[]" "[(1, [10])]" "[Restart, Publish example_context [2] [4] [(1, [12])] [8]]"
        tail_hash example_context "[9]" "[2]" "[4]"]
    by (simp add: example_id_def del: client_step.simps run_client.simps(2))
qed

end
