(* ===== verification/Quic_Stream.thy ===== *)
theory Quic_Stream
  imports Publisher_Sequence Utf8
begin

text \<open>
  The direct QUIC text stream: \<open>transport-quic-stream/src\<close> files \<open>crypto.rs\<close>, \<open>limits.rs\<close>,
  \<open>protocol.rs\<close>, \<open>frame.rs\<close>, \<open>send.rs\<close> and \<open>receive.rs\<close>.

  SHA-256, HKDF and ChaCha20-Poly1305 come from third-party crates; they are the fields of the
  parameter record \<open>crypto_lib\<close>, each returning \<open>None\<close> where the crate reports an error.  A QUIC stream
  is the list of its bytes: the sender produces them, the receiver consumes them up to the end of the
  stream.  Dialling, deadlines and sleeps are not modelled.
\<close>

unbundle bit_operations_syntax

section \<open>Record encryption\<close>

record crypto_lib =
  sha256 :: "bytes \<Rightarrow> bytes"
  hkdf_from_prk :: "bytes \<Rightarrow> bool"
  hkdf_expand :: "bytes \<Rightarrow> bytes \<Rightarrow> nat \<Rightarrow> bytes option"
  aead_key_ok :: "bytes \<Rightarrow> bool"
  aead_encrypt :: "bytes \<Rightarrow> bytes \<Rightarrow> bytes \<Rightarrow> bytes \<Rightarrow> bytes option"
  aead_decrypt :: "bytes \<Rightarrow> bytes \<Rightarrow> bytes \<Rightarrow> bytes \<Rightarrow> bytes option"

record 's AgentTextStreamCrypto =
  stream_secret :: bytes
  crypto_context :: AgentTextStreamKeyContextV1
  publisher_sequence_store :: "'s publisher_store option"

definition AGENT_TEXT_STREAM_SECRET_LEN :: nat where "AGENT_TEXT_STREAM_SECRET_LEN = 32"
definition PROFILE_STREAM_ID_LEN :: nat where "PROFILE_STREAM_ID_LEN = 32"
definition START_EVENT_ID_LEN :: nat where "START_EVENT_ID_LEN = 32"

definition validate_crypto_record_context ::
  "'s AgentTextStreamCrypto \<Rightarrow> AgentTextStreamRecordV1 \<Rightarrow> QuicTextStreamError + unit" where
  "validate_crypto_record_context crypto r =
     (if length (stream_secret crypto) \<noteq> AGENT_TEXT_STREAM_SECRET_LEN
      then Inl (Crypto ''agent text stream secret must be 32 bytes'')
      else if length (kc_stream_id (crypto_context crypto)) \<noteq> PROFILE_STREAM_ID_LEN
      then Inl (Crypto ''agent text stream id must be 32 bytes'')
      else if length (kc_start_event_id (crypto_context crypto)) \<noteq> START_EVENT_ID_LEN
      then Inl (Crypto ''agent text stream start event id must be 32 bytes'')
      else if kc_stream_id (crypto_context crypto) \<noteq> rec_stream_id r then Inl MixedStreamIds
      else Inr ())"

definition derive_bytes ::
  "crypto_lib \<Rightarrow> 's AgentTextStreamCrypto \<Rightarrow> bytes \<Rightarrow> nat \<Rightarrow> QuicTextStreamError + bytes" where
  "derive_bytes lib crypto label n =
     (if \<not> hkdf_from_prk lib (stream_secret crypto) then Inl (Crypto ''invalid stream secret'')
      else let info = encode_quic_varint (word_of_nat (length label)) @ label
                        @ encode_key_context (crypto_context crypto)
           in case hkdf_expand lib (stream_secret crypto) info n of
                None \<Rightarrow> Inl (Crypto ''agent text stream HKDF expand failed'')
              | Some out \<Rightarrow> Inr out)"

definition derive_record_key :: "crypto_lib \<Rightarrow> 's AgentTextStreamCrypto \<Rightarrow> QuicTextStreamError + bytes" where
  "derive_record_key lib crypto = derive_bytes lib crypto (ascii ''record key'') 32"

text \<open>\<open>nonce_base XOR uint96_be(seq)\<close>: the low twelve bytes of the sequence number as a \<open>u128\<close>.\<close>
definition xor_sequence :: "bytes \<Rightarrow> u64 \<Rightarrow> bytes" where
  "xor_sequence nonce seq = map2 (XOR) nonce (drop 4 (to_be_bytes 16 (ucast seq :: 128 word)))"

definition derive_record_nonce ::
  "crypto_lib \<Rightarrow> 's AgentTextStreamCrypto \<Rightarrow> u64 \<Rightarrow> QuicTextStreamError + bytes" where
  "derive_record_nonce lib crypto seq =
     (case derive_bytes lib crypto (ascii ''record nonce'') 12 of
        Inl e \<Rightarrow> Inl e
      | Inr nonce \<Rightarrow> Inr (xor_sequence nonce seq))"

definition record_aad ::
  "crypto_lib \<Rightarrow> 's AgentTextStreamCrypto \<Rightarrow> AgentTextStreamRecordV1 \<Rightarrow> bytes" where
  "record_aad lib crypto r =
     [RECORD_VERSION] @ sha256 lib (kc_group_id (crypto_context crypto))
     @ encode_quic_varint (word_of_nat (length (rec_stream_id r))) @ rec_stream_id r
     @ to_be_bytes 8 (kc_mls_epoch (crypto_context crypto))
     @ encode_quic_varint (word_of_nat (length (kc_sender_id (crypto_context crypto))))
     @ kc_sender_id (crypto_context crypto)
     @ to_be_bytes 8 (rec_seq r) @ [rec_type r] @ [rec_flags r]"

text \<open>What sealing and opening share: the checks, the key, the nonce and the associated data.\<close>
definition record_cipher ::
  "crypto_lib \<Rightarrow> 's AgentTextStreamCrypto \<Rightarrow> AgentTextStreamRecordV1
     \<Rightarrow> QuicTextStreamError + (bytes \<times> bytes \<times> bytes)" where
  "record_cipher lib crypto r =
     result_bind (derive_record_key lib crypto) (\<lambda>key.
     result_bind (derive_record_nonce lib crypto (rec_seq r)) (\<lambda>nonce.
       if \<not> aead_key_ok lib key then Inl (Crypto ''invalid record key'')
       else Inr (key, nonce, record_aad lib crypto r)))"

definition encrypt_record ::
  "crypto_lib \<Rightarrow> 's AgentTextStreamCrypto \<Rightarrow> AgentTextStreamRecordV1
     \<Rightarrow> QuicTextStreamError + AgentTextStreamRecordV1" where
  "encrypt_record lib crypto r =
     result_bind (validate_crypto_record_context crypto r) (\<lambda>_.
       if length (rec_plaintext_frame r) > unat MAX_PLAINTEXT_FRAME_LEN
       then Inl (EncryptedFrameTooLarge (length (rec_plaintext_frame r)))
       else result_bind (record_cipher lib crypto r) (\<lambda>(key, nonce, aad).
         case aead_encrypt lib key nonce aad (rec_plaintext_frame r) of
           None \<Rightarrow> Inl (Crypto ''record encryption failed'')
         | Some ciphertext \<Rightarrow> Inr (r\<lparr>rec_plaintext_frame := ciphertext\<rparr>)))"

definition decrypt_record ::
  "crypto_lib \<Rightarrow> 's AgentTextStreamCrypto \<Rightarrow> AgentTextStreamRecordV1
     \<Rightarrow> QuicTextStreamError + AgentTextStreamRecordV1" where
  "decrypt_record lib crypto r =
     result_bind (validate_crypto_record_context crypto r) (\<lambda>_.
       if length (rec_plaintext_frame r) < AEAD_TAG_LEN
       then Inl (Crypto ''encrypted record frame is shorter than the AEAD tag'')
       else result_bind (record_cipher lib crypto r) (\<lambda>(key, nonce, aad).
         case aead_decrypt lib key nonce aad (rec_plaintext_frame r) of
           None \<Rightarrow> Inl (Crypto ''record decryption failed'')
         | Some plaintext \<Rightarrow> Inr (r\<lparr>rec_plaintext_frame := plaintext\<rparr>)))"

section \<open>Limits and frames\<close>

definition FRAME_ALLOWANCE :: nat where "FRAME_ALLOWANCE = 1024"

definition QUIC_PREVIEW_MAX_FRAME_LEN :: nat where
  "QUIC_PREVIEW_MAX_FRAME_LEN = unat MAX_PLAINTEXT_FRAME_LEN + FRAME_ALLOWANCE"

definition effective_plaintext_cap :: "u32 option \<Rightarrow> nat" where
  "effective_plaintext_cap policy =
     unat (case policy of
             Some len \<Rightarrow> if 0 < len then min len MAX_PLAINTEXT_FRAME_LEN else MAX_PLAINTEXT_FRAME_LEN
           | None \<Rightarrow> MAX_PLAINTEXT_FRAME_LEN)"

definition frame_len_cap :: "u32 option \<Rightarrow> nat" where
  "frame_len_cap policy = effective_plaintext_cap policy + FRAME_ALLOWANCE"

record AgentTextStreamReceiveLimits =
  lim_max_records :: u64
  lim_max_plaintext_bytes :: nat
  lim_max_plaintext_frame_len :: u32

definition default_limits :: AgentTextStreamReceiveLimits where
  "default_limits = \<lparr>lim_max_records = 4096, lim_max_plaintext_bytes = 1024 * 1024,
     lim_max_plaintext_frame_len = MAX_PLAINTEXT_FRAME_LEN\<rparr>"

record AgentTextStreamReceiveAccumulator =
  acc_limits :: AgentTextStreamReceiveLimits
  acc_wire_records :: u64
  acc_records :: u64
  acc_plaintext_bytes :: nat

definition new_accumulator :: "AgentTextStreamReceiveLimits \<Rightarrow> AgentTextStreamReceiveAccumulator" where
  "new_accumulator limits =
     \<lparr>acc_limits = limits, acc_wire_records = 0, acc_records = 0, acc_plaintext_bytes = 0\<rparr>"

definition observe_wire_record ::
  "AgentTextStreamReceiveAccumulator
     \<Rightarrow> AgentTextStreamReceiveLimitError + AgentTextStreamReceiveAccumulator" where
  "observe_wire_record acc =
     (case checked_add (acc_wire_records acc) 1 of
        None \<Rightarrow> Inl (RecordLimitExceeded (- 1) (lim_max_records (acc_limits acc)))
      | Some n \<Rightarrow>
          (if n > lim_max_records (acc_limits acc)
           then Inl (RecordLimitExceeded n (lim_max_records (acc_limits acc)))
           else Inr (acc\<lparr>acc_wire_records := n\<rparr>)))"

definition USIZE_MAX :: nat where "USIZE_MAX = 2 ^ 64 - 1"

definition observe ::
  "AgentTextStreamReceiveAccumulator \<Rightarrow> AgentTextStreamRecordV1
     \<Rightarrow> AgentTextStreamReceiveLimitError + AgentTextStreamReceiveAccumulator" where
  "observe acc r =
     (case checked_add (acc_records acc) 1 of
        None \<Rightarrow> Inl (RecordLimitExceeded (- 1) (lim_max_records (acc_limits acc)))
      | Some n \<Rightarrow>
          (if n > lim_max_records (acc_limits acc)
           then Inl (RecordLimitExceeded n (lim_max_records (acc_limits acc)))
           else let b = acc_plaintext_bytes acc + length (rec_plaintext_frame r) in
                if b > USIZE_MAX
                then Inl (PlaintextByteLimitExceeded USIZE_MAX (lim_max_plaintext_bytes (acc_limits acc)))
                else if b > lim_max_plaintext_bytes (acc_limits acc)
                then Inl (PlaintextByteLimitExceeded b (lim_max_plaintext_bytes (acc_limits acc)))
                else Inr (acc\<lparr>acc_records := n, acc_plaintext_bytes := b\<rparr>)))"

definition validate_frame_len :: "nat \<Rightarrow> nat \<Rightarrow> QuicTextStreamError + unit" where
  "validate_frame_len len max_frame_len =
     (if len = 0 then Inl EmptyFrame
      else if len > min max_frame_len QUIC_PREVIEW_MAX_FRAME_LEN then Inl (FrameTooLarge len)
      else Inr ())"

definition write_record :: "AgentTextStreamRecordV1 \<Rightarrow> QuicTextStreamError + bytes" where
  "write_record r =
     (case encode_record r of
        Inl e \<Rightarrow> Inl (RecordError e)
      | Inr bs \<Rightarrow>
          (if length bs \<ge> 2 ^ 32 then Inl (FrameTooLarge (length bs))
           else Inr (to_be_bytes 4 (word_of_nat (length bs) :: u32) @ bs)))"

text \<open>One read from the rest of the stream: the record and what is left, or \<open>None\<close> at a clean end.\<close>
definition read_record ::
  "nat \<Rightarrow> bytes \<Rightarrow> QuicTextStreamError + (AgentTextStreamRecordV1 \<times> bytes) option" where
  "read_record max_frame_len bs =
     (if bs = [] then Inr None
      else if length bs < 4 then Inl TruncatedFrameLength
      else let len = unat (from_be_bytes (take 4 bs) :: u32); rest = drop 4 bs in
           result_bind (validate_frame_len len max_frame_len) (\<lambda>_.
             if length rest < len then Inl ReadExact
             else case decode_record (take len rest) of
                    Inl e \<Rightarrow> Inl (RecordError e)
                  | Inr r \<Rightarrow> Inr (Some (r, drop len rest))))"

section \<open>Sending\<close>

text \<open>One iteration of the splitting loop over the chunks emitted so far and the current chunk.\<close>
definition split_step :: "nat \<Rightarrow> bytes list \<times> bytes \<Rightarrow> uchar \<Rightarrow> bytes list \<times> bytes" where
  "split_step max_chunk_bytes st ch =
     (let full = (snd st \<noteq> [] \<and> length (snd st) + len_utf8 ch > max_chunk_bytes);
          chunks = (if full then fst st @ [snd st] else fst st);
          cur = (if full then [] else snd st)
      in if cur = [] \<and> len_utf8 ch > max_chunk_bytes then (chunks @ [utf8_char ch], cur)
         else (chunks, cur @ utf8_char ch))"

definition split_text_deltas :: "uchar list \<Rightarrow> nat \<Rightarrow> bytes list" where
  "split_text_deltas text max_chunk_bytes =
     (if text = [] then []
      else let (chunks, cur) = foldl (split_step max_chunk_bytes) ([], []) text
           in if cur \<noteq> [] then chunks @ [cur] else chunks)"

record 's SendTextStream =
  send_stream_id :: bytes
  send_start_event_id :: bytes
  send_text :: "uchar list"
  send_max_chunk_bytes :: nat
  send_crypto :: "'s AgentTextStreamCrypto option"
  send_max_plaintext_frame_len :: "u32 option"

record SentTextStream =
  sent_stream_id :: bytes
  sent_transcript_hash :: bytes
  sent_chunk_count :: u64

definition wire_record ::
  "crypto_lib \<Rightarrow> 's AgentTextStreamCrypto option \<Rightarrow> AgentTextStreamRecordV1
     \<Rightarrow> QuicTextStreamError + AgentTextStreamRecordV1" where
  "wire_record lib crypto r =
     (case crypto of Some c \<Rightarrow> encrypt_record lib c r | None \<Rightarrow> Inr r)"

text \<open>The record loop: the bytes written and the sender's transcript.\<close>
fun send_records ::
  "crypto_lib \<Rightarrow> 's AgentTextStreamCrypto option \<Rightarrow> AgentTextStreamTranscriptV1
     \<Rightarrow> AgentTextStreamRecordV1 list \<Rightarrow> QuicTextStreamError + (bytes \<times> AgentTextStreamTranscriptV1)" where
  "send_records lib crypto t [] = Inr ([], t)"
| "send_records lib crypto t (r # rs) =
     result_bind (wire_record lib crypto r) (\<lambda>w.
     result_bind (write_record w) (\<lambda>out.
     result_bind (send_records lib crypto
         (append_transcript (sha256 lib) t (rec_seq r) (rec_type r) (rec_plaintext_frame r)) rs)
       (\<lambda>(more, t'). Inr (out @ more, t'))))"

definition text_frames :: "'s SendTextStream \<Rightarrow> (u8 \<times> bytes) list" where
  "text_frames config =
     map (\<lambda>chunk. (RECORD_TEXT_DELTA, chunk))
       (split_text_deltas (send_text config)
          (min (send_max_chunk_bytes config) (effective_plaintext_cap (send_max_plaintext_frame_len config))))"

definition unreserved_records :: "bytes \<Rightarrow> (u8 \<times> bytes) list \<Rightarrow> AgentTextStreamRecordV1 list" where
  "unreserved_records stream_id frames =
     map (\<lambda>(i, ty, plaintext). new_record stream_id (word_of_nat i + 1) ty plaintext)
       (enumerate 0 frames)"

definition reserve_for_send ::
  "crypto_lib \<Rightarrow> 's SendTextStream \<Rightarrow> bytes \<Rightarrow> 's
     \<Rightarrow> (QuicTextStreamError + ReservedPublisherRecords option) \<times> 's" where
  "reserve_for_send lib config token s =
     (case send_crypto config of
        None \<Rightarrow> (Inr None, s)
      | Some crypto \<Rightarrow>
          (if text_frames config = [] then (Inr None, s)
           else case reserve_publisher_records (sha256 lib) (publisher_sequence_store crypto)
                       (crypto_context crypto) (send_stream_id config) (send_start_event_id config)
                       (text_frames config) token s of
                  (Inl e, s') \<Rightarrow> (Inl e, s')
                | (Inr rpr, s') \<Rightarrow> (Inr (Some rpr), s')))"

definition confirm_for_send ::
  "'s SendTextStream \<Rightarrow> ReservedPublisherRecords \<Rightarrow> 's \<Rightarrow> (QuicTextStreamError + unit) \<times> 's" where
  "confirm_for_send config rpr s =
     (case Option.bind (send_crypto config) publisher_sequence_store of
        None \<Rightarrow> (Inr (), s)
      | Some st \<Rightarrow> confirm_reserved st rpr s)"

definition send_text_stream ::
  "crypto_lib \<Rightarrow> 's SendTextStream \<Rightarrow> bytes \<Rightarrow> 's
     \<Rightarrow> (QuicTextStreamError + (bytes \<times> SentTextStream)) \<times> 's" where
  "send_text_stream lib config token s =
     (if send_max_chunk_bytes config = 0 then (Inl EmptyChunkSize, s)
      else if send_max_chunk_bytes config > unat MAX_PLAINTEXT_FRAME_LEN
      then (Inl (ChunkSizeTooLarge (send_max_chunk_bytes config)), s)
      else case reserve_for_send lib config token s of
        (Inl e, s1) \<Rightarrow> (Inl e, s1)
      | (Inr reservation, s1) \<Rightarrow>
          (let records = (case reservation of
                            Some rpr \<Rightarrow> rpr_records rpr
                          | None \<Rightarrow> unreserved_records (send_stream_id config) (text_frames config));
               transcript = new_transcript (sha256 lib) (send_stream_id config) (send_start_event_id config)
           in case send_records lib (send_crypto config) transcript records of
                Inl e \<Rightarrow> (Inl e, s1)
              | Inr (wire, t) \<Rightarrow>
                  (case reservation of
                     None \<Rightarrow> (Inr (wire, \<lparr>sent_stream_id = tr_stream_id t, sent_transcript_hash = tr_hash t,
                                         sent_chunk_count = tr_chunk_count t\<rparr>), s1)
                   | Some rpr \<Rightarrow>
                       (case confirm_for_send config rpr s1 of
                          (Inl e, s2) \<Rightarrow> (Inl e, s2)
                        | (Inr _, s2) \<Rightarrow>
                            (Inr (wire, \<lparr>sent_stream_id = tr_stream_id t,
                                         sent_transcript_hash = rpr_transcript_hash rpr,
                                         sent_chunk_count = rpr_chunk_count rpr\<rparr>), s2)))))"

section \<open>Receiving\<close>

definition RECORD_PROGRESS_DELTA :: u8 where "RECORD_PROGRESS_DELTA = 2"
definition RECORD_STATUS :: u8 where "RECORD_STATUS = 3"
definition RECORD_CHECKPOINT :: u8 where "RECORD_CHECKPOINT = 4"

definition stream_record_text :: "AgentTextStreamRecordV1 \<Rightarrow> bytes" where
  "stream_record_text r =
     (if rec_type r \<in> {RECORD_TEXT_DELTA, RECORD_STATUS, RECORD_PROGRESS_DELTA, RECORD_CHECKPOINT}
      then from_utf8_lossy (rec_plaintext_frame r) else [])"

record ReceivedTextChunk =
  chunk_seq :: u64
  chunk_record_type :: u8
  chunk_flags :: u8
  chunk_text :: bytes

record ReceivedTextStream =
  received_stream_id :: bytes
  received_chunks :: "ReceivedTextChunk list"
  received_text :: bytes
  received_transcript_hash :: bytes
  received_chunk_count :: u64

record receive_state =
  rcv_transcript :: "AgentTextStreamTranscriptV1 option"
  rcv_high_water :: u64
  rcv_chunks :: "ReceivedTextChunk list"
  rcv_text :: bytes
  rcv_limits :: AgentTextStreamReceiveAccumulator

definition accept_record ::
  "(bytes \<Rightarrow> bytes) \<Rightarrow> bytes \<Rightarrow> receive_state \<Rightarrow> AgentTextStreamReceiveAccumulator
     \<Rightarrow> AgentTextStreamRecordV1 \<Rightarrow> QuicTextStreamError + receive_state" where
  "accept_record H start_event_id st limits r =
     (let t = (case rcv_transcript st of
                 Some t \<Rightarrow> t | None \<Rightarrow> new_transcript H (rec_stream_id r) start_event_id)
      in if tr_stream_id t \<noteq> rec_stream_id r then Inl MixedStreamIds
         else let frame_text = stream_record_text r in
              Inr \<lparr>rcv_transcript = Some (append_transcript H t (rec_seq r) (rec_type r) (rec_plaintext_frame r)),
                   rcv_high_water = rec_seq r,
                   rcv_chunks = rcv_chunks st @ [\<lparr>chunk_seq = rec_seq r, chunk_record_type = rec_type r,
                                                  chunk_flags = rec_flags r, chunk_text = frame_text\<rparr>],
                   rcv_text = (if rec_type r = RECORD_TEXT_DELTA then rcv_text st @ frame_text else rcv_text st),
                   rcv_limits = limits\<rparr>)"

definition receive_record ::
  "crypto_lib \<Rightarrow> 's AgentTextStreamCrypto option \<Rightarrow> bytes \<Rightarrow> receive_state \<Rightarrow> AgentTextStreamRecordV1
     \<Rightarrow> QuicTextStreamError + receive_state" where
  "receive_record lib crypto start_event_id st r =
     (case observe_wire_record (rcv_limits st) of
        Inl e \<Rightarrow> Inl (ReceiveLimit e)
      | Inr limits \<Rightarrow>
          (if rec_seq r \<le> rcv_high_water st then Inr (st\<lparr>rcv_limits := limits\<rparr>)
           else if rec_seq r \<noteq> rcv_high_water st + 1
           then Inl (UnexpectedSequence (rcv_high_water st + 1) (rec_seq r))
           else result_bind (case crypto of Some c \<Rightarrow> decrypt_record lib c r | None \<Rightarrow> Inr r) (\<lambda>p.
             case observe limits p of
               Inl e \<Rightarrow> Inl (ReceiveLimit e)
             | Inr limits' \<Rightarrow> accept_record (sha256 lib) start_event_id st limits' p)))"

lemma read_record_shorter:
  "read_record m bs = Inr (Some (r, rest)) \<Longrightarrow> length rest < length bs"
  by (auto simp: read_record_def result_bind_Inr Let_def split: if_splits sum.splits)

function receive_loop ::
  "crypto_lib \<Rightarrow> 's AgentTextStreamCrypto option \<Rightarrow> bytes \<Rightarrow> nat \<Rightarrow> receive_state \<Rightarrow> bytes
     \<Rightarrow> QuicTextStreamError + receive_state" where
  "receive_loop lib crypto start_event_id max_frame_len st bs =
     (case read_record max_frame_len bs of
        Inl e \<Rightarrow> Inl e
      | Inr None \<Rightarrow> Inr st
      | Inr (Some (r, rest)) \<Rightarrow>
          (case receive_record lib crypto start_event_id st r of
             Inl e \<Rightarrow> Inl e
           | Inr st' \<Rightarrow> receive_loop lib crypto start_event_id max_frame_len st' rest))"
  by auto
termination
  by (relation "measure (\<lambda>(_, _, _, _, _, bs). length bs)") (auto dest: read_record_shorter)

declare receive_loop.simps [simp del]

definition initial_state :: "AgentTextStreamReceiveLimits \<Rightarrow> receive_state" where
  "initial_state limits =
     \<lparr>rcv_transcript = None, rcv_high_water = 0, rcv_chunks = [], rcv_text = [],
      rcv_limits = new_accumulator limits\<rparr>"

definition receive_once_with_limits ::
  "crypto_lib \<Rightarrow> bytes \<Rightarrow> 's AgentTextStreamCrypto option \<Rightarrow> AgentTextStreamReceiveLimits \<Rightarrow> bytes
     \<Rightarrow> QuicTextStreamError + ReceivedTextStream" where
  "receive_once_with_limits lib start_event_id crypto limits bs =
     (case receive_loop lib crypto start_event_id (frame_len_cap (Some (lim_max_plaintext_frame_len limits)))
             (initial_state limits) bs of
        Inl e \<Rightarrow> Inl e
      | Inr st \<Rightarrow>
          (case rcv_transcript st of
             None \<Rightarrow> Inl EmptyStream
           | Some t \<Rightarrow> Inr \<lparr>received_stream_id = tr_stream_id t, received_chunks = rcv_chunks st,
                            received_text = rcv_text st, received_transcript_hash = tr_hash t,
                            received_chunk_count = tr_chunk_count t\<rparr>))"

end
