(* ===== verification/Quic_Stream_Correct.thy ===== *)
theory Quic_Stream_Correct
  imports Quic_Stream
begin

text \<open>
  Correctness of the direct text stream: chunking keeps the text and splits only between characters,
  frames and encryption round-trip, nonces are distinct for distinct sequence numbers, and what one
  side sends is what the other side assembles.
\<close>

unbundle bit_operations_syntax

section \<open>Chunking\<close>

definition text_piece :: "nat \<Rightarrow> bytes \<Rightarrow> bool" where
  "text_piece m c = (c \<noteq> [] \<and> length c \<le> max m 4 \<and> (\<exists>cs. list_all is_scalar cs \<and> c = utf8_string cs))"

definition open_piece :: "nat \<Rightarrow> bytes \<Rightarrow> bool" where
  "open_piece m c = (length c \<le> m \<and> (\<exists>cs. list_all is_scalar cs \<and> c = utf8_string cs))"

lemma text_piece_char: "is_scalar ch \<Longrightarrow> text_piece m (utf8_char ch)"
  using len_utf8_bounds(2) [of ch] unfolding text_piece_def by (auto intro!: exI [of _ "[ch]"])

lemma open_piece_Nil: "open_piece m []"
  unfolding open_piece_def by (auto intro!: exI [of _ "[]"])

lemma open_piece_text: "open_piece m c \<Longrightarrow> c \<noteq> [] \<Longrightarrow> text_piece m c"
  by (auto simp: open_piece_def text_piece_def)

lemma open_piece_extend:
  assumes "open_piece m c" and "is_scalar ch" and "length c + len_utf8 ch \<le> m"
  shows "open_piece m (c @ utf8_char ch)"
proof -
  obtain cs where "list_all is_scalar cs" "c = utf8_string cs" using assms(1) by (auto simp: open_piece_def)
  then have "list_all is_scalar (cs @ [ch]) \<and> c @ utf8_char ch = utf8_string (cs @ [ch])" using assms(2) by simp
  then show ?thesis using assms(3) unfolding open_piece_def by (metis length_append length_utf8_char)
qed

lemma split_step_spec:
  assumes "list_all (text_piece m) (fst st)" and "open_piece m (snd st)" and "is_scalar ch"
  shows "list_all (text_piece m) (fst (split_step m st ch)) \<and> open_piece m (snd (split_step m st ch)) \<and>
    concat (fst (split_step m st ch)) @ snd (split_step m st ch) = concat (fst st) @ snd st @ utf8_char ch"
proof (cases "snd st \<noteq> [] \<and> length (snd st) + len_utf8 ch > m")
  case True
  then show ?thesis
    using assms open_piece_text [OF assms(2)] text_piece_char [OF assms(3), of m]
      open_piece_extend [OF open_piece_Nil assms(3), of m]
    by (auto simp: split_step_def open_piece_Nil Let_def)
next
  case False
  then show ?thesis
    using assms text_piece_char [OF assms(3), of m] open_piece_extend [OF assms(2,3)]
    by (auto simp: split_step_def open_piece_Nil Let_def)
qed

lemma split_fold_spec:
  "list_all is_scalar cs \<Longrightarrow> list_all (text_piece m) (fst st) \<Longrightarrow> open_piece m (snd st) \<Longrightarrow>
     list_all (text_piece m) (fst (foldl (split_step m) st cs)) \<and>
     open_piece m (snd (foldl (split_step m) st cs)) \<and>
     concat (fst (foldl (split_step m) st cs)) @ snd (foldl (split_step m) st cs) =
       concat (fst st) @ snd st @ utf8_string cs"
proof (induction cs arbitrary: st)
  case (Cons ch cs)
  then show ?case using split_step_spec [of m st ch] by simp
qed simp

lemma split_text_deltas_spec:
  assumes "list_all is_scalar cs"
  shows "concat (split_text_deltas cs m) = utf8_string cs \<and>
    list_all (text_piece m) (split_text_deltas cs m)"
proof -
  note S = split_fold_spec [OF assms, of m "([], [])", simplified, OF open_piece_Nil]
  show ?thesis
  proof (cases "snd (foldl (split_step m) ([], []) cs) = []")
    case True
    then show ?thesis using S by (auto simp: split_text_deltas_def case_prod_unfold Let_def)
  next
    case False
    then show ?thesis
      using S open_piece_text [of m "snd (foldl (split_step m) ([], []) cs)"]
      by (auto simp: split_text_deltas_def case_prod_unfold Let_def)
  qed
qed

lemma piece_text: "text_piece m c \<Longrightarrow> from_utf8_lossy c = c"
  unfolding text_piece_def using from_utf8_lossy_string [where rest = "[]"] by auto

section \<open>Nonces\<close>

lemma xor_cancel: "a XOR b = a XOR c \<longleftrightarrow> b = (c :: u8)"
proof
  assume "a XOR b = a XOR c"
  then have "a XOR (a XOR b) = a XOR (a XOR c)" by simp
  then show "b = c" by (simp add: xor.assoc [symmetric])
qed simp

lemma map2_xor_inj:
  "length xs = length bs \<Longrightarrow> length ys = length bs \<Longrightarrow>
     map2 (XOR) bs xs = map2 (XOR) bs ys \<longleftrightarrow> xs = (ys :: bytes)"
proof (induction bs arbitrary: xs ys)
  case (Cons b bs)
  then show ?case by (cases xs; cases ys) (auto simp: xor_cancel)
qed simp

lemma sequence_bytes_inj:
  "drop 4 (to_be_bytes 16 (ucast s :: 128 word)) = drop 4 (to_be_bytes 16 (ucast s' :: 128 word)) \<longleftrightarrow>
     s = (s' :: u64)"
proof
  have low: "drop 8 (to_be_bytes 16 (ucast s :: 128 word)) = to_be_bytes 8 s" for s :: u64
  proof -
    have "drop 8 (rev [0..<16]) = rev [0..<8 :: nat]" by (simp add: drop_rev take_upt)
    moreover have "unat (ucast s :: 128 word) = unat s"
      by (rule unat_ucast_small, rule order_less_le_trans [OF unat_less_exp]) simp
    ultimately show ?thesis by (simp add: to_be_bytes_digits be_digits_def drop_map)
  qed
  assume "drop 4 (to_be_bytes 16 (ucast s :: 128 word)) = drop 4 (to_be_bytes 16 (ucast s' :: 128 word))"
  then have "drop 4 (drop 4 (to_be_bytes 16 (ucast s :: 128 word))) =
      drop 4 (drop 4 (to_be_bytes 16 (ucast s' :: 128 word)))" by simp
  then have "to_be_bytes 8 s = to_be_bytes 8 s'" by (simp add: low)
  then show "s = s'" by (simp add: to_be_bytes_inj)
qed simp

lemma xor_sequence_inj: "length nonce = 12 \<Longrightarrow> xor_sequence nonce s = xor_sequence nonce s' \<longleftrightarrow> s = s'"
  unfolding xor_sequence_def by (subst map2_xor_inj) (simp_all add: sequence_bytes_inj)

section \<open>Encryption and framing round-trip\<close>

definition aead_correct :: "crypto_lib \<Rightarrow> bool" where
  "aead_correct lib = (\<forall>key nonce aad m c. aead_encrypt lib key nonce aad m = Some c \<longrightarrow>
     aead_decrypt lib key nonce aad c = Some m \<and> length c = length m + AEAD_TAG_LEN)"

lemma record_cipher_frame [simp]:
  "record_cipher lib crypto (r\<lparr>rec_plaintext_frame := f\<rparr>) = record_cipher lib crypto r"
proof -
  have "record_aad lib crypto (r\<lparr>rec_plaintext_frame := f\<rparr>) = record_aad lib crypto r"
    by (simp add: record_aad_def)
  then show ?thesis unfolding record_cipher_def by (simp cong: if_cong)
qed

lemma validate_context_frame [simp]:
  "validate_crypto_record_context crypto (r\<lparr>rec_plaintext_frame := f\<rparr>) = validate_crypto_record_context crypto r"
  by (simp add: validate_crypto_record_context_def)

lemma decrypt_encrypted:
  assumes "aead_correct lib" and "encrypt_record lib crypto r = Inr w"
  shows "decrypt_record lib crypto w = Inr r \<and> length (rec_plaintext_frame w) = length (rec_plaintext_frame r) + 16 \<and>
    rec_seq w = rec_seq r"
proof -
  obtain key nonce aad c where enc: "validate_crypto_record_context crypto r = Inr ()"
      "record_cipher lib crypto r = Inr (key, nonce, aad)"
      "aead_encrypt lib key nonce aad (rec_plaintext_frame r) = Some c" "w = r\<lparr>rec_plaintext_frame := c\<rparr>"
    using assms(2) by (auto simp: encrypt_record_def result_bind_Inr split: if_splits option.splits)
  have "aead_decrypt lib key nonce aad c = Some (rec_plaintext_frame r)" "length c = length (rec_plaintext_frame r) + 16"
    using assms(1) enc(3) by (auto simp: aead_correct_def AEAD_TAG_LEN_def)
  then show ?thesis by (simp add: enc decrypt_record_def AEAD_TAG_LEN_def)
qed

lemma encoded_record_len:
  assumes "encode_record w = Inr e"
  shows "0 < length e \<and> length e \<le> length (rec_plaintext_frame w) + 91"
proof -
  have v: "validate_record w = Inr ()" using assms by (simp add: encode_record_Inr)
  have pre: "length (push_len_prefixed x) \<le> length x + 8" if "length x < 2 ^ 62" for x
    using minimal_width_cases [of "word_of_nat (length x)"] that
    by (auto simp: push_len_prefixed_def length_encode_varint unat_length)
  show ?thesis
    using assms v pre [of "rec_stream_id w"] pre [of "rec_plaintext_frame w"]
    by (auto simp: encode_record_Inr valid_record_lengths)
qed

lemma decode_encoded_record: "encode_record w = Inr e \<Longrightarrow> decode_record e = Inr w"
  by (cases e) (auto simp: encode_record_Inr decode_fields_Inr)

lemma read_written:
  assumes "write_record w = Inr bs" and "length (rec_plaintext_frame w) + 91 \<le> min m QUIC_PREVIEW_MAX_FRAME_LEN"
  shows "read_record m (bs @ rest) = Inr (Some (w, rest))"
proof -
  obtain e where e: "encode_record w = Inr e" "length e < 2 ^ 32" and bs: "bs = to_be_bytes 4 (word_of_nat (length e) :: u32) @ e"
    using assms(1) by (auto simp: write_record_def split: sum.splits if_splits)
  note pos = encoded_record_len [OF e(1)]
  then have "length e \<le> min m QUIC_PREVIEW_MAX_FRAME_LEN" using assms(2) by linarith
  then have ok: "validate_frame_len (length e) m = Inr ()" using pos by (auto simp: validate_frame_len_def)
  have len: "unat (word_of_nat (length e) :: u32) = length e" using e(2) by (intro unat_word_of_nat) simp
  show ?thesis
    using pos decode_encoded_record [OF e(1)] by (simp add: bs read_record_def from_to_be_bytes Let_def len ok)
qed

section \<open>What is sent is what is received\<close>

fun numbered :: "bytes \<Rightarrow> nat \<Rightarrow> AgentTextStreamRecordV1 list \<Rightarrow> bool" where
  "numbered sid n [] = True"
| "numbered sid n (r # rs) = (rec_stream_id r = sid \<and> unat (rec_seq r) = Suc n \<and> numbered sid (Suc n) rs)"

definition chunk_of :: "AgentTextStreamRecordV1 \<Rightarrow> ReceivedTextChunk" where
  "chunk_of r = \<lparr>chunk_seq = rec_seq r, chunk_record_type = rec_type r, chunk_flags = rec_flags r,
     chunk_text = stream_record_text r\<rparr>"

definition delta_text :: "AgentTextStreamRecordV1 \<Rightarrow> bytes" where
  "delta_text r = (if rec_type r = RECORD_TEXT_DELTA then stream_record_text r else [])"

text \<open>A receiver that has accepted \<open>n\<close> records and nothing else, with room for \<open>k\<close> more records of
  \<open>b\<close> bytes.\<close>
definition room_for :: "receive_state \<Rightarrow> nat \<Rightarrow> nat \<Rightarrow> nat \<Rightarrow> bool" where
  "room_for st n k b =
     (let acc = rcv_limits st; lim = acc_limits acc in
      unat (rcv_high_water st) = n \<and> unat (acc_wire_records acc) = n \<and> unat (acc_records acc) = n \<and>
      n + k \<le> unat (lim_max_records lim) \<and>
      acc_plaintext_bytes acc + b \<le> min (lim_max_plaintext_bytes lim) USIZE_MAX)"

lemma checked_succ:
  assumes "unat w < unat (u :: u64)"
  shows "checked_add w 1 = Some (w + 1) \<and> unat (w + 1) = Suc (unat w) \<and> w + 1 \<le> u"
proof -
  have w: "unat (w + 1) = unat w + unat (1 :: u64)"
    using assms unat_less_exp [of u] by (intro unat_add_no_overflow) simp
  then have "checked_add w 1 = Some (w + 1)" by (simp only: checked_add_Some)
  then show ?thesis using w assms by (simp add: word_le_nat_alt)
qed

lemma accept_in_room:
  assumes room: "room_for st n (Suc k) (length (rec_plaintext_frame p) + b)"
    and seq: "unat (rec_seq r) = Suc n" "rec_seq p = rec_seq r"
    and open_ok: "(case crypto of Some c \<Rightarrow> decrypt_record lib c r | None \<Rightarrow> Inr r) = Inr p"
    and t: "rcv_transcript st = Some t \<or> (rcv_transcript st = None \<and> t = new_transcript (sha256 lib) (rec_stream_id p) eid)"
    and sid: "tr_stream_id t = rec_stream_id p"
  shows "\<exists>st'. receive_record lib crypto eid st r = Inr st' \<and> room_for st' (Suc n) k b \<and>
    rcv_transcript st' = Some (append_transcript (sha256 lib) t (rec_seq p) (rec_type p) (rec_plaintext_frame p)) \<and>
    rcv_chunks st' = rcv_chunks st @ [chunk_of p] \<and> rcv_text st' = rcv_text st @ delta_text p"
proof -
  let ?acc = "rcv_limits st"
  let ?max = "lim_max_records (acc_limits ?acc)"
  have lt: "unat (rcv_high_water st) = n" "unat (acc_wire_records ?acc) < unat ?max" "unat (acc_records ?acc) < unat ?max"
    using room by (auto simp: room_for_def Let_def)
  note W = checked_succ [OF lt(2)] and R = checked_succ [OF lt(3)]
  have "rec_seq r = rcv_high_water st + 1"
  proof -
    have "rcv_high_water st \<noteq> - 1" using lt(1) seq(1) unat_less_exp [of "rec_seq r"] unat_word_max [where 'a = 64] by auto
    then show ?thesis using unat_plus_one [of "rcv_high_water st"] lt(1) seq(1) by (simp add: word_unat_eq_iff)
  qed
  moreover have "\<not> rec_seq r \<le> rcv_high_water st" using lt(1) seq(1) by (simp add: word_le_nat_alt)
  moreover have "observe_wire_record ?acc = Inr (?acc\<lparr>acc_wire_records := acc_wire_records ?acc + 1\<rparr>)"
    using W by (simp add: observe_wire_record_def not_less)
  moreover have "observe (?acc\<lparr>acc_wire_records := acc_wire_records ?acc + 1\<rparr>) p =
      Inr (?acc\<lparr>acc_wire_records := acc_wire_records ?acc + 1, acc_records := acc_records ?acc + 1,
        acc_plaintext_bytes := acc_plaintext_bytes ?acc + length (rec_plaintext_frame p)\<rparr>)"
    using R room by (simp add: observe_def not_less room_for_def Let_def)
  ultimately have rcv: "receive_record lib crypto eid st r = accept_record (sha256 lib) eid st
      (?acc\<lparr>acc_wire_records := acc_wire_records ?acc + 1, acc_records := acc_records ?acc + 1,
        acc_plaintext_bytes := acc_plaintext_bytes ?acc + length (rec_plaintext_frame p)\<rparr>) p"
    by (simp add: receive_record_def open_ok)
  have "tr_stream_id t = rec_stream_id p \<and> (case rcv_transcript st of Some t \<Rightarrow> t
      | None \<Rightarrow> new_transcript (sha256 lib) (rec_stream_id p) eid) = t"
    using t sid by auto
  then show ?thesis
    unfolding rcv using room W R seq
    by (auto simp: accept_record_def Let_def chunk_of_def delta_text_def room_for_def)
qed

lemma append_transcript_stream [simp]: "tr_stream_id (append_transcript H t s ty f) = tr_stream_id t"
  by (simp add: append_transcript_def)

lemma wire_opens:
  assumes "aead_correct lib" and "wire_record lib crypto r = Inr w"
  shows "(case crypto of Some c \<Rightarrow> decrypt_record lib c w | None \<Rightarrow> Inr w) = Inr r \<and> rec_seq w = rec_seq r \<and>
    length (rec_plaintext_frame w) \<le> length (rec_plaintext_frame r) + 16"
proof (cases crypto)
  case (Some c)
  then show ?thesis using decrypt_encrypted [OF assms(1), of c r w] assms(2) by (simp add: wire_record_def)
qed (use assms(2) in \<open>simp add: wire_record_def\<close>)

lemma receive_sent:
  assumes lib: "aead_correct lib"
  shows "send_records lib crypto t rs = Inr (wire, t') \<Longrightarrow> numbered sid n rs \<Longrightarrow>
    room_for st n (length rs) (sum_list (map (\<lambda>r. length (rec_plaintext_frame r)) rs)) \<Longrightarrow>
    (\<forall>r\<in>set rs. length (rec_plaintext_frame r) + 107 \<le> min m QUIC_PREVIEW_MAX_FRAME_LEN) \<Longrightarrow>
    tr_stream_id t = sid \<Longrightarrow>
    rcv_transcript st = Some t \<or> (rcv_transcript st = None \<and> t = new_transcript (sha256 lib) sid eid) \<Longrightarrow>
    \<exists>st'. receive_loop lib crypto eid m st wire = Inr st' \<and>
      rcv_transcript st' = (if rs = [] then rcv_transcript st else Some t') \<and>
      rcv_chunks st' = rcv_chunks st @ map chunk_of rs \<and>
      rcv_text st' = rcv_text st @ concat (map delta_text rs)"
proof (induction rs arbitrary: t wire n st)
  case Nil
  then show ?case by (simp add: receive_loop.simps read_record_def)
next
  case (Cons r rs)
  let ?t = "append_transcript (sha256 lib) t (rec_seq r) (rec_type r) (rec_plaintext_frame r)"
  obtain w out more where w: "wire_record lib crypto r = Inr w" "write_record w = Inr out"
    and more: "send_records lib crypto ?t rs = Inr (more, t')" and wire: "wire = out @ more"
    using Cons.prems(1) by (auto simp: result_bind_Inr)
  note O = wire_opens [OF lib w(1)]
  have read: "read_record m wire = Inr (Some (w, more))"
    unfolding wire using O Cons.prems(4) by (intro read_written [OF w(2)]) auto
  have seq: "unat (rec_seq w) = Suc n" "rec_seq r = rec_seq w" "rec_stream_id r = sid" and num: "numbered sid (Suc n) rs"
    using Cons.prems(2) O by auto
  have "\<exists>st1. receive_record lib crypto eid st w = Inr st1 \<and>
      room_for st1 (Suc n) (length rs) (sum_list (map (\<lambda>r. length (rec_plaintext_frame r)) rs)) \<and>
      rcv_transcript st1 = Some ?t \<and> rcv_chunks st1 = rcv_chunks st @ [chunk_of r] \<and>
      rcv_text st1 = rcv_text st @ delta_text r"
    using Cons.prems(3,5,6) O seq by (intro accept_in_room) auto
  then obtain st1 where st1: "receive_record lib crypto eid st w = Inr st1"
      "room_for st1 (Suc n) (length rs) (sum_list (map (\<lambda>r. length (rec_plaintext_frame r)) rs))"
      "rcv_transcript st1 = Some ?t" "rcv_chunks st1 = rcv_chunks st @ [chunk_of r]"
      "rcv_text st1 = rcv_text st @ delta_text r" by blast
  obtain st2 where st2: "receive_loop lib crypto eid m st1 more = Inr st2"
      "rcv_transcript st2 = (if rs = [] then rcv_transcript st1 else Some t')"
      "rcv_chunks st2 = rcv_chunks st1 @ map chunk_of rs"
      "rcv_text st2 = rcv_text st1 @ concat (map delta_text rs)"
    using Cons.IH [OF more num st1(2)] Cons.prems(4,5) st1(3) by auto
  have "rs = [] \<Longrightarrow> t' = ?t" using more by auto
  then show ?case
    using st1 st2 read by (auto simp: receive_loop.simps [of _ _ _ _ _ wire])
qed

definition chunk_triple :: "AgentTextStreamRecordV1 \<Rightarrow> chunk" where
  "chunk_triple r = (rec_seq r, rec_type r, rec_plaintext_frame r)"

definition frame_of :: "AgentTextStreamRecordV1 \<Rightarrow> u8 \<times> bytes" where
  "frame_of r = (rec_type r, rec_plaintext_frame r)"

lemma send_records_transcript:
  "send_records lib crypto t rs = Inr (wire, t') \<Longrightarrow> t' = append_chunks (sha256 lib) t (map chunk_triple rs)"
  by (induction rs arbitrary: t wire) (auto simp: result_bind_Inr chunk_triple_def)

lemma build_records_shape:
  "build_records H sid next_seq off t frames = Inr (rs, t') \<Longrightarrow> off + length frames < 2 ^ 64 \<Longrightarrow>
     unat next_seq + off = Suc n \<Longrightarrow>
     numbered sid n rs \<and> map frame_of rs = frames \<and> t' = append_chunks H t (map chunk_triple rs)"
proof (induction frames arbitrary: off t rs n)
  case (Cons f frames)
  obtain ty pt where f: "f = (ty, pt)" by force
  obtain seq rs' where seq: "checked_add next_seq (word_of_nat off) = Some seq"
    and rest: "build_records H sid next_seq (Suc off) (append_transcript H t seq ty pt) frames = Inr (rs', t')"
    and rs: "rs = new_record sid seq ty pt # rs'"
    using Cons.prems(1) by (auto simp: f Let_def split: option.splits sum.splits)
  have "unat (word_of_nat off :: u64) = off" using Cons.prems(2) by (intro unat_word_of_nat) simp
  then have "unat seq = unat next_seq + off" using seq by (simp only: checked_add_Some)
  then show ?case
    using Cons.IH [OF rest, of "Suc n"] Cons.prems(2,3)
    by (simp add: rs f frame_of_def chunk_triple_def new_record_def)
qed simp

lemma unreserved_shape:
  "k + length frames < 2 ^ 64 \<Longrightarrow>
     numbered sid k (map (\<lambda>(i, ty, p). new_record sid (word_of_nat i + 1) ty p) (enumerate k frames)) \<and>
     map frame_of (map (\<lambda>(i, ty, p). new_record sid (word_of_nat i + 1) ty p) (enumerate k frames)) = frames"
proof (induction frames arbitrary: k)
  case (Cons f frames)
  have "unat (word_of_nat k :: u64) = k" using Cons.prems by (intro unat_word_of_nat) simp
  then have "unat (word_of_nat k + 1 :: u64) = k + unat (1 :: u64)"
    using Cons.prems by (subst unat_add_no_overflow) simp_all
  then show ?case using Cons by (cases f) (simp add: new_record_def frame_of_def)
qed simp

lemma from_state_initial: "from_state sid eid (tr_hash (new_transcript H sid eid)) 0 = new_transcript H sid eid"
  by (simp add: from_state_def new_transcript_def)

lemma reserve_fresh:
  assumes "reserve_publisher_records H (Some st) ctx sid eid frames token s = (Inr rpr, s')"
    and "ps_load st s (H (encode_key_context ctx)) = Inr None" and "length frames < 2 ^ 64"
  shows "numbered sid 0 (rpr_records rpr) \<and> map frame_of (rpr_records rpr) = frames \<and>
    rpr_transcript_hash rpr = tr_hash (append_chunks H (new_transcript H sid eid) (map chunk_triple (rpr_records rpr))) \<and>
    rpr_chunk_count rpr =
      tr_chunk_count (append_chunks H (new_transcript H sid eid) (map chunk_triple (rpr_records rpr)))"
proof -
  obtain rs t where built: "build_records H sid 1 0 (new_transcript H sid eid) frames = Inr (rs, t)"
    and rpr: "rpr_records rpr = rs" "rpr_transcript_hash rpr = tr_hash t" "rpr_chunk_count rpr = tr_chunk_count t"
    using assms(1,2)
    by (auto simp: reserve_publisher_records_def expected_snapshot_def Let_def from_state_initial
        split: sum.splits option.splits prod.splits)
  show ?thesis using build_records_shape [OF built, of 0] assms(3) rpr by simp
qed

definition unused_context :: "crypto_lib \<Rightarrow> 's SendTextStream \<Rightarrow> 's \<Rightarrow> bool" where
  "unused_context lib config s =
     (case send_crypto config of
        None \<Rightarrow> True
      | Some c \<Rightarrow>
          (case publisher_sequence_store c of
             None \<Rightarrow> True
           | Some st \<Rightarrow> ps_load st s (sha256 lib (encode_key_context (crypto_context c))) = Inr None))"

lemma send_outcome:
  assumes sent: "send_text_stream lib config token s = (Inr (wire, sent), s')"
    and fresh: "unused_context lib config s" and len: "length (text_frames config) < 2 ^ 64"
  obtains rs t where "send_records lib (send_crypto config)
        (new_transcript (sha256 lib) (send_stream_id config) (send_start_event_id config)) rs = Inr (wire, t)"
    "numbered (send_stream_id config) 0 rs" "map frame_of rs = text_frames config"
    "sent_transcript_hash sent = tr_hash t" "sent_chunk_count sent = tr_chunk_count t"
proof -
  let ?new = "new_transcript (sha256 lib) (send_stream_id config) (send_start_event_id config)"
  obtain reservation s1 where res: "reserve_for_send lib config token s = (Inr reservation, s1)"
    using sent by (auto simp: send_text_stream_def split: if_splits prod.splits sum.splits)
  show thesis
  proof (cases reservation)
    case None
    then show thesis
      using sent res that unreserved_shape [of 0 "text_frames config" "send_stream_id config"] len
      by (auto simp: send_text_stream_def unreserved_records_def Let_def split: if_splits sum.splits)
  next
    case (Some rpr)
    obtain c st where c: "send_crypto config = Some c" "publisher_sequence_store c = Some st"
      and rr: "reserve_publisher_records (sha256 lib) (Some st) (crypto_context c) (send_stream_id config)
        (send_start_event_id config) (text_frames config) token s = (Inr rpr, s1)"
      using res Some
      by (auto simp: reserve_for_send_def reserve_publisher_records_def
          split: option.splits if_splits prod.splits sum.splits)
    have "ps_load st s (sha256 lib (encode_key_context (crypto_context c))) = Inr None"
      using fresh c by (simp add: unused_context_def)
    note R = reserve_fresh [OF rr this len]
    obtain t where snd: "send_records lib (send_crypto config) ?new (rpr_records rpr) = Inr (wire, t)"
      and out: "sent_transcript_hash sent = rpr_transcript_hash rpr" "sent_chunk_count sent = rpr_chunk_count rpr"
      using sent res Some
      by (auto simp: send_text_stream_def Let_def split: if_splits sum.splits prod.splits)
    show thesis
      using R send_records_transcript [OF snd] out by (intro that [OF snd]) auto
  qed
qed

lemma numbered_seqs: "numbered sid n rs \<Longrightarrow> map (\<lambda>r. unat (rec_seq r)) rs = [Suc n..<Suc n + length rs]"
  by (induction rs arbitrary: n) (auto simp: upt_conv_Cons)

lemma effective_cap_bounds: "1 \<le> effective_plaintext_cap p" "effective_plaintext_cap p \<le> 65519"
  by (auto simp: effective_plaintext_cap_def MAX_PLAINTEXT_FRAME_LEN_def word_le_nat_alt word_less_nat_alt
      split: option.splits) (auto simp: min_def word_le_nat_alt)

lemma frames_shape:
  "map frame_of rs = map (Pair ty) ps \<Longrightarrow>
     map rec_plaintext_frame rs = ps \<and> (\<forall>r\<in>set rs. rec_type r = ty)"
  by (induction rs arbitrary: ps) (auto simp: frame_of_def Cons_eq_map_conv)

lemma append_chunks_stream: "tr_stream_id (append_chunks H t cs) = tr_stream_id t"
  by (induction cs arbitrary: t) simp_all

text \<open>
  C18: A direct stream delivers exactly what was sent. If the AEAD opens what it sealed, the stream context
  is unused and the receiver's limits leave room for the text, then for every nonempty text of
  Unicode scalar values the receiver returns the sender's stream id, the whole text, one chunk per
  frame with sequence numbers counting from one, and the transcript hash and chunk count the sender
  reports; with or without encryption.\<close>

theorem direct_stream_delivers:
  assumes lib: "aead_correct lib"
    and sent: "send_text_stream lib config token s = (Inr (wire, sent), s')"
    and fresh: "unused_context lib config s"
    and scalars: "list_all is_scalar (send_text config)" "send_text config \<noteq> []"
    and lim: "length (text_frames config) \<le> unat (lim_max_records limits)"
      "length (utf8_string (send_text config)) \<le> min (lim_max_plaintext_bytes limits) USIZE_MAX"
    and cap: "min (send_max_chunk_bytes config) (effective_plaintext_cap (send_max_plaintext_frame_len config))
      \<le> effective_plaintext_cap (Some (lim_max_plaintext_frame_len limits))"
  shows "\<exists>chunks. receive_once_with_limits lib (send_start_event_id config) (send_crypto config) limits wire =
      Inr \<lparr>received_stream_id = send_stream_id config, received_chunks = chunks,
           received_text = utf8_string (send_text config),
           received_transcript_hash = sent_transcript_hash sent,
           received_chunk_count = sent_chunk_count sent\<rparr> \<and>
    map chunk_text chunks = map snd (text_frames config) \<and>
    map (\<lambda>c. unat (chunk_seq c)) chunks = [1..<1 + length (text_frames config)]"
proof -
  let ?m = "min (send_max_chunk_bytes config) (effective_plaintext_cap (send_max_plaintext_frame_len config))"
  let ?H = "sha256 lib" and ?eid = "send_start_event_id config" and ?sid = "send_stream_id config"
  define pieces where "pieces = split_text_deltas (send_text config) ?m"
  have frames: "text_frames config = map (Pair RECORD_TEXT_DELTA) pieces"
    by (simp add: text_frames_def pieces_def)
  have pieces: "concat pieces = utf8_string (send_text config)" "list_all (text_piece ?m) pieces"
    using split_text_deltas_spec [OF scalars(1)] by (simp_all add: pieces_def)
  have len64: "length (text_frames config) < 2 ^ 64"
    using lim(1) unat_less_exp [of "lim_max_records limits"] by simp
  obtain rs t where rs: "send_records lib (send_crypto config) (new_transcript ?H ?sid ?eid) rs = Inr (wire, t)"
      "numbered ?sid 0 rs" "map frame_of rs = text_frames config"
      "sent_transcript_hash sent = tr_hash t" "sent_chunk_count sent = tr_chunk_count t"
    using send_outcome [OF sent fresh len64] .
  have shape: "map rec_plaintext_frame rs = pieces" "\<forall>r\<in>set rs. rec_type r = RECORD_TEXT_DELTA"
    using frames_shape [of rs RECORD_TEXT_DELTA pieces] rs(3) frames by auto
  have piece: "text_piece ?m (rec_plaintext_frame r)" if "r \<in> set rs" for r
    using pieces(2) that unfolding shape(1) [symmetric] by (simp add: list_all_iff)
  have nonempty: "rs \<noteq> []" using pieces(1) shape(1) scalars(2) by (cases "send_text config") auto
  have total: "sum_list (map (\<lambda>r. length (rec_plaintext_frame r)) rs) = length (utf8_string (send_text config))"
    unfolding pieces(1) [symmetric] shape(1) [symmetric] by (simp add: length_concat comp_def)
  have room: "room_for (initial_state limits) 0 (length rs) (sum_list (map (\<lambda>r. length (rec_plaintext_frame r)) rs))"
    using lim arg_cong [OF rs(3), of length]
    by (simp add: total room_for_def initial_state_def new_accumulator_def)
  have small: "\<forall>r\<in>set rs. length (rec_plaintext_frame r) + 107 \<le>
      min (frame_len_cap (Some (lim_max_plaintext_frame_len limits))) QUIC_PREVIEW_MAX_FRAME_LEN"
  proof
    fix r assume "r \<in> set rs"
    then have "length (rec_plaintext_frame r) \<le> max ?m 4" using piece by (simp add: text_piece_def)
    also have "\<dots> \<le> effective_plaintext_cap (Some (lim_max_plaintext_frame_len limits)) + 4" using cap by linarith
    finally show "length (rec_plaintext_frame r) + 107 \<le>
        min (frame_len_cap (Some (lim_max_plaintext_frame_len limits))) QUIC_PREVIEW_MAX_FRAME_LEN"
      using effective_cap_bounds(2) [of "Some (lim_max_plaintext_frame_len limits)"]
      by (simp add: frame_len_cap_def QUIC_PREVIEW_MAX_FRAME_LEN_def FRAME_ALLOWANCE_def MAX_PLAINTEXT_FRAME_LEN_def)
  qed
  have start: "rcv_transcript (initial_state limits) = None" "rcv_chunks (initial_state limits) = []"
      "rcv_text (initial_state limits) = []" by (simp_all add: initial_state_def)
  obtain st where st: "receive_loop lib (send_crypto config) ?eid
        (frame_len_cap (Some (lim_max_plaintext_frame_len limits))) (initial_state limits) wire = Inr st"
      "rcv_transcript st = Some t" "rcv_chunks st = map chunk_of rs" "rcv_text st = concat (map delta_text rs)"
    using receive_sent [OF lib rs(1,2) room small, of ?eid] nonempty start by (auto simp: new_transcript_def)
  have shown: "stream_record_text r = rec_plaintext_frame r" "delta_text r = rec_plaintext_frame r" if "r \<in> set rs" for r
    using piece_text [OF piece [OF that]] shape(2) that by (simp_all add: stream_record_text_def delta_text_def)
  have "concat (map delta_text rs) = utf8_string (send_text config)"
    unfolding pieces(1) [symmetric] shape(1) [symmetric] using shown(2) by (metis map_cong)
  moreover have "tr_stream_id t = ?sid"
    using send_records_transcript [OF rs(1)] by (simp add: append_chunks_stream new_transcript_def)
  moreover have "map chunk_text (map chunk_of rs) = map snd (text_frames config)"
    using shown(1) shape(1) by (auto simp: frames chunk_of_def comp_def)
  moreover have "map (\<lambda>c. unat (chunk_seq c)) (map chunk_of rs) = [1..<1 + length (text_frames config)]"
    using numbered_seqs [OF rs(2)] arg_cong [OF rs(3), of length] by (simp add: chunk_of_def comp_def)
  ultimately show ?thesis
    using st rs(4,5) by (auto simp: receive_once_with_limits_def)
qed

definition example_lib :: crypto_lib where
  "example_lib =
     \<lparr>sha256 = tail_hash, hkdf_from_prk = (\<lambda>_. True), hkdf_expand = (\<lambda>_ _ n. Some (replicate n 0)),
      aead_key_ok = (\<lambda>_. True), aead_encrypt = (\<lambda>_ _ _ m. Some (m @ replicate 16 0)),
      aead_decrypt = (\<lambda>_ _ _ c. Some (take (length c - 16) c))\<rparr>"

definition example_config :: "EphemeralPublisherState SendTextStream" where
  "example_config =
     \<lparr>send_stream_id = replicate 32 2, send_start_event_id = replicate 32 4, send_text = [72, 105],
      send_max_chunk_bytes = 1,
      send_crypto = Some \<lparr>stream_secret = replicate 32 1,
        crypto_context = \<lparr>kc_group_id = [3], kc_stream_id = replicate 32 2, kc_mls_epoch = 7,
          kc_sender_id = [5], kc_start_event_id = replicate 32 4\<rparr>,
        publisher_sequence_store = Some ephemeral_store\<rparr>,
      send_max_plaintext_frame_len = None\<rparr>"

lemmas example_send_defs =
  text_frames_def split_text_deltas_def split_step_def len_utf8_def utf8_char_def effective_plaintext_cap_def
  MAX_PLAINTEXT_FRAME_LEN_def reserve_publisher_records_def ephemeral_store_def ephemeral_load_def
  ephemeral_reserve_def ephemeral_confirm_def confirm_reserved_def expected_snapshot_def new_record_def
  validate_record_def MAX_STREAM_ID_LEN_def MAX_RECORD_CIPHERTEXT_LEN_def checked_add_def Let_def

lemma example_frames: "text_frames example_config = [(RECORD_TEXT_DELTA, [72]), (RECORD_TEXT_DELTA, [105])]"
  by (simp add: example_config_def example_send_defs)

lemma example_wire:
  assumes "r = new_record (replicate 32 2) seq ty [b]"
  shows "\<exists>bs. result_bind (wire_record example_lib (send_crypto example_config) r) write_record = Inr bs"
  using assms
  by (simp add: example_lib_def example_config_def wire_record_def encrypt_record_def write_record_def
      validate_crypto_record_context_def record_cipher_def derive_record_key_def derive_record_nonce_def
      derive_bytes_def encode_record_def encoded_len_def AGENT_TEXT_STREAM_SECRET_LEN_def PROFILE_STREAM_ID_LEN_def
      START_EVENT_ID_LEN_def example_send_defs encode_quic_varint_def)

lemma example_sent:
  "\<exists>wire sent s'. send_text_stream example_lib example_config [9] Map.empty = (Inr (wire, sent), s')"
proof -
  let ?sid = "replicate 32 2"
  define rs where "rs = [new_record ?sid 1 RECORD_TEXT_DELTA [72], new_record ?sid 2 RECORD_TEXT_DELTA [105]]"
  obtain rpr s1 where res: "reserve_for_send example_lib example_config [9] Map.empty = (Inr (Some rpr), s1)"
      "rpr_records rpr = rs" "fst (confirm_for_send example_config rpr s1) = Inr ()"
    unfolding reserve_for_send_def confirm_for_send_def example_frames rs_def
    by (simp add: example_config_def example_send_defs)
  obtain wire t where "send_records example_lib (send_crypto example_config) (new_transcript (sha256 example_lib)
      (send_stream_id example_config) (send_start_event_id example_config)) rs = Inr (wire, t)"
    using example_wire [OF refl, of 1 RECORD_TEXT_DELTA 72] example_wire [OF refl, of 2 RECORD_TEXT_DELTA 105]
    by (auto simp: result_bind_Inr rs_def)
  moreover have "0 < send_max_chunk_bytes example_config"
      "\<not> send_max_chunk_bytes example_config > unat MAX_PLAINTEXT_FRAME_LEN"
    by (simp_all add: example_config_def MAX_PLAINTEXT_FRAME_LEN_def)
  ultimately show ?thesis
    using res by (cases "confirm_for_send example_config rpr s1") (simp add: send_text_stream_def)
qed

theorem direct_stream_delivers_witness:
  "\<exists>wire sent s' chunks.
     send_text_stream example_lib example_config [9] Map.empty = (Inr (wire, sent), s') \<and>
     receive_once_with_limits example_lib (replicate 32 4) (send_crypto example_config) default_limits wire =
       Inr \<lparr>received_stream_id = replicate 32 2, received_chunks = chunks, received_text = [72, 105],
            received_transcript_hash = sent_transcript_hash sent,
            received_chunk_count = sent_chunk_count sent\<rparr>"
proof -
  obtain wire sent s' where sent: "send_text_stream example_lib example_config [9] Map.empty = (Inr (wire, sent), s')"
    using example_sent by blast
  have lib: "aead_correct example_lib" by (simp add: aead_correct_def example_lib_def AEAD_TAG_LEN_def)
  have fresh: "unused_context example_lib example_config Map.empty"
    by (simp add: unused_context_def example_config_def ephemeral_store_def ephemeral_load_def)
  have "\<exists>chunks. receive_once_with_limits example_lib (send_start_event_id example_config)
      (send_crypto example_config) default_limits wire =
        Inr \<lparr>received_stream_id = send_stream_id example_config, received_chunks = chunks,
             received_text = utf8_string (send_text example_config),
             received_transcript_hash = sent_transcript_hash sent,
             received_chunk_count = sent_chunk_count sent\<rparr> \<and>
      map chunk_text chunks = map snd (text_frames example_config) \<and>
      map (\<lambda>c. unat (chunk_seq c)) chunks = [1..<1 + length (text_frames example_config)]"
    by (rule direct_stream_delivers [OF lib sent fresh])
       (unfold example_frames, simp_all add: example_config_def default_limits_def is_scalar_def USIZE_MAX_def
          utf8_string_def utf8_char_def effective_plaintext_cap_def MAX_PLAINTEXT_FRAME_LEN_def)
  moreover have "send_start_event_id example_config = replicate 32 4" "send_stream_id example_config = replicate 32 2"
      "utf8_string (send_text example_config) = [72, 105]"
    by (simp_all add: example_config_def utf8_string_def utf8_char_def)
  ultimately show ?thesis using sent by auto
qed

end
