(* ===== verification/Broker_Control.thy ===== *)
theory Broker_Control
  imports Quic_Stream_Correct
begin

text \<open>
  What travels between the QUIC broker and its clients: \<open>transport-quic-broker/src/control.rs\<close> (the
  stream key and the control envelope), \<open>frame.rs\<close> (length-prefixed frames) and the settings
  \<open>QuicBrokerServer::bind\<close> accepts, with the constants of \<open>protocol.rs\<close> and \<open>config.rs\<close> they use.

  A receive stream is what quinn delivers on it: the bytes up to its end, and how it ends, cleanly
  (\<open>None\<close>) or with a fault.  A deadline of \<open>broker_read_deadline\<close> that passes is such a fault.
  \<open>QuicBrokerError\<close> has the variants these paths return; the error values of quinn itself are left out.
\<close>

section \<open>Errors, keys and envelopes\<close>

datatype QuicBrokerError =
    Read
  | ReadExact
  | Record AgentTextStreamRecordError
  | StreamCrypto QuicTextStreamError
  | ReceiveLimit AgentTextStreamReceiveLimitError
  | EmptySubscriberQueue
  | EmptyBacklog
  | EmptyRoomLimit
  | EmptyBacklogByteLimit
  | EmptyConnectionLimit
  | EmptyStreamLimit
  | EmptyReadTimeout
  | EmptyIdleTimeout
  | EmptyKeepAliveInterval
  | EmptyPublishRecordLimit
  | EmptyPublishFrameByteLimit
  | ReplayTtlTooLarge nat nat
  | RoomLimitExceeded nat
  | BacklogRecordTooLarge nat nat
  | ReadTimeout
  | MissingControlFrame
  | WrongControlProtocol bytes
  | UnknownControlType u8
  | ControlTruncated string
  | ControlTrailingBytes nat
  | PublishRequiresUnidirectionalStream
  | SubscribeRequiresBidirectionalStream
  | EmptyStreamId
  | StreamIdTooLong nat
  | EmptyStartEventId
  | StartEventIdTooLong nat
  | EmptyStream
  | TruncatedFrameLength
  | EmptyFrame
  | FrameTooLarge nat
  | EmptyChunkSize
  | ChunkSizeTooLarge nat
  | MixedStreamIds
  | UnexpectedSequence u64 u64

record BrokerStreamKey =
  key_stream_id :: bytes
  key_start_event_id :: bytes

definition QUIC_BROKER_PROTOCOL_V1 :: bytes where
  "QUIC_BROKER_PROTOCOL_V1 = ascii ''marmot.quic_broker.v1''"
definition QUIC_BROKER_CONTROL_PUBLISH :: u8 where "QUIC_BROKER_CONTROL_PUBLISH = 1"
definition QUIC_BROKER_CONTROL_SUBSCRIBE :: u8 where "QUIC_BROKER_CONTROL_SUBSCRIBE = 2"
definition MAX_FRAME_SIZE :: nat where "MAX_FRAME_SIZE = QUIC_PREVIEW_MAX_FRAME_LEN"
definition MAX_CONTROL_FRAME_LEN :: nat where "MAX_CONTROL_FRAME_LEN = 256"

datatype QuicBrokerControlTypeV1 = Publish | Subscribe

fun control_wire :: "QuicBrokerControlTypeV1 \<Rightarrow> u8" where
  "control_wire Publish = QUIC_BROKER_CONTROL_PUBLISH"
| "control_wire Subscribe = QUIC_BROKER_CONTROL_SUBSCRIBE"

definition control_from_wire :: "u8 \<Rightarrow> QuicBrokerError + QuicBrokerControlTypeV1" where
  "control_from_wire v =
     (if v = QUIC_BROKER_CONTROL_PUBLISH then Inr Publish
      else if v = QUIC_BROKER_CONTROL_SUBSCRIBE then Inr Subscribe
      else Inl (UnknownControlType v))"

record QuicBrokerControlEnvelopeV1 =
  control_type :: QuicBrokerControlTypeV1
  env_stream_id :: bytes
  env_start_event_id :: bytes

definition publish_envelope :: "bytes \<Rightarrow> bytes \<Rightarrow> QuicBrokerControlEnvelopeV1" where
  "publish_envelope sid eid = \<lparr>control_type = Publish, env_stream_id = sid, env_start_event_id = eid\<rparr>"

definition subscribe_envelope :: "bytes \<Rightarrow> bytes \<Rightarrow> QuicBrokerControlEnvelopeV1" where
  "subscribe_envelope sid eid = \<lparr>control_type = Subscribe, env_stream_id = sid, env_start_event_id = eid\<rparr>"

definition validate_bounds :: "QuicBrokerControlEnvelopeV1 \<Rightarrow> QuicBrokerError + unit" where
  "validate_bounds e =
     (if env_stream_id e = [] then Inl EmptyStreamId
      else if length (env_stream_id e) > MAX_STREAM_ID_LEN then Inl (StreamIdTooLong (length (env_stream_id e)))
      else if env_start_event_id e = [] then Inl EmptyStartEventId
      else if length (env_start_event_id e) > MAX_STREAM_ID_LEN
      then Inl (StartEventIdTooLong (length (env_start_event_id e)))
      else Inr ())"

definition encode_control :: "QuicBrokerControlEnvelopeV1 \<Rightarrow> QuicBrokerError + bytes" where
  "encode_control e =
     result_bind (validate_bounds e) (\<lambda>_.
       Inr (encode_quic_varint (word_of_nat (length QUIC_BROKER_PROTOCOL_V1)) @ QUIC_BROKER_PROTOCOL_V1
            @ [control_wire (control_type e)]
            @ encode_quic_varint (word_of_nat (length (env_stream_id e))) @ env_stream_id e
            @ encode_quic_varint (word_of_nat (length (env_start_event_id e))) @ env_start_event_id e))"

definition take_control_len_prefixed :: "bytes \<Rightarrow> string \<Rightarrow> QuicBrokerError + (bytes \<times> bytes)" where
  "take_control_len_prefixed bs field =
     (case decode_quic_varint bs of
        Inl _ \<Rightarrow> Inl (ControlTruncated field)
      | Inr (len, prefix_len) \<Rightarrow>
          (if length bs < prefix_len then Inl (ControlTruncated field)
           else let rest = drop prefix_len bs in
                if length rest < unat len then Inl (ControlTruncated field)
                else Inr (take (unat len) rest, drop (unat len) rest)))"

definition decode_control :: "bytes \<Rightarrow> QuicBrokerError + QuicBrokerControlEnvelopeV1" where
  "decode_control bs =
     result_bind (take_control_len_prefixed bs ''marmot_broker'') (\<lambda>(marmot_broker, rest0).
     if marmot_broker = [] \<or> length marmot_broker > 255
     then Inl (WrongControlProtocol (from_utf8_lossy marmot_broker))
     else if marmot_broker \<noteq> QUIC_BROKER_PROTOCOL_V1
     then Inl (WrongControlProtocol (from_utf8_lossy marmot_broker))
     else case rest0 of
            [] \<Rightarrow> Inl (ControlTruncated ''control_type'')
          | ty # rest1 \<Rightarrow>
              result_bind (control_from_wire ty) (\<lambda>control.
              result_bind (take_control_len_prefixed rest1 ''stream_id'') (\<lambda>(sid, rest2).
              result_bind (take_control_len_prefixed rest2 ''start_event_id'') (\<lambda>(eid, rest3).
              if rest3 \<noteq> [] then Inl (ControlTrailingBytes (length rest3))
              else let envelope = \<lparr>control_type = control, env_stream_id = sid, env_start_event_id = eid\<rparr>
                   in result_bind (validate_bounds envelope) (\<lambda>_. Inr envelope)))))"

definition envelope_key :: "QuicBrokerControlEnvelopeV1 \<Rightarrow> BrokerStreamKey" where
  "envelope_key e = \<lparr>key_stream_id = env_stream_id e, key_start_event_id = env_start_event_id e\<rparr>"

section \<open>Frames\<close>

datatype read_fault = ConnectionFault | DeadlineFault

record recv_stream =
  recv_bytes :: bytes
  recv_fault :: "read_fault option"

definition broker_validate_frame_len :: "nat \<Rightarrow> nat \<Rightarrow> QuicBrokerError + unit" where
  "broker_validate_frame_len len max_frame_len =
     (if len = 0 then Inl EmptyFrame
      else if len > min max_frame_len MAX_FRAME_SIZE then Inl (FrameTooLarge len)
      else Inr ())"

definition write_bytes_frame :: "bytes \<Rightarrow> QuicBrokerError + bytes" where
  "write_bytes_frame bs =
     (if length bs \<ge> 2 ^ 32 then Inl (FrameTooLarge (length bs))
      else Inr (to_be_bytes 4 (word_of_nat (length bs) :: u32) @ bs))"

text \<open>One frame off the stream and the stream after it, or \<open>None\<close> at its clean end.\<close>
definition read_bytes_frame :: "nat \<Rightarrow> recv_stream \<Rightarrow> QuicBrokerError + (bytes \<times> recv_stream) option" where
  "read_bytes_frame max_frame_len recv =
     (let bs = recv_bytes recv in
      if length bs < 4
      then (case recv_fault recv of
              Some ConnectionFault \<Rightarrow> Inl Read
            | Some DeadlineFault \<Rightarrow> Inl ReadTimeout
            | None \<Rightarrow> (if bs = [] then Inr None else Inl TruncatedFrameLength))
      else let len = unat (from_be_bytes (take 4 bs) :: u32); rest = drop 4 bs in
           result_bind (broker_validate_frame_len len max_frame_len) (\<lambda>_.
             if length rest < len
             then Inl (if recv_fault recv = Some DeadlineFault then ReadTimeout else ReadExact)
             else Inr (Some (take len rest, recv\<lparr>recv_bytes := drop len rest\<rparr>))))"

definition write_control_frame :: "QuicBrokerControlEnvelopeV1 \<Rightarrow> QuicBrokerError + bytes" where
  "write_control_frame control = result_bind (encode_control control) write_bytes_frame"

definition read_control_frame :: "recv_stream \<Rightarrow> QuicBrokerError + (QuicBrokerControlEnvelopeV1 \<times> recv_stream)" where
  "read_control_frame recv =
     result_bind (read_bytes_frame MAX_CONTROL_FRAME_LEN recv) (\<lambda>frame.
       case frame of
         None \<Rightarrow> Inl MissingControlFrame
       | Some (bs, rest) \<Rightarrow> result_bind (decode_control bs) (\<lambda>control. Inr (control, rest)))"

definition write_record_frame :: "AgentTextStreamRecordV1 \<Rightarrow> QuicBrokerError + bytes" where
  "write_record_frame r =
     (case encode_record r of Inl e \<Rightarrow> Inl (Record e) | Inr bs \<Rightarrow> write_bytes_frame bs)"

definition read_record_frame ::
  "nat \<Rightarrow> recv_stream \<Rightarrow> QuicBrokerError + (AgentTextStreamRecordV1 \<times> recv_stream) option" where
  "read_record_frame max_frame_len recv =
     result_bind (read_bytes_frame max_frame_len recv) (\<lambda>frame.
       case frame of
         None \<Rightarrow> Inr None
       | Some (bs, rest) \<Rightarrow>
           (case decode_record bs of Inl e \<Rightarrow> Inl (Record e) | Inr r \<Rightarrow> Inr (Some (r, rest))))"

lemma read_bytes_frame_shorter:
  "read_bytes_frame m recv = Inr (Some (bs, recv')) \<Longrightarrow> length (recv_bytes recv') < length (recv_bytes recv)"
  by (auto simp: read_bytes_frame_def result_bind_Inr Let_def
      split: if_splits option.splits read_fault.splits)

lemma read_record_frame_shorter:
  "read_record_frame m recv = Inr (Some (r, recv')) \<Longrightarrow> length (recv_bytes recv') < length (recv_bytes recv)"
  by (cases "read_bytes_frame m recv")
     (auto simp: read_record_frame_def split: option.splits sum.splits prod.splits dest: read_bytes_frame_shorter)

section \<open>Settings\<close>

text \<open>\<open>QuicBrokerConfig\<close> without the bind address and the TLS source; durations in nanoseconds.\<close>
record QuicBrokerConfig =
  cfg_per_subscriber_queue :: nat
  cfg_max_backlog :: nat
  cfg_max_rooms :: nat
  cfg_max_backlog_bytes :: nat
  cfg_max_connections :: nat
  cfg_max_streams_per_connection :: nat
  cfg_publish_max_records :: u64
  cfg_publish_max_frame_bytes :: nat
  cfg_read_timeout :: nat
  cfg_max_idle_timeout :: nat
  cfg_keep_alive_interval :: nat
  cfg_replay_ttl :: nat

definition secs :: "nat \<Rightarrow> nat" where "secs n = n * 10 ^ 9"
definition MAX_BROKER_REPLAY_TTL :: nat where "MAX_BROKER_REPLAY_TTL = secs 300"

definition default_config :: QuicBrokerConfig where
  "default_config = \<lparr>cfg_per_subscriber_queue = 32, cfg_max_backlog = 1024, cfg_max_rooms = 512,
     cfg_max_backlog_bytes = 64 * 1024 * 1024, cfg_max_connections = 256, cfg_max_streams_per_connection = 64,
     cfg_publish_max_records = 4096 * 16, cfg_publish_max_frame_bytes = 64 * 1024 * 1024,
     cfg_read_timeout = secs 15, cfg_max_idle_timeout = secs 30, cfg_keep_alive_interval = secs 10,
     cfg_replay_ttl = 0\<rparr>"

text \<open>The checks of \<open>QuicBrokerServer::bind\<close>, in order.\<close>
definition check_config :: "QuicBrokerConfig \<Rightarrow> QuicBrokerError + unit" where
  "check_config config =
     (if cfg_per_subscriber_queue config = 0 then Inl EmptySubscriberQueue
      else if cfg_max_backlog config = 0 then Inl EmptyBacklog
      else if cfg_max_rooms config = 0 then Inl EmptyRoomLimit
      else if cfg_max_backlog_bytes config = 0 then Inl EmptyBacklogByteLimit
      else if cfg_max_connections config = 0 then Inl EmptyConnectionLimit
      else if cfg_max_streams_per_connection config = 0 then Inl EmptyStreamLimit
      else if cfg_read_timeout config = 0 then Inl EmptyReadTimeout
      else if cfg_max_idle_timeout config = 0 then Inl EmptyIdleTimeout
      else if cfg_keep_alive_interval config = 0 then Inl EmptyKeepAliveInterval
      else if cfg_publish_max_records config = 0 then Inl EmptyPublishRecordLimit
      else if cfg_publish_max_frame_bytes config = 0 then Inl EmptyPublishFrameByteLimit
      else if cfg_replay_ttl config > MAX_BROKER_REPLAY_TTL
      then Inl (ReplayTtlTooLarge (cfg_replay_ttl config div 10 ^ 9) (MAX_BROKER_REPLAY_TTL div 10 ^ 9))
      else Inr ())"

lemma default_config_accepted: "check_config default_config = Inr ()"
  by (simp add: check_config_def default_config_def secs_def)

section \<open>Envelopes and frames round-trip\<close>

lemma control_from_wire_Inr: "control_from_wire v = Inr c \<longleftrightarrow> v = control_wire c"
  by (cases c) (auto simp: control_from_wire_def QUIC_BROKER_CONTROL_PUBLISH_def QUIC_BROKER_CONTROL_SUBSCRIBE_def)

lemma take_control_len_prefixed_Inr:
  "take_control_len_prefixed bs f = Inr (x, rest) \<longleftrightarrow> length x < 2 ^ 62 \<and> bs = push_len_prefixed x @ rest"
proof -
  have "take_control_len_prefixed bs f = Inr (x, rest) \<longleftrightarrow> take_len_prefixed bs f = Inr (x, rest)"
    by (auto simp: take_control_len_prefixed_def take_len_prefixed_def take_exact_def Let_def split: sum.splits)
  then show ?thesis by (simp add: take_len_prefixed_Inr)
qed

lemma take_control_len_prefixed_append:
  "length x < 2 ^ 62 \<Longrightarrow> take_control_len_prefixed (push_len_prefixed x @ rest) f = Inr (x, rest)"
  by (simp only: take_control_len_prefixed_Inr)

lemma length_protocol [simp]: "length QUIC_BROKER_PROTOCOL_V1 = 21"
  by (simp add: QUIC_BROKER_PROTOCOL_V1_def ascii_def)

lemma validate_bounds_Inr:
  "validate_bounds e = Inr () \<longleftrightarrow> env_stream_id e \<noteq> [] \<and> length (env_stream_id e) \<le> 64 \<and>
     env_start_event_id e \<noteq> [] \<and> length (env_start_event_id e) \<le> 64"
  by (auto simp: validate_bounds_def MAX_STREAM_ID_LEN_def)

lemma encode_control_Inr:
  "encode_control e = Inr bs \<longleftrightarrow> validate_bounds e = Inr () \<and>
     bs = push_len_prefixed QUIC_BROKER_PROTOCOL_V1 @ [control_wire (control_type e)]
            @ push_len_prefixed (env_stream_id e) @ push_len_prefixed (env_start_event_id e)"
  by (auto simp: encode_control_def result_bind_Inr push_len_prefixed_def)

lemma decode_control_sound:
  assumes "decode_control bs = Inr e"
  shows "encode_control e = Inr bs"
proof -
  obtain rest0 ty rest1 rest2 where e: "validate_bounds e = Inr ()" and ty: "control_from_wire ty = Inr (control_type e)"
    and t: "take_control_len_prefixed bs ''marmot_broker'' = Inr (QUIC_BROKER_PROTOCOL_V1, rest0)" "rest0 = ty # rest1"
      "take_control_len_prefixed rest1 ''stream_id'' = Inr (env_stream_id e, rest2)"
      "take_control_len_prefixed rest2 ''start_event_id'' = Inr (env_start_event_id e, [])"
    using assms by (auto simp: decode_control_def result_bind_Inr Let_def split: if_splits list.splits)
  then show ?thesis by (simp add: encode_control_Inr take_control_len_prefixed_Inr control_from_wire_Inr)
qed

lemma decode_control_complete:
  assumes "encode_control e = Inr bs"
  shows "decode_control bs = Inr e"
proof -
  have e: "validate_bounds e = Inr ()" using assms by (simp add: encode_control_Inr)
  then have len: "length (env_stream_id e) < 2 ^ 62" "length (env_start_event_id e) < 2 ^ 62"
    by (auto simp: validate_bounds_Inr)
  show ?thesis
    using assms e len take_control_len_prefixed_append [OF len(2), of "[]"]
    by (cases e) (simp add: encode_control_Inr decode_control_def take_control_len_prefixed_append
        control_from_wire_Inr [THEN iffD2] Let_def flip: length_greater_0_conv)
qed

lemma length_push_small:
  assumes "length x \<le> 64"
  shows "length (push_len_prefixed x) = length x + (if length x < 64 then 1 else 2)"
proof -
  have u: "unat (word_of_nat (length x) :: u64) = length x" using assms by (intro unat_length) simp
  then have "minimal_width (word_of_nat (length x)) = (if length x < 64 then 1 else 2)"
    using assms by (simp add: minimal_width_def word_less_nat_alt)
  then show ?thesis using u assms by (simp add: push_len_prefixed_def length_encode_varint)
qed

lemma length_control: "encode_control e = Inr bs \<Longrightarrow> 0 < length bs \<and> length bs \<le> 155"
  by (auto simp: encode_control_Inr validate_bounds_Inr length_push_small)

lemma read_written_frame:
  assumes "write_bytes_frame bs = Inr out" and "bs \<noteq> []" and "length bs \<le> min m MAX_FRAME_SIZE"
  shows "read_bytes_frame m \<lparr>recv_bytes = out @ rest, recv_fault = f\<rparr> =
    Inr (Some (bs, \<lparr>recv_bytes = rest, recv_fault = f\<rparr>))"
proof -
  have out: "length bs < 2 ^ 32" "out = to_be_bytes 4 (word_of_nat (length bs) :: u32) @ bs"
    using assms(1) by (auto simp: write_bytes_frame_def split: if_splits)
  have len: "unat (word_of_nat (length bs) :: u32) = length bs" using out(1) by (intro unat_word_of_nat) simp
  have ok: "broker_validate_frame_len (length bs) m = Inr ()" using assms by (auto simp: broker_validate_frame_len_def)
  show ?thesis by (simp add: out(2) read_bytes_frame_def from_to_be_bytes Let_def len ok)
qed


lemma read_written_control:
  assumes "encode_control e = Inr bs"
  shows "\<exists>out. write_control_frame e = Inr out \<and>
    (\<forall>rest f. read_control_frame \<lparr>recv_bytes = out @ rest, recv_fault = f\<rparr> = Inr (e, \<lparr>recv_bytes = rest, recv_fault = f\<rparr>))"
proof -
  note len = length_control [OF assms]
  then obtain out where out: "write_bytes_frame bs = Inr out" by (auto simp: write_bytes_frame_def)
  have "bs \<noteq> []" "length bs \<le> min MAX_CONTROL_FRAME_LEN MAX_FRAME_SIZE"
    using len by (auto simp: MAX_CONTROL_FRAME_LEN_def MAX_FRAME_SIZE_def QUIC_PREVIEW_MAX_FRAME_LEN_def
        FRAME_ALLOWANCE_def MAX_PLAINTEXT_FRAME_LEN_def)
  note R = read_written_frame [OF out this]
  show ?thesis
    using decode_control_complete [OF assms]
    by (intro exI [of _ out]) (simp add: write_control_frame_def read_control_frame_def assms out R)
qed

lemma read_written_record:
  assumes "write_record_frame w = Inr out" and "length (rec_plaintext_frame w) + 91 \<le> min m MAX_FRAME_SIZE"
  shows "read_record_frame m \<lparr>recv_bytes = out @ rest, recv_fault = f\<rparr> =
    Inr (Some (w, \<lparr>recv_bytes = rest, recv_fault = f\<rparr>))"
proof -
  obtain bs where bs: "encode_record w = Inr bs" "write_bytes_frame bs = Inr out"
    using assms(1) by (auto simp: write_record_frame_def split: sum.splits)
  have "bs \<noteq> []" "length bs \<le> length (rec_plaintext_frame w) + 91"
    using encoded_record_len [OF bs(1)] by auto
  then show ?thesis
    using read_written_frame [OF bs(2), of m rest f] assms(2) decode_encoded_record [OF bs(1)]
    by (simp add: read_record_frame_def)
qed

text \<open>
  C37: Control envelopes are read back exactly. The decoder accepts a byte string if and only if it is the
  encoding of the envelope it returns, so it accepts no second spelling; an encoded envelope has at most
  155 bytes, and a client's control frame passes the 256-byte bound of unauthenticated reads: the
  broker reads the envelope and is left with the bytes after it.\<close>

theorem control_envelope_exact:
  "(decode_control bs = Inr e \<longleftrightarrow> encode_control e = Inr bs) \<and>
   (encode_control e = Inr bs \<longrightarrow> length bs \<le> 155 \<and>
      (\<exists>out. write_control_frame e = Inr out \<and>
        (\<forall>rest f. read_control_frame \<lparr>recv_bytes = out @ rest, recv_fault = f\<rparr> =
           Inr (e, \<lparr>recv_bytes = rest, recv_fault = f\<rparr>))))"
  using decode_control_sound [of bs e] decode_control_complete [of e bs] read_written_control [of e bs]
    length_control [of e bs] by blast

theorem control_envelope_exact_witness:
  "\<exists>out. write_control_frame (publish_envelope [1] [2]) = Inr out \<and>
     read_control_frame \<lparr>recv_bytes = out @ [9], recv_fault = None\<rparr> =
       Inr (publish_envelope [1] [2], \<lparr>recv_bytes = [9], recv_fault = None\<rparr>)"
proof -
  obtain bs where "encode_control (publish_envelope [1] [2]) = Inr bs"
    by (simp add: encode_control_def publish_envelope_def validate_bounds_def MAX_STREAM_ID_LEN_def)
  then show ?thesis using control_envelope_exact [of bs "publish_envelope [1] [2]"] by blast
qed

end
