(* ===== verification/Broker_State.thy ===== *)
theory Broker_State
  imports "HOL-Library.Sublist" Broker_Control
begin

text \<open>
  The room engine of the QUIC broker, \<open>transport-quic-broker/src/state.rs\<close>, with the constants of
  \<open>protocol.rs\<close> it uses.

  \<open>rooms\<close>, a \<open>HashMap\<close>, is an association list with distinct keys whose order stands for the
  unspecified iteration order.  The lock makes every method one step on \<open>BrokerStateInner\<close>; the
  instant a method reads is its argument \<open>now\<close>, in nanoseconds.  The bounded channel of a subscriber
  belongs to tokio: which \<open>try_send\<close> calls of a publication succeed is an argument of \<open>publish\<close>, and the
  subscribers it sent the record to are part of its result.  \<open>wait_for_subscriber\<close> is a loop of
  critical sections: \<open>wait_poll\<close> is one of them and \<open>drop_empty_unfinished_room\<close> the one after the
  grace period.
\<close>

section \<open>Rooms\<close>

record BacklogRecord =
  bl_record :: AgentTextStreamRecordV1
  bl_bytes :: nat
  bl_appended_at :: nat

record BrokerRoom =
  subscribers :: "u64 list"
  backlog :: "BacklogRecord list"
  backlog_bytes :: nat
  finished_at :: "nat option"
  last_activity_at :: nat

type_synonym broker_rooms = "(BrokerStreamKey \<times> BrokerRoom) list"

record BrokerStateInner =
  rooms :: broker_rooms
  next_subscriber_id :: u64
  total_backlog_bytes :: nat

record BrokerState =
  per_subscriber_queue :: nat
  max_backlog :: nat
  max_rooms :: nat
  max_backlog_bytes :: nat
  replay_ttl :: nat

definition default_inner :: BrokerStateInner where
  "default_inner = \<lparr>rooms = [], next_subscriber_id = 0, total_backlog_bytes = 0\<rparr>"

definition default_room :: "nat \<Rightarrow> BrokerRoom" where
  "default_room now =
     \<lparr>subscribers = [], backlog = [], backlog_bytes = 0, finished_at = None, last_activity_at = now\<rparr>"

definition FINISHED_ROOM_TTL :: nat where "FINISHED_ROOM_TTL = 60 * 10 ^ 9"
definition UNFINISHED_ROOM_TTL :: nat where "UNFINISHED_ROOM_TTL = FINISHED_ROOM_TTL"

text \<open>\<open>Instant::elapsed\<close> saturates at zero, as subtraction on \<open>nat\<close> does.\<close>
abbreviation elapsed :: "nat \<Rightarrow> nat \<Rightarrow> nat" where "elapsed now t \<equiv> now - t"

text \<open>The loop that pops expired entries: the entries, the room's byte count and the bytes freed.\<close>
fun purge_loop :: "nat \<Rightarrow> nat \<Rightarrow> BacklogRecord list \<Rightarrow> nat \<Rightarrow> nat \<Rightarrow> BacklogRecord list \<times> nat \<times> nat" where
  "purge_loop now ttl [] rb freed = ([], rb, freed)"
| "purge_loop now ttl (front # rest) rb freed =
     (if elapsed now (bl_appended_at front) < ttl then (front # rest, rb, freed)
      else purge_loop now ttl rest (rb - bl_bytes front) (freed + bl_bytes front))"

definition purge_expired_backlog :: "nat \<Rightarrow> nat \<Rightarrow> BrokerRoom \<Rightarrow> BrokerRoom \<times> nat" where
  "purge_expired_backlog now ttl room =
     (let (entries, rb, freed) = purge_loop now ttl (backlog room) (backlog_bytes room) 0
      in (room\<lparr>backlog := entries, backlog_bytes := rb\<rparr>, freed))"

definition retain_room :: "nat \<Rightarrow> BrokerRoom \<Rightarrow> bool" where
  "retain_room now room =
     (case finished_at room of
        Some t \<Rightarrow> elapsed now t < FINISHED_ROOM_TTL
      | None \<Rightarrow> subscribers room \<noteq> [] \<or> elapsed now (last_activity_at room) < UNFINISHED_ROOM_TTL)"

text \<open>The sum that \<open>purge_expired_rooms\<close> takes over the rooms it keeps.\<close>
definition retained_bytes :: "broker_rooms \<Rightarrow> nat" where
  "retained_bytes rs = sum_list (map (\<lambda>(k, room). backlog_bytes room) rs)"

definition purge_expired_rooms :: "BrokerState \<Rightarrow> nat \<Rightarrow> BrokerStateInner \<Rightarrow> BrokerStateInner" where
  "purge_expired_rooms cfg now st =
     (let kept = map (\<lambda>(k, room). (k, fst (purge_expired_backlog now (replay_ttl cfg) room)))
                   (filter (\<lambda>(k, room). retain_room now room) (rooms st))
      in st\<lparr>rooms := kept, total_backlog_bytes := retained_bytes kept\<rparr>)"

definition remove_room :: "BrokerStreamKey \<Rightarrow> BrokerStateInner \<Rightarrow> BrokerStateInner" where
  "remove_room key st =
     (case map_of (rooms st) key of
        None \<Rightarrow> st
      | Some room \<Rightarrow> st\<lparr>rooms := AList.delete key (rooms st),
                        total_backlog_bytes := total_backlog_bytes st - backlog_bytes room\<rparr>)"

section \<open>Operations\<close>

text \<open>\<open>rooms.entry(key).or_default()\<close>\<close>
definition room_or_default :: "nat \<Rightarrow> BrokerStreamKey \<Rightarrow> BrokerStateInner \<Rightarrow> BrokerRoom" where
  "room_or_default now key st = (case map_of (rooms st) key of Some room \<Rightarrow> room | None \<Rightarrow> default_room now)"

definition room_limit_reached :: "BrokerState \<Rightarrow> BrokerStreamKey \<Rightarrow> BrokerStateInner \<Rightarrow> bool" where
  "room_limit_reached cfg key st = (map_of (rooms st) key = None \<and> length (rooms st) \<ge> max_rooms cfg)"

definition subscribe ::
  "BrokerState \<Rightarrow> nat \<Rightarrow> BrokerStreamKey \<Rightarrow> BrokerStateInner
     \<Rightarrow> (QuicBrokerError + (u64 \<times> AgentTextStreamRecordV1 list)) \<times> BrokerStateInner" where
  "subscribe cfg now key st0 =
     (let st = purge_expired_rooms cfg now st0 in
      if room_limit_reached cfg key st then (Inl (RoomLimitExceeded (max_rooms cfg)), st)
      else let i = next_subscriber_id st;
               room0 = room_or_default now key st;
               room1 = (if finished_at room0 = None then room0\<lparr>last_activity_at := now\<rparr> else room0);
               (room2, freed) = purge_expired_backlog now (replay_ttl cfg) room1;
               room3 = (if finished_at room2 = None
                        then room2\<lparr>subscribers := subscribers room2 @ [i]\<rparr> else room2)
           in (Inr (i, map bl_record (backlog room2)),
               \<lparr>rooms = AList.update key room3 (rooms st), next_subscriber_id = i + 1,
                total_backlog_bytes = total_backlog_bytes st - freed\<rparr>))"

text \<open>A room nobody watches, with nothing retained and no publisher that finished it.\<close>
definition removable :: "BrokerRoom \<Rightarrow> bool" where
  "removable room = (subscribers room = [] \<and> backlog room = [] \<and> finished_at room = None)"

definition unsubscribe ::
  "BrokerState \<Rightarrow> nat \<Rightarrow> BrokerStreamKey \<Rightarrow> u64 \<Rightarrow> BrokerStateInner \<Rightarrow> BrokerStateInner" where
  "unsubscribe cfg now key i st0 =
     (let st = purge_expired_rooms cfg now st0 in
      case map_of (rooms st) key of
        None \<Rightarrow> st
      | Some room0 \<Rightarrow>
          (let room1 = room0\<lparr>subscribers := filter (\<lambda>j. j \<noteq> i) (subscribers room0)\<rparr>;
               room = (if finished_at room1 = None then room1\<lparr>last_activity_at := now\<rparr> else room1);
               st' = st\<lparr>rooms := AList.update key room (rooms st)\<rparr>
           in if removable room then remove_room key st' else st'))"

text \<open>The eviction loop of \<open>publish\<close>: the entries, the room's byte count and the global one.\<close>
fun evict_backlog ::
  "BrokerState \<Rightarrow> BacklogRecord list \<Rightarrow> nat \<Rightarrow> nat \<Rightarrow> BacklogRecord list \<times> nat \<times> nat" where
  "evict_backlog cfg [] rb tot = ([], rb, tot)"
| "evict_backlog cfg (e # es) rb tot =
     (if length (e # es) > max_backlog cfg \<or> tot > max_backlog_bytes cfg
      then evict_backlog cfg es (rb - bl_bytes e) (tot - bl_bytes e)
      else (e # es, rb, tot))"

definition retain_record ::
  "BrokerState \<Rightarrow> nat \<Rightarrow> AgentTextStreamRecordV1 \<Rightarrow> nat \<Rightarrow> BrokerRoom \<Rightarrow> nat \<Rightarrow> BrokerRoom \<times> nat" where
  "retain_record cfg now r record_bytes room0 total0 =
     (let (room1, freed) = purge_expired_backlog now (replay_ttl cfg) room0;
          entry = \<lparr>bl_record = r, bl_bytes = record_bytes, bl_appended_at = now\<rparr>;
          (entries, rb, total) = evict_backlog cfg (backlog room1 @ [entry])
                                   (backlog_bytes room1 + record_bytes) (total0 - freed + record_bytes)
      in (room1\<lparr>backlog := entries, backlog_bytes := rb\<rparr>, total))"

definition publish_in_room ::
  "BrokerState \<Rightarrow> nat \<Rightarrow> BrokerStreamKey \<Rightarrow> AgentTextStreamRecordV1 \<Rightarrow> nat option \<Rightarrow> (u64 \<Rightarrow> bool)
     \<Rightarrow> BrokerStateInner \<Rightarrow> u64 list \<times> BrokerStateInner" where
  "publish_in_room cfg now key r record_bytes try_send st =
     (let room0 = (room_or_default now key st)\<lparr>last_activity_at := now\<rparr>;
          (room1, total) = (case record_bytes of
                              Some n \<Rightarrow> retain_record cfg now r n room0 (total_backlog_bytes st)
                            | None \<Rightarrow> (room0, total_backlog_bytes st));
          room = room1\<lparr>subscribers := filter try_send (subscribers room1)\<rparr>;
          st' = st\<lparr>rooms := AList.update key room (rooms st), total_backlog_bytes := total\<rparr>
      in (subscribers room, if removable room then remove_room key st' else st'))"

definition publish ::
  "BrokerState \<Rightarrow> nat \<Rightarrow> BrokerStreamKey \<Rightarrow> AgentTextStreamRecordV1 \<Rightarrow> (u64 \<Rightarrow> bool) \<Rightarrow> BrokerStateInner
     \<Rightarrow> (QuicBrokerError + u64 list) \<times> BrokerStateInner" where
  "publish cfg now key r try_send st0 =
     (case (if replay_ttl cfg = 0 then Inr None
            else case encoded_len r of
                   Inl e \<Rightarrow> Inl (Record e)
                 | Inr n \<Rightarrow> (if n > max_backlog_bytes cfg
                            then Inl (BacklogRecordTooLarge n (max_backlog_bytes cfg)) else Inr (Some n))) of
        Inl e \<Rightarrow> (Inl e, st0)
      | Inr record_bytes \<Rightarrow>
          (let st1 = purge_expired_rooms cfg now st0;
               st = (case map_of (rooms st1) key of
                       Some room \<Rightarrow> (if finished_at room \<noteq> None then remove_room key st1 else st1)
                     | None \<Rightarrow> st1)
           in if room_limit_reached cfg key st then (Inl (RoomLimitExceeded (max_rooms cfg)), st)
              else let (sent, st') = publish_in_room cfg now key r record_bytes try_send st
                   in (Inr sent, st')))"

definition wait_poll ::
  "BrokerState \<Rightarrow> nat \<Rightarrow> BrokerStreamKey \<Rightarrow> BrokerStateInner \<Rightarrow> (QuicBrokerError + bool) \<times> BrokerStateInner" where
  "wait_poll cfg now key st0 =
     (let st = purge_expired_rooms cfg now st0 in
      if room_limit_reached cfg key st then (Inl (RoomLimitExceeded (max_rooms cfg)), st)
      else let room0 = room_or_default now key st;
               (room, freed) = (if finished_at room0 \<noteq> None then (default_room now, backlog_bytes room0)
                                else (room0, 0))
           in (Inr (subscribers room \<noteq> []),
               st\<lparr>rooms := AList.update key room (rooms st),
                  total_backlog_bytes := total_backlog_bytes st - freed\<rparr>))"

definition drop_room :: "BrokerStreamKey \<Rightarrow> BrokerStateInner \<Rightarrow> BrokerStateInner" where
  "drop_room key st = remove_room key st"

definition drop_empty_unfinished_room :: "BrokerStreamKey \<Rightarrow> BrokerStateInner \<Rightarrow> BrokerStateInner" where
  "drop_empty_unfinished_room key st =
     (case map_of (rooms st) key of
        Some room \<Rightarrow> (if removable room then remove_room key st else st)
      | None \<Rightarrow> st)"

definition mark_room_finished ::
  "BrokerState \<Rightarrow> nat \<Rightarrow> BrokerStreamKey \<Rightarrow> BrokerStateInner \<Rightarrow> bool \<times> BrokerStateInner" where
  "mark_room_finished cfg now key st0 =
     (let st = purge_expired_rooms cfg now st0 in
      case map_of (rooms st) key of
        None \<Rightarrow> (False, st)
      | Some room0 \<Rightarrow>
          (let (room1, freed) = purge_expired_backlog now (replay_ttl cfg) (room0\<lparr>subscribers := []\<rparr>);
               room = (if backlog room1 = [] then room1
                       else room1\<lparr>finished_at := Some now, last_activity_at := now\<rparr>);
               st' = st\<lparr>rooms := AList.update key room (rooms st),
                        total_backlog_bytes := total_backlog_bytes st - freed\<rparr>
           in if backlog room1 = [] then (False, remove_room key st') else (True, st')))"

definition drop_expired_finished_room :: "nat \<Rightarrow> BrokerStreamKey \<Rightarrow> BrokerStateInner \<Rightarrow> BrokerStateInner" where
  "drop_expired_finished_room now key st =
     (case map_of (rooms st) key of
        None \<Rightarrow> st
      | Some room \<Rightarrow>
          (case finished_at room of
             Some t \<Rightarrow> (if elapsed now t \<ge> FINISHED_ROOM_TTL then remove_room key st else st)
           | None \<Rightarrow> st))"

section \<open>Runs\<close>

datatype broker_op =
    SubscribeOp BrokerStreamKey
  | UnsubscribeOp BrokerStreamKey u64
  | PublishOp BrokerStreamKey AgentTextStreamRecordV1 "u64 \<Rightarrow> bool"
  | WaitPoll BrokerStreamKey
  | WaitTimeout BrokerStreamKey
  | DropRoom BrokerStreamKey
  | FinishRoom BrokerStreamKey
  | ExpireRoom BrokerStreamKey

text \<open>What a step shows outside: the backlog served to a new subscriber, and a record relayed with the
  subscribers it was queued for.\<close>
datatype broker_event =
    Served u64 BrokerStreamKey "AgentTextStreamRecordV1 list"
  | Relayed BrokerStreamKey AgentTextStreamRecordV1 "u64 list"

fun broker_step ::
  "BrokerState \<Rightarrow> nat \<Rightarrow> broker_op \<Rightarrow> BrokerStateInner \<Rightarrow> broker_event list \<times> BrokerStateInner" where
  "broker_step cfg now (SubscribeOp k) st =
     (case subscribe cfg now k st of
        (Inl _, st') \<Rightarrow> ([], st') | (Inr (i, rs), st') \<Rightarrow> ([Served i k rs], st'))"
| "broker_step cfg now (UnsubscribeOp k i) st = ([], unsubscribe cfg now k i st)"
| "broker_step cfg now (PublishOp k r try_send) st =
     (case publish cfg now k r try_send st of
        (Inl _, st') \<Rightarrow> ([], st') | (Inr sent, st') \<Rightarrow> ([Relayed k r sent], st'))"
| "broker_step cfg now (WaitPoll k) st = ([], snd (wait_poll cfg now k st))"
| "broker_step cfg now (WaitTimeout k) st = ([], drop_empty_unfinished_room k st)"
| "broker_step cfg now (DropRoom k) st = ([], drop_room k st)"
| "broker_step cfg now (FinishRoom k) st = ([], snd (mark_room_finished cfg now k st))"
| "broker_step cfg now (ExpireRoom k) st = ([], drop_expired_finished_room now k st)"

fun broker_run ::
  "BrokerState \<Rightarrow> (nat \<times> broker_op) list \<Rightarrow> BrokerStateInner \<Rightarrow> broker_event list \<times> BrokerStateInner" where
  "broker_run cfg [] st = ([], st)"
| "broker_run cfg ((now, op) # ops) st =
     (let (evs, st') = broker_step cfg now op st; (more, st'') = broker_run cfg ops st'
      in (evs @ more, st''))"

section \<open>Purging and evicting\<close>

declare map_of_eq_Some_iff [simp del]

definition entry_bytes :: "BacklogRecord list \<Rightarrow> nat" where
  "entry_bytes es = sum_list (map bl_bytes es)"

lemma entry_bytes_simps [simp]:
  "entry_bytes [] = 0" "entry_bytes (e # es) = bl_bytes e + entry_bytes es"
  "entry_bytes (xs @ ys) = entry_bytes xs + entry_bytes ys"
  by (simp_all add: entry_bytes_def)

lemma purge_loop_spec:
  assumes "purge_loop now ttl es (entry_bytes es) freed = (es', rb, freed')"
  shows "\<exists>old. es = old @ es' \<and> rb = entry_bytes es' \<and> freed' = freed + entry_bytes old \<and>
    list_all (\<lambda>e. \<not> elapsed now (bl_appended_at e) < ttl) old \<and>
    (es' = [] \<or> elapsed now (bl_appended_at (hd es')) < ttl)"
  using assms
proof (induction es arbitrary: freed)
  case (Cons e es)
  show ?case
  proof (cases "elapsed now (bl_appended_at e) < ttl")
    case False
    then obtain old where "es = old @ es'" "rb = entry_bytes es'" "freed' = freed + bl_bytes e + entry_bytes old"
        "list_all (\<lambda>e. \<not> elapsed now (bl_appended_at e) < ttl) old"
        "es' = [] \<or> elapsed now (bl_appended_at (hd es')) < ttl"
      using Cons by auto
    with False show ?thesis by (intro exI [of _ "e # old"]) auto
  qed (use Cons.prems in auto)
qed simp

lemma evict_backlog_spec:
  assumes "evict_backlog cfg es (entry_bytes es) (rest + entry_bytes es) = (es', rb, tot)"
    and "rest \<le> max_backlog_bytes cfg"
  shows "\<exists>old. es = old @ es' \<and> rb = entry_bytes es' \<and> tot = rest + entry_bytes es' \<and>
    length es' \<le> max_backlog cfg \<and> tot \<le> max_backlog_bytes cfg"
  using assms
proof (induction es)
  case (Cons e es)
  show ?case
  proof (cases "length (e # es) > max_backlog cfg \<or> rest + entry_bytes (e # es) > max_backlog_bytes cfg")
    case True
    with Cons.prems have "evict_backlog cfg es (entry_bytes es) (rest + entry_bytes es) = (es', rb, tot)"
      by simp
    with Cons.IH Cons.prems(2) obtain old where "es = old @ es'" "rb = entry_bytes es'"
        "tot = rest + entry_bytes es'" "length es' \<le> max_backlog cfg" "tot \<le> max_backlog_bytes cfg"
      by blast
    then show ?thesis by (intro exI [of _ "e # old"]) auto
  qed (use Cons.prems in auto)
qed simp

section \<open>The room table\<close>

lemma lookup_update [simp]: "map_of (AList.update k v rs) = (map_of rs)(k \<mapsto> v)"
  by (simp add: update_conv')

lemma lookup_delete [simp]: "map_of (AList.delete k rs) = (map_of rs)(k := None)"
  by (simp add: delete_conv')

lemma distinct_table [simp]:
  "distinct (map fst rs) \<Longrightarrow> distinct (map fst (AList.update k v rs))"
  "distinct (map fst rs) \<Longrightarrow> distinct (map fst (AList.delete k rs))"
  by (simp_all add: distinct_update distinct_delete)

lemma length_update:
  "length (AList.update k v rs) = (if map_of rs k = None then Suc (length rs) else length rs)"
  by (induction rs) auto

lemma length_delete: "length (AList.delete k rs) \<le> length rs"
  by (simp add: length_delete_le)

definition bytes_at :: "broker_rooms \<Rightarrow> BrokerStreamKey \<Rightarrow> nat" where
  "bytes_at rs k = (case map_of rs k of None \<Rightarrow> 0 | Some room \<Rightarrow> backlog_bytes room)"

lemma retained_update:
  "retained_bytes (AList.update k v rs) + bytes_at rs k = retained_bytes rs + backlog_bytes v"
  by (induction rs) (auto simp: retained_bytes_def bytes_at_def)

lemma retained_delete:
  "distinct (map fst rs) \<Longrightarrow> retained_bytes (AList.delete k rs) + bytes_at rs k = retained_bytes rs"
proof (induction rs)
  case (Cons p rs)
  then show ?case
    by (cases p) (auto simp: retained_bytes_def bytes_at_def delete_idem map_of_eq_None_iff)
qed (simp add: retained_bytes_def bytes_at_def)

lemma bytes_at_le: "bytes_at rs k \<le> retained_bytes rs"
  using retained_update [of k "default_room 0" rs] by (simp add: default_room_def)

lemma lookup_filter_map:
  "distinct (map fst rs) \<Longrightarrow>
     map_of (map (\<lambda>(k, v). (k, f v)) (filter (\<lambda>(k, v). P v) rs)) k =
       (case map_of rs k of Some v \<Rightarrow> if P v then Some (f v) else None | None \<Rightarrow> None)"
proof (induction rs)
  case (Cons p rs)
  then show ?case by (cases p) (force simp: map_of_eq_None_iff split: option.splits)
qed simp

lemma lookup_purged:
  "distinct (map fst (rooms st)) \<Longrightarrow>
     map_of (rooms (purge_expired_rooms cfg now st)) k =
       (case map_of (rooms st) k of
          Some room \<Rightarrow> if retain_room now room
                       then Some (fst (purge_expired_backlog now (replay_ttl cfg) room)) else None
        | None \<Rightarrow> None)"
  by (simp add: purge_expired_rooms_def Let_def lookup_filter_map)

lemma distinct_purged [simp]:
  "distinct (map fst (rooms st)) \<Longrightarrow> distinct (map fst (rooms (purge_expired_rooms cfg now st)))"
  by (simp add: purge_expired_rooms_def Let_def comp_def case_prod_unfold distinct_map_filter)

lemma purged_simps [simp]:
  "next_subscriber_id (purge_expired_rooms cfg now st) = next_subscriber_id st"
  "length (rooms (purge_expired_rooms cfg now st)) \<le> length (rooms st)"
  "total_backlog_bytes (purge_expired_rooms cfg now st) = retained_bytes (rooms (purge_expired_rooms cfg now st))"
  by (simp_all add: purge_expired_rooms_def Let_def)

lemma lookup_removed [simp]: "map_of (rooms (remove_room k st)) = (map_of (rooms st))(k := None)"
  by (auto simp: remove_room_def split: option.splits)

lemma removed_simps [simp]:
  "distinct (map fst (rooms st)) \<Longrightarrow> distinct (map fst (rooms (remove_room k st)))"
  "next_subscriber_id (remove_room k st) = next_subscriber_id st"
  "length (rooms (remove_room k st)) \<le> length (rooms st)"
  by (auto simp: remove_room_def length_delete split: option.splits)

lemma purge_room_spec:
  assumes "backlog_bytes room = entry_bytes (backlog room)"
  obtains old es where "backlog room = old @ es"
    "purge_expired_backlog now ttl room = (room\<lparr>backlog := es, backlog_bytes := entry_bytes es\<rparr>, entry_bytes old)"
    "list_all (\<lambda>e. \<not> elapsed now (bl_appended_at e) < ttl) old"
    "es = [] \<or> elapsed now (bl_appended_at (hd es)) < ttl"
proof -
  obtain es rb freed where p: "purge_loop now ttl (backlog room) (entry_bytes (backlog room)) 0 = (es, rb, freed)"
    by (cases "purge_loop now ttl (backlog room) (entry_bytes (backlog room)) 0")
  from purge_loop_spec [OF p] obtain old where "backlog room = old @ es" "rb = entry_bytes es"
      "freed = entry_bytes old" "list_all (\<lambda>e. \<not> elapsed now (bl_appended_at e) < ttl) old"
      "es = [] \<or> elapsed now (bl_appended_at (hd es)) < ttl"
    by auto
  with p assms show ?thesis by (intro that) (simp_all add: purge_expired_backlog_def)
qed

lemma purge_keeps [simp]:
  "subscribers (fst (purge_expired_backlog now ttl room)) = subscribers room"
  "finished_at (fst (purge_expired_backlog now ttl room)) = finished_at room"
  by (simp_all add: purge_expired_backlog_def case_prod_unfold Let_def)

lemma purge_bytes_le: "backlog_bytes (fst (purge_expired_backlog now ttl room)) \<le> backlog_bytes room"
proof -
  have "fst (snd (purge_loop now ttl es rb freed)) \<le> rb" for es rb freed
    by (induction now ttl es rb freed rule: purge_loop.induct) auto
  then show ?thesis by (simp add: purge_expired_backlog_def case_prod_unfold Let_def)
qed

lemma retained_purged_le: "retained_bytes (rooms (purge_expired_rooms cfg now st)) \<le> retained_bytes (rooms st)"
proof -
  have "retained_bytes (map (\<lambda>(k, room). (k, fst (purge_expired_backlog now (replay_ttl cfg) room)))
      (filter (\<lambda>(k, room). retain_room now room) rs)) \<le> retained_bytes rs" for rs
    by (induction rs) (auto simp: retained_bytes_def purge_bytes_le add_mono trans_le_add2)
  then show ?thesis by (simp add: purge_expired_rooms_def Let_def)
qed

lemma total_removed:
  "distinct (map fst (rooms st)) \<Longrightarrow> total_backlog_bytes st = retained_bytes (rooms st) \<Longrightarrow>
     total_backlog_bytes (remove_room k st) = retained_bytes (rooms (remove_room k st))"
  using retained_delete [of "rooms st" k]
  by (auto simp: remove_room_def bytes_at_def split: option.splits)

lemma retained_removed_le:
  "distinct (map fst (rooms st)) \<Longrightarrow> retained_bytes (rooms (remove_room k st)) \<le> retained_bytes (rooms st)"
  using retained_delete [of "rooms st" k] by (auto simp: remove_room_def split: option.splits)

lemma room_or_default_bytes: "backlog_bytes (room_or_default now k st) = bytes_at (rooms st) k"
  by (simp add: room_or_default_def bytes_at_def default_room_def split: option.split)

lemma publish_ok:
  assumes "publish cfg now k r try_send st = (Inr sent, st')"
  obtains record_bytes st1 where "publish_in_room cfg now k r record_bytes try_send st1 = (sent, st')"
    "\<not> room_limit_reached cfg k st1"
    "st1 = purge_expired_rooms cfg now st \<or> st1 = remove_room k (purge_expired_rooms cfg now st)"
    "case record_bytes of None \<Rightarrow> replay_ttl cfg = 0 | Some n \<Rightarrow> replay_ttl cfg \<noteq> 0 \<and> n \<le> max_backlog_bytes cfg"
  using assms
  by (auto simp: publish_def Let_def case_prod_unfold split: if_splits sum.splits option.splits prod.splits)

section \<open>Properties of every room\<close>

definition rooms_all :: "(BrokerStreamKey \<Rightarrow> BrokerRoom \<Rightarrow> bool) \<Rightarrow> broker_rooms \<Rightarrow> bool" where
  "rooms_all R rs = (distinct (map fst rs) \<and> (\<forall>k room. map_of rs k = Some room \<longrightarrow> R k room))"

lemma rooms_all_put: "rooms_all R rs \<Longrightarrow> R k room \<Longrightarrow> rooms_all R (AList.update k room rs)"
  by (auto simp: rooms_all_def)

lemma rooms_all_remove: "rooms_all R (rooms st) \<Longrightarrow> rooms_all R (rooms (remove_room k st))"
  by (auto simp: rooms_all_def)

lemma rooms_all_get: "rooms_all R rs \<Longrightarrow> map_of rs k = Some room \<Longrightarrow> R k room"
  by (simp add: rooms_all_def)

lemma rooms_all_room: "rooms_all R (rooms st) \<Longrightarrow> R k (default_room now) \<Longrightarrow> R k (room_or_default now k st)"
  by (auto simp: rooms_all_def room_or_default_def split: option.splits)

text \<open>A property of single rooms that the broker's housekeeping keeps: purging the backlog, removing
  subscribers, touching the activity time, opening and finishing a room.  The operations that only
  do housekeeping then keep it for all rooms; subscribing and publishing keep it if adding a
  subscriber and retaining a record do.\<close>
locale room_invariant =
  fixes cfg :: BrokerState and now :: nat and R :: "BrokerStreamKey \<Rightarrow> BrokerRoom \<Rightarrow> bool"
  assumes R_purge: "R k room \<Longrightarrow> R k (fst (purge_expired_backlog now (replay_ttl cfg) room))"
    and R_touch: "R k room \<Longrightarrow> R k (room\<lparr>last_activity_at := t\<rparr>)"
    and R_filter: "R k room \<Longrightarrow> R k (room\<lparr>subscribers := filter P (subscribers room)\<rparr>)"
    and R_default: "R k (default_room now)"
    and R_finish: "R k room \<Longrightarrow> subscribers room = [] \<Longrightarrow>
      R k (room\<lparr>finished_at := Some now, last_activity_at := now\<rparr>)"
begin

lemma purge_rooms_all: "rooms_all R (rooms st) \<Longrightarrow> rooms_all R (rooms (purge_expired_rooms cfg now st))"
  by (auto simp: rooms_all_def lookup_purged R_purge split: option.splits if_splits)

lemma R_leave: "R k room \<Longrightarrow> R k (room\<lparr>subscribers := filter P (subscribers room), last_activity_at := now\<rparr>)"
  using R_touch [of k "room\<lparr>subscribers := filter P (subscribers room)\<rparr>" now] R_filter [of k room P] by simp

lemma unsubscribe_all:
  assumes "rooms_all R (rooms st)"
  shows "rooms_all R (rooms (unsubscribe cfg now k i st))"
proof -
  have p: "rooms_all R (rooms (purge_expired_rooms cfg now st))" using assms by (rule purge_rooms_all)
  then show ?thesis
    by (auto simp: unsubscribe_def Let_def split: option.splits
        intro!: rooms_all_remove rooms_all_put R_leave R_filter dest: rooms_all_get)
qed

lemma wait_poll_all: "rooms_all R (rooms st) \<Longrightarrow> rooms_all R (rooms (snd (wait_poll cfg now k st)))"
  using purge_rooms_all [of st] R_default [of k] rooms_all_room [of R "purge_expired_rooms cfg now st" k now]
  by (auto simp: wait_poll_def Let_def case_prod_unfold intro!: rooms_all_put)

lemma drop_all:
  assumes "rooms_all R (rooms st)"
  shows "rooms_all R (rooms (drop_room k st))"
    "rooms_all R (rooms (drop_empty_unfinished_room k st))"
    "rooms_all R (rooms (drop_expired_finished_room now k st))"
  using assms by (auto simp: drop_room_def drop_empty_unfinished_room_def drop_expired_finished_room_def
      rooms_all_remove split: option.splits)

lemma mark_room_finished_all:
  assumes "rooms_all R (rooms st)"
  shows "rooms_all R (rooms (snd (mark_room_finished cfg now k st)))"
proof -
  let ?st = "purge_expired_rooms cfg now st"
  have p: "rooms_all R (rooms ?st)" using assms by (rule purge_rooms_all)
  show ?thesis
  proof (cases "map_of (rooms ?st) k")
    case (Some room)
    have "R k (room\<lparr>subscribers := filter (\<lambda>_. False) (subscribers room)\<rparr>)"
      using rooms_all_get [OF p Some] by (rule R_filter)
    then have "R k (fst (purge_expired_backlog now (replay_ttl cfg) (room\<lparr>subscribers := []\<rparr>)))"
      by (intro R_purge) simp
    with Some p show ?thesis
      by (auto simp: mark_room_finished_def Let_def case_prod_unfold
          intro!: rooms_all_remove rooms_all_put R_finish)
  qed (use p in \<open>simp add: mark_room_finished_def\<close>)
qed

lemma subscribe_all:
  assumes "rooms_all R (rooms st)"
    and weaken: "\<And>k' room. R k' room \<Longrightarrow> R' k' room"
    and add: "\<And>room. R k room \<Longrightarrow> finished_at room = None \<Longrightarrow>
      R' k (room\<lparr>subscribers := subscribers room @ [next_subscriber_id st]\<rparr>)"
  shows "rooms_all R' (rooms (snd (subscribe cfg now k st)))"
proof -
  let ?st = "purge_expired_rooms cfg now st"
  have p: "rooms_all R (rooms ?st)" using assms(1) by (rule purge_rooms_all)
  then have r: "R k (room_or_default now k ?st)" by (rule rooms_all_room) (rule R_default)
  have p': "rooms_all R' (rooms ?st)" using p weaken by (simp add: rooms_all_def)
  define room where "room = fst (purge_expired_backlog now (replay_ttl cfg)
      (if finished_at (room_or_default now k ?st) = None
       then (room_or_default now k ?st)\<lparr>last_activity_at := now\<rparr> else room_or_default now k ?st))"
  have "R k room" using r by (simp add: room_def R_purge R_touch)
  moreover have "finished_at room = finished_at (room_or_default now k ?st)" by (simp add: room_def)
  ultimately show ?thesis
    using p' add [of room] weaken [of k room]
    by (auto simp: subscribe_def Let_def case_prod_unfold room_def [symmetric] rooms_all_put)
qed

lemma publish_error_all:
  "rooms_all R (rooms st) \<Longrightarrow> publish cfg now k r try_send st = (Inl e, st') \<Longrightarrow> rooms_all R (rooms st')"
  using purge_rooms_all [of st]
  by (auto simp: publish_def Let_def case_prod_unfold rooms_all_remove split: if_splits sum.splits option.splits)

lemma publish_all:
  assumes all: "rooms_all R (rooms st)" and res: "publish cfg now k r try_send st = (Inr sent, st')"
    and small: "retained_bytes (rooms st) \<le> max_backlog_bytes cfg"
    and other: "\<And>k' room. k' \<noteq> k \<Longrightarrow> R k' room \<Longrightarrow> R' k' room"
    and skip: "\<And>room. replay_ttl cfg = 0 \<Longrightarrow> R k room \<Longrightarrow>
      R' k (room\<lparr>subscribers := filter try_send (subscribers room)\<rparr>)"
    and keep: "\<And>room room' n t t'. replay_ttl cfg \<noteq> 0 \<Longrightarrow> R k room \<Longrightarrow> n \<le> max_backlog_bytes cfg \<Longrightarrow>
      backlog_bytes room \<le> t \<Longrightarrow> t \<le> max_backlog_bytes cfg \<Longrightarrow> retain_record cfg now r n room t = (room', t') \<Longrightarrow>
      R' k (room'\<lparr>subscribers := filter try_send (subscribers room')\<rparr>)"
  shows "rooms_all R' (rooms st')"
proof -
  let ?p = "purge_expired_rooms cfg now st"
  obtain rb st1 where st1: "publish_in_room cfg now k r rb try_send st1 = (sent, st')"
      "st1 = ?p \<or> st1 = remove_room k ?p"
      "case rb of None \<Rightarrow> replay_ttl cfg = 0 | Some n \<Rightarrow> replay_ttl cfg \<noteq> 0 \<and> n \<le> max_backlog_bytes cfg"
    using publish_ok [OF res] by metis
  have p: "rooms_all R (rooms ?p)" using all by (rule purge_rooms_all)
  then have d: "distinct (map fst (rooms ?p))" by (simp add: rooms_all_def)
  have R1: "rooms_all R (rooms st1)" using st1(2) p rooms_all_remove by blast
  have t: "total_backlog_bytes st1 = retained_bytes (rooms st1)"
    using st1(2) total_removed [OF d] by auto
  have t_le: "total_backlog_bytes st1 \<le> max_backlog_bytes cfg"
    unfolding t using st1(2) retained_removed_le [OF d, of k] retained_purged_le [of cfg now st] small by auto
  define room0 where "room0 = (room_or_default now k st1)\<lparr>last_activity_at := now\<rparr>"
  have r0: "R k room0" unfolding room0_def using R_touch rooms_all_room [OF R1 R_default] by blast
  have b0: "backlog_bytes room0 \<le> total_backlog_bytes st1"
    using bytes_at_le [of "rooms st1" k] t by (simp add: room0_def room_or_default_bytes)
  define res1 where "res1 = (case rb of Some n \<Rightarrow> retain_record cfg now r n room0 (total_backlog_bytes st1)
      | None \<Rightarrow> (room0, total_backlog_bytes st1))"
  define room where "room = (fst res1)\<lparr>subscribers := filter try_send (subscribers (fst res1))\<rparr>"
  have "R' k room"
    using st1(3) skip [OF _ r0] keep [OF _ r0 _ b0 t_le]
    by (auto simp: room_def res1_def split: option.splits) (metis prod.collapse)
  moreover have "rooms st' = AList.update k room (rooms st1) \<or>
      rooms st' = rooms (remove_room k (st1\<lparr>rooms := AList.update k room (rooms st1), total_backlog_bytes := snd res1\<rparr>))"
    using st1(1) unfolding publish_in_room_def Let_def case_prod_unfold
    unfolding room0_def [symmetric] unfolding res1_def [symmetric] unfolding room_def [symmetric]
    by (auto split: if_splits)
  ultimately show ?thesis
    using R1 other by (auto simp: rooms_all_def split: if_splits)
qed

end

lemma retain_record_spec:
  assumes "retain_record cfg now r n room t = (room', t')" "backlog_bytes room = entry_bytes (backlog room)"
    and "backlog_bytes room \<le> t" "t \<le> max_backlog_bytes cfg"
  obtains old es where
    "backlog room @ [\<lparr>bl_record = r, bl_bytes = n, bl_appended_at = now\<rparr>] = old @ es"
    "room' = room\<lparr>backlog := es, backlog_bytes := entry_bytes es\<rparr>"
    "t' = t - backlog_bytes room + entry_bytes es" "length es \<le> max_backlog cfg" "t' \<le> max_backlog_bytes cfg"
proof -
  let ?e = "\<lparr>bl_record = r, bl_bytes = n, bl_appended_at = now\<rparr>"
  obtain old1 es1 where p: "backlog room = old1 @ es1" "purge_expired_backlog now (replay_ttl cfg) room =
      (room\<lparr>backlog := es1, backlog_bytes := entry_bytes es1\<rparr>, entry_bytes old1)"
    using purge_room_spec [OF assms(2)] by metis
  let ?rest = "t - backlog_bytes room"
  have start: "t - entry_bytes old1 + n = ?rest + entry_bytes (es1 @ [?e])"
    using assms(2,3) p(1) by simp
  obtain es rb tot where ev: "evict_backlog cfg (es1 @ [?e]) (entry_bytes (es1 @ [?e]))
      (?rest + entry_bytes (es1 @ [?e])) = (es, rb, tot)"
    by (metis prod_cases3)
  have "?rest \<le> max_backlog_bytes cfg" using assms(4) by simp
  from evict_backlog_spec [OF ev this] obtain old2 where "es1 @ [?e] = old2 @ es" "rb = entry_bytes es"
      "tot = ?rest + entry_bytes es" "length es \<le> max_backlog cfg" "tot \<le> max_backlog_bytes cfg"
    by blast
  moreover have "room' = room\<lparr>backlog := es, backlog_bytes := rb\<rparr>" "t' = tot"
    using assms(1) ev start unfolding retain_record_def by (simp_all add: p(2) Let_def)
  ultimately show ?thesis using p(1) by (intro that [of "old1 @ old2" es]) auto
qed

section \<open>Limits and accounting\<close>

definition room_ok :: "BrokerState \<Rightarrow> nat \<Rightarrow> BrokerRoom \<Rightarrow> bool" where
  "room_ok cfg now room =
     (backlog_bytes room = entry_bytes (backlog room) \<and> length (backlog room) \<le> max_backlog cfg \<and>
      sorted (map bl_appended_at (backlog room)) \<and> (\<forall>e\<in>set (backlog room). bl_appended_at e \<le> now) \<and>
      (finished_at room \<noteq> None \<longrightarrow> subscribers room = []) \<and> (replay_ttl cfg = 0 \<longrightarrow> backlog room = []))"

lemma room_ok_suffix:
  assumes "room_ok cfg now room" "backlog room = old @ es"
  shows "room_ok cfg now (room\<lparr>backlog := es, backlog_bytes := entry_bytes es\<rparr>)"
  using assms by (auto simp: room_ok_def sorted_append)

interpretation limits: room_invariant cfg now "\<lambda>_. room_ok cfg now" for cfg now
proof
  fix room
  assume ok: "room_ok cfg now room"
  then obtain old es where "backlog room = old @ es" "purge_expired_backlog now (replay_ttl cfg) room =
      (room\<lparr>backlog := es, backlog_bytes := entry_bytes es\<rparr>, entry_bytes old)"
    using purge_room_spec unfolding room_ok_def by metis
  with ok show "room_ok cfg now (fst (purge_expired_backlog now (replay_ttl cfg) room))"
    by (simp add: room_ok_suffix)
qed (auto simp: room_ok_def default_room_def)

definition acct :: "BrokerState \<Rightarrow> BrokerStateInner \<Rightarrow> bool" where
  "acct cfg st =
     (length (rooms st) \<le> max_rooms cfg \<and> total_backlog_bytes st = retained_bytes (rooms st) \<and>
      total_backlog_bytes st \<le> max_backlog_bytes cfg)"

definition broker_inv :: "BrokerState \<Rightarrow> nat \<Rightarrow> BrokerStateInner \<Rightarrow> bool" where
  "broker_inv cfg now st = (rooms_all (\<lambda>_. room_ok cfg now) (rooms st) \<and> acct cfg st)"

lemma broker_inv_later: "broker_inv cfg now st \<Longrightarrow> now \<le> now' \<Longrightarrow> broker_inv cfg now' st"
  by (force simp: broker_inv_def rooms_all_def room_ok_def)

lemma acct_put:
  "acct cfg st \<Longrightarrow> \<not> room_limit_reached cfg k st \<Longrightarrow> rooms st' = AList.update k room (rooms st) \<Longrightarrow>
     total_backlog_bytes st' + bytes_at (rooms st) k = total_backlog_bytes st + backlog_bytes room \<Longrightarrow>
     total_backlog_bytes st' \<le> max_backlog_bytes cfg \<Longrightarrow> acct cfg st'"
  using retained_update [of k room "rooms st"]
  by (auto simp: acct_def room_limit_reached_def length_update)

lemma acct_remove: "distinct (map fst (rooms st)) \<Longrightarrow> acct cfg st \<Longrightarrow> acct cfg (remove_room k st)"
  using total_removed [of st k] retained_removed_le [of st k] removed_simps(3) [of k st]
  by (auto simp: acct_def simp del: removed_simps(3))

lemma acct_purge: "acct cfg st \<Longrightarrow> acct cfg (purge_expired_rooms cfg now st)"
  using retained_purged_le [of cfg now st] purged_simps(2) [of cfg now st]
  by (auto simp: acct_def simp del: purged_simps(2))

lemma inv_purge: "broker_inv cfg now st \<Longrightarrow> broker_inv cfg now (purge_expired_rooms cfg now st)"
  by (simp add: broker_inv_def limits.purge_rooms_all acct_purge)

lemma inv_remove: "broker_inv cfg now st \<Longrightarrow> broker_inv cfg now (remove_room k st)"
  by (simp add: broker_inv_def rooms_all_remove acct_remove rooms_all_def)

lemma room_ok_or_default: "broker_inv cfg now st \<Longrightarrow> room_ok cfg now (room_or_default now k st)"
  using rooms_all_room [of "\<lambda>_. room_ok cfg now" st k now] limits.R_default by (auto simp: broker_inv_def)

lemma not_limit_present: "map_of (rooms st) k = Some room \<Longrightarrow> \<not> room_limit_reached cfg k st"
  by (simp add: room_limit_reached_def)

lemma acct_subscribe:
  assumes inv: "broker_inv cfg now st"
  shows "acct cfg (snd (subscribe cfg now k st))"
proof -
  let ?st = "purge_expired_rooms cfg now st"
  have p: "broker_inv cfg now ?st" using inv by (rule inv_purge)
  define room where "room = (if finished_at (room_or_default now k ?st) = None
       then (room_or_default now k ?st)\<lparr>last_activity_at := now\<rparr> else room_or_default now k ?st)"
  have b: "backlog_bytes room = bytes_at (rooms ?st) k"
    by (simp add: room_def room_or_default_bytes)
  have "room_ok cfg now room"
    using room_ok_or_default [OF p, of k] by (simp add: room_def limits.R_touch)
  then obtain old es where es: "backlog room = old @ es" "backlog_bytes room = entry_bytes (backlog room)"
      "purge_expired_backlog now (replay_ttl cfg) room =
        (room\<lparr>backlog := es, backlog_bytes := entry_bytes es\<rparr>, entry_bytes old)"
    using purge_room_spec unfolding room_ok_def by metis
  have tot: "bytes_at (rooms ?st) k \<le> total_backlog_bytes ?st" by (simp add: bytes_at_le)
  show ?thesis
  proof (cases "room_limit_reached cfg k ?st")
    case False
    have put: "rooms (snd (subscribe cfg now k st)) = AList.update k
          (if finished_at room = None then room\<lparr>backlog := es, backlog_bytes := entry_bytes es,
              subscribers := subscribers room @ [next_subscriber_id st]\<rparr>
           else room\<lparr>backlog := es, backlog_bytes := entry_bytes es\<rparr>) (rooms ?st)"
        "total_backlog_bytes (snd (subscribe cfg now k st)) = total_backlog_bytes ?st - entry_bytes old"
      using False by (simp_all add: subscribe_def Let_def room_def [symmetric] es(3))
    show ?thesis
      by (rule acct_put [OF _ False put(1)])
         (use p put(2) b es tot in \<open>auto simp: broker_inv_def acct_def\<close>)
  qed (use p in \<open>simp add: subscribe_def broker_inv_def\<close>)
qed

lemma acct_publish:
  assumes inv: "broker_inv cfg now st"
  shows "acct cfg (snd (publish cfg now k r try_send st))"
proof (cases "publish cfg now k r try_send st")
  case (Pair res st')
  let ?p = "purge_expired_rooms cfg now st"
  have p: "broker_inv cfg now ?p" using inv by (rule inv_purge)
  show ?thesis
  proof (cases res)
    case (Inl e)
    then have "st' = st \<or> st' = ?p \<or> st' = remove_room k ?p"
      using Pair by (auto simp: publish_def Let_def case_prod_unfold split: if_splits sum.splits option.splits)
    then show ?thesis using Pair inv p inv_remove [OF p] by (auto simp: broker_inv_def)
  next
    case (Inr sent)
    with Pair obtain rb st1 where st1: "publish_in_room cfg now k r rb try_send st1 = (sent, st')"
        "\<not> room_limit_reached cfg k st1" "st1 = ?p \<or> st1 = remove_room k ?p"
      using publish_ok [of cfg now k r try_send st sent st'] by metis
    have inv1: "broker_inv cfg now st1" using st1(3) p inv_remove [OF p] by auto
    define room0 where "room0 = (room_or_default now k st1)\<lparr>last_activity_at := now\<rparr>"
    have ok: "room_ok cfg now room0" "backlog_bytes room0 = bytes_at (rooms st1) k"
      using room_ok_or_default [OF inv1, of k] by (simp_all add: room0_def limits.R_touch room_or_default_bytes)
    have tot: "bytes_at (rooms st1) k \<le> total_backlog_bytes st1" "total_backlog_bytes st1 \<le> max_backlog_bytes cfg"
      using inv1 bytes_at_le by (auto simp: broker_inv_def acct_def)
    define res1 where "res1 = (case rb of Some n \<Rightarrow> retain_record cfg now r n room0 (total_backlog_bytes st1)
        | None \<Rightarrow> (room0, total_backlog_bytes st1))"
    have sum: "snd res1 + bytes_at (rooms st1) k = total_backlog_bytes st1 + backlog_bytes (fst res1) \<and>
        snd res1 \<le> max_backlog_bytes cfg"
    proof (cases rb)
      case (Some n)
      obtain room' t' where rr: "retain_record cfg now r n room0 (total_backlog_bytes st1) = (room', t')"
        by (cases "retain_record cfg now r n room0 (total_backlog_bytes st1)")
      have "backlog_bytes room0 = entry_bytes (backlog room0)" using ok(1) by (simp add: room_ok_def)
      with rr obtain es where "backlog_bytes room' = entry_bytes es"
          "t' = total_backlog_bytes st1 - backlog_bytes room0 + entry_bytes es" "t' \<le> max_backlog_bytes cfg"
        by (rule retain_record_spec) (use ok(2) tot in auto)
      then show ?thesis using rr Some ok(2) tot by (simp add: res1_def)
    qed (use ok tot in \<open>simp add: res1_def\<close>)
    define room where "room = (fst res1)\<lparr>subscribers := filter try_send (subscribers (fst res1))\<rparr>"
    define st2 where "st2 = st1\<lparr>rooms := AList.update k room (rooms st1), total_backlog_bytes := snd res1\<rparr>"
    have "acct cfg st2"
      by (rule acct_put [OF _ st1(2), of _ room]) (use inv1 sum in \<open>auto simp: broker_inv_def st2_def room_def\<close>)
    moreover have "distinct (map fst (rooms st2))"
      using inv1 by (simp add: st2_def broker_inv_def rooms_all_def)
    moreover have "st' = st2 \<or> st' = remove_room k st2"
      using st1(1) unfolding publish_in_room_def Let_def case_prod_unfold
      unfolding room0_def [symmetric] unfolding res1_def [symmetric] unfolding room_def [symmetric]
      unfolding st2_def by (auto split: if_splits)
    ultimately show ?thesis using Pair acct_remove by auto
  qed
qed

lemma acct_unsubscribe:
  assumes "broker_inv cfg now st"
  shows "acct cfg (unsubscribe cfg now k i st)"
proof -
  let ?st = "purge_expired_rooms cfg now st"
  have p: "acct cfg ?st" "distinct (map fst (rooms ?st))"
    using inv_purge [OF assms] by (auto simp: broker_inv_def rooms_all_def)
  show ?thesis
  proof (cases "map_of (rooms ?st) k")
    case (Some room)
    have put: "acct cfg (?st\<lparr>rooms := AList.update k room' (rooms ?st)\<rparr>)" if "backlog_bytes room' = backlog_bytes room" for room'
      by (rule acct_put [OF p(1) not_limit_present [OF Some], where room = room']) (use p that Some in \<open>auto simp: acct_def bytes_at_def\<close>)
    show ?thesis
      using p(2) by (auto simp: unsubscribe_def Some Let_def intro!: put acct_remove)
  qed (use p in \<open>simp add: unsubscribe_def\<close>)
qed

lemma acct_wait_poll:
  assumes "broker_inv cfg now st"
  shows "acct cfg (snd (wait_poll cfg now k st))"
proof -
  let ?st = "purge_expired_rooms cfg now st"
  have p: "acct cfg ?st" using inv_purge [OF assms] by (simp add: broker_inv_def)
  show ?thesis
  proof (cases "room_limit_reached cfg k ?st")
    case False
    let ?room = "room_or_default now k ?st"
    have "acct cfg (?st\<lparr>rooms := AList.update k room (rooms ?st), total_backlog_bytes := total_backlog_bytes ?st - freed\<rparr>)"
      if "freed + backlog_bytes room = backlog_bytes ?room" for room freed
      by (rule acct_put [OF p False])
         (use p that bytes_at_le [of "rooms ?st" k] in \<open>auto simp: acct_def room_or_default_bytes\<close>)
    from this [of 0 ?room] this [of "backlog_bytes ?room" "default_room now"] False show ?thesis
      by (auto simp: wait_poll_def Let_def default_room_def)
  qed (use p in \<open>simp add: wait_poll_def\<close>)
qed

lemma acct_mark_room_finished:
  assumes "broker_inv cfg now st"
  shows "acct cfg (snd (mark_room_finished cfg now k st))"
proof -
  let ?st = "purge_expired_rooms cfg now st"
  have p: "broker_inv cfg now ?st" "acct cfg ?st" "distinct (map fst (rooms ?st))"
    using inv_purge [OF assms] by (auto simp: broker_inv_def rooms_all_def)
  show ?thesis
  proof (cases "map_of (rooms ?st) k")
    case (Some room)
    let ?room = "room\<lparr>subscribers := []\<rparr>"
    have "backlog_bytes ?room = entry_bytes (backlog ?room)"
      using p(1) Some by (auto simp: broker_inv_def rooms_all_def room_ok_def)
    then obtain old es where es: "backlog ?room = old @ es" "backlog_bytes ?room = entry_bytes (backlog ?room)"
        "purge_expired_backlog now (replay_ttl cfg) ?room =
          (?room\<lparr>backlog := es, backlog_bytes := entry_bytes es\<rparr>, entry_bytes old)"
      using purge_room_spec by metis
    have "acct cfg (?st\<lparr>rooms := AList.update k room' (rooms ?st),
        total_backlog_bytes := total_backlog_bytes ?st - entry_bytes old\<rparr>)"
      if "backlog_bytes room' = entry_bytes es" for room'
      by (rule acct_put [OF p(2) not_limit_present [OF Some], where room = room'])
         (use p that Some es bytes_at_le [of "rooms ?st" k] in \<open>auto simp: acct_def bytes_at_def\<close>)
    with p(3) show ?thesis
      by (auto simp: mark_room_finished_def Some Let_def es(3) intro!: acct_remove)
  qed (use p in \<open>simp add: mark_room_finished_def\<close>)
qed

lemma acct_drop:
  assumes "broker_inv cfg now st"
  shows "acct cfg (drop_room k st)" "acct cfg (drop_empty_unfinished_room k st)"
    "acct cfg (drop_expired_finished_room now k st)"
  using assms acct_remove [of st cfg k]
  by (auto simp: drop_room_def drop_empty_unfinished_room_def drop_expired_finished_room_def
      broker_inv_def rooms_all_def split: option.splits)

lemma room_ok_added: "room_ok cfg now room \<Longrightarrow> finished_at room = None \<Longrightarrow> room_ok cfg now (room\<lparr>subscribers := is\<rparr>)"
  by (simp add: room_ok_def)

lemma room_ok_retained:
  assumes "room_ok cfg now room" "retain_record cfg now r n room t = (room', t')" "replay_ttl cfg \<noteq> 0"
    and "backlog_bytes room \<le> t" "t \<le> max_backlog_bytes cfg"
  shows "room_ok cfg now room'"
proof -
  have "backlog_bytes room = entry_bytes (backlog room)" using assms(1) by (simp add: room_ok_def)
  then obtain old es where "backlog room @ [\<lparr>bl_record = r, bl_bytes = n, bl_appended_at = now\<rparr>] = old @ es"
      "room' = room\<lparr>backlog := es, backlog_bytes := entry_bytes es\<rparr>" "length es \<le> max_backlog cfg"
    using retain_record_spec [OF assms(2)] assms(4,5) by metis
  moreover have "sorted (map bl_appended_at (old @ es))" "\<forall>e\<in>set (old @ es). bl_appended_at e \<le> now"
    using assms(1) calculation(1) [symmetric] by (auto simp: room_ok_def sorted_append)
  ultimately show ?thesis using assms(1,3) by (auto simp: room_ok_def sorted_append)
qed

lemma step_inv:
  assumes inv: "broker_inv cfg now st"
  shows "broker_inv cfg now (snd (broker_step cfg now op st))"
proof -
  have all: "rooms_all (\<lambda>_. room_ok cfg now) (rooms st)" and small: "retained_bytes (rooms st) \<le> max_backlog_bytes cfg"
    using inv by (auto simp: broker_inv_def acct_def)
  have pub: "rooms_all (\<lambda>_. room_ok cfg now) (rooms (snd (publish cfg now k r f st)))" for k r f
  proof (cases "publish cfg now k r f st")
    case (Pair res st')
    show ?thesis
    proof (cases res)
      case (Inr sent)
      have "rooms_all (\<lambda>_. room_ok cfg now) (rooms st')"
        by (rule limits.publish_all [OF all Pair [unfolded Inr] small])
           (auto intro: limits.R_filter room_ok_retained)
      with Pair show ?thesis by simp
    qed (use Pair limits.publish_error_all [OF all] in auto)
  qed
  show ?thesis
    using all acct_subscribe [OF inv] acct_publish [OF inv] acct_unsubscribe [OF inv] acct_wait_poll [OF inv]
      acct_mark_room_finished [OF inv] acct_drop [OF inv] pub limits.subscribe_all [OF all]
    by (cases op) (auto simp: broker_inv_def case_prod_unfold room_ok_added limits.unsubscribe_all limits.wait_poll_all
        limits.drop_all limits.mark_room_finished_all split: sum.splits)
qed

text \<open>One step of the broker at a clock that does not run backwards.\<close>
definition broker_tick :: "BrokerState \<Rightarrow> nat \<times> BrokerStateInner \<Rightarrow> nat \<times> BrokerStateInner \<Rightarrow> bool" where
  "broker_tick cfg s s' = (fst s \<le> fst s' \<and> (\<exists>op. snd s' = snd (broker_step cfg (fst s') op (snd s))))"

interpretation broker: invariant_system "\<lambda>s. s = (0, default_inner)" "broker_tick cfg"
    "\<lambda>(now, st). broker_inv cfg now st" for cfg
proof
  fix s s' :: "nat \<times> BrokerStateInner"
  assume "case s of (now, st) \<Rightarrow> broker_inv cfg now st" and tick: "broker_tick cfg s s'"
  then have "broker_inv cfg (fst s') (snd s)" using broker_inv_later by (auto simp: broker_tick_def)
  with tick show "case s' of (now, st) \<Rightarrow> broker_inv cfg now st"
    using step_inv by (auto simp: broker_tick_def case_prod_unfold)
qed (auto simp: default_inner_def broker_inv_def rooms_all_def acct_def retained_bytes_def)

lemma run_ticks:
  "sorted (now # map fst ops) \<Longrightarrow>
     (broker_tick cfg)\<^sup>*\<^sup>* (now, st) (last (now # map fst ops), snd (broker_run cfg ops st))"
proof (induction ops arbitrary: now st)
  case (Cons p ops)
  obtain t op where p: "p = (t, op)" by (cases p)
  have "broker_tick cfg (now, st) (t, snd (broker_step cfg t op st))"
    using Cons.prems by (auto simp: broker_tick_def p)
  moreover have "(broker_tick cfg)\<^sup>*\<^sup>* (t, snd (broker_step cfg t op st))
      (last (t # map fst ops), snd (broker_run cfg ops (snd (broker_step cfg t op st))))"
    using Cons.prems by (intro Cons.IH) (auto simp: p)
  ultimately show ?case by (auto simp: p case_prod_unfold Let_def intro: converse_rtranclp_into_rtranclp)
qed simp

lemma run_inv:
  "sorted (map fst ops) \<Longrightarrow> broker_inv cfg (last (0 # map fst ops)) (snd (broker_run cfg ops default_inner))"
  using broker.inv_reachable [OF refl run_ticks [of 0 ops cfg default_inner]] by simp

lemma retained_bytes_entries:
  "rooms_all (\<lambda>_ room. backlog_bytes room = entry_bytes (backlog room)) rs \<Longrightarrow>
     retained_bytes rs = sum_list (map (\<lambda>(k, room). sum_list (map bl_bytes (backlog room))) rs)"
proof -
  assume "rooms_all (\<lambda>_ room. backlog_bytes room = entry_bytes (backlog room)) rs"
  then have "\<forall>(k, room)\<in>set rs. backlog_bytes room = sum_list (map bl_bytes (backlog room))"
    by (auto simp: rooms_all_def entry_bytes_def map_of_eq_Some_iff)
  then show ?thesis unfolding retained_bytes_def by (intro arg_cong [of _ _ sum_list] map_cong) auto
qed

text \<open>
  C16: The broker stays within its configured limits.  After any sequence of operations at a clock that
  does not run backwards there are at most \<open>max_rooms\<close> rooms, the global byte counter is exactly the
  sum of the retained records of all rooms and at most \<open>max_backlog_bytes\<close>, no room retains more than
  \<open>max_backlog\<close> records, a broker without replay window retains none, and a finished room has no
  live subscriber.\<close>

theorem broker_within_limits:
  assumes "sorted (map fst ops)"
  shows "let st = snd (broker_run cfg ops default_inner) in
    length (rooms st) \<le> max_rooms cfg \<and>
    total_backlog_bytes st = sum_list (map (\<lambda>(k, room). sum_list (map bl_bytes (backlog room))) (rooms st)) \<and>
    total_backlog_bytes st \<le> max_backlog_bytes cfg \<and>
    (\<forall>(k, room)\<in>set (rooms st). length (backlog room) \<le> max_backlog cfg \<and>
       (replay_ttl cfg = 0 \<longrightarrow> backlog room = []) \<and> (finished_at room \<noteq> None \<longrightarrow> subscribers room = []))"
proof -
  let ?st = "snd (broker_run cfg ops default_inner)"
  have inv: "rooms_all (\<lambda>_. room_ok cfg (last (0 # map fst ops))) (rooms ?st)" "acct cfg ?st"
    using run_inv [OF assms, of cfg] by (simp_all add: broker_inv_def)
  then have "rooms_all (\<lambda>_ room. backlog_bytes room = entry_bytes (backlog room)) (rooms ?st)"
    by (simp add: rooms_all_def room_ok_def)
  moreover have "\<forall>(k, room)\<in>set (rooms ?st). room_ok cfg (last (0 # map fst ops)) room"
    using inv(1) by (auto simp: rooms_all_def map_of_eq_Some_iff)
  ultimately show ?thesis
    using inv(2) by (auto simp: Let_def acct_def retained_bytes_entries room_ok_def)
qed

definition example_limits :: BrokerState where
  "example_limits = \<lparr>per_subscriber_queue = 1, max_backlog = 2, max_rooms = 1, max_backlog_bytes = 100, replay_ttl = 10\<rparr>"

definition example_key :: BrokerStreamKey where
  "example_key = \<lparr>key_stream_id = [1], key_start_event_id = [2]\<rparr>"

definition example_traffic :: "(nat \<times> broker_op) list" where
  "example_traffic =
     [(0, PublishOp example_key (text_delta [1] 1 [65]) (\<lambda>_. True)),
      (1, PublishOp example_key (text_delta [1] 2 [66]) (\<lambda>_. True)),
      (2, SubscribeOp example_key),
      (3, PublishOp example_key (text_delta [1] 3 [67]) (\<lambda>_. True)),
      (4, PublishOp example_key (text_delta [1] 4 [68]) (\<lambda>_. False)),
      (5, PublishOp example_key (text_delta [1] 5 [69]) (\<lambda>_. True))]"

theorem broker_within_limits_witness:
  "let st = snd (broker_run example_limits example_traffic default_inner)
   in length (rooms st) \<le> 1 \<and> total_backlog_bytes st \<le> 100"
  using broker_within_limits [of example_traffic example_limits]
  by (simp add: example_traffic_def example_limits_def Let_def)

end
