(* ===== verification/Broker_Delivery.thy ===== *)
theory Broker_Delivery
  imports Broker_State
begin

text \<open>
  What the subscribers of the broker observe over a run: the backlog a subscriber is served and the
  records queued for it form one gapless piece of what was published to its room.
\<close>

section \<open>What a subscriber sees\<close>

text \<open>The records the broker accepted for a room, and those it queued for a subscriber.\<close>

fun published :: "BrokerStreamKey \<Rightarrow> broker_event list \<Rightarrow> AgentTextStreamRecordV1 list" where
  "published k [] = []"
| "published k (Relayed k' r sent # evs) = (if k' = k then r # published k evs else published k evs)"
| "published k (Served _ _ _ # evs) = published k evs"

fun queued_for :: "u64 \<Rightarrow> broker_event list \<Rightarrow> AgentTextStreamRecordV1 list" where
  "queued_for i [] = []"
| "queued_for i (Relayed k r sent # evs) = replicate (count_list sent i) r @ queued_for i evs"
| "queued_for i (Served _ _ _ # evs) = queued_for i evs"

lemma published_append [simp]: "published k (xs @ ys) = published k xs @ published k ys"
  by (induction k xs rule: published.induct) auto

lemma queued_append [simp]: "queued_for i (xs @ ys) = queued_for i xs @ queued_for i ys"
  by (induction i xs rule: queued_for.induct) auto

text \<open>A subscriber id is in use in rooms of \<open>K\<close> only, and ids are unique in a room and already issued.\<close>
definition watched :: "u64 \<Rightarrow> BrokerStreamKey set \<Rightarrow> u64 \<Rightarrow> BrokerStreamKey \<Rightarrow> BrokerRoom \<Rightarrow> bool" where
  "watched i K n k room =
     (distinct (subscribers room) \<and> (\<forall>j\<in>set (subscribers room). j < n) \<and> (i \<in> set (subscribers room) \<longrightarrow> k \<in> K))"

interpretation watch: room_invariant cfg now "watched i K n" for cfg now i K n
  by standard (auto simp: watched_def default_room_def)

lemma retain_record_subscribers: "retain_record cfg now r n room t = (room', t') \<Longrightarrow> subscribers room' = subscribers room"
proof -
  assume "retain_record cfg now r n room t = (room', t')"
  then have "subscribers room' = subscribers (fst (purge_expired_backlog now (replay_ttl cfg) room))"
    unfolding retain_record_def Let_def case_prod_unfold by auto
  then show ?thesis by simp
qed

lemma publish_in_room_cases:
  assumes "publish_in_room cfg now k r rb try_send st = (sent, st')"
  obtains room tot where "subscribers room = sent"
    "st' = (let st1 = st\<lparr>rooms := AList.update k room (rooms st), total_backlog_bytes := tot\<rparr>
            in if removable room then remove_room k st1 else st1)"
proof -
  obtain room1 tot where "(case rb of
      Some n \<Rightarrow> retain_record cfg now r n ((room_or_default now k st)\<lparr>last_activity_at := now\<rparr>) (total_backlog_bytes st)
    | None \<Rightarrow> ((room_or_default now k st)\<lparr>last_activity_at := now\<rparr>, total_backlog_bytes st)) = (room1, tot)"
    by (meson surj_pair)
  with assms show ?thesis
    by (intro that [of "room1\<lparr>subscribers := filter try_send (subscribers room1)\<rparr>" tot])
       (auto simp: publish_in_room_def Let_def)
qed

lemma publish_sent:
  assumes "publish cfg now k r try_send st = (Inr sent, st')"
  shows "(\<exists>room. map_of (rooms st') k = Some room \<and> subscribers room = sent) \<or> map_of (rooms st') k = None \<and> sent = []"
proof -
  obtain rb st1 where "publish_in_room cfg now k r rb try_send st1 = (sent, st')"
    using publish_ok [OF assms] by metis
  then show ?thesis
    by (rule publish_in_room_cases) (auto simp: Let_def removable_def)
qed

lemma publish_next: "next_subscriber_id (snd (publish cfg now k r try_send st)) = next_subscriber_id st"
proof (cases "publish cfg now k r try_send st")
  case (Pair res st')
  show ?thesis
  proof (cases res)
    case (Inl e)
    with Pair show ?thesis
      by (auto simp: publish_def Let_def case_prod_unfold split: if_splits sum.splits option.splits)
  next
    case (Inr sent)
    with Pair obtain rb st1 where st1: "publish_in_room cfg now k r rb try_send st1 = (sent, st')"
        "next_subscriber_id st1 = next_subscriber_id st"
      using publish_ok [of cfg now k r try_send st sent st'] by (metis purged_simps(1) removed_simps(2))
    from st1(1) show ?thesis
      by (rule publish_in_room_cases) (use Pair st1(2) in \<open>auto simp: Let_def\<close>)
  qed
qed

lemma step_cases:
  "(\<exists>k i rs. op = SubscribeOp k \<and> fst (broker_step cfg now op st) = [Served i k rs] \<and>
      subscribe cfg now k st = (Inr (i, rs), snd (broker_step cfg now op st))) \<or>
   (\<exists>k r f sent. op = PublishOp k r f \<and> fst (broker_step cfg now op st) = [Relayed k r sent] \<and>
      publish cfg now k r f st = (Inr sent, snd (broker_step cfg now op st))) \<or>
   fst (broker_step cfg now op st) = []"
proof (cases op)
  case (SubscribeOp k)
  obtain res st' where "subscribe cfg now k st = (res, st')" by (cases "subscribe cfg now k st")
  with SubscribeOp show ?thesis by (cases res) auto
next
  case (PublishOp k r f)
  obtain res st' where "publish cfg now k r f st = (res, st')" by (cases "publish cfg now k r f st")
  with PublishOp show ?thesis by (cases res) auto
qed simp_all

lemma subscribe_result:
  "subscribe cfg now k st = (Inr (i, rs), st') \<Longrightarrow> i = next_subscriber_id st \<and> next_subscriber_id st' = i + 1"
  by (auto simp: subscribe_def Let_def case_prod_unfold split: if_splits)

lemma subscribe_error: "subscribe cfg now k st = (Inl e, st') \<Longrightarrow> st' = purge_expired_rooms cfg now st"
  by (auto simp: subscribe_def Let_def case_prod_unfold split: if_splits)

lemma next_kept:
  "next_subscriber_id (unsubscribe cfg now k i st) = next_subscriber_id st"
  "next_subscriber_id (snd (wait_poll cfg now k st)) = next_subscriber_id st"
  "next_subscriber_id (snd (mark_room_finished cfg now k st)) = next_subscriber_id st"
  "next_subscriber_id (drop_room k st) = next_subscriber_id st"
  "next_subscriber_id (drop_empty_unfinished_room k st) = next_subscriber_id st"
  "next_subscriber_id (drop_expired_finished_room now k st) = next_subscriber_id st"
  by (simp_all add: unsubscribe_def wait_poll_def drop_room_def drop_empty_unfinished_room_def mark_room_finished_def
      drop_expired_finished_room_def Let_def case_prod_unfold split: option.split)

lemma step_next:
  assumes "\<forall>i k rs. fst (broker_step cfg now op st) \<noteq> [Served i k rs]"
  shows "next_subscriber_id (snd (broker_step cfg now op st)) = next_subscriber_id st"
proof (cases op)
  case (SubscribeOp k)
  with assms obtain e where "fst (subscribe cfg now k st) = Inl e"
    by (cases "subscribe cfg now k st") (auto split: sum.splits)
  then show ?thesis
    using SubscribeOp subscribe_error [of cfg now k st e] by (cases "subscribe cfg now k st") auto
next
  case (PublishOp k r f)
  then show ?thesis using publish_next [of cfg now k r f st] by (auto split: prod.splits sum.splits)
qed (simp_all add: next_kept)

lemma distinct_count_list: "distinct xs \<Longrightarrow> count_list xs x = (if x \<in> set xs then 1 else 0)"
  by (induction xs) auto

lemma watched_UNIV: "rooms_all (watched i K n) rs \<Longrightarrow> rooms_all (watched i UNIV n) rs"
  by (auto simp: rooms_all_def watched_def)

lemma watched_weaken: "watched i K n k room \<Longrightarrow> K \<subseteq> K' \<Longrightarrow> n \<le> n' \<Longrightarrow> watched i K' n' k room"
  by (auto simp: watched_def)

lemma watched_added:
  assumes "watched i K n k room" "n < n + 1"
  shows "watched i (if i = n then insert k K else K) (n + 1) k (room\<lparr>subscribers := subscribers room @ [n]\<rparr>)"
  using assms by (auto simp: watched_def)

lemma watch_subscribe:
  assumes w: "rooms_all (watched i K (next_subscriber_id st)) (rooms st)"
    and res: "subscribe cfg now k st = (Inr (j, rs), st')" and ov: "j < j + 1"
  shows "rooms_all (watched i (if i = j then insert k K else K) (next_subscriber_id st')) (rooms st')"
proof -
  let ?n = "next_subscriber_id st"
  have j: "j = ?n" "next_subscriber_id st' = ?n + 1" using subscribe_result [OF res] by auto
  have "rooms_all (watched i (if i = ?n then insert k K else K) (?n + 1)) (rooms (snd (subscribe cfg now k st)))"
  proof (rule watch.subscribe_all [OF w])
    show "watched i K ?n k' room \<Longrightarrow> watched i (if i = ?n then insert k K else K) (?n + 1) k' room" for k' room
      by (erule watched_weaken) (use ov j(1) in \<open>auto intro: less_imp_le\<close>)
  qed (use watched_added [of i K ?n k] ov j(1) in auto)
  then show ?thesis using res j by simp
qed

lemma watch_publish:
  assumes inv: "broker_inv cfg now st" and w: "rooms_all (watched i K n) (rooms st)"
    and res: "publish cfg now k r f st = (Inr sent, st')"
  shows "rooms_all (watched i (if i \<in> set sent then K else K - {k}) n) (rooms st')"
    and "count_list sent i = (if i \<in> set sent then 1 else 0)" and "i \<in> set sent \<Longrightarrow> k \<in> K"
proof -
  have small: "retained_bytes (rooms st) \<le> max_backlog_bytes cfg" using inv by (simp add: broker_inv_def acct_def)
  have w': "rooms_all (watched i K n) (rooms st')"
    by (rule watch.publish_all [OF w res small])
       (auto simp: watched_def dest: retain_record_subscribers)
  show "rooms_all (watched i (if i \<in> set sent then K else K - {k}) n) (rooms st')"
    using w' publish_sent [OF res] by (auto simp: rooms_all_def watched_def)
  have sent: "distinct sent \<and> (i \<in> set sent \<longrightarrow> k \<in> K)"
    using publish_sent [OF res] w' by (auto simp: rooms_all_def watched_def)
  then show "count_list sent i = (if i \<in> set sent then 1 else 0)"
    by (simp add: distinct_count_list)
  show "i \<in> set sent \<Longrightarrow> k \<in> K" using sent by simp
qed

lemma watch_silent:
  assumes "rooms_all (watched i K (next_subscriber_id st)) (rooms st)" "fst (broker_step cfg now op st) = []"
  shows "rooms_all (watched i K (next_subscriber_id (snd (broker_step cfg now op st)))) (rooms (snd (broker_step cfg now op st)))"
proof -
  let ?n = "next_subscriber_id st"
  have "next_subscriber_id (snd (broker_step cfg now op st)) = ?n" using assms(2) by (intro step_next) simp
  moreover have "rooms_all (watched i K ?n) (rooms (snd (broker_step cfg now op st)))"
  proof (cases op)
    case (SubscribeOp k)
    then obtain e st' where "subscribe cfg now k st = (Inl e, st')"
      using assms(2) by (cases "subscribe cfg now k st") (auto split: sum.splits)
    then show ?thesis
      using SubscribeOp subscribe_error [of cfg now k st e st'] watch.purge_rooms_all [OF assms(1)] by simp
  next
    case (PublishOp k r f)
    then obtain e st' where "publish cfg now k r f st = (Inl e, st')"
      using assms(2) by (cases "publish cfg now k r f st") (auto split: sum.splits)
    then show ?thesis using PublishOp watch.publish_error_all [OF assms(1)] by auto
  qed (use assms(1) in \<open>simp_all add: watch.unsubscribe_all watch.wait_poll_all watch.drop_all watch.mark_room_finished_all\<close>)
  ultimately show ?thesis by simp
qed

section \<open>Runs\<close>

lemma run_Cons:
  "fst (broker_run cfg ((now, op) # ops) st) =
     fst (broker_step cfg now op st) @ fst (broker_run cfg ops (snd (broker_step cfg now op st)))"
  "snd (broker_run cfg ((now, op) # ops) st) = snd (broker_run cfg ops (snd (broker_step cfg now op st)))"
  by (simp_all add: case_prod_unfold Let_def)

declare broker_run.simps(2) [simp del] run_Cons [simp]

text \<open>Subscriber ids are issued in order and never twice, as long as the counter does not wrap.\<close>
definition id_room :: "BrokerStateInner \<Rightarrow> (nat \<times> broker_op) list \<Rightarrow> bool" where
  "id_room st ops = (unat (next_subscriber_id st) + length ops < 2 ^ 64)"

lemma next_no_wrap: "id_room st (p # ops) \<Longrightarrow> unat (next_subscriber_id st + 1) = unat (next_subscriber_id st) + 1"
  by (simp add: id_room_def unat_word_ariths(1))

lemma step_next_cases:
  "(\<exists>i k rs. fst (broker_step cfg now op st) = [Served i k rs] \<and> i = next_subscriber_id st \<and>
      next_subscriber_id (snd (broker_step cfg now op st)) = next_subscriber_id st + 1) \<or>
   (\<forall>i k rs. Served i k rs \<notin> set (fst (broker_step cfg now op st))) \<and>
      next_subscriber_id (snd (broker_step cfg now op st)) = next_subscriber_id st"
  using step_cases [of op cfg now st]
proof (elim disjE exE conjE)
  fix k j rs
  assume "fst (broker_step cfg now op st) = [Served j k rs]"
    and "subscribe cfg now k st = (Inr (j, rs), snd (broker_step cfg now op st))"
  then show ?thesis using subscribe_result by blast
next
  fix k r sent
  assume ev: "fst (broker_step cfg now op st) = [Relayed k r sent]"
  then show ?thesis using step_next [of cfg now op st] by simp
next
  assume "fst (broker_step cfg now op st) = []"
  then show ?thesis using step_next [of cfg now op st] by simp
qed

lemma id_room_step:
  assumes "id_room st ((now, op) # ops)"
  shows "id_room (snd (broker_step cfg now op st)) ops"
    "unat (next_subscriber_id st) \<le> unat (next_subscriber_id (snd (broker_step cfg now op st)))"
  using step_next_cases [of cfg now op st] next_no_wrap [OF assms] assms
  by (auto simp: id_room_def)

lemma served_range:
  assumes "id_room st ops"
  shows "unat (next_subscriber_id st) \<le> unat (next_subscriber_id (snd (broker_run cfg ops st))) \<and>
    (\<forall>i k rs. Served i k rs \<in> set (fst (broker_run cfg ops st)) \<longrightarrow>
      unat (next_subscriber_id st) \<le> unat i \<and> unat i < unat (next_subscriber_id (snd (broker_run cfg ops st))))"
  using assms
proof (induction ops arbitrary: st)
  case (Cons p ops)
  obtain now op where p: "p = (now, op)" by (cases p)
  let ?st = "snd (broker_step cfg now op st)"
  have ih: "unat (next_subscriber_id ?st) \<le> unat (next_subscriber_id (snd (broker_run cfg ops ?st)))"
      "\<And>i k rs. Served i k rs \<in> set (fst (broker_run cfg ops ?st)) \<Longrightarrow>
        unat (next_subscriber_id ?st) \<le> unat i \<and> unat i < unat (next_subscriber_id (snd (broker_run cfg ops ?st)))"
    using Cons.IH [OF id_room_step(1) [OF Cons.prems [unfolded p]], of cfg] by blast+
  have "\<forall>i k rs. Served i k rs \<in> set (fst (broker_step cfg now op st)) \<longrightarrow>
      i = next_subscriber_id st \<and> unat i < unat (next_subscriber_id ?st)"
    using step_next_cases [of cfg now op st] next_no_wrap [OF Cons.prems] by auto
  then show ?case
    using ih id_room_step(2) [of st now op ops cfg] Cons.prems by (fastforce simp: p)
qed simp

lemma id_room_run: "id_room st (ops @ ops') \<Longrightarrow> id_room (snd (broker_run cfg ops st)) ops'"
proof (induction ops arbitrary: st)
  case (Cons p ops)
  then show ?case by (cases p) (auto dest: id_room_step(1) [of st _ _ "ops @ ops'" cfg])
qed simp

lemma watch_step:
  assumes "broker_inv cfg now st" and "rooms_all (watched i K (next_subscriber_id st)) (rooms st)"
    and "id_room st ((now, op) # ops)" and "\<And>k rs. fst (broker_step cfg now op st) \<noteq> [Served i k rs]"
  shows "rooms_all (watched i K (next_subscriber_id (snd (broker_step cfg now op st)))) (rooms (snd (broker_step cfg now op st)))
       \<and> queued_for i (fst (broker_step cfg now op st)) = [] \<and> (\<forall>k. k \<in> K \<longrightarrow> published k (fst (broker_step cfg now op st)) = [])
    \<or> (\<exists>k r sent. fst (broker_step cfg now op st) = [Relayed k r sent] \<and>
         rooms_all (watched i (if i \<in> set sent then K else K - {k}) (next_subscriber_id (snd (broker_step cfg now op st))))
           (rooms (snd (broker_step cfg now op st))) \<and>
         queued_for i (fst (broker_step cfg now op st)) = (if i \<in> set sent then [r] else []) \<and> (i \<in> set sent \<longrightarrow> k \<in> K))"
  using step_cases [of op cfg now st]
proof (elim disjE exE conjE)
  fix k j rs
  assume ev: "fst (broker_step cfg now op st) = [Served j k rs]"
    and res: "subscribe cfg now k st = (Inr (j, rs), snd (broker_step cfg now op st))"
  have "j < j + 1"
    using next_no_wrap [OF assms(3)] subscribe_result [OF res] by (simp add: word_less_nat_alt)
  with watch_subscribe [OF assms(2) res] assms(4) [of k rs] ev show ?thesis by auto
next
  fix k r f sent
  assume ev: "fst (broker_step cfg now op st) = [Relayed k r sent]"
    and res: "publish cfg now k r f st = (Inr sent, snd (broker_step cfg now op st))"
  have "next_subscriber_id (snd (broker_step cfg now op st)) = next_subscriber_id st"
    using ev by (intro step_next) simp
  with watch_publish [OF assms(1,2) res] ev show ?thesis by auto
next
  assume ev: "fst (broker_step cfg now op st) = []"
  with watch_silent [OF assms(2) ev] show ?thesis by simp
qed

lemma served_result:
  assumes ev: "fst (broker_step cfg t op st) = [Served i k rs]"
  shows "subscribe cfg t k st = (Inr (i, rs), snd (broker_step cfg t op st))"
  using step_cases [of op cfg t st]
proof (elim disjE exE conjE)
  fix k' j rs'
  assume "fst (broker_step cfg t op st) = [Served j k' rs']"
    and "subscribe cfg t k' st = (Inr (j, rs'), snd (broker_step cfg t op st))"
  with ev show ?thesis by simp
next
  fix k' r sent
  assume "fst (broker_step cfg t op st) = [Relayed k' r sent]"
  with ev show ?thesis by simp
next
  assume "fst (broker_step cfg t op st) = []"
  with ev show ?thesis by simp
qed

lemma watch_step_any:
  assumes "broker_inv cfg now st" "rooms_all (watched i UNIV (next_subscriber_id st)) (rooms st)"
    and "id_room st ((now, op) # ops)"
  shows "rooms_all (watched i UNIV (next_subscriber_id (snd (broker_step cfg now op st)))) (rooms (snd (broker_step cfg now op st)))"
proof (cases "\<exists>k rs. fst (broker_step cfg now op st) = [Served i k rs]")
  case True
  then obtain k rs where res: "subscribe cfg now k st = (Inr (i, rs), snd (broker_step cfg now op st))"
    using served_result by blast
  have "i < i + 1"
    using next_no_wrap [OF assms(3)] subscribe_result [OF res] by (simp add: word_less_nat_alt)
  with watch_subscribe [OF assms(2) res] show ?thesis by simp
next
  case False
  then have "\<And>k rs. fst (broker_step cfg now op st) \<noteq> [Served i k rs]" by blast
  from watch_step [OF assms this] show ?thesis
    by (elim disjE exE conjE) (erule watched_UNIV)+
qed

lemma run_prefix:
  assumes "sorted (now # map fst ops)" "broker_inv cfg now st" "rooms_all (watched i K (next_subscriber_id st)) (rooms st)"
    and "id_room st ops" "\<forall>k rs. Served i k rs \<notin> set (fst (broker_run cfg ops st))" "K \<subseteq> {k}"
  shows "prefix (queued_for i (fst (broker_run cfg ops st))) (published k (fst (broker_run cfg ops st)))
    \<and> (K = {} \<longrightarrow> queued_for i (fst (broker_run cfg ops st)) = [])"
  using assms
proof (induction ops arbitrary: now st K)
  case (Cons p ops)
  obtain t op where p: "p = (t, op)" by (cases p)
  let ?evs = "fst (broker_step cfg t op st)" and ?st = "snd (broker_step cfg t op st)"
  let ?more = "fst (broker_run cfg ops ?st)"
  have inv: "broker_inv cfg t st" using Cons.prems(1,2) by (auto simp: p intro: broker_inv_later)
  have ih: "prefix (queued_for i ?more) (published k ?more) \<and> (K' = {} \<longrightarrow> queued_for i ?more = [])"
    if "rooms_all (watched i K' (next_subscriber_id ?st)) (rooms ?st)" "K' \<subseteq> {k}" for K'
    using Cons.prems id_room_step(1) [of st t op ops cfg] step_inv [OF inv] that
    by (intro Cons.IH [of t]) (auto simp: p)
  have "?evs \<noteq> [Served i k rs]" for k rs
    using Cons.prems(5) [rule_format, of k rs] by (auto simp: p)
  from watch_step [OF inv Cons.prems(3) Cons.prems(4) [unfolded p] this] show ?case
  proof (elim disjE conjE exE)
    assume "rooms_all (watched i K (next_subscriber_id ?st)) (rooms ?st)" "queued_for i ?evs = []"
      "\<forall>k. k \<in> K \<longrightarrow> published k ?evs = []"
    moreover have "prefix [] (published k ?evs)" by simp
    ultimately show ?case
      using ih [of K] Cons.prems(6) by (cases "K = {}") (auto simp: p)
  next
    fix k' r sent
    assume ev: "?evs = [Relayed k' r sent]" and "i \<in> set sent \<longrightarrow> k' \<in> K"
      and w: "rooms_all (watched i (if i \<in> set sent then K else K - {k'}) (next_subscriber_id ?st)) (rooms ?st)"
      and q: "queued_for i ?evs = (if i \<in> set sent then [r] else [])"
    have "(if i \<in> set sent then K else K - {k'}) \<subseteq> {k}" using Cons.prems(6) by auto
    from ih [OF w this] show ?case
      using Cons.prems(6) \<open>i \<in> set sent \<longrightarrow> k' \<in> K\<close> q ev
      by (cases "i \<in> set sent"; cases "k' = k") (auto simp: p)
  qed
qed simp

lemma watch_run:
  assumes "sorted (now # map fst ops)" "broker_inv cfg now st" "rooms_all (watched i UNIV (next_subscriber_id st)) (rooms st)"
    and "id_room st ops"
  shows "rooms_all (watched i UNIV (next_subscriber_id (snd (broker_run cfg ops st)))) (rooms (snd (broker_run cfg ops st)))"
  using assms
proof (induction ops arbitrary: now st)
  case (Cons p ops)
  obtain t op where p: "p = (t, op)" by (cases p)
  have inv: "broker_inv cfg t st" using Cons.prems(1,2) by (auto simp: p intro: broker_inv_later)
  have ids: "id_room st ((t, op) # ops)" using Cons.prems(4) by (simp add: p)
  show ?case
    using Cons.prems(1) step_inv [OF inv] watch_step_any [OF inv Cons.prems(3) ids] id_room_step(1) [OF ids]
      Cons.IH [of t "snd (broker_step cfg t op st)"]
    by (simp add: p)
qed simp

section \<open>The backlog is the end of what was published\<close>

definition in_history ::
  "BrokerState \<Rightarrow> (BrokerStreamKey \<Rightarrow> AgentTextStreamRecordV1 list) \<Rightarrow> BrokerStreamKey \<Rightarrow> BrokerRoom \<Rightarrow> bool" where
  "in_history cfg P k room =
     (suffix (map bl_record (backlog room)) (P k) \<and> backlog_bytes room = entry_bytes (backlog room) \<and>
      (replay_ttl cfg = 0 \<longrightarrow> backlog room = []))"

lemma in_history_purged:
  assumes "in_history cfg P k room"
  shows "in_history cfg P k (fst (purge_expired_backlog now ttl room))"
proof -
  have "backlog_bytes room = entry_bytes (backlog room)" using assms by (simp add: in_history_def)
  then obtain old es where "backlog room = old @ es"
      "purge_expired_backlog now ttl room = (room\<lparr>backlog := es, backlog_bytes := entry_bytes es\<rparr>, entry_bytes old)"
    using purge_room_spec by metis
  with assms show ?thesis by (auto simp: in_history_def dest: suffix_appendD)
qed

interpretation history: room_invariant cfg now "in_history cfg P" for cfg now P
  by standard (auto simp: in_history_purged, auto simp: in_history_def default_room_def)

lemma in_history_retained:
  assumes "in_history cfg P k room" "replay_ttl cfg \<noteq> 0" "retain_record cfg now r n room t = (room', t')"
    and "backlog_bytes room \<le> t" "t \<le> max_backlog_bytes cfg" "P' k = P k @ [r]"
  shows "in_history cfg P' k (room'\<lparr>subscribers := is\<rparr>)"
proof -
  have "backlog_bytes room = entry_bytes (backlog room)" using assms(1) by (simp add: in_history_def)
  then obtain old es where es: "backlog room @ [\<lparr>bl_record = r, bl_bytes = n, bl_appended_at = now\<rparr>] = old @ es"
      "room' = room\<lparr>backlog := es, backlog_bytes := entry_bytes es\<rparr>"
    using retain_record_spec [OF assms(3)] assms(4,5) by metis
  have "suffix (map bl_record es) (map bl_record (backlog room) @ [r])"
    using arg_cong [OF es(1), of "map bl_record"] by (auto intro: suffixI)
  moreover have "suffix (map bl_record (backlog room) @ [r]) (P k @ [r])"
    using assms(1) by (auto simp: in_history_def suffix_def)
  ultimately show ?thesis
    using assms(2,6) es(2) by (auto simp: in_history_def intro: suffix_order.trans)
qed

lemma history_step:
  assumes inv: "broker_inv cfg now st" and h: "rooms_all (in_history cfg P) (rooms st)"
  shows "rooms_all (in_history cfg (\<lambda>k. P k @ published k (fst (broker_step cfg now op st))))
    (rooms (snd (broker_step cfg now op st)))"
proof (cases op)
  case (SubscribeOp k)
  then have "rooms_all (in_history cfg P) (rooms (snd (broker_step cfg now op st)))"
    using history.subscribe_all [OF h, of "in_history cfg P" k now]
    by (auto simp: in_history_def case_prod_unfold split: sum.splits)
  then show ?thesis using SubscribeOp by (auto split: prod.splits sum.splits)
next
  case (PublishOp k r f)
  obtain res st' where res: "publish cfg now k r f st = (res, st')" by (cases "publish cfg now k r f st")
  show ?thesis
  proof (cases res)
    case (Inl e)
    then show ?thesis using PublishOp res history.publish_error_all [OF h] by auto
  next
    case (Inr sent)
    have small: "retained_bytes (rooms st) \<le> max_backlog_bytes cfg" using inv by (simp add: broker_inv_def acct_def)
    have "rooms_all (in_history cfg (\<lambda>k'. P k' @ published k' [Relayed k r sent])) (rooms st')"
      by (rule history.publish_all [OF h res [unfolded Inr] small])
         (auto simp: in_history_retained, auto simp: in_history_def)
    then show ?thesis using PublishOp res Inr by simp
  qed
qed (use h in \<open>simp_all add: history.unsubscribe_all history.wait_poll_all history.drop_all history.mark_room_finished_all\<close>)

lemma history_run:
  assumes "sorted (now # map fst ops)" "broker_inv cfg now st" "rooms_all (in_history cfg P) (rooms st)"
  shows "rooms_all (in_history cfg (\<lambda>k. P k @ published k (fst (broker_run cfg ops st)))) (rooms (snd (broker_run cfg ops st)))"
  using assms
proof (induction ops arbitrary: now st P)
  case (Cons p ops)
  obtain t op where p: "p = (t, op)" by (cases p)
  let ?P = "\<lambda>k. P k @ published k (fst (broker_step cfg t op st))" and ?st = "snd (broker_step cfg t op st)"
  have inv: "broker_inv cfg t st" using Cons.prems by (auto simp: p intro: broker_inv_later)
  have "rooms_all (in_history cfg (\<lambda>k. ?P k @ published k (fst (broker_run cfg ops ?st)))) (rooms (snd (broker_run cfg ops ?st)))"
    using Cons.prems(1) by (intro Cons.IH [of t] step_inv inv history_step Cons.prems(3)) (auto simp: p)
  then show ?case by (simp add: p)
qed simp

lemma served_in_history:
  assumes "rooms_all (in_history cfg P) (rooms st)" "subscribe cfg now k st = (Inr (i, rs), st')"
  shows "suffix rs (P k)"
proof -
  let ?st = "purge_expired_rooms cfg now st"
  let ?room = "if finished_at (room_or_default now k ?st) = None
       then (room_or_default now k ?st)\<lparr>last_activity_at := now\<rparr> else room_or_default now k ?st"
  have "in_history cfg P k (room_or_default now k ?st)"
    by (rule rooms_all_room [OF history.purge_rooms_all [OF assms(1)] history.R_default])
  then have "in_history cfg P k (fst (purge_expired_backlog now (replay_ttl cfg) ?room))"
    by (simp add: history.R_purge history.R_touch)
  moreover have "rs = map bl_record (backlog (fst (purge_expired_backlog now (replay_ttl cfg) ?room)))"
    using assms(2) by (auto simp: subscribe_def Let_def case_prod_unfold split: if_splits)
  ultimately show ?thesis by (simp add: in_history_def)
qed

lemma run_split:
  assumes "fst (broker_run cfg ops st) = pre @ e # post"
  shows "\<exists>ops1 t op ops2. ops = ops1 @ (t, op) # ops2 \<and> fst (broker_run cfg ops1 st) = pre \<and>
    fst (broker_step cfg t op (snd (broker_run cfg ops1 st))) = [e] \<and>
    fst (broker_run cfg ops2 (snd (broker_step cfg t op (snd (broker_run cfg ops1 st))))) = post"
  using assms
proof (induction ops arbitrary: st pre)
  case (Cons p ops)
  obtain t op where p: "p = (t, op)" by (cases p)
  let ?st = "snd (broker_step cfg t op st)"
  have evs: "fst (broker_step cfg t op st) = [] \<or> (\<exists>e. fst (broker_step cfg t op st) = [e])"
    using step_cases [of op cfg t st] by blast
  show ?case
  proof (cases "\<exists>pre'. fst (broker_run cfg ops ?st) = pre' @ e # post \<and> pre = fst (broker_step cfg t op st) @ pre'")
    case True
    then obtain pre' where pre: "fst (broker_run cfg ops ?st) = pre' @ e # post" "pre = fst (broker_step cfg t op st) @ pre'"
      by blast
    from Cons.IH [OF pre(1)] obtain ops1 t' op' ops2 where "ops = ops1 @ (t', op') # ops2"
        "fst (broker_run cfg ops1 ?st) = pre'" "fst (broker_step cfg t' op' (snd (broker_run cfg ops1 ?st))) = [e]"
        "fst (broker_run cfg ops2 (snd (broker_step cfg t' op' (snd (broker_run cfg ops1 ?st))))) = post"
      by blast
    with pre(2) show ?thesis by (intro exI [of _ "p # ops1"]) (auto simp: p)
  next
    case False
    with Cons.prems evs have "pre = []" "fst (broker_step cfg t op st) = [e]" "fst (broker_run cfg ops ?st) = post"
      by (auto simp: p Cons_eq_append_conv)
    then show ?thesis by (intro exI [of _ "[]"]) (auto simp: p)
  qed
qed simp

lemma served_without_gap:
  assumes "sorted (map fst ops)" and "length ops < 2 ^ 64"
    and "fst (broker_run cfg ops default_inner) = before @ Served i k rs # after"
  shows "suffix rs (published k before) \<and> queued_for i before = [] \<and>
    prefix (queued_for i after) (published k after)"
proof -
  obtain ops1 t op ops2 where ops: "ops = ops1 @ (t, op) # ops2"
      and before: "fst (broker_run cfg ops1 default_inner) = before"
      and served: "fst (broker_step cfg t op (snd (broker_run cfg ops1 default_inner))) = [Served i k rs]"
      and aft: "fst (broker_run cfg ops2 (snd (broker_step cfg t op (snd (broker_run cfg ops1 default_inner))))) = after"
    using run_split [OF assms(3)] by blast
  define st1 where "st1 = snd (broker_run cfg ops1 default_inner)"
  define st2 where "st2 = snd (broker_step cfg t op st1)"
  have res: "subscribe cfg t k st1 = (Inr (i, rs), st2)"
    using served_result [OF served] by (simp add: st1_def st2_def)
  have i: "i = next_subscriber_id st1" "next_subscriber_id st2 = i + 1" using subscribe_result [OF res] by auto
  have empty: "rooms_all R (rooms default_inner)" for R by (simp add: rooms_all_def default_inner_def)
  have ids: "id_room default_inner ops1" "id_room st1 ((t, op) # ops2)" "id_room st2 ops2"
    using assms(2) id_room_run [of default_inner ops1 "(t, op) # ops2" cfg] id_room_step(1) [of st1 t op ops2 cfg]
    by (auto simp: ops id_room_def st1_def st2_def default_inner_def)
  have "last (0 # map fst ops1) \<le> t"
    using assms(1) by (cases ops1 rule: rev_cases) (auto simp: ops sorted_append)
  then have sorted: "sorted (0 # map fst ops1)" "sorted (last (0 # map fst ops1) # t # map fst ops2)"
    using assms(1) by (auto simp: ops sorted_append)
  have inv0: "broker_inv cfg 0 default_inner" using broker.inv_initial [of "(0, default_inner)" cfg] by simp
  have inv1: "broker_inv cfg (last (0 # map fst ops1)) st1"
    using run_inv [of ops1 cfg] sorted(1) by (simp add: st1_def)
  have inv2: "broker_inv cfg t st2"
    unfolding st2_def using inv1 sorted(2) by (intro step_inv) (auto intro: broker_inv_later)
  have w1: "rooms_all (watched i {} (next_subscriber_id st1)) (rooms st1)"
    using watch_run [OF _ inv0 empty ids(1)] sorted(1) i(1) by (force simp: st1_def rooms_all_def watched_def)
  have "i < i + 1" using next_no_wrap [OF ids(2)] i by (simp add: word_less_nat_alt)
  then have w2: "rooms_all (watched i {k} (next_subscriber_id st2)) (rooms st2)"
    using watch_subscribe [OF w1 res] by simp
  have "rooms_all (in_history cfg (\<lambda>k. published k before)) (rooms st1)"
    using history_run [OF sorted(1) inv0 empty, of "\<lambda>_. []"] before by (simp add: st1_def)
  then have "suffix rs (published k before)" using served_in_history res by blast
  moreover have "queued_for i before = []"
    using run_prefix [OF sorted(1) inv0 empty ids(1), of i "{}" k] served_range [OF ids(1), of cfg] i before
    by (auto simp: st1_def)
  moreover have "prefix (queued_for i after) (published k after)"
    using run_prefix [OF _ inv2 w2 ids(3), of k] served_range [OF ids(3), of cfg] sorted(2) i aft next_no_wrap [OF ids(2)]
    by (force simp: st1_def [symmetric] st2_def [symmetric])
  ultimately show ?thesis by blast
qed

text \<open>
  C15: A subscriber sees no gap.  In any run of the broker in which the subscriber counter does not wrap,
  the backlog a subscriber of a room is served is the latest part of what had been published to the
  room, and the records queued for it afterwards are, in order and each once, the first ones
  published to the room after it subscribed; nothing was queued for its id before.\<close>

theorem subscriber_sees_no_gap:
  assumes "sorted (map fst ops)" and "length ops < 2 ^ 64"
    and "fst (broker_run cfg ops default_inner) = before @ Served i k rs # after"
  shows "suffix rs (published k before) \<and> queued_for i before = [] \<and>
    prefix (queued_for i after) (published k after)"
  by (rule served_without_gap [OF assms])

lemma example_serving:
  "fst (broker_run example_limits example_traffic default_inner) =
     [Relayed example_key (text_delta [1] 1 [65]) [], Relayed example_key (text_delta [1] 2 [66]) []]
     @ Served 0 example_key [text_delta [1] 1 [65], text_delta [1] 2 [66]]
     # [Relayed example_key (text_delta [1] 3 [67]) [0], Relayed example_key (text_delta [1] 4 [68]) [],
        Relayed example_key (text_delta [1] 5 [69]) []]"
  by (simp add: example_traffic_def example_limits_def default_inner_def publish_def publish_in_room_def retain_record_def
      purge_expired_rooms_def purge_expired_backlog_def room_or_default_def room_limit_reached_def default_room_def
      retain_room_def removable_def subscribe_def FINISHED_ROOM_TTL_def UNFINISHED_ROOM_TTL_def encoded_len_def
      text_delta_def new_record_def validate_record_def MAX_STREAM_ID_LEN_def MAX_RECORD_CIPHERTEXT_LEN_def
      quic_varint_encoded_len_def retained_bytes_def Let_def)

theorem subscriber_sees_no_gap_witness:
  "\<exists>before rs after. fst (broker_run example_limits example_traffic default_inner) = before @ Served 0 example_key rs # after \<and>
     rs = [text_delta [1] 1 [65], text_delta [1] 2 [66]] \<and> suffix rs (published example_key before) \<and>
     queued_for 0 after = [text_delta [1] 3 [67]] \<and> prefix (queued_for 0 after) (published example_key after)"
proof -
  have "sorted (map fst example_traffic)" "length example_traffic < 2 ^ 64"
    by (simp_all add: example_traffic_def)
  from subscriber_sees_no_gap [OF this example_serving] show ?thesis
    using example_serving by (intro exI conjI) (assumption | simp)+
qed

end
