(* ===== verification/Broker_Handlers.thy ===== *)
theory Broker_Handlers
  imports Broker_Delivery
begin

text \<open>
  The stream handlers of the broker, \<open>transport-quic-broker/src/handlers.rs\<close>, and a broker that runs any
  number of them concurrently on one \<open>BrokerState\<close>.

  A handler is a task whose step goes from one critical section to the next: \<open>publish_task_step\<close> is
  \<open>handle_publish_stream\<close> (with \<open>wait_for_subscriber\<close> inlined, whose grace period ends when the step says so) and
  \<open>subscribe_task_step\<close> is \<open>handle_subscribe_stream\<close>.  A subscriber's channel is the queue of records
  sent to it and not yet taken: \<open>try_send\<close> succeeds while it has fewer than \<open>per_subscriber_queue\<close>
  entries, and the channel is closed when the room no longer lists the subscriber.  A write to a
  client may fail, and a frame whose write fails may be partial: the step's argument \<open>fault\<close> says so, with the error and the
  number of bytes that went out before it.
\<close>

section \<open>Publish streams\<close>

record PublishForwardLimits =
  fwd_max_records :: u64
  fwd_max_frame_bytes :: nat

definition forward_accumulator :: "PublishForwardLimits \<Rightarrow> AgentTextStreamReceiveAccumulator" where
  "forward_accumulator limits =
     new_accumulator (default_limits\<lparr>lim_max_records := fwd_max_records limits,
       lim_max_plaintext_bytes := fwd_max_frame_bytes limits\<rparr>)"

datatype publish_task =
    PubOpening recv_stream
  | PubWaiting BrokerStreamKey recv_stream
  | PubForwarding BrokerStreamKey recv_stream AgentTextStreamReceiveAccumulator
  | PubClosing BrokerStreamKey "QuicBrokerError + unit"
  | PubDone "QuicBrokerError + unit"

text \<open>The record loop's body: the task and what the broker did.\<close>
definition forward_record ::
  "BrokerState \<Rightarrow> nat \<Rightarrow> (u64 \<Rightarrow> bool) \<Rightarrow> BrokerStreamKey \<Rightarrow> AgentTextStreamReceiveAccumulator \<Rightarrow> AgentTextStreamRecordV1
     \<Rightarrow> recv_stream \<Rightarrow> BrokerStateInner \<Rightarrow> publish_task \<times> broker_event list \<times> BrokerStateInner" where
  "forward_record cfg now try_send key acc r recv st =
     (if rec_stream_id r \<noteq> key_stream_id key then (PubClosing key (Inl MixedStreamIds), [], st)
      else case observe acc r of
             Inl e \<Rightarrow> (PubClosing key (Inl (ReceiveLimit e)), [], st)
           | Inr acc' \<Rightarrow>
               (case publish cfg now key r try_send st of
                  (Inl e, st') \<Rightarrow> (PubClosing key (Inl e), [], st')
                | (Inr sent, st') \<Rightarrow> (PubForwarding key recv acc', [Relayed key r sent], st')))"

fun publish_task_step ::
  "BrokerState \<Rightarrow> PublishForwardLimits \<Rightarrow> nat \<Rightarrow> bool \<Rightarrow> (u64 \<Rightarrow> bool) \<Rightarrow> publish_task \<Rightarrow> BrokerStateInner
     \<Rightarrow> publish_task \<times> broker_event list \<times> BrokerStateInner" where
  "publish_task_step cfg limits now grace_over try_send (PubOpening recv) st =
     (case read_control_frame recv of
        Inl e \<Rightarrow> (PubDone (Inl e), [], st)
      | Inr (control, recv') \<Rightarrow>
          (if control_type control \<noteq> Publish then (PubDone (Inl SubscribeRequiresBidirectionalStream), [], st)
           else (PubWaiting (envelope_key control) recv', [], st)))"
| "publish_task_step cfg limits now grace_over try_send (PubWaiting key recv) st =
     (if grace_over then (PubForwarding key recv (forward_accumulator limits), [], drop_empty_unfinished_room key st)
      else case wait_poll cfg now key st of
             (Inl e, st') \<Rightarrow> (PubDone (Inl e), [], st')
           | (Inr has_subscribers, st') \<Rightarrow>
               (if has_subscribers then (PubForwarding key recv (forward_accumulator limits), [], st')
                else (PubWaiting key recv, [], st')))"
| "publish_task_step cfg limits now grace_over try_send (PubForwarding key recv acc) st =
     (case read_record_frame MAX_FRAME_SIZE recv of
        Inl e \<Rightarrow> (PubClosing key (Inl e), [], st)
      | Inr None \<Rightarrow> (PubClosing key (Inr ()), [], st)
      | Inr (Some (r, recv')) \<Rightarrow> forward_record cfg now try_send key acc r recv' st)"
| "publish_task_step cfg limits now grace_over try_send (PubClosing key result) st =
     (if result = Inl MixedStreamIds then (PubDone result, [], drop_room key st)
      else (PubDone result, [], snd (mark_room_finished cfg now key st)))"
| "publish_task_step cfg limits now grace_over try_send (PubDone result) st = (PubDone result, [], st)"

section \<open>Subscribe streams\<close>

datatype subscribe_task =
    SubOpening recv_stream
  | SubServing BrokerStreamKey u64 "AgentTextStreamRecordV1 list"
  | SubLive BrokerStreamKey u64
  | SubClosing BrokerStreamKey u64 "QuicBrokerError + unit"
  | SubDone "QuicBrokerError + unit"

datatype send_end = SendOpen | SendFinished | SendReset

record subscribe_stream =
  ss_task :: subscribe_task
  ss_written :: bytes
  ss_end :: send_end

text \<open>Writing one record to the client, which may fail after the first \<open>n\<close> bytes of the frame.\<close>
definition write_to_client ::
  "(QuicBrokerError \<times> nat) option \<Rightarrow> BrokerStreamKey \<Rightarrow> u64 \<Rightarrow> AgentTextStreamRecordV1 \<Rightarrow> subscribe_task \<Rightarrow> subscribe_stream
     \<Rightarrow> subscribe_stream" where
  "write_to_client fault key i r continue ss =
     (case write_record_frame r of
        Inl e \<Rightarrow> ss\<lparr>ss_task := SubClosing key i (Inl e), ss_end := SendReset\<rparr>
      | Inr f \<Rightarrow>
          (case fault of
             None \<Rightarrow> ss\<lparr>ss_task := continue, ss_written := ss_written ss @ f\<rparr>
           | Some (e, n) \<Rightarrow>
               ss\<lparr>ss_task := SubClosing key i (Inl e), ss_written := ss_written ss @ take n f, ss_end := SendReset\<rparr>))"

text \<open>The end of the stream, \<open>finish\<close>, which may fail too.\<close>
definition finish_client ::
  "(QuicBrokerError \<times> nat) option \<Rightarrow> BrokerStreamKey \<Rightarrow> u64 \<Rightarrow> subscribe_stream \<Rightarrow> subscribe_stream" where
  "finish_client fault key i ss =
     (case fault of
        None \<Rightarrow> ss\<lparr>ss_task := SubClosing key i (Inr ()), ss_end := SendFinished\<rparr>
      | Some (e, _) \<Rightarrow> ss\<lparr>ss_task := SubClosing key i (Inl e), ss_end := SendReset\<rparr>)"

text \<open>The room still holds the sending half of the subscriber's channel.\<close>
definition channel_open :: "BrokerStreamKey \<Rightarrow> u64 \<Rightarrow> BrokerStateInner \<Rightarrow> bool" where
  "channel_open key i st = (case map_of (rooms st) key of Some room \<Rightarrow> i \<in> set (subscribers room) | None \<Rightarrow> False)"

definition subscribe_task_step ::
  "BrokerState \<Rightarrow> nat \<Rightarrow> (QuicBrokerError \<times> nat) option \<Rightarrow> subscribe_stream \<Rightarrow> (u64 \<Rightarrow> AgentTextStreamRecordV1 list)
     \<Rightarrow> BrokerStateInner
     \<Rightarrow> subscribe_stream \<times> (u64 \<Rightarrow> AgentTextStreamRecordV1 list) \<times> broker_event list \<times> BrokerStateInner" where
  "subscribe_task_step cfg now fault ss queue st =
     (case ss_task ss of
        SubOpening recv \<Rightarrow>
          (case read_control_frame recv of
             Inl e \<Rightarrow> (ss\<lparr>ss_task := SubDone (Inl e), ss_end := SendReset\<rparr>, queue, [], st)
           | Inr (control, _) \<Rightarrow>
               (if control_type control \<noteq> Subscribe
                then (ss\<lparr>ss_task := SubDone (Inl PublishRequiresUnidirectionalStream), ss_end := SendReset\<rparr>, queue, [], st)
                else case subscribe cfg now (envelope_key control) st of
                       (Inl e, st') \<Rightarrow> (ss\<lparr>ss_task := SubDone (Inl e)\<rparr>, queue, [], st')
                     | (Inr (i, served), st') \<Rightarrow>
                         (ss\<lparr>ss_task := SubServing (envelope_key control) i served\<rparr>, queue(i := []),
                          [Served i (envelope_key control) served], st')))
      | SubServing key i [] \<Rightarrow> (ss\<lparr>ss_task := SubLive key i\<rparr>, queue, [], st)
      | SubServing key i (r # rs) \<Rightarrow> (write_to_client fault key i r (SubServing key i rs) ss, queue, [], st)
      | SubLive key i \<Rightarrow>
          (case queue i of
             r # q \<Rightarrow> (write_to_client fault key i r (SubLive key i) ss, queue(i := q), [], st)
           | [] \<Rightarrow> (if channel_open key i st then (ss, queue, [], st)
                   else (finish_client fault key i ss, queue, [], st)))
      | SubClosing key i result \<Rightarrow> (ss\<lparr>ss_task := SubDone result\<rparr>, queue, [], unsubscribe cfg now key i st)
      | SubDone result \<Rightarrow> (ss, queue, [], st))"

section \<open>The broker\<close>

record broker_system =
  sys_inner :: BrokerStateInner
  sys_queue :: "u64 \<Rightarrow> AgentTextStreamRecordV1 list"
  sys_pubs :: "nat \<Rightarrow> publish_task"
  sys_subs :: "nat \<Rightarrow> subscribe_stream"
  sys_events :: "broker_event list"

text \<open>Who moves next; \<open>Expire\<close> is the task \<open>finish_room\<close> spawns.\<close>
datatype system_action =
    PublisherMoves nat bool
  | SubscriberMoves nat "(QuicBrokerError \<times> nat) option"
  | Expire BrokerStreamKey

definition enqueue :: "broker_event list \<Rightarrow> (u64 \<Rightarrow> AgentTextStreamRecordV1 list) \<Rightarrow> u64 \<Rightarrow> AgentTextStreamRecordV1 list" where
  "enqueue evs queue i = queue i @ queued_for i evs"

fun system_step :: "BrokerState \<Rightarrow> PublishForwardLimits \<Rightarrow> nat \<Rightarrow> system_action \<Rightarrow> broker_system \<Rightarrow> broker_system" where
  "system_step cfg limits now (PublisherMoves p grace_over) sys =
     (let try_send = (\<lambda>i. length (sys_queue sys i) < per_subscriber_queue cfg);
          (task, evs, st) = publish_task_step cfg limits now grace_over try_send (sys_pubs sys p) (sys_inner sys)
      in sys\<lparr>sys_inner := st, sys_queue := enqueue evs (sys_queue sys), sys_pubs := (sys_pubs sys)(p := task),
             sys_events := sys_events sys @ evs\<rparr>)"
| "system_step cfg limits now (SubscriberMoves n fault) sys =
     (let (ss, queue, evs, st) = subscribe_task_step cfg now fault (sys_subs sys n) (sys_queue sys) (sys_inner sys)
      in sys\<lparr>sys_inner := st, sys_queue := queue, sys_subs := (sys_subs sys)(n := ss),
             sys_events := sys_events sys @ evs\<rparr>)"
| "system_step cfg limits now (Expire key) sys =
     sys\<lparr>sys_inner := drop_expired_finished_room now key (sys_inner sys)\<rparr>"

fun system_run ::
  "BrokerState \<Rightarrow> PublishForwardLimits \<Rightarrow> (nat \<times> system_action) list \<Rightarrow> broker_system \<Rightarrow> broker_system" where
  "system_run cfg limits [] sys = sys"
| "system_run cfg limits ((now, action) # acts) sys = system_run cfg limits acts (system_step cfg limits now action sys)"

text \<open>An empty broker with the streams its clients will open.\<close>
definition start_system :: "(nat \<Rightarrow> recv_stream) \<Rightarrow> (nat \<Rightarrow> recv_stream) \<Rightarrow> broker_system" where
  "start_system pubs subs =
     \<lparr>sys_inner = default_inner, sys_queue = (\<lambda>_. []), sys_pubs = (\<lambda>p. PubOpening (pubs p)),
      sys_subs = (\<lambda>n. \<lparr>ss_task = SubOpening (subs n), ss_written = [], ss_end = SendOpen\<rparr>), sys_events = []\<rparr>"

end
