(* ===== verification/Broker_Handlers_Correct.thy ===== *)
theory Broker_Handlers_Correct
  imports Broker_Handlers
begin

text \<open>
  The broker with its handlers refines the room engine: whatever the interleaving, its state and its events
  are those of a run of \<open>BrokerState\<close> operations.  The bytes on a subscriber's stream are the frames of the
  records it was served and queued, and the records relayed in a room are read off the publishers'
  streams.
\<close>

section \<open>The handlers take steps of the room engine\<close>

definition moved ::
  "BrokerState \<Rightarrow> nat \<Rightarrow> BrokerStateInner \<Rightarrow> broker_event list \<Rightarrow> BrokerStateInner \<Rightarrow> bool" where
  "moved cfg now st evs st' = (evs = [] \<and> st' = st \<or> (\<exists>op. broker_step cfg now op st = (evs, st')))"

lemma moved_refl [simp]: "moved cfg now st [] st"
  by (simp add: moved_def)

lemma moved_op: "broker_step cfg now op st = (evs, st') \<Longrightarrow> moved cfg now st evs st'"
  by (auto simp: moved_def)

lemmas moved_intros =
  moved_op [where op = "SubscribeOp k" for k] moved_op [where op = "UnsubscribeOp k i" for k i]
  moved_op [where op = "PublishOp k r f" for k r f] moved_op [where op = "WaitPoll k" for k]
  moved_op [where op = "WaitTimeout k" for k] moved_op [where op = "DropRoom k" for k]
  moved_op [where op = "FinishRoom k" for k] moved_op [where op = "ExpireRoom k" for k]

lemma moved_publish:
  "publish cfg now k r f st = (Inr sent, st') \<Longrightarrow> moved cfg now st [Relayed k r sent] st'"
  "publish cfg now k r f st = (Inl e, st') \<Longrightarrow> moved cfg now st [] st'"
  by (rule moved_op [where op = "PublishOp k r f"], simp)+

lemma publish_task_moves:
  assumes "publish_task_step cfg limits now g f task st = (task', evs, st')"
  shows "moved cfg now st evs st'"
proof (cases task)
  case (PubOpening recv)
  then show ?thesis using assms by (auto split: sum.splits if_splits)
next
  case (PubWaiting key recv)
  have "moved cfg now st [] (drop_empty_unfinished_room key st)" "moved cfg now st [] (snd (wait_poll cfg now key st))"
    by (rule moved_op [where op = "WaitTimeout key"], simp) (rule moved_op [where op = "WaitPoll key"], simp)
  then show ?thesis using assms PubWaiting by (auto split: sum.splits if_splits prod.splits)
next
  case (PubForwarding key recv acc)
  then show ?thesis
    using assms
    by (auto simp: forward_record_def moved_publish split: sum.splits option.splits if_splits prod.splits)
next
  case (PubClosing key result)
  have "moved cfg now st [] (drop_room key st)" "moved cfg now st [] (snd (mark_room_finished cfg now key st))"
    by (rule moved_op [where op = "DropRoom key"], simp) (rule moved_op [where op = "FinishRoom key"], simp)
  then show ?thesis using assms PubClosing by (auto split: if_splits)
qed (use assms in simp)

lemma subscribe_task_moves:
  assumes "subscribe_task_step cfg now fault ss queue st = (ss', queue', evs, st')"
  shows "moved cfg now st evs st'"
proof (cases "ss_task ss")
  case (SubOpening recv)
  have "moved cfg now st (case res of Inl _ \<Rightarrow> [] | Inr (i, rs) \<Rightarrow> [Served i k rs]) st1"
    if "subscribe cfg now k st = (res, st1)" for k res st1
    using that by (intro moved_op [where op = "SubscribeOp k"]) (auto split: sum.splits prod.splits)
  from this [of _ "Inl e" for e] this [of _ "Inr p" for p] SubOpening show ?thesis
    using assms by (auto simp: subscribe_task_step_def split: sum.splits prod.splits if_splits)
next
  case (SubClosing key i result)
  then show ?thesis
    using assms by (auto simp: subscribe_task_step_def intro: moved_op [where op = "UnsubscribeOp key i"])
qed (use assms in \<open>auto simp: subscribe_task_step_def split: list.splits if_splits\<close>)

lemma system_step_moves:
  "\<exists>evs. moved cfg now (sys_inner sys) evs (sys_inner (system_step cfg limits now a sys)) \<and>
     sys_events (system_step cfg limits now a sys) = sys_events sys @ evs"
proof (cases a)
  case (PublisherMoves p g)
  then show ?thesis using publish_task_moves by (fastforce simp: Let_def split: prod.splits)
next
  case (SubscriberMoves n fault)
  then show ?thesis using subscribe_task_moves by (fastforce simp: Let_def split: prod.splits)
next
  case (Expire key)
  then show ?thesis by (intro exI [of _ "[]"]) (auto intro: moved_op [where op = "ExpireRoom key"])
qed

lemma run_snoc:
  "fst (broker_run cfg (ops @ [(t, op)]) st) = fst (broker_run cfg ops st) @ fst (broker_step cfg t op (snd (broker_run cfg ops st))) \<and>
   snd (broker_run cfg (ops @ [(t, op)]) st) = snd (broker_step cfg t op (snd (broker_run cfg ops st)))"
proof (induction ops arbitrary: st)
  case (Cons p ops)
  obtain t' op' where "p = (t', op')" by force
  then show ?case using Cons by simp
qed simp

text \<open>A run of the room engine behind a state and its events, with times up to \<open>now\<close>.\<close>
definition engine_run :: "BrokerState \<Rightarrow> nat \<Rightarrow> nat \<Rightarrow> broker_event list \<Rightarrow> BrokerStateInner \<Rightarrow> bool" where
  "engine_run cfg now n evs st =
     (\<exists>ops. broker_run cfg ops default_inner = (evs, st) \<and> sorted (map fst ops @ [now]) \<and> length ops \<le> n)"

lemma engine_run_moved:
  assumes "engine_run cfg now n evs0 st" and "moved cfg now' st evs st'" and "now \<le> now'"
  shows "engine_run cfg now' (Suc n) (evs0 @ evs) st'"
proof -
  obtain ops where ops: "broker_run cfg ops default_inner = (evs0, st)" "sorted (map fst ops @ [now])" "length ops \<le> n"
    using assms(1) by (auto simp: engine_run_def)
  have sorted: "sorted (map fst ops @ [now'])" "sorted (map fst ops @ [now', now'])"
    using ops(2) assms(3) by (auto simp: sorted_append dest: order_trans)
  from assms(2) show ?thesis
    unfolding moved_def
  proof (elim disjE conjE exE)
    assume "evs = []" "st' = st"
    then show ?thesis using ops sorted(1) by (auto simp: engine_run_def)
  next
    fix op assume "broker_step cfg now' op st = (evs, st')"
    then have "broker_run cfg (ops @ [(now', op)]) default_inner = (evs0 @ evs, st')"
      using ops(1) by (intro prod_eqI) (simp_all add: run_snoc)
    then show ?thesis
      using sorted(2) ops(3) unfolding engine_run_def by (intro exI [of _ "ops @ [(now', op)]"]) simp
  qed
qed

lemma engine_run_inv: "engine_run cfg now n evs st \<Longrightarrow> broker_inv cfg now st"
proof -
  assume "engine_run cfg now n evs st"
  then obtain ops where ops: "broker_run cfg ops default_inner = (evs, st)" "sorted (map fst ops @ [now])"
    by (auto simp: engine_run_def)
  then have "broker_inv cfg (last (0 # map fst ops)) st" using run_inv [of ops cfg] by (simp add: sorted_append)
  moreover have "last (0 # map fst ops) \<le> now" using ops(2) by (cases ops rule: rev_cases) (auto simp: sorted_append)
  ultimately show ?thesis by (rule broker_inv_later)
qed

section \<open>What a subscriber's stream carries\<close>

text \<open>Subscriber \<open>i\<close> of room \<open>k\<close> has been written the records \<open>d\<close> and is owed \<open>p\<close>.\<close>
definition owed ::
  "broker_event list \<Rightarrow> BrokerStreamKey \<Rightarrow> u64 \<Rightarrow> AgentTextStreamRecordV1 list \<Rightarrow> AgentTextStreamRecordV1 list \<Rightarrow> bool" where
  "owed evs k i d p = (\<exists>before rs after. evs = before @ Served i k rs # after \<and> d @ p = rs @ queued_for i after)"

definition wrote :: "bytes \<Rightarrow> AgentTextStreamRecordV1 list \<Rightarrow> bool" where
  "wrote out d = (\<exists>fs. list_all2 (\<lambda>r f. write_record_frame r = Inr f) d fs \<and> out = concat fs)"

text \<open>The frames of \<open>d\<close>, of which the last may be cut.\<close>
definition wrote_upto :: "bytes \<Rightarrow> AgentTextStreamRecordV1 list \<Rightarrow> bool" where
  "wrote_upto out d = (\<exists>fs. list_all2 (\<lambda>r f. write_record_frame r = Inr f) d fs \<and>
     prefix (concat (butlast fs)) out \<and> prefix out (concat fs))"

definition watched_in :: "u64 \<Rightarrow> BrokerStreamKey set \<Rightarrow> BrokerStateInner \<Rightarrow> bool" where
  "watched_in i K st = rooms_all (watched i K (next_subscriber_id st)) (rooms st)"

text \<open>A stream that was served as subscriber \<open>i\<close>, and has been closed when its result is \<open>Ok\<close>.\<close>
definition served_stream ::
  "broker_event list \<Rightarrow> BrokerStateInner \<Rightarrow> bytes \<Rightarrow> BrokerStreamKey \<Rightarrow> u64 \<Rightarrow> QuicBrokerError + unit \<Rightarrow> bool" where
  "served_stream evs st out k i res =
     (i < next_subscriber_id st \<and>
      (\<exists>d p. wrote_upto out d \<and> owed evs k i d p \<and> (res = Inr () \<longrightarrow> wrote out d \<and> p = [] \<and> watched_in i {} st)))"

text \<open>The room a subscribe stream asks for, and the room a publish stream opens.\<close>
definition sub_room :: "recv_stream \<Rightarrow> BrokerStreamKey option" where
  "sub_room recv = (case read_control_frame recv of
     Inl _ \<Rightarrow> None | Inr (control, _) \<Rightarrow> if control_type control = Subscribe then Some (envelope_key control) else None)"

definition pub_room :: "recv_stream \<Rightarrow> BrokerStreamKey option" where
  "pub_room recv = (case read_control_frame recv of
     Inl _ \<Rightarrow> None | Inr (control, _) \<Rightarrow> if control_type control = Publish then Some (envelope_key control) else None)"

text \<open>A subscribe stream that asked for room \<open>K\<close>.\<close>
fun sub_ok ::
  "BrokerStreamKey option \<Rightarrow> broker_event list \<Rightarrow> BrokerStateInner \<Rightarrow> (u64 \<Rightarrow> AgentTextStreamRecordV1 list) \<Rightarrow> bytes
     \<Rightarrow> subscribe_task \<Rightarrow> bool" where
  "sub_ok K evs st queue out (SubOpening recv) = (out = [] \<and> sub_room recv = K)"
| "sub_ok K evs st queue out (SubServing k i rest) =
     (K = Some k \<and> i < next_subscriber_id st \<and> watched_in i {k} st \<and> (\<exists>d. wrote out d \<and> owed evs k i d (rest @ queue i)))"
| "sub_ok K evs st queue out (SubLive k i) =
     (K = Some k \<and> i < next_subscriber_id st \<and> watched_in i {k} st \<and> (\<exists>d. wrote out d \<and> owed evs k i d (queue i)))"
| "sub_ok K evs st queue out (SubClosing k i res) = (K = Some k \<and> served_stream evs st out k i res)"
| "sub_ok K evs st queue out (SubDone res) =
     (out = [] \<and> res \<noteq> Inr () \<or> (\<exists>k i. K = Some k \<and> served_stream evs st out k i res))"

text \<open>The subscriber id a handler is using.\<close>
fun live_id :: "subscribe_task \<Rightarrow> u64 option" where
  "live_id (SubServing k i rest) = Some i"
| "live_id (SubLive k i) = Some i"
| "live_id (SubClosing k i res) = Some i"
| "live_id _ = None"

lemma owed_more:
  assumes "owed evs k i d p"
  shows "owed (evs @ evs2) k i d (p @ queued_for i evs2)"
proof -
  obtain before rs after where "evs = before @ Served i k rs # after" "d @ p = rs @ queued_for i after"
    using assms by (auto simp: owed_def)
  then have "evs @ evs2 = before @ Served i k rs # (after @ evs2)"
      "d @ (p @ queued_for i evs2) = rs @ queued_for i (after @ evs2)"
    by (simp_all flip: append_assoc)
  then show ?thesis unfolding owed_def by blast
qed

lemma owed_written: "owed evs k i d (r # p) \<Longrightarrow> owed evs k i (d @ [r]) p"
  by (simp add: owed_def)

lemma wrote_more: "wrote out d \<Longrightarrow> write_record_frame r = Inr f \<Longrightarrow> wrote (out @ f) (d @ [r])"
proof -
  assume "wrote out d" and f: "write_record_frame r = Inr f"
  then obtain fs where "list_all2 (\<lambda>r f. write_record_frame r = Inr f) d fs" "out = concat fs" by (auto simp: wrote_def)
  with f show ?thesis unfolding wrote_def by (intro exI [of _ "fs @ [f]"]) (auto intro: list_all2_appendI)
qed

lemma wrote_Nil: "wrote [] []"
  by (simp add: wrote_def)

lemma wrote_cut:
  assumes "wrote out d" and "write_record_frame r = Inr f"
  shows "wrote_upto (out @ take n f) (d @ [r])"
proof -
  obtain fs where "list_all2 (\<lambda>r f. write_record_frame r = Inr f) d fs" "out = concat fs"
    using assms(1) by (auto simp: wrote_def)
  then show ?thesis
    using assms(2) unfolding wrote_upto_def
    by (intro exI [of _ "fs @ [f]"]) (auto intro: list_all2_appendI take_is_prefix)
qed

lemma wrote_whole: "wrote out d \<Longrightarrow> wrote_upto out d"
proof -
  assume "wrote out d"
  then obtain fs where fs: "list_all2 (\<lambda>r f. write_record_frame r = Inr f) d fs" "out = concat fs" by (auto simp: wrote_def)
  have "prefix (concat (butlast fs)) (concat fs)" by (cases fs rule: rev_cases) auto
  with fs show ?thesis by (auto simp: wrote_upto_def)
qed

lemma moved_watch:
  assumes "broker_inv cfg now st" and "watched_in i K st" and "unat (next_subscriber_id st) + 1 < 2 ^ 64"
    and "moved cfg now st evs st'" and "\<And>k rs. Served i k rs \<notin> set evs"
  shows "watched_in i K st' \<and> (K = {} \<longrightarrow> queued_for i evs = [])"
  using assms(4)
  unfolding moved_def
proof (elim disjE conjE exE)
  fix op assume op: "broker_step cfg now op st = (evs, st')"
  have ids: "id_room st [(now, op)]" using assms(3) by (simp add: id_room_def)
  have "fst (broker_step cfg now op st) \<noteq> [Served i k rs]" for k rs using assms(5) [of k rs] op by auto
  from watch_step [OF assms(1) assms(2) [unfolded watched_in_def] ids this] show ?thesis
    unfolding op fst_conv snd_conv watched_in_def
  proof (elim disjE conjE exE)
    fix k r sent
    assume w: "rooms_all (watched i (if i \<in> set sent then K else K - {k}) (next_subscriber_id st')) (rooms st')"
      and q: "queued_for i evs = (if i \<in> set sent then [r] else [])" and "i \<in> set sent \<longrightarrow> k \<in> K"
    have "rooms_all (watched i K (next_subscriber_id st')) (rooms st')"
      using w unfolding rooms_all_def watched_def by (auto split: if_splits)
    then show "rooms_all (watched i K (next_subscriber_id st')) (rooms st') \<and> (K = {} \<longrightarrow> queued_for i evs = [])"
      using q \<open>i \<in> set sent \<longrightarrow> k \<in> K\<close> by auto
  qed simp
qed (use assms(2) in simp)

lemma moved_next:
  assumes "moved cfg now st evs st'" and "unat (next_subscriber_id st) + 1 < 2 ^ 64"
  shows "next_subscriber_id st \<le> next_subscriber_id st' \<and> unat (next_subscriber_id st') \<le> unat (next_subscriber_id st) + 1 \<and>
    (\<forall>i k rs. Served i k rs \<in> set evs \<longrightarrow> i = next_subscriber_id st \<and> i < next_subscriber_id st')"
  using assms(1) unfolding moved_def
proof (elim disjE conjE exE)
  fix op assume op: "broker_step cfg now op st = (evs, st')"
  have "unat (next_subscriber_id st + 1) = unat (next_subscriber_id st) + 1"
    using assms(2) by (intro next_no_wrap [of st "(now, op)" "[]"]) (simp add: id_room_def)
  then show ?thesis
    using step_next_cases [of cfg now op st] unfolding op fst_conv snd_conv by (auto simp: word_le_nat_alt word_less_nat_alt)
qed simp


lemma served_stream_env:
  assumes "broker_inv cfg now st" and "unat (next_subscriber_id st) + 1 < 2 ^ 64" and "moved cfg now st evs st'"
    and "served_stream evs0 st out k i res"
  shows "served_stream (evs0 @ evs) st' out k i res"
proof -
  note N = moved_next [OF assms(3,2)]
  obtain d p where d: "wrote_upto out d" "owed evs0 k i d p" "res = Inr () \<longrightarrow> wrote out d \<and> p = [] \<and> watched_in i {} st"
    and i: "i < next_subscriber_id st"
    using assms(4) by (auto simp: served_stream_def)
  have fresh: "\<And>k rs. Served i k rs \<notin> set evs" using N i by auto
  have "res = Inr () \<longrightarrow> wrote out d \<and> p @ queued_for i evs = [] \<and> watched_in i {} st'"
    using d(3) moved_watch [OF assms(1) _ assms(2,3) fresh, of "{}"] by auto
  then show ?thesis
    using d(1) owed_more [OF d(2), of evs] i N unfolding served_stream_def by fastforce
qed

lemma sub_ok_env:
  assumes "broker_inv cfg now st" and "unat (next_subscriber_id st) + 1 < 2 ^ 64" and "moved cfg now st evs st'"
    and "sub_ok K evs0 st queue out task" and "\<And>i. live_id task = Some i \<Longrightarrow> queue' i = queue i @ queued_for i evs"
  shows "sub_ok K (evs0 @ evs) st' queue' out task"
proof -
  note N = moved_next [OF assms(3,2)]
  have live: "i < next_subscriber_id st' \<and> watched_in i {k} st' \<and> (\<exists>d. wrote out d \<and> owed (evs0 @ evs) k i d (rest @ queue' i))"
    if i: "i < next_subscriber_id st" "watched_in i {k} st" "live_id task = Some i"
      and d: "wrote out d" "owed evs0 k i d (rest @ queue i)" for i k rest d
  proof -
    have fresh: "\<And>k rs. Served i k rs \<notin> set evs" using N i(1) by auto
    show ?thesis
      using moved_watch [OF assms(1) i(2) assms(2,3) fresh] N i(1) d(1) owed_more [OF d(2), of evs] assms(5) [OF i(3)] by auto
  qed
  show ?thesis
  proof (cases task)
    case (SubServing k i rest)
    then show ?thesis using assms(4) live [of i k] by auto
  next
    case (SubLive k i)
    then show ?thesis using assms(4) live [of i k _ "[]"] by auto
  next
    case (SubClosing k i res)
    then show ?thesis using assms(4) served_stream_env [OF assms(1-3)] by auto
  next
    case (SubDone res)
    then show ?thesis using assms(4) served_stream_env [OF assms(1-3)] unfolding SubDone sub_ok.simps by blast
  qed (use assms(4) in auto)
qed

section \<open>The moving subscriber\<close>

lemma write_to_client_ok:
  assumes "wrote (ss_written ss) d" and "owed evs k i d (r # p)" and "i < next_subscriber_id st"
    and "K = Some k" and "\<And>d'. wrote (ss_written ss') d' \<Longrightarrow> owed evs k i d' p \<Longrightarrow> sub_ok K evs st queue (ss_written ss') continue"
    and "ss' = write_to_client fault k i r continue ss"
  shows "sub_ok K evs st queue (ss_written ss') (ss_task ss')"
proof (cases "write_record_frame r")
  case (Inr f)
  show ?thesis
  proof (cases fault)
    case None
    then have "ss_task ss' = continue" "ss_written ss' = ss_written ss @ f" by (simp_all add: assms(6) write_to_client_def Inr)
    then show ?thesis using assms(5) wrote_more [OF assms(1) Inr] owed_written [OF assms(2)] by metis
  next
    case (Some x)
    then obtain e n where "ss_task ss' = SubClosing k i (Inl e)" "ss_written ss' = ss_written ss @ take n f"
      by (cases x) (simp add: assms(6) write_to_client_def Inr)
    then show ?thesis
      using assms(3,4) wrote_cut [OF assms(1) Inr] owed_written [OF assms(2)] by (auto simp: served_stream_def)
  qed
next
  case (Inl e)
  then have "ss_task ss' = SubClosing k i (Inl e)" "ss_written ss' = ss_written ss"
    by (simp_all add: assms(6) write_to_client_def)
  then show ?thesis using assms(2-4) wrote_whole [OF assms(1)] by (auto simp: served_stream_def)
qed

lemma channel_closed: "watched_in i {k} st \<Longrightarrow> \<not> channel_open k i st \<Longrightarrow> watched_in i {} st"
  unfolding watched_in_def rooms_all_def watched_def channel_open_def by (auto split: option.splits)


lemma write_to_client_live: "live_id (ss_task (write_to_client fault k i r continue ss)) = Some j \<Longrightarrow> j = i \<or> live_id continue = Some j"
  by (auto simp: write_to_client_def split: option.splits sum.splits)

lemma subscription_starts:
  assumes "watched_in 0 UNIV st" and "subscribe cfg now k st = (Inr (i, rs), st')" and "unat (next_subscriber_id st) + 1 < 2 ^ 64"
  shows "i = next_subscriber_id st \<and> i < next_subscriber_id st' \<and> watched_in i {k} st'"
proof -
  note R = subscribe_result [OF assms(2)]
  have up: "i < i + 1"
    using R assms(3) next_no_wrap [of st "(now, SubscribeOp k)" "[]"] by (simp add: id_room_def word_less_nat_alt)
  have "rooms_all (watched i {} (next_subscriber_id st)) (rooms st)"
    using assms(1) R unfolding watched_in_def rooms_all_def watched_def by auto
  from watch_subscribe [OF this assms(2) up] show ?thesis using R up by (simp add: watched_in_def)
qed

lemma subscriber_step_ok:
  assumes ids: "watched_in 0 UNIV st" "unat (next_subscriber_id st) + 1 < 2 ^ 64" and inv: "broker_inv cfg now st"
    and ok: "sub_ok K evs0 st queue (ss_written ss) (ss_task ss)"
    and step: "subscribe_task_step cfg now fault ss queue st = (ss', queue', evs, st')"
  shows "sub_ok K (evs0 @ evs) st' queue' (ss_written ss') (ss_task ss') \<and>
    (\<forall>j. live_id (ss_task ss) \<noteq> Some j \<longrightarrow> j < next_subscriber_id st \<longrightarrow> queue' j = queue j) \<and>
    (\<forall>j. live_id (ss_task ss') = Some j \<longrightarrow> live_id (ss_task ss) = Some j \<or> j = next_subscriber_id st)"
proof (cases "ss_task ss")
  case (SubOpening recv)
  show ?thesis
  proof (cases "\<exists>control recv' i rs. read_control_frame recv = Inr (control, recv') \<and> control_type control = Subscribe \<and>
      subscribe cfg now (envelope_key control) st = (Inr (i, rs), st')")
    case True
    then obtain control recv' i rs where c: "read_control_frame recv = Inr (control, recv')" "control_type control = Subscribe"
        "subscribe cfg now (envelope_key control) st = (Inr (i, rs), st')" by blast
    note S = subscription_starts [OF ids(1) c(3) ids(2)]
    have r: "ss' = ss\<lparr>ss_task := SubServing (envelope_key control) i rs\<rparr>" "queue' = queue(i := [])"
        "evs = [Served i (envelope_key control) rs]"
      using step c SubOpening by (auto simp: subscribe_task_step_def)
    have "owed (evs0 @ evs) (envelope_key control) i [] rs" unfolding owed_def r(3) by (intro exI [of _ evs0]) auto
    then show ?thesis using S ok SubOpening wrote_Nil c by (auto simp: r sub_room_def)
  next
    case False
    then have "queue' = queue" "evs = []" "ss_written ss' = []" "live_id (ss_task ss') = None"
        "\<exists>e. ss_task ss' = SubDone (Inl e)"
      using step SubOpening ok
      by (auto simp: subscribe_task_step_def split: sum.splits prod.splits if_splits)
    then show ?thesis by auto
  qed
next
  case (SubServing k i rest)
  show ?thesis
  proof (cases rest)
    case Nil
    then show ?thesis using step SubServing ok by (auto simp: subscribe_task_step_def)
  next
    case (Cons r rs)
    then have r: "ss' = write_to_client fault k i r (SubServing k i rs) ss" "queue' = queue" "evs = []" "st' = st"
      using step SubServing by (auto simp: subscribe_task_step_def)
    obtain d where d: "wrote (ss_written ss) d" "owed evs0 k i d (r # rs @ queue i)" "i < next_subscriber_id st" "K = Some k" "watched_in i {k} st"
      using ok SubServing Cons by auto
    have "sub_ok K evs0 st queue (ss_written ss') (ss_task ss')"
      using d by (intro write_to_client_ok [OF d(1-4) _ r(1)]) auto
    then show ?thesis using SubServing by (auto simp: r dest: write_to_client_live)
  qed
next
  case (SubLive k i)
  obtain d where d: "wrote (ss_written ss) d" "owed evs0 k i d (queue i)" "i < next_subscriber_id st" "K = Some k" "watched_in i {k} st"
    using ok SubLive by auto
  show ?thesis
  proof (cases "queue i")
    case Nil
    show ?thesis
    proof (cases "channel_open k i st")
      case True
      then show ?thesis using step SubLive ok Nil by (auto simp: subscribe_task_step_def)
    next
      case False
      then show ?thesis
        using step SubLive Nil d channel_closed [OF d(5)] wrote_whole [OF d(1)]
        by (fastforce simp: subscribe_task_step_def finish_client_def served_stream_def split: option.splits)
    qed
  next
    case (Cons r q)
    then have r: "ss' = write_to_client fault k i r (SubLive k i) ss" "queue' = queue(i := q)" "evs = []" "st' = st"
      using step SubLive by (auto simp: subscribe_task_step_def)
    have "sub_ok K evs0 st queue' (ss_written ss') (ss_task ss')"
      using d Cons by (intro write_to_client_ok [OF d(1) _ d(3,4) _ r(1)]) (auto simp: r(2))
    then show ?thesis using SubLive by (auto simp: r dest: write_to_client_live)
  qed
next
  case (SubClosing k i res)
  then have r: "ss' = ss\<lparr>ss_task := SubDone res\<rparr>" "queue' = queue" "evs = []"
    using step by (auto simp: subscribe_task_step_def)
  have "served_stream (evs0 @ evs) st' (ss_written ss) k i res"
    using ok SubClosing by (intro served_stream_env [OF inv ids(2) subscribe_task_moves [OF step]]) simp
  moreover have "K = Some k" using ok SubClosing by simp
  ultimately show ?thesis by (auto simp: r)
next
  case (SubDone res)
  then show ?thesis using step ok by (auto simp: subscribe_task_step_def)
qed


end
