(* ===== verification/Broker_System.thy ===== *)
theory Broker_System
  imports Broker_Handlers_Correct
begin

text \<open>
  The broker as a whole, under any interleaving of its handlers: what every subscriber's stream carries, and
  that a subscriber that keeps up misses nothing.
\<close>

section \<open>All streams\<close>

text \<open>After at most \<open>n\<close> steps, up to time \<open>now\<close>, with subscribe streams \<open>subs\<close>.\<close>
definition system_ok :: "BrokerState \<Rightarrow> (nat \<Rightarrow> recv_stream) \<Rightarrow> nat \<Rightarrow> nat \<Rightarrow> broker_system \<Rightarrow> bool" where
  "system_ok cfg subs now n sys =
     (engine_run cfg now n (sys_events sys) (sys_inner sys) \<and> watched_in 0 UNIV (sys_inner sys) \<and>
      unat (next_subscriber_id (sys_inner sys)) \<le> n \<and>
      (\<forall>m. sub_ok (sub_room (subs m)) (sys_events sys) (sys_inner sys) (sys_queue sys)
             (ss_written (sys_subs sys m)) (ss_task (sys_subs sys m))) \<and>
      (\<forall>m m' i. live_id (ss_task (sys_subs sys m)) = Some i \<longrightarrow> live_id (ss_task (sys_subs sys m')) = Some i \<longrightarrow> m = m'))"

lemma sub_ok_live: "sub_ok K evs st queue out task \<Longrightarrow> live_id task = Some i \<Longrightarrow> i < next_subscriber_id st"
  by (cases task) (auto simp: served_stream_def)

lemma moved_any:
  assumes "broker_inv cfg now st" and "watched_in 0 UNIV st" and "unat (next_subscriber_id st) + 1 < 2 ^ 64" and "moved cfg now st evs st'"
  shows "watched_in 0 UNIV st'"
  using assms(4) unfolding moved_def
proof (elim disjE exE conjE)
  fix op assume op: "broker_step cfg now op st = (evs, st')"
  have "id_room st [(now, op)]" using assms(3) by (simp add: id_room_def)
  from watch_step_any [OF assms(1) assms(2) [unfolded watched_in_def] this] show ?thesis by (simp add: op watched_in_def)
qed (use assms(2) in simp)

lemma system_step_ok:
  assumes ok: "system_ok cfg subs now n sys" and "now \<le> now'" and "Suc n < 2 ^ 64"
  shows "system_ok cfg subs now' (Suc n) (system_step cfg limits now' a sys)"
proof -
  let ?sys = "system_step cfg limits now' a sys" and ?st = "sys_inner sys"
  have e: "engine_run cfg now n (sys_events sys) ?st" and w: "watched_in 0 UNIV ?st" and n: "unat (next_subscriber_id ?st) + 1 < 2 ^ 64"
    and subs: "\<And>m. sub_ok (sub_room (subs m)) (sys_events sys) ?st (sys_queue sys) (ss_written (sys_subs sys m)) (ss_task (sys_subs sys m))"
    and lives: "\<And>m m' i. live_id (ss_task (sys_subs sys m)) = Some i \<Longrightarrow> live_id (ss_task (sys_subs sys m')) = Some i \<Longrightarrow> m = m'"
    using ok assms(3) by (auto simp: system_ok_def)
  have inv: "broker_inv cfg now' ?st" using engine_run_inv [OF e] assms(2) by (rule broker_inv_later)
  obtain evs where mv: "moved cfg now' ?st evs (sys_inner ?sys)" and ev: "sys_events ?sys = sys_events sys @ evs"
    using system_step_moves by blast
  have streams: "(\<forall>m. sub_ok (sub_room (subs m)) (sys_events ?sys) (sys_inner ?sys) (sys_queue ?sys)
        (ss_written (sys_subs ?sys m)) (ss_task (sys_subs ?sys m))) \<and>
      (\<forall>m m' i. live_id (ss_task (sys_subs ?sys m)) = Some i \<longrightarrow> live_id (ss_task (sys_subs ?sys m')) = Some i \<longrightarrow> m = m')"
  proof (cases a)
    case (PublisherMoves p g)
    have q: "sys_queue ?sys i = sys_queue sys i @ queued_for i evs" for i
      using ev by (auto simp: PublisherMoves enqueue_def Let_def split: prod.splits)
    have s: "sys_subs ?sys = sys_subs sys" by (auto simp: PublisherMoves Let_def split: prod.splits)
    show ?thesis using sub_ok_env [OF inv n mv subs q] lives unfolding ev s by blast
  next
    case (Expire key)
    then have "evs = []" using ev by simp
    then have q: "sys_queue ?sys i = sys_queue sys i @ queued_for i evs" for i by (simp add: Expire)
    have s: "sys_subs ?sys = sys_subs sys" by (simp add: Expire)
    show ?thesis using sub_ok_env [OF inv n mv subs q] lives unfolding ev s by blast
  next
    case (SubscriberMoves m0 fault)
    obtain ss' queue' evs' st' where step: "subscribe_task_step cfg now' fault (sys_subs sys m0) (sys_queue sys) ?st = (ss', queue', evs', st')"
      by (metis prod_cases4)
    then have S: "sys_subs ?sys = (sys_subs sys)(m0 := ss')" "sys_queue ?sys = queue'" "sys_inner ?sys = st'" "evs' = evs"
      using ev by (auto simp: SubscriberMoves)
    note M = subscriber_step_ok [OF w n inv subs step]
    have noq: "queued_for i evs = []" for i
      using step unfolding S(4) by (auto simp: subscribe_task_step_def split: subscribe_task.splits sum.splits prod.splits if_splits list.splits)
    have other: "sub_ok (sub_room (subs m)) (sys_events ?sys) (sys_inner ?sys) queue' (ss_written (sys_subs sys m)) (ss_task (sys_subs sys m))"
      if "m \<noteq> m0" for m
      unfolding ev
    proof (rule sub_ok_env [OF inv n mv subs])
      fix i assume i: "live_id (ss_task (sys_subs sys m)) = Some i"
      then have "live_id (ss_task (sys_subs sys m0)) \<noteq> Some i" "i < next_subscriber_id ?st"
        using lives that sub_ok_live [OF subs] by blast+
      then show "queue' i = sys_queue sys i @ queued_for i evs" using M noq by auto
    qed
    have "live_id (ss_task (sys_subs sys m)) \<noteq> Some (next_subscriber_id ?st)" for m
      using sub_ok_live [OF subs [of m]] by blast
    then have "\<forall>m m' i. live_id (ss_task (sys_subs ?sys m)) = Some i \<longrightarrow> live_id (ss_task (sys_subs ?sys m')) = Some i \<longrightarrow> m = m'"
      using M lives unfolding S(1) by (auto split: if_splits)
    moreover have "sub_ok (sub_room (subs m)) (sys_events ?sys) (sys_inner ?sys) (sys_queue ?sys)
        (ss_written (sys_subs ?sys m)) (ss_task (sys_subs ?sys m))" for m
    proof (cases "m = m0")
      case True
      then show ?thesis using conjunct1 [OF M] by (simp only: S ev fun_upd_same)
    next
      case False
      show ?thesis using other [OF False] unfolding S ev fun_upd_other [OF False] .
    qed
    ultimately show ?thesis by blast
  qed
  then show ?thesis
    using engine_run_moved [OF e mv assms(2)] moved_any [OF inv w n mv] moved_next [OF mv n] ok ev
    by (auto simp: system_ok_def)
qed


lemma system_run_upto:
  assumes "system_ok cfg subs now n sys" and "sorted (now # map fst (acts @ acts'))" and "n + length acts < 2 ^ 64"
  shows "\<exists>now'. system_ok cfg subs now' (n + length acts) (system_run cfg limits acts sys) \<and> sorted (now' # map fst acts')"
  using assms
proof (induction acts arbitrary: now n sys)
  case (Cons p acts)
  obtain t a where p: "p = (t, a)" by force
  have "system_ok cfg subs t (Suc n) (system_step cfg limits t a sys)"
    using Cons.prems by (intro system_step_ok) (auto simp: p)
  from Cons.IH [OF this] Cons.prems show ?case by (simp add: p)
qed auto

lemma system_run_ok:
  assumes "system_ok cfg subs now n sys" and "sorted (now # map fst acts)" and "n + length acts < 2 ^ 64"
  shows "\<exists>now'. system_ok cfg subs now' (n + length acts) (system_run cfg limits acts sys)"
  using system_run_upto [OF assms(1) _ assms(3), of "[]" limits] assms(2) by auto

lemma start_ok: "system_ok cfg subs 0 0 (start_system pubs subs)"
  unfolding system_ok_def engine_run_def
  by (auto simp: start_system_def watched_in_def rooms_all_def default_inner_def intro!: exI [of _ "[]"])

section \<open>What a publisher's stream carries\<close>

text \<open>The records of a publish stream after its control frame.\<close>
function stream_records :: "recv_stream \<Rightarrow> AgentTextStreamRecordV1 list" where
  "stream_records recv =
     (case read_record_frame MAX_FRAME_SIZE recv of
        Inr (Some (r, recv')) \<Rightarrow> r # stream_records recv'
      | _ \<Rightarrow> [])"
  by auto
termination
  by (relation "measure (\<lambda>recv. length (recv_bytes recv))") (auto dest: read_record_frame_shorter)

declare stream_records.simps [simp del]

lemma stream_records_step:
  "read_record_frame MAX_FRAME_SIZE recv = Inr (Some (r, recv')) \<Longrightarrow> stream_records recv = r # stream_records recv'"
  "read_record_frame MAX_FRAME_SIZE recv = Inr None \<Longrightarrow> stream_records recv = []"
  by (subst stream_records.simps, simp)+

text \<open>The only publisher of room \<open>k\<close>, whose stream after the control frame is \<open>recv0\<close>, and the events so far.\<close>
fun pub_ok :: "BrokerStreamKey \<Rightarrow> recv_stream \<Rightarrow> broker_event list \<Rightarrow> publish_task \<Rightarrow> bool" where
  "pub_ok k recv0 evs (PubOpening recv) =
     (published k evs = [] \<and> (\<exists>control. read_control_frame recv = Inr (control, recv0) \<and>
        control_type control = Publish \<and> envelope_key control = k))"
| "pub_ok k recv0 evs (PubWaiting key recv) = (key = k \<and> recv = recv0 \<and> published k evs = [])"
| "pub_ok k recv0 evs (PubForwarding key recv acc) = (key = k \<and> published k evs @ stream_records recv = stream_records recv0)"
| "pub_ok k recv0 evs (PubClosing key res) =
     (key = k \<and> prefix (published k evs) (stream_records recv0) \<and> (res = Inr () \<longrightarrow> published k evs = stream_records recv0))"
| "pub_ok k recv0 evs (PubDone res) =
     (prefix (published k evs) (stream_records recv0) \<and> (res = Inr () \<longrightarrow> published k evs = stream_records recv0))"

text \<open>A publisher of another room.\<close>
fun elsewhere :: "BrokerStreamKey \<Rightarrow> publish_task \<Rightarrow> bool" where
  "elsewhere k (PubOpening recv) = (pub_room recv \<noteq> Some k)"
| "elsewhere k (PubWaiting key recv) = (key \<noteq> k)"
| "elsewhere k (PubForwarding key recv acc) = (key \<noteq> k)"
| "elsewhere k (PubClosing key res) = (key \<noteq> k)"
| "elsewhere k (PubDone res) = True"

lemma pub_ok_step:
  assumes "pub_ok k recv0 evs0 task" and "publish_task_step cfg limits now g f task st = (task', evs, st')"
  shows "pub_ok k recv0 (evs0 @ evs) task'"
proof (cases task)
  case (PubForwarding key recv acc)
  then have "prefix (published k evs0) (stream_records recv0)" using assms(1) by (auto intro: prefixI dest: sym)
  note pre = this
  show ?thesis
  proof (cases "\<exists>r recv'. read_record_frame MAX_FRAME_SIZE recv = Inr (Some (r, recv'))")
    case True
    then obtain r recv' where r: "read_record_frame MAX_FRAME_SIZE recv = Inr (Some (r, recv'))" by blast
    then show ?thesis
      using assms PubForwarding stream_records_step(1) [OF r] pre
      by (auto simp: forward_record_def split: if_splits sum.splits prod.splits)
  next
    case False
    then show ?thesis
      using assms PubForwarding stream_records_step(2) [of recv] pre
      by (auto split: sum.splits option.splits)
  qed
qed (use assms in \<open>auto split: sum.splits prod.splits if_splits\<close>)

lemma elsewhere_step:
  assumes "elsewhere k task" and "publish_task_step cfg limits now g f task st = (task', evs, st')"
  shows "elsewhere k task' \<and> published k evs = []"
proof (cases task)
  case (PubForwarding key recv acc)
  then show ?thesis
    using assms by (auto simp: forward_record_def split: sum.splits option.splits prod.splits if_splits)
qed (use assms in \<open>auto simp: pub_room_def split: sum.splits prod.splits if_splits\<close>)

definition sole_publisher :: "BrokerStreamKey \<Rightarrow> recv_stream \<Rightarrow> nat \<Rightarrow> broker_system \<Rightarrow> bool" where
  "sole_publisher k recv0 p sys =
     (pub_ok k recv0 (sys_events sys) (sys_pubs sys p) \<and> (\<forall>q. q \<noteq> p \<longrightarrow> elsewhere k (sys_pubs sys q)))"

lemma pub_ok_silent: "pub_ok k recv0 evs0 task \<Longrightarrow> published k evs = [] \<Longrightarrow> pub_ok k recv0 (evs0 @ evs) task"
  by (cases task) auto

lemma sole_publisher_step:
  assumes "sole_publisher k recv0 p sys"
  shows "sole_publisher k recv0 p (system_step cfg limits now a sys)"
proof (cases a)
  case (PublisherMoves q g)
  then show ?thesis
    using assms pub_ok_step [of k recv0 "sys_events sys" "sys_pubs sys p"] elsewhere_step [of k "sys_pubs sys q"]
      pub_ok_silent [of k recv0 "sys_events sys" "sys_pubs sys p"]
    by (cases "q = p") (auto simp: sole_publisher_def Let_def split: prod.splits)
next
  case (SubscriberMoves m fault)
  have "published k evs = []" if "subscribe_task_step cfg now fault ss queue st = (ss', queue', evs, st')" for ss queue st ss' queue' evs st'
    using that by (auto simp: subscribe_task_step_def split: subscribe_task.splits sum.splits prod.splits if_splits list.splits)
  then show ?thesis
    using assms SubscriberMoves pub_ok_silent [of k recv0 "sys_events sys" "sys_pubs sys p"]
    by (auto simp: sole_publisher_def Let_def split: prod.splits)
next
  case (Expire key)
  then show ?thesis using assms by (simp add: sole_publisher_def)
qed

lemma sole_publisher_run:
  "sole_publisher k recv0 p sys \<Longrightarrow> sole_publisher k recv0 p (system_run cfg limits acts sys)"
proof (induction acts arbitrary: sys)
  case (Cons x acts)
  then show ?case using sole_publisher_step by (cases x) simp
qed simp


section \<open>Subscribers see a piece of the publisher's stream\<close>

text \<open>A stream whose handler failed while serving has been reset.\<close>
definition reset_ok :: "subscribe_stream \<Rightarrow> bool" where
  "reset_ok ss = (case ss_task ss of
     SubOpening _ \<Rightarrow> ss_written ss = []
   | SubClosing _ _ res \<Rightarrow> res = Inr () \<or> ss_end ss = SendReset
   | SubDone res \<Rightarrow> res = Inr () \<or> ss_end ss = SendReset \<or> ss_written ss = []
   | _ \<Rightarrow> True)"

lemma reset_step: "reset_ok ss \<Longrightarrow> subscribe_task_step cfg now fault ss queue st = (ss', r) \<Longrightarrow> reset_ok ss'"
  by (cases "ss_task ss")
    (auto simp: reset_ok_def subscribe_task_step_def write_to_client_def finish_client_def
      split: sum.splits prod.splits if_splits option.splits list.splits)

lemma reset_run:
  assumes "\<forall>m. reset_ok (sys_subs sys m)"
  shows "\<forall>m. reset_ok (sys_subs (system_run cfg limits acts sys) m)"
  using assms
proof (induction acts arbitrary: sys)
  case (Cons x acts)
  obtain now a where x: "x = (now, a)" by force
  have "\<forall>m. reset_ok (sys_subs (system_step cfg limits now a sys) m)"
    using Cons.prems by (cases a) (auto simp: Let_def dest: reset_step split: prod.splits)
  then show ?case using Cons.IH x by simp
qed simp

lemma sub_ok_wrote:
  assumes "sub_ok (Some k) evs st queue (ss_written ss) (ss_task ss)" and "reset_ok ss"
  obtains (whole) i d p where "wrote (ss_written ss) d" "d = [] \<or> owed evs k i d p"
  | (cut) i d p where "ss_end ss = SendReset" "wrote_upto (ss_written ss) d" "owed evs k i d p"
  using assms wrote_Nil
  by (cases "ss_task ss"; cases "ss_written ss = []"; cases "ss_end ss = SendReset")
    (fastforce simp: served_stream_def reset_ok_def)+

lemma engine_no_gap:
  assumes "engine_run cfg now n evs st" and "n < 2 ^ 64" and "evs = before @ Served i k rs # after"
  shows "suffix rs (published k before) \<and> prefix (queued_for i after) (published k after)"
proof -
  obtain ops where "broker_run cfg ops default_inner = (evs, st)" "sorted (map fst ops)" "length ops < 2 ^ 64"
    using assms(1,2) by (auto simp: engine_run_def sorted_append)
  then show ?thesis using served_without_gap [of ops cfg before i k rs after] assms(3) by simp
qed

lemma owed_sublist:
  assumes "engine_run cfg now n evs st" and "n < 2 ^ 64" and "owed evs k i d p"
  shows "sublist d (published k evs) \<and> length (d @ p) \<le> length (published k evs)"
proof -
  obtain before rs after where e: "evs = before @ Served i k rs # after" and d: "d @ p = rs @ queued_for i after"
    using assms(3) by (auto simp: owed_def)
  obtain pre post where "published k before = pre @ rs" "published k after = queued_for i after @ post"
    using engine_no_gap [OF assms(1,2) e] by (auto simp: suffix_def prefix_def)
  then have all: "published k evs = pre @ (d @ p) @ post" by (simp add: e d)
  then have "published k evs = pre @ d @ (p @ post)" by simp
  then have "sublist d (published k evs)" unfolding sublist_def by blast
  with all show ?thesis by simp
qed

text \<open>The frames of a run of records; on a reset stream the last frame may be cut.\<close>
definition carries :: "subscribe_stream \<Rightarrow> AgentTextStreamRecordV1 list \<Rightarrow> bool" where
  "carries ss d = (if ss_end ss = SendReset then wrote_upto (ss_written ss) d else wrote (ss_written ss) d)"

lemma system_streams:
  assumes "sorted (map fst acts)" and "length acts < 2 ^ 64" and "sub_room (subs m) = Some k"
    and "sys = system_run cfg limits acts (start_system pubs subs)"
  shows "\<exists>d. carries (sys_subs sys m) d \<and> sublist d (published k (sys_events sys))"
proof -
  obtain now where ok: "system_ok cfg subs now (length acts) sys"
    using system_run_ok [OF start_ok, of acts cfg subs limits pubs] assms(1,2,4) by auto
  then have e: "engine_run cfg now (length acts) (sys_events sys) (sys_inner sys)"
    and sub: "sub_ok (Some k) (sys_events sys) (sys_inner sys) (sys_queue sys) (ss_written (sys_subs sys m)) (ss_task (sys_subs sys m))"
    using assms(3) by (auto simp: system_ok_def simp flip: assms(3))
  have "reset_ok (sys_subs sys m)" unfolding assms(4) by (intro reset_run [rule_format]) (simp add: start_system_def reset_ok_def)
  from sub this show ?thesis
  proof (cases rule: sub_ok_wrote)
    case (whole i d p)
    then have "carries (sys_subs sys m) d" using wrote_whole by (simp add: carries_def)
    then show ?thesis using whole(2) owed_sublist [OF e assms(2)] by (auto intro: exI [of _ d])
  next
    case (cut i d p)
    then show ?thesis using owed_sublist [OF e assms(2)] by (auto simp: carries_def)
  qed
qed

lemma start_sole_publisher:
  assumes "read_control_frame (pubs p) = Inr (control, recv0)" and "control_type control = Publish"
    and "\<forall>q. pub_room (pubs q) = Some (envelope_key control) \<longrightarrow> q = p"
  shows "sole_publisher (envelope_key control) recv0 p (start_system pubs subs)"
  using assms by (auto simp: sole_publisher_def start_system_def)

section \<open>A subscriber that keeps up stays subscribed\<close>

text \<open>Subscriber \<open>i\<close> is listed in the unfinished room \<open>k\<close>.\<close>
definition open_in :: "u64 \<Rightarrow> BrokerStreamKey \<Rightarrow> BrokerStateInner \<Rightarrow> bool" where
  "open_in i k st = (\<exists>room. map_of (rooms st) k = Some room \<and> i \<in> set (subscribers room) \<and> finished_at room = None)"

lemma open_in_purge:
  "distinct (map fst (rooms st)) \<Longrightarrow> open_in i k st \<Longrightarrow> open_in i k (purge_expired_rooms cfg now st)"
  by (auto simp: open_in_def lookup_purged retain_room_def)

lemma open_in_remove: "open_in i k st \<Longrightarrow> k' \<noteq> k \<Longrightarrow> open_in i k (remove_room k' st)"
  by (auto simp: open_in_def)

lemma open_in_put:
  "open_in i k st \<Longrightarrow> (k' = k \<Longrightarrow> i \<in> set (subscribers room) \<and> finished_at room = None) \<Longrightarrow>
     open_in i k (st\<lparr>rooms := AList.update k' room (rooms st), next_subscriber_id := n, total_backlog_bytes := t\<rparr>)"
  by (auto simp: open_in_def)

lemma open_in_room:
  "open_in i k st \<Longrightarrow> i \<in> set (subscribers (room_or_default now k st)) \<and> finished_at (room_or_default now k st) = None"
  by (auto simp: open_in_def room_or_default_def)

lemma open_in_subscribe:
  assumes "distinct (map fst (rooms st))" and "open_in i k st" and "subscribe cfg now k' st = (res, st')"
  shows "open_in i k st'"
proof -
  note P = open_in_purge [OF assms(1,2), of cfg now]
  show ?thesis
    using assms(3) P open_in_room [OF P, of now]
    by (auto simp: subscribe_def Let_def case_prod_unfold open_in_def split: if_splits)
qed

lemma open_in_unsubscribe:
  assumes "distinct (map fst (rooms st))" and "open_in i k st" and "k' \<noteq> k \<or> j \<noteq> i"
  shows "open_in i k (unsubscribe cfg now k' j st)"
proof -
  note P = open_in_purge [OF assms(1,2), of cfg now]
  show ?thesis
    using P assms(3) unfolding unsubscribe_def Let_def
    by (auto simp: open_in_def removable_def filter_empty_conv split: option.splits)
qed

lemma open_in_wait:
  assumes "distinct (map fst (rooms st))" and "open_in i k st" and "wait_poll cfg now k' st = (res, st')"
  shows "open_in i k st'"
proof -
  note P = open_in_purge [OF assms(1,2), of cfg now]
  show ?thesis
    using assms(3) P open_in_room [OF P, of now]
    by (auto simp: wait_poll_def Let_def case_prod_unfold open_in_def split: if_splits)
qed

lemma open_in_other:
  assumes "distinct (map fst (rooms st))" and "open_in i k st"
  shows "open_in i k (drop_empty_unfinished_room k' st)" "open_in i k (drop_expired_finished_room now k' st)"
    "k' \<noteq> k \<Longrightarrow> open_in i k (drop_room k' st)" "k' \<noteq> k \<Longrightarrow> open_in i k (snd (mark_room_finished cfg now k' st))"
proof -
  note P = open_in_purge [OF assms, of cfg now]
  show "open_in i k (drop_empty_unfinished_room k' st)" "open_in i k (drop_expired_finished_room now k' st)"
    "k' \<noteq> k \<Longrightarrow> open_in i k (drop_room k' st)"
    using assms(2)
    by (auto simp: drop_empty_unfinished_room_def drop_expired_finished_room_def drop_room_def open_in_def removable_def
        split: option.splits)
  show "k' \<noteq> k \<Longrightarrow> open_in i k (snd (mark_room_finished cfg now k' st))"
    using P by (auto simp: mark_room_finished_def Let_def case_prod_unfold open_in_def split: option.splits)
qed


lemma retain_record_finished: "retain_record cfg now r n room t = (room', t') \<Longrightarrow> finished_at room' = finished_at room"
proof -
  assume "retain_record cfg now r n room t = (room', t')"
  then have "finished_at room' = finished_at (fst (purge_expired_backlog now (replay_ttl cfg) room))"
    unfolding retain_record_def Let_def case_prod_unfold by auto
  then show ?thesis by simp
qed

lemma open_in_publish_in_room:
  assumes "open_in i k st" and "publish_in_room cfg now k' r rb f st = (sent, st')" and "k' = k \<Longrightarrow> f i"
  shows "open_in i k st' \<and> (k' = k \<longrightarrow> i \<in> set sent)"
proof -
  let ?room0 = "(room_or_default now k' st)\<lparr>last_activity_at := now\<rparr>"
  obtain room1 tot where r: "(case rb of Some n \<Rightarrow> retain_record cfg now r n ?room0 (total_backlog_bytes st)
      | None \<Rightarrow> (?room0, total_backlog_bytes st)) = (room1, tot)"
    by (meson surj_pair)
  then have room1: "subscribers room1 = subscribers ?room0" "finished_at room1 = finished_at ?room0"
    using retain_record_subscribers retain_record_finished by (auto split: option.splits)
  have st': "st' = (let st1 = st\<lparr>rooms := AList.update k' (room1\<lparr>subscribers := filter f (subscribers room1)\<rparr>) (rooms st),
        total_backlog_bytes := tot\<rparr> in if removable (room1\<lparr>subscribers := filter f (subscribers room1)\<rparr>) then remove_room k' st1 else st1)"
    and sent: "sent = filter f (subscribers room1)"
    using assms(2) r by (auto simp: publish_in_room_def Let_def)
  show ?thesis
  proof (cases "k' = k")
    case True
    then have "i \<in> set sent" "finished_at room1 = None" using open_in_room [OF assms(1), of now] assms(3) room1 sent by auto
    then show ?thesis using True sent by (auto simp: st' open_in_def removable_def filter_empty_conv Let_def)
  next
    case False
    then show ?thesis using assms(1) by (auto simp: st' open_in_def Let_def)
  qed
qed

lemma open_in_publish:
  assumes "distinct (map fst (rooms st))" and "open_in i k st" and "publish cfg now k' r f st = (res, st')" and "k' = k \<Longrightarrow> f i"
  shows "open_in i k st' \<and> (\<forall>sent. k' = k \<longrightarrow> res = Inr sent \<longrightarrow> i \<in> set sent)"
proof -
  define st1 where "st1 = purge_expired_rooms cfg now st"
  define st2 where "st2 = (case map_of (rooms st1) k' of
      Some room \<Rightarrow> (if finished_at room \<noteq> None then remove_room k' st1 else st1) | None \<Rightarrow> st1)"
  have "open_in i k st1" unfolding st1_def by (rule open_in_purge [OF assms(1,2)])
  then have o2: "open_in i k st2" by (auto simp: st2_def open_in_def split: option.splits)
  consider e where "res = Inl e" "st' = st" | e where "res = Inl e" "st' = st2"
    | rb sent where "publish_in_room cfg now k' r rb f st2 = (sent, st')" "res = Inr sent"
    using assms(3) unfolding publish_def Let_def st1_def [symmetric] st2_def [symmetric]
    by (auto split: sum.splits if_splits prod.splits)
  then show ?thesis
  proof cases
    case (3 rb sent)
    then show ?thesis using open_in_publish_in_room [OF o2 3(1) assms(4)] by simp
  qed (use assms(2) o2 in auto)
qed


section \<open>A subscriber that keeps up misses nothing\<close>

fun pub_closed :: "publish_task \<Rightarrow> bool" where
  "pub_closed (PubClosing key res) = True"
| "pub_closed (PubDone res) = True"
| "pub_closed _ = False"

text \<open>The stream of subscriber \<open>i\<close> in room \<open>k\<close>: still being served, closing, done, or failed.\<close>
fun serving :: "BrokerStreamKey \<Rightarrow> u64 \<Rightarrow> subscribe_task \<Rightarrow> bool" where
  "serving k i (SubServing k' i' rest) = (k' = k \<and> i' = i)"
| "serving k i (SubLive k' i') = (k' = k \<and> i' = i)"
| "serving k i _ = False"

fun finished_well :: "BrokerStreamKey \<Rightarrow> u64 \<Rightarrow> broker_event list \<Rightarrow> bytes \<Rightarrow> subscribe_task \<Rightarrow> bool" where
  "finished_well k i evs out (SubClosing k' i' res) = (k' = k \<and> i' = i \<and> res = Inr ())"
| "finished_well k i evs out (SubDone res) = (res = Inr () \<and> (\<exists>d. wrote out d \<and> owed evs k i d []))"
| "finished_well k i evs out _ = False"

fun sub_failed :: "subscribe_task \<Rightarrow> bool" where
  "sub_failed (SubClosing k i res) = (res \<noteq> Inr ())"
| "sub_failed (SubDone res) = (res \<noteq> Inr ())"
| "sub_failed _ = False"

text \<open>Nothing had been published to the room when \<open>i\<close> subscribed, and everything since was queued for it.\<close>
definition misses_nothing :: "BrokerStreamKey \<Rightarrow> u64 \<Rightarrow> broker_event list \<Rightarrow> bool" where
  "misses_nothing k i evs =
     (\<exists>before rs after. evs = before @ Served i k rs # after \<and> published k before = [] \<and> queued_for i after = published k after)"

definition attending :: "BrokerStreamKey \<Rightarrow> u64 \<Rightarrow> nat \<Rightarrow> nat \<Rightarrow> broker_system \<Rightarrow> bool" where
  "attending k i p n sys =
     (let task = ss_task (sys_subs sys n); out = ss_written (sys_subs sys n) in
      sub_failed task \<or>
      misses_nothing k i (sys_events sys) \<and>
      (if pub_closed (sys_pubs sys p) then serving k i task \<or> finished_well k i (sys_events sys) out task
       else serving k i task \<and> open_in i k (sys_inner sys)))"

lemma misses_nothing_more:
  assumes "engine_run cfg now n (evs @ more_evs) st" and "n < 2 ^ 64" and "misses_nothing k i evs"
    and "published k more_evs = [] \<or> (\<exists>r sent. more_evs = [Relayed k r sent] \<and> i \<in> set sent)"
  shows "misses_nothing k i (evs @ more_evs) \<and> (published k more_evs = [] \<longrightarrow> queued_for i more_evs = [])"
proof -
  obtain before rs after where e: "evs = before @ Served i k rs # after" "published k before = []"
      "queued_for i after = published k after"
    using assms(3) by (auto simp: misses_nothing_def)
  have all: "evs @ more_evs = before @ Served i k rs # (after @ more_evs)" by (simp add: e)
  have pre: "prefix (queued_for i more_evs) (published k more_evs)"
    using engine_no_gap [OF assms(1,2) all] e(3) by simp
  have "queued_for i more_evs = published k more_evs"
    using assms(4)
  proof (elim disjE exE conjE)
    fix r sent assume m: "more_evs = [Relayed k r sent]" and i: "i \<in> set sent"
    then obtain c where "count_list sent i = Suc c" by (metis count_list_0_iff not0_implies_Suc)
    then show ?thesis using pre m by simp
  qed (use pre in simp)
  then show ?thesis
    using all e unfolding misses_nothing_def by (intro conjI exI [of _ before] exI [of _ rs] exI [of _ "after @ more_evs"]) auto
qed

lemma pub_closed_step:
  "pub_closed task \<Longrightarrow> publish_task_step cfg limits now g f task st = (task', evs, st') \<Longrightarrow> pub_closed task' \<and> evs = []"
  by (cases task) (auto split: if_splits)

lemma elsewhere_open:
  assumes "distinct (map fst (rooms st))" and "open_in i k st" and "elsewhere k task"
    and "publish_task_step cfg limits now g f task st = (task', evs, st')"
  shows "open_in i k st'"
proof (cases task)
  case (PubWaiting key recv)
  then show ?thesis
    using assms open_in_wait [OF assms(1,2)] open_in_other(1) [OF assms(1,2)] by (auto split: if_splits sum.splits prod.splits)
next
  case (PubForwarding key recv acc)
  have "open_in i k st1" if "publish cfg now key r f st = (res, st1)" for r res st1
    using open_in_publish [OF assms(1,2) that] assms(3) PubForwarding by auto
  then show ?thesis
    using assms PubForwarding by (auto simp: forward_record_def split: if_splits sum.splits prod.splits option.splits)
next
  case (PubClosing key res)
  then show ?thesis using assms open_in_other(3,4) [OF assms(1,2)] by (auto split: if_splits)
qed (use assms in \<open>auto split: if_splits sum.splits prod.splits\<close>)

text \<open>The room's own publisher, with a queue that has room, keeps the subscriber until it closes.\<close>
lemma publisher_keeps_open:
  assumes "distinct (map fst (rooms st))" and "open_in i k st" and "pub_ok k recv0 evs0 task" and "\<not> pub_closed task"
    and "publish_task_step cfg limits now g f task st = (task', evs, st')"
    and "length (published k evs0) < length (stream_records recv0) \<Longrightarrow> f i"
  shows "(pub_closed task' \<or> open_in i k st') \<and> (published k evs = [] \<or> (\<exists>r sent. evs = [Relayed k r sent] \<and> i \<in> set sent))"
proof (cases task)
  case (PubWaiting key recv)
  then show ?thesis
    using assms open_in_wait [OF assms(1,2)] open_in_other(1) [OF assms(1,2)] by (auto split: if_splits sum.splits prod.splits)
next
  case (PubForwarding key recv acc)
  show ?thesis
  proof (cases "\<exists>r recv'. read_record_frame MAX_FRAME_SIZE recv = Inr (Some (r, recv'))")
    case True
    then obtain r recv' where r: "read_record_frame MAX_FRAME_SIZE recv = Inr (Some (r, recv'))" by blast
    have len: "length (published k evs0) < length (stream_records recv0)"
    proof -
      have "stream_records recv0 = published k evs0 @ r # stream_records recv'"
        using assms(3) PubForwarding stream_records_step(1) [OF r] by simp
      then show ?thesis by simp
    qed
    have pub: "open_in i k st1 \<and> (\<forall>sent. res = Inr sent \<longrightarrow> i \<in> set sent)" if "publish cfg now k r f st = (res, st1)" for res st1
      using open_in_publish [OF assms(1,2) that] assms(6) [OF len] by auto
    show ?thesis
      using assms(3,5) PubForwarding r pub assms(2)
      by (auto simp: forward_record_def split: if_splits sum.splits prod.splits)
  next
    case False
    then show ?thesis using assms(5) PubForwarding by (auto split: sum.splits option.splits)
  qed
qed (use assms in \<open>auto split: if_splits sum.splits prod.splits\<close>)


lemma serving_queue_room:
  assumes "engine_run cfg now n evs st" and "n < 2 ^ 64" and "sub_ok K evs st queue out task" and "serving k i task"
  shows "length (queue i) \<le> length (published k evs)"
proof -
  obtain d rest where "owed evs k i d (rest @ queue i)"
    using assms(3,4) by (cases task) (auto, metis append_Nil)
  from conjunct2 [OF owed_sublist [OF assms(1,2) this]] show ?thesis by simp
qed

lemma finished_well_more:
  "finished_well k i evs out task \<Longrightarrow> queued_for i evs2 = [] \<Longrightarrow> finished_well k i (evs @ evs2) out task"
  using owed_more [of evs k i _ "[]" evs2] by (cases task) auto

lemma subscriber_attends:
  assumes ok: "sub_ok K evs st queue (ss_written ss) (ss_task ss)"
    and step: "subscribe_task_step cfg now fault ss queue st = (ss', queue', evs', st')"
    and at: "serving k i (ss_task ss) \<and> (c \<or> open_in i k st) \<or> c \<and> finished_well k i evs (ss_written ss) (ss_task ss)"
  shows "sub_failed (ss_task ss') \<or> serving k i (ss_task ss') \<and> (c \<or> open_in i k st') \<or>
    c \<and> finished_well k i (evs @ evs') (ss_written ss') (ss_task ss')"
proof (cases "ss_task ss")
  case (SubServing k' i' rest)
  then show ?thesis
    using step at by (auto simp: subscribe_task_step_def write_to_client_def split: list.splits sum.splits option.splits)
next
  case (SubLive k' i')
  have "open_in i k st \<Longrightarrow> channel_open k i st" by (auto simp: open_in_def channel_open_def)
  then show ?thesis
    using step at SubLive
    by (auto simp: subscribe_task_step_def write_to_client_def finish_client_def
        split: list.splits sum.splits if_splits option.splits)
next
  case (SubClosing k' i' res)
  then show ?thesis
    using step at ok by (auto simp: subscribe_task_step_def served_stream_def)
next
  case (SubDone res)
  then show ?thesis using step at by (auto simp: subscribe_task_step_def)
qed (use at in auto)

lemma other_subscriber_open:
  assumes "distinct (map fst (rooms st))" and "open_in i k st" and "live_id (ss_task ss) \<noteq> Some i"
    and "subscribe_task_step cfg now fault ss queue st = (ss', queue', evs', st')"
  shows "open_in i k st'"
proof (cases "ss_task ss")
  case (SubOpening recv)
  then show ?thesis
    using assms open_in_subscribe [OF assms(1,2)] by (auto simp: subscribe_task_step_def split: sum.splits prod.splits if_splits)
next
  case (SubClosing k' j res)
  then show ?thesis
    using assms open_in_unsubscribe [OF assms(1,2), of k' j] by (auto simp: subscribe_task_step_def)
qed (use assms in \<open>auto simp: subscribe_task_step_def split: list.splits if_splits\<close>)


lemma failed_stays:
  "sub_failed (ss_task ss) \<Longrightarrow> subscribe_task_step cfg now fault ss queue st = (ss', queue', evs', st') \<Longrightarrow> sub_failed (ss_task ss')"
  by (cases "ss_task ss") (auto simp: subscribe_task_step_def)

lemma attending_failed:
  assumes "sub_failed (ss_task (sys_subs sys n))"
  shows "attending k i p n (system_step cfg limits now a sys)"
proof -
  have "sub_failed (ss_task (sys_subs (system_step cfg limits now a sys) n))"
  proof (cases a)
    case (SubscriberMoves m fault)
    then show ?thesis
      using assms failed_stays [of "sys_subs sys n" cfg now fault "sys_queue sys" "sys_inner sys"]
      by (auto simp: Let_def split: prod.splits)
  qed (use assms in \<open>auto simp: Let_def split: prod.splits\<close>)
  then show ?thesis by (simp add: attending_def Let_def)
qed

text \<open>The subscriber has not failed: what \<open>attending\<close> says then.\<close>
definition attends_well :: "BrokerStreamKey \<Rightarrow> u64 \<Rightarrow> nat \<Rightarrow> nat \<Rightarrow> broker_system \<Rightarrow> bool" where
  "attends_well k i p n sys =
     (let task = ss_task (sys_subs sys n) in
      misses_nothing k i (sys_events sys) \<and>
      (if pub_closed (sys_pubs sys p)
       then serving k i task \<or> finished_well k i (sys_events sys) (ss_written (sys_subs sys n)) task
       else serving k i task \<and> open_in i k (sys_inner sys)))"

lemma attending_iff: "attending k i p n sys \<longleftrightarrow> sub_failed (ss_task (sys_subs sys n)) \<or> attends_well k i p n sys"
  by (simp add: attending_def attends_well_def Let_def)

lemma system_ok_dist: "system_ok cfg subs now n0 sys \<Longrightarrow> distinct (map fst (rooms (sys_inner sys)))"
  using engine_run_inv by (fastforce simp: system_ok_def broker_inv_def rooms_all_def)

lemma attending_subscriber_step:
  assumes ok: "system_ok cfg subs now n0 sys" and time: "now \<le> now'" "Suc n0 < 2 ^ 64" and well: "attends_well k i p n sys"
  shows "attending k i p n (system_step cfg limits now' (SubscriberMoves m fault) sys)"
proof -
  define sys' where "sys' = system_step cfg limits now' (SubscriberMoves m fault) sys"
  let ?st = "sys_inner sys" and ?ss = "sys_subs sys n"
  have sub: "sub_ok (sub_room (subs n)) (sys_events sys) ?st (sys_queue sys) (ss_written ?ss) (ss_task ?ss)"
    and lives: "\<And>m m' i. live_id (ss_task (sys_subs sys m)) = Some i \<Longrightarrow> live_id (ss_task (sys_subs sys m')) = Some i \<Longrightarrow> m = m'"
    using ok by (auto simp: system_ok_def)
  obtain ss' queue' evs st' where step:
      "subscribe_task_step cfg now' fault (sys_subs sys m) (sys_queue sys) ?st = (ss', queue', evs, st')"
    by (metis prod_cases4)
  have S: "sys_subs sys' = (sys_subs sys)(m := ss')" "sys_pubs sys' = sys_pubs sys" "sys_inner sys' = st'"
      "sys_events sys' = sys_events sys @ evs"
    using step by (auto simp: sys'_def)
  have e': "engine_run cfg now' (Suc n0) (sys_events sys @ evs) st'"
    using system_step_ok [OF ok time, of limits "SubscriberMoves m fault"] S by (simp add: system_ok_def sys'_def [symmetric] del: system_step.simps)
  have "published k evs = []"
    using step by (auto simp: subscribe_task_step_def split: subscribe_task.splits sum.splits prod.splits if_splits list.splits)
  then have M: "misses_nothing k i (sys_events sys @ evs)" "queued_for i evs = []"
    using misses_nothing_more [OF e' time(2)] well by (auto simp: attends_well_def Let_def)
  have "attending k i p n sys'"
  proof (cases "m = n")
    case True
    then show ?thesis
      using subscriber_attends [OF sub step [unfolded True], of k i "pub_closed (sys_pubs sys p)"] well M(1)
      by (auto simp: attending_def attends_well_def Let_def S split: if_splits)
  next
    case False
    have "serving k i (ss_task ?ss) \<Longrightarrow> live_id (ss_task (sys_subs sys m)) \<noteq> Some i"
      using lives [of n i m] False by (cases "ss_task ?ss") auto
    then have "serving k i (ss_task ?ss) \<Longrightarrow> open_in i k ?st \<Longrightarrow> open_in i k st'"
      using other_subscriber_open [OF system_ok_dist [OF ok] _ _ step] by blast
    then show ?thesis
      using well M finished_well_more [OF _ M(2)] False
      by (auto simp: attending_def attends_well_def Let_def S split: if_splits)
  qed
  then show ?thesis by (simp add: sys'_def)
qed

lemma attending_publisher_step:
  assumes ok: "system_ok cfg subs now n0 sys" and time: "now \<le> now'" "Suc n0 < 2 ^ 64"
    and sole: "sole_publisher k recv0 p sys" and room: "length (stream_records recv0) \<le> per_subscriber_queue cfg"
    and well: "attends_well k i p n sys"
  shows "attending k i p n (system_step cfg limits now' (PublisherMoves q g) sys)"
proof -
  define sys' where "sys' = system_step cfg limits now' (PublisherMoves q g) sys"
  let ?st = "sys_inner sys" and ?task = "ss_task (sys_subs sys n)"
  let ?f = "\<lambda>j. length (sys_queue sys j) < per_subscriber_queue cfg"
  have e: "engine_run cfg now n0 (sys_events sys) ?st"
    and sub: "sub_ok (sub_room (subs n)) (sys_events sys) ?st (sys_queue sys) (ss_written (sys_subs sys n)) ?task"
    and pubs: "pub_ok k recv0 (sys_events sys) (sys_pubs sys p)" "\<And>q. q \<noteq> p \<Longrightarrow> elsewhere k (sys_pubs sys q)"
    using ok sole by (auto simp: system_ok_def sole_publisher_def)
  obtain task' evs st' where step: "publish_task_step cfg limits now' g ?f (sys_pubs sys q) ?st = (task', evs, st')"
    by (metis prod_cases3)
  have S: "sys_subs sys' = sys_subs sys" "sys_pubs sys' = (sys_pubs sys)(q := task')" "sys_inner sys' = st'"
      "sys_events sys' = sys_events sys @ evs"
    using step by (auto simp: sys'_def)
  have e': "engine_run cfg now' (Suc n0) (sys_events sys @ evs) st'"
    using system_step_ok [OF ok time, of limits "PublisherMoves q g"] S by (simp add: system_ok_def sys'_def [symmetric] del: system_step.simps)
  have miss: "misses_nothing k i (sys_events sys)" using well by (simp add: attends_well_def Let_def)
  note more = misses_nothing_more [OF e' time(2) miss]
  consider "q = p" "pub_closed (sys_pubs sys p)" | "q = p" "\<not> pub_closed (sys_pubs sys p)" | "q \<noteq> p" by blast
  then have "attending k i p n sys'"
  proof cases
    case 1
    then show ?thesis
      using pub_closed_step [OF 1(2) step [unfolded 1(1)]] well by (auto simp: attending_def attends_well_def Let_def S)
  next
    case 2
    then have srv: "serving k i ?task" "open_in i k ?st" using well by (auto simp: attends_well_def Let_def)
    have "length (published k (sys_events sys)) < length (stream_records recv0) \<Longrightarrow> ?f i"
      using serving_queue_room [OF e _ sub srv(1)] time(2) room by simp
    from publisher_keeps_open [OF system_ok_dist [OF ok] srv(2) pubs(1) 2(2) step [unfolded 2(1)] this]
    show ?thesis using more srv(1) 2(1) by (auto simp: attending_def Let_def S)
  next
    case 3
    note E = elsewhere_step [OF pubs(2) [OF 3] step]
    have "open_in i k ?st \<Longrightarrow> open_in i k st'"
      using elsewhere_open [OF system_ok_dist [OF ok] _ pubs(2) [OF 3] step] by blast
    then show ?thesis
      using more E well 3 finished_well_more [of k i "sys_events sys" _ _ evs]
      by (auto simp: attending_def attends_well_def Let_def S split: if_splits)
  qed
  then show ?thesis by (simp add: sys'_def)
qed

lemma attending_step:
  assumes "system_ok cfg subs now n0 sys" and "now \<le> now'" "Suc n0 < 2 ^ 64"
    and "sole_publisher k recv0 p sys" and "length (stream_records recv0) \<le> per_subscriber_queue cfg"
    and "attending k i p n sys"
  shows "attending k i p n (system_step cfg limits now' a sys)"
proof (cases "sub_failed (ss_task (sys_subs sys n))")
  case False
  then have well: "attends_well k i p n sys" using assms(6) by (simp add: attending_iff)
  show ?thesis
  proof (cases a)
    case (Expire key)
    then show ?thesis
      using well open_in_other(2) [OF system_ok_dist [OF assms(1)]] by (auto simp: attending_def attends_well_def Let_def)
  qed (use attending_subscriber_step [OF assms(1-3) well] attending_publisher_step [OF assms(1-5) well] in simp_all)
qed (rule attending_failed)

lemma attending_run:
  assumes "system_ok cfg subs now n0 sys" and "sorted (now # map fst acts)" and "n0 + length acts < 2 ^ 64"
    and "sole_publisher k recv0 p sys" and "length (stream_records recv0) \<le> per_subscriber_queue cfg"
    and "attending k i p n sys"
  shows "attending k i p n (system_run cfg limits acts sys)"
  using assms
proof (induction acts arbitrary: now n0 sys)
  case (Cons x acts)
  obtain t a where x: "x = (t, a)" by force
  have "system_ok cfg subs t (Suc n0) (system_step cfg limits t a sys)"
    using Cons.prems by (intro system_step_ok) (auto simp: x)
  moreover have "attending k i p n (system_step cfg limits t a sys)"
    using Cons.prems by (intro attending_step [OF Cons.prems(1) _ _ Cons.prems(4,5,6)]) (auto simp: x)
  ultimately show ?case
    using Cons.prems Cons.IH [of t "Suc n0" "system_step cfg limits t a sys"] sole_publisher_step [OF Cons.prems(4)]
    by (simp add: x)
qed simp

lemma last_split_unique:
  "xs @ x # ys = xs' @ x' # ys' \<Longrightarrow> P x \<Longrightarrow> P x' \<Longrightarrow> \<forall>y\<in>set ys. \<not> P y \<Longrightarrow> \<forall>y\<in>set ys'. \<not> P y \<Longrightarrow>
     xs = xs' \<and> x = x' \<and> ys = ys'"
proof (induction xs arbitrary: xs')
  case Nil
  then show ?case by (cases xs') auto
next
  case (Cons a xs)
  then show ?case by (cases xs') auto
qed

lemma served_once:
  assumes "engine_run cfg now n evs st" and "n < 2 ^ 64" and "evs = b1 @ Served i k rs1 # a1" and "evs = b2 @ Served i k rs2 # a2"
  shows "b1 = b2 \<and> rs1 = rs2 \<and> a1 = a2"
proof -
  obtain ops where ops: "broker_run cfg ops default_inner = (evs, st)" "length ops < 2 ^ 64"
    using assms(1,2) by (auto simp: engine_run_def)
  have late: "Served i k' rs' \<notin> set a" if "evs = b @ Served i k rs # a" for b rs a k' rs'
  proof -
    have ev: "fst (broker_run cfg ops default_inner) = b @ Served i k rs # a" using that ops(1) by simp
    obtain ops1 t op ops2 where split: "ops = ops1 @ (t, op) # ops2"
        "fst (broker_step cfg t op (snd (broker_run cfg ops1 default_inner))) = [Served i k rs]"
        "fst (broker_run cfg ops2 (snd (broker_step cfg t op (snd (broker_run cfg ops1 default_inner))))) = a"
      using run_split [OF ev] by blast
    define st1 where "st1 = snd (broker_run cfg ops1 default_inner)"
    have ids: "id_room st1 ((t, op) # ops2)"
      unfolding st1_def using ops(2) by (intro id_room_run) (simp add: split(1) id_room_def default_inner_def)
    have "i = next_subscriber_id st1" "next_subscriber_id (snd (broker_step cfg t op st1)) = i + 1"
      using subscribe_result [OF served_result [OF split(2)]] by (simp_all add: st1_def)
    then have "unat i < unat (next_subscriber_id (snd (broker_step cfg t op st1)))" using next_no_wrap [OF ids] by simp
    then show ?thesis
      using served_range [OF id_room_step(1) [OF ids], of cfg cfg] split(3) unfolding st1_def by fastforce
  qed
  have "b1 @ Served i k rs1 # a1 = b2 @ Served i k rs2 # a2" using assms(3,4) by simp
  from last_split_unique [OF this, of "\<lambda>e. \<exists>k' rs'. e = Served i k' rs'"] show ?thesis
    using late [OF assms(3)] late [OF assms(4)] by auto
qed

text \<open>A subscriber listed before the first record, with room in its queue, is written the whole stream.\<close>
lemma kept_up_gets_all:
  assumes ok: "system_ok cfg subs now n0 sys" and n0: "n0 < 2 ^ 64"
    and sole: "sole_publisher k recv0 p sys" and at: "attending k i p n sys"
    and pub: "sys_pubs sys p = PubDone (Inr ())" and sub: "ss_task (sys_subs sys n) = SubDone (Inr ())"
  shows "wrote (ss_written (sys_subs sys n)) (stream_records recv0)"
proof -
  have e: "engine_run cfg now n0 (sys_events sys) (sys_inner sys)" using ok by (simp add: system_ok_def)
  have "misses_nothing k i (sys_events sys)" "finished_well k i (sys_events sys) (ss_written (sys_subs sys n)) (SubDone (Inr ()))"
    using at pub sub by (auto simp: attending_def Let_def)
  note at' = this
  obtain d b1 rs1 a1 where D1: "wrote (ss_written (sys_subs sys n)) d"
      "sys_events sys = b1 @ Served i k rs1 # a1" "d = rs1 @ queued_for i a1"
    using at'(2) by (auto simp: owed_def)
  obtain before rs after where D2: "sys_events sys = before @ Served i k rs # after" "published k before = []"
      "queued_for i after = published k after"
    using at'(1) by (auto simp: misses_nothing_def)
  note D = D1 D2
  have "d = rs @ published k after" using served_once [OF e n0 D(2,4)] D(3,6) by simp
  moreover have "rs = []" using engine_no_gap [OF e n0 D(4)] D(5) by (simp add: suffix_def)
  moreover have "published k (sys_events sys) = stream_records recv0" using sole pub by (simp add: sole_publisher_def)
  ultimately show ?thesis using D(1,4,5) by simp
qed

lemma attends_from:
  assumes "system_ok cfg subs now n0 sys" and "n0 < 2 ^ 64" and "serving k i (ss_task (sys_subs sys n))"
    and "open_in i k (sys_inner sys)" and "published k (sys_events sys) = []"
  shows "attending k i p n sys"
proof -
  have e: "engine_run cfg now n0 (sys_events sys) (sys_inner sys)"
    and sub: "sub_ok (sub_room (subs n)) (sys_events sys) (sys_inner sys) (sys_queue sys) (ss_written (sys_subs sys n)) (ss_task (sys_subs sys n))"
    using assms(1) by (auto simp: system_ok_def)
  obtain d q where "owed (sys_events sys) k i d q" using sub assms(3) by (cases "ss_task (sys_subs sys n)") auto
  then obtain before rs after where s: "sys_events sys = before @ Served i k rs # after" by (auto simp: owed_def)
  then have "published k before = []" "queued_for i after = published k after"
    using engine_no_gap [OF e assms(2) s] assms(5) by auto
  then have "misses_nothing k i (sys_events sys)" using s by (auto simp: misses_nothing_def)
  then show ?thesis using assms(3,4) by (auto simp: attending_def Let_def)
qed

lemma stream_records_written:
  assumes "list_all2 (\<lambda>w f. write_record_frame w = Inr f) ws fs"
    and "\<forall>w\<in>set ws. length (rec_plaintext_frame w) + 91 \<le> MAX_FRAME_SIZE"
  shows "stream_records \<lparr>recv_bytes = concat fs, recv_fault = None\<rparr> = ws"
  using assms
proof (induction ws fs rule: list_all2_induct)
  case Nil
  show ?case by (rule stream_records_step(2)) (simp add: read_record_frame_def read_bytes_frame_def)
next
  case (Cons w ws f fs)
  have "read_record_frame MAX_FRAME_SIZE \<lparr>recv_bytes = concat (f # fs), recv_fault = None\<rparr> =
      Inr (Some (w, \<lparr>recv_bytes = concat fs, recv_fault = None\<rparr>))"
    using read_written_record [OF Cons(1), of MAX_FRAME_SIZE "concat fs" None] Cons.prems by simp
  from stream_records_step(1) [OF this] Cons show ?case by simp
qed

end
