(* ===== verification/Broker_Client.thy ===== *)
theory Broker_Client
  imports Broker_Control
begin

text \<open>
  The clients of the QUIC broker, \<open>transport-quic-broker/src/client.rs\<close>: the streaming publisher and the
  subscriber with its state across reconnects.

  \<open>pub_sent\<close> collects the bytes the publisher wrote to its stream, the control frame first.  The store
  of publisher sequences and the random reservation token are arguments, as in
  \<open>Publisher_Sequence\<close>.  Dialling, closing and the sleeps between chunks are left out; the
  increments of \<open>next_seq\<close> wrap.
\<close>

section \<open>Publisher\<close>

definition RECORD_ABORT :: u8 where "RECORD_ABORT = 5"

record 's OpenBrokerTextPublisher =
  open_stream_id :: bytes
  open_start_event_id :: bytes
  open_crypto :: "'s AgentTextStreamCrypto option"
  open_max_plaintext_frame_len :: "u32 option"

record 's BrokerTextPublisher =
  pub_sent :: bytes
  pub_transcript :: AgentTextStreamTranscriptV1
  pub_next_seq :: u64
  pub_crypto :: "'s AgentTextStreamCrypto option"
  pub_max_plaintext_frame_len :: "u32 option"

definition connect_publisher ::
  "crypto_lib \<Rightarrow> 's OpenBrokerTextPublisher \<Rightarrow> QuicBrokerError + 's BrokerTextPublisher" where
  "connect_publisher lib config =
     result_bind (write_control_frame (publish_envelope (open_stream_id config) (open_start_event_id config))) (\<lambda>out.
       Inr \<lparr>pub_sent = out,
            pub_transcript = new_transcript (sha256 lib) (open_stream_id config) (open_start_event_id config),
            pub_next_seq = 1, pub_crypto = open_crypto config,
            pub_max_plaintext_frame_len = open_max_plaintext_frame_len config\<rparr>)"

text \<open>The records numbered from \<open>next_seq\<close>, and the next number.\<close>
fun number_frames :: "bytes \<Rightarrow> u64 \<Rightarrow> (u8 \<times> bytes) list \<Rightarrow> AgentTextStreamRecordV1 list \<times> u64" where
  "number_frames sid next_seq [] = ([], next_seq)"
| "number_frames sid next_seq ((ty, chunk) # frames) =
     (let (rs, n) = number_frames sid (next_seq + 1) frames in (new_record sid next_seq ty chunk # rs, n))"

text \<open>Sealing one record, writing its frame and adding it to the transcript.\<close>
definition publish_record ::
  "crypto_lib \<Rightarrow> AgentTextStreamRecordV1 \<Rightarrow> 's BrokerTextPublisher \<Rightarrow> QuicBrokerError + 's BrokerTextPublisher" where
  "publish_record lib r pub =
     (case wire_record lib (pub_crypto pub) r of
        Inl e \<Rightarrow> Inl (StreamCrypto e)
      | Inr w \<Rightarrow>
          result_bind (write_record_frame w) (\<lambda>out.
            Inr (pub\<lparr>pub_sent := pub_sent pub @ out,
                     pub_transcript := append_transcript (sha256 lib) (pub_transcript pub)
                       (rec_seq r) (rec_type r) (rec_plaintext_frame r)\<rparr>)))"

text \<open>The record loop: the number of records appended, and the publisher also after an error.\<close>
fun publish_records ::
  "crypto_lib \<Rightarrow> AgentTextStreamRecordV1 list \<Rightarrow> u64 \<Rightarrow> 's BrokerTextPublisher
     \<Rightarrow> (QuicBrokerError + u64) \<times> 's BrokerTextPublisher" where
  "publish_records lib [] appended pub = (Inr appended, pub)"
| "publish_records lib (r # rs) appended pub =
     (case validate_record r of
        Inl e \<Rightarrow> (Inl (Record e), pub)
      | Inr _ \<Rightarrow>
          (case publish_record lib r pub of
             Inl e \<Rightarrow> (Inl e, pub)
           | Inr pub' \<Rightarrow> publish_records lib rs (appended + 1) pub'))"

definition reserve_for_publisher ::
  "crypto_lib \<Rightarrow> 's BrokerTextPublisher \<Rightarrow> (u8 \<times> bytes) list \<Rightarrow> bytes \<Rightarrow> 's
     \<Rightarrow> (QuicBrokerError + ReservedPublisherRecords option) \<times> 's" where
  "reserve_for_publisher lib pub frames token s =
     (case pub_crypto pub of
        None \<Rightarrow> (Inr None, s)
      | Some crypto \<Rightarrow>
          (case reserve_publisher_records (sha256 lib) (publisher_sequence_store crypto) (crypto_context crypto)
                  (tr_stream_id (pub_transcript pub)) (tr_start_event_id (pub_transcript pub)) frames token s of
             (Inl e, s') \<Rightarrow> (Inl (StreamCrypto e), s')
           | (Inr rpr, s') \<Rightarrow> (Inr (Some rpr), s')))"

text \<open>After the records: the reservation is confirmed and the transcript taken from it.\<close>
definition confirm_for_publisher ::
  "ReservedPublisherRecords option \<Rightarrow> 's BrokerTextPublisher \<Rightarrow> 's
     \<Rightarrow> (QuicBrokerError + unit) \<times> 's BrokerTextPublisher \<times> 's" where
  "confirm_for_publisher reservation pub s =
     (case reservation of
        None \<Rightarrow> (Inr (), pub, s)
      | Some rpr \<Rightarrow>
          (case (case Option.bind (pub_crypto pub) publisher_sequence_store of
                   None \<Rightarrow> (Inr (), s)
                 | Some st \<Rightarrow> confirm_reserved st rpr s) of
             (Inl e, s') \<Rightarrow> (Inl (StreamCrypto e), pub, s')
           | (Inr _, s') \<Rightarrow>
               (Inr (), pub\<lparr>pub_transcript := from_state (tr_stream_id (pub_transcript pub))
                              (tr_start_event_id (pub_transcript pub)) (rpr_transcript_hash rpr) (rpr_chunk_count rpr),
                            pub_next_seq := saturating_add (rpr_chunk_count rpr) 1\<rparr>, s')))"

definition append_record_text ::
  "crypto_lib \<Rightarrow> u8 \<Rightarrow> uchar list \<Rightarrow> nat \<Rightarrow> bytes \<Rightarrow> 's BrokerTextPublisher \<Rightarrow> 's
     \<Rightarrow> (QuicBrokerError + u64) \<times> 's BrokerTextPublisher \<times> 's" where
  "append_record_text lib ty text max_chunk_bytes token pub s =
     (if max_chunk_bytes = 0 then (Inl EmptyChunkSize, pub, s)
      else if max_chunk_bytes > unat MAX_PLAINTEXT_FRAME_LEN then (Inl (ChunkSizeTooLarge max_chunk_bytes), pub, s)
      else let frames = map (\<lambda>chunk. (ty, chunk))
                 (split_text_deltas text (min max_chunk_bytes (effective_plaintext_cap (pub_max_plaintext_frame_len pub))))
           in case (if frames = [] then (Inr None, s) else reserve_for_publisher lib pub frames token s) of
                (Inl e, s1) \<Rightarrow> (Inl e, pub, s1)
              | (Inr reservation, s1) \<Rightarrow>
                  (let (records, next_seq) =
                         (case reservation of
                            Some rpr \<Rightarrow> (rpr_records rpr, pub_next_seq pub)
                          | None \<Rightarrow> number_frames (tr_stream_id (pub_transcript pub)) (pub_next_seq pub) frames)
                   in case publish_records lib records 0 (pub\<lparr>pub_next_seq := next_seq\<rparr>) of
                        (Inl e, pub1) \<Rightarrow> (Inl e, pub1, s1)
                      | (Inr appended, pub1) \<Rightarrow>
                          (case confirm_for_publisher reservation pub1 s1 of
                             (Inl e, pub2, s2) \<Rightarrow> (Inl e, pub2, s2)
                           | (Inr _, pub2, s2) \<Rightarrow> (Inr appended, pub2, s2))))"

definition append_text ::
  "crypto_lib \<Rightarrow> uchar list \<Rightarrow> nat \<Rightarrow> bytes \<Rightarrow> 's BrokerTextPublisher \<Rightarrow> 's
     \<Rightarrow> (QuicBrokerError + u64) \<times> 's BrokerTextPublisher \<times> 's" where
  "append_text lib = append_record_text lib RECORD_TEXT_DELTA"

definition append_abort ::
  "crypto_lib \<Rightarrow> bytes \<Rightarrow> 's BrokerTextPublisher \<Rightarrow> 's \<Rightarrow> (QuicBrokerError + unit) \<times> 's BrokerTextPublisher \<times> 's" where
  "append_abort lib token pub s =
     (case reserve_for_publisher lib pub [(RECORD_ABORT, [])] token s of
        (Inl e, s1) \<Rightarrow> (Inl e, pub, s1)
      | (Inr reservation, s1) \<Rightarrow>
          (case (case reservation of
                   None \<Rightarrow> Inr (new_record (tr_stream_id (pub_transcript pub)) (pub_next_seq pub) RECORD_ABORT [])
                 | Some rpr \<Rightarrow>
                     (case rpr_records rpr of
                        [] \<Rightarrow> Inl (StreamCrypto (PublisherSequence ''publisher reservation returned no records''))
                      | r # _ \<Rightarrow> Inr r)) of
             Inl e \<Rightarrow> (Inl e, pub, s1)
           | Inr r \<Rightarrow>
               (case validate_record r of
                  Inl e \<Rightarrow> (Inl (Record e), pub, s1)
                | Inr _ \<Rightarrow>
                    (let pub0 = (if reservation = None then pub\<lparr>pub_next_seq := pub_next_seq pub + 1\<rparr> else pub)
                     in case publish_record lib r pub0 of
                          Inl e \<Rightarrow> (Inl e, pub0, s1)
                        | Inr pub1 \<Rightarrow> confirm_for_publisher reservation pub1 s1))))"

definition finish_publisher :: "'s BrokerTextPublisher \<Rightarrow> SentTextStream" where
  "finish_publisher pub =
     \<lparr>sent_stream_id = tr_stream_id (pub_transcript pub), sent_transcript_hash = tr_hash (pub_transcript pub),
      sent_chunk_count = tr_chunk_count (pub_transcript pub)\<rparr>"

text \<open>\<open>publish_text_to_broker\<close>: the bytes written and what was sent.\<close>
definition publish_text_to_broker ::
  "crypto_lib \<Rightarrow> 's OpenBrokerTextPublisher \<Rightarrow> uchar list \<Rightarrow> nat \<Rightarrow> bytes \<Rightarrow> 's
     \<Rightarrow> (QuicBrokerError + (bytes \<times> SentTextStream)) \<times> 's" where
  "publish_text_to_broker lib config text max_chunk_bytes token s =
     (case connect_publisher lib config of
        Inl e \<Rightarrow> (Inl e, s)
      | Inr pub \<Rightarrow>
          (case append_text lib text max_chunk_bytes token pub s of
             (Inl e, pub', s') \<Rightarrow> (Inl e, s')
           | (Inr _, pub', s') \<Rightarrow> (Inr (pub_sent pub', finish_publisher pub'), s')))"

section \<open>Subscriber\<close>

record BrokerTextReceiverState =
  brs_high_water :: u64
  brs_frames_read :: u64
  brs_limits :: AgentTextStreamReceiveLimits
  brs_chunks :: "ReceivedTextChunk list"
  brs_text :: bytes
  brs_transcript :: AgentTextStreamTranscriptV1
  brs_limit_state :: AgentTextStreamReceiveAccumulator

definition new_receiver ::
  "crypto_lib \<Rightarrow> bytes \<Rightarrow> bytes \<Rightarrow> AgentTextStreamReceiveLimits \<Rightarrow> BrokerTextReceiverState" where
  "new_receiver lib stream_id start_event_id limits =
     \<lparr>brs_high_water = 0, brs_frames_read = 0, brs_limits = limits, brs_chunks = [], brs_text = [],
      brs_transcript = new_transcript (sha256 lib) stream_id start_event_id,
      brs_limit_state = new_accumulator limits\<rparr>"

definition begin_record ::
  "u64 \<Rightarrow> BrokerTextReceiverState \<Rightarrow> (QuicBrokerError + bool) \<times> BrokerTextReceiverState" where
  "begin_record seq st0 =
     (let st = st0\<lparr>brs_frames_read := saturating_add (brs_frames_read st0) 1\<rparr> in
      if brs_frames_read st > lim_max_records (brs_limits st)
      then (Inl (ReceiveLimit (RecordLimitExceeded (brs_frames_read st) (lim_max_records (brs_limits st)))), st)
      else if seq \<le> brs_high_water st then (Inr False, st)
      else if seq \<noteq> brs_high_water st + 1
      then (Inl (UnexpectedSequence (brs_high_water st + 1) seq), st)
      else (Inr True, st))"

definition broker_accept_record ::
  "crypto_lib \<Rightarrow> AgentTextStreamRecordV1 \<Rightarrow> bytes \<Rightarrow> BrokerTextReceiverState
     \<Rightarrow> (QuicBrokerError + ReceivedTextChunk) \<times> BrokerTextReceiverState" where
  "broker_accept_record lib r expected_stream_id st0 =
     (case observe (brs_limit_state st0) r of
        Inl e \<Rightarrow> (Inl (ReceiveLimit e), st0)
      | Inr acc \<Rightarrow>
          (let st = st0\<lparr>brs_limit_state := acc\<rparr> in
           if rec_stream_id r \<noteq> expected_stream_id then (Inl MixedStreamIds, st)
           else let frame_text = stream_record_text r;
                    chunk = \<lparr>chunk_seq = rec_seq r, chunk_record_type = rec_type r,
                             chunk_flags = rec_flags r, chunk_text = frame_text\<rparr>
                in (Inr chunk,
                    st\<lparr>brs_high_water := rec_seq r,
                       brs_text := (if rec_type r = RECORD_TEXT_DELTA then brs_text st @ frame_text else brs_text st),
                       brs_transcript := append_transcript (sha256 lib) (brs_transcript st)
                         (rec_seq r) (rec_type r) (rec_plaintext_frame r),
                       brs_chunks := brs_chunks st @ [chunk]\<rparr>)))"

record 's SubscribeTextFromBroker =
  sub_stream_id :: bytes
  sub_start_event_id :: bytes
  sub_crypto :: "'s AgentTextStreamCrypto option"

text \<open>One iteration of the subscription loop.\<close>
definition subscription_step ::
  "crypto_lib \<Rightarrow> 's SubscribeTextFromBroker \<Rightarrow> AgentTextStreamRecordV1 \<Rightarrow> BrokerTextReceiverState
     \<Rightarrow> (QuicBrokerError + unit) \<times> BrokerTextReceiverState" where
  "subscription_step lib config r st =
     (case begin_record (rec_seq r) st of
        (Inl e, st1) \<Rightarrow> (Inl e, st1)
      | (Inr False, st1) \<Rightarrow> (Inr (), st1)
      | (Inr True, st1) \<Rightarrow>
          (case (case sub_crypto config of Some c \<Rightarrow> decrypt_record lib c r | None \<Rightarrow> Inr r) of
             Inl e \<Rightarrow> (Inl (StreamCrypto e), st1)
           | Inr p \<Rightarrow>
               (case broker_accept_record lib p (sub_stream_id config) st1 of
                  (Inl e, st2) \<Rightarrow> (Inl e, st2)
                | (Inr _, st2) \<Rightarrow> (Inr (), st2))))"

function subscription_loop ::
  "crypto_lib \<Rightarrow> 's SubscribeTextFromBroker \<Rightarrow> nat \<Rightarrow> recv_stream \<Rightarrow> BrokerTextReceiverState
     \<Rightarrow> (QuicBrokerError + unit) \<times> BrokerTextReceiverState" where
  "subscription_loop lib config max_frame_len recv st =
     (case read_record_frame max_frame_len recv of
        Inl e \<Rightarrow> (Inl e, st)
      | Inr None \<Rightarrow> (Inr (), st)
      | Inr (Some (r, recv')) \<Rightarrow>
          (case subscription_step lib config r st of
             (Inl e, st') \<Rightarrow> (Inl e, st')
           | (Inr _, st') \<Rightarrow> subscription_loop lib config max_frame_len recv' st'))"
  by auto
termination
  by (relation "measure (\<lambda>(_, _, _, recv, _). length (recv_bytes recv))") (auto dest: read_record_frame_shorter)

declare subscription_loop.simps [simp del]

definition subscribe_text_from_broker_with_resume ::
  "crypto_lib \<Rightarrow> 's SubscribeTextFromBroker \<Rightarrow> recv_stream \<Rightarrow> BrokerTextReceiverState
     \<Rightarrow> (QuicBrokerError + ReceivedTextStream) \<times> BrokerTextReceiverState" where
  "subscribe_text_from_broker_with_resume lib config recv st =
     (case write_control_frame (subscribe_envelope (sub_stream_id config) (sub_start_event_id config)) of
        Inl e \<Rightarrow> (Inl e, st)
      | Inr _ \<Rightarrow>
          (case subscription_loop lib config (frame_len_cap (Some (lim_max_plaintext_frame_len (brs_limits st)))) recv st of
             (Inl e, st') \<Rightarrow> (Inl e, st')
           | (Inr _, st') \<Rightarrow>
               (if brs_chunks st' = [] then (Inl EmptyStream, st')
                else (Inr \<lparr>received_stream_id = tr_stream_id (brs_transcript st'), received_chunks = brs_chunks st',
                           received_text = brs_text st', received_transcript_hash = tr_hash (brs_transcript st'),
                           received_chunk_count = tr_chunk_count (brs_transcript st')\<rparr>, st'))))"

definition subscribe_text_from_broker_with_limits ::
  "crypto_lib \<Rightarrow> 's SubscribeTextFromBroker \<Rightarrow> AgentTextStreamReceiveLimits \<Rightarrow> recv_stream
     \<Rightarrow> QuicBrokerError + ReceivedTextStream" where
  "subscribe_text_from_broker_with_limits lib config limits recv =
     fst (subscribe_text_from_broker_with_resume lib config recv
            (new_receiver lib (sub_stream_id config) (sub_start_event_id config) limits))"

end
