(* ===== verification/Broker_Publisher.thy ===== *)
theory Broker_Publisher
  imports Broker_Client
begin

text \<open>
  Correctness of the broker's publisher client: over any sequence of successful appends its records are
  numbered consecutively from one, carry the texts appended, and the transcript it reports is theirs.
\<close>

section \<open>What is on the wire\<close>

text \<open>The records, what they are sealed to, and the bytes of their frames.\<close>
definition sealed_stream ::
  "crypto_lib \<Rightarrow> 's AgentTextStreamCrypto option \<Rightarrow> AgentTextStreamRecordV1 list \<Rightarrow> AgentTextStreamRecordV1 list
     \<Rightarrow> bytes \<Rightarrow> bool" where
  "sealed_stream lib crypto rs ws out =
     (list_all2 (\<lambda>r w. wire_record lib crypto r = Inr w) rs ws \<and>
      (\<exists>fs. list_all2 (\<lambda>w f. write_record_frame w = Inr f) ws fs \<and> out = concat fs))"

lemma sealed_stream_Nil [simp]: "sealed_stream lib crypto [] [] []"
  by (simp add: sealed_stream_def)

lemma sealed_stream_single:
  "wire_record lib crypto r = Inr w \<Longrightarrow> write_record_frame w = Inr f \<Longrightarrow> sealed_stream lib crypto [r] [w] f"
  by (auto simp: sealed_stream_def)

lemma sealed_stream_append:
  assumes "sealed_stream lib crypto rs ws out" and "sealed_stream lib crypto rs' ws' out'"
  shows "sealed_stream lib crypto (rs @ rs') (ws @ ws') (out @ out')"
proof -
  obtain fs fs' where "list_all2 (\<lambda>w f. write_record_frame w = Inr f) ws fs" "out = concat fs"
      "list_all2 (\<lambda>w f. write_record_frame w = Inr f) ws' fs'" "out' = concat fs'"
    using assms by (auto simp: sealed_stream_def)
  then show ?thesis
    using assms by (auto simp: sealed_stream_def intro: list_all2_appendI intro!: exI [of _ "fs @ fs'"])
qed

lemma publish_record_Inr:
  assumes "publish_record lib r pub = Inr pub'"
  obtains w f where "wire_record lib (pub_crypto pub) r = Inr w" "write_record_frame w = Inr f"
    "pub' = pub\<lparr>pub_sent := pub_sent pub @ f, pub_transcript := append_chunks (sha256 lib) (pub_transcript pub) [chunk_triple r]\<rparr>"
  using assms by (auto simp: publish_record_def result_bind_Inr chunk_triple_def split: sum.splits)

lemma publish_records_Inr:
  "publish_records lib rs n pub = (Inr k, pub') \<Longrightarrow>
     \<exists>ws out. sealed_stream lib (pub_crypto pub) rs ws out \<and>
       pub' = pub\<lparr>pub_sent := pub_sent pub @ out,
         pub_transcript := append_chunks (sha256 lib) (pub_transcript pub) (map chunk_triple rs)\<rparr>"
proof (induction rs arbitrary: n pub)
  case Nil
  then show ?case by (intro exI [of _ "[]"]) simp
next
  case (Cons r rs)
  then obtain pub1 where first: "publish_record lib r pub = Inr pub1"
    and rest: "publish_records lib rs (n + 1) pub1 = (Inr k, pub')"
    by (auto split: sum.splits)
  from publish_record_Inr [OF first] obtain w f where w: "wire_record lib (pub_crypto pub) r = Inr w"
      "write_record_frame w = Inr f"
    and pub1: "pub1 = pub\<lparr>pub_sent := pub_sent pub @ f,
        pub_transcript := append_chunks (sha256 lib) (pub_transcript pub) [chunk_triple r]\<rparr>" .
  from Cons.IH [OF rest] obtain ws out where "sealed_stream lib (pub_crypto pub) rs ws out"
      "pub' = pub1\<lparr>pub_sent := pub_sent pub1 @ out,
        pub_transcript := append_chunks (sha256 lib) (pub_transcript pub1) (map chunk_triple rs)\<rparr>"
    by (auto simp: pub1)
  then show ?case
    using sealed_stream_append [OF sealed_stream_single [OF w], of rs ws out]
    by (intro exI [of _ "w # ws"] exI [of _ "f @ out"]) (simp add: pub1 chunk_triple_def [abs_def])
qed

section \<open>Numbering\<close>

lemma numbered_append:
  "numbered sid n (xs @ ys) \<longleftrightarrow> numbered sid n xs \<and> numbered sid (n + length xs) ys"
  by (induction xs arbitrary: n) auto

lemma number_frames_shape:
  assumes "number_frames sid next_seq frames = (rs, next_seq')" and "unat next_seq = Suc n"
    and "n + length frames < 2 ^ 64 - 1"
  shows "numbered sid n rs \<and> map frame_of rs = frames \<and> unat next_seq' = Suc (n + length frames)"
  using assms
proof (induction frames arbitrary: next_seq n rs)
  case (Cons f frames)
  obtain ty chunk where f: "f = (ty, chunk)" by force
  obtain rs' where rest: "number_frames sid (next_seq + 1) frames = (rs', next_seq')"
    and rs: "rs = new_record sid next_seq ty chunk # rs'"
    using Cons.prems(1) by (auto simp: f split: prod.splits)
  have "unat (next_seq + 1) = unat next_seq + unat (1 :: u64)"
    using Cons.prems(2,3) by (intro unat_add_no_overflow) simp
  then show ?case
    using Cons.IH [OF rest, of "Suc n"] Cons.prems(2,3)
    by (simp add: rs f new_record_def frame_of_def)
qed simp

section \<open>Stores that continue where the publisher left off\<close>

text \<open>After a granted and confirmed reservation, what a store loads is the reservation's result.\<close>
locale continuing_store = publisher_sequence_store +
  assumes load_confirmed: "inv s \<Longrightarrow> wf_reservation r \<Longrightarrow> ps_reserve st s c h r = (Inr u, s1) \<Longrightarrow>
    ps_confirm st s1 c (resv_token r) = (Inr v, s2) \<Longrightarrow> ps_load st s2 c = Inr loaded \<Longrightarrow>
    loaded = Some (resv_resulting r)"

interpretation ephemeral_continuing: continuing_store ephemeral_store ephemeral_inv ephemeral_high ephemeral_holder
proof unfold_locales
  fix s r c h u s1 v s2 loaded
  assume "ps_reserve ephemeral_store s c h r = (Inr u, s1)"
    "ps_confirm ephemeral_store s1 c (resv_token r) = (Inr v, s2)" "ps_load ephemeral_store s2 c = Inr loaded"
  then show "loaded = Some (resv_resulting r)"
    by (auto simp: ephemeral_store_def ephemeral_reserve_def ephemeral_confirm_def ephemeral_load_def Let_def
        split: if_splits)
qed

lemma reserved_row:
  assumes "sqlite_reserve tbl c h r = (Inr u, tbl')"
  obtains row where "tbl' c = Some row" "row_transcript_hash row = snap_transcript_hash (resv_resulting r)"
  using assms
  by (auto simp: sqlite_reserve_def reserve_agent_stream_publisher_records_def commit_reservation_def
      split: option.splits if_splits prod.splits sum.splits)

interpretation sqlite_continuing: continuing_store sqlite_store sqlite_inv sqlite_high sqlite_holder
proof unfold_locales
  fix s r c h u s1 v s2 loaded
  assume inv: "sqlite_inv s" and wf: "wf_reservation r" and res: "ps_reserve sqlite_store s c h r = (Inr u, s1)"
    and con: "ps_confirm sqlite_store s1 c (resv_token r) = (Inr v, s2)" and load: "ps_load sqlite_store s2 c = Inr loaded"
  have res': "sqlite_reserve s c h r = (Inr u, s1)" using res by (simp add: sqlite_store_def)
  obtain row where row: "s1 c = Some row" "row_transcript_hash row = snap_transcript_hash (resv_resulting r)"
    using reserved_row [OF res'] .
  from res' inv wf have num: "row_next_seq row = uint (snap_next_seq (resv_resulting r)) \<and>
      row_chunk_count row = uint (snap_chunk_count (resv_resulting r))"
    using row(1) by (cases rule: sqlite_reserve_cases) auto
  have "s2 c = Some (row\<lparr>row_reservation_token := None\<rparr>)"
    using con row(1)
    by (auto simp: sqlite_store_def confirm_agent_stream_publisher_reservation_def split: if_splits)
  then show "loaded = Some (resv_resulting r)"
    using load row(2) num
    by (auto simp: sqlite_store_def sqlite_load_def agent_stream_publisher_state_def u64_or_default_def split: if_splits)
qed

section \<open>Appending\<close>

datatype publisher_op =
    AppendRecordText u8 "uchar list" nat bytes
  | AppendAbort bytes

fun publisher_step ::
  "crypto_lib \<Rightarrow> publisher_op \<Rightarrow> 's BrokerTextPublisher \<Rightarrow> 's
     \<Rightarrow> (QuicBrokerError + unit) \<times> 's BrokerTextPublisher \<times> 's" where
  "publisher_step lib (AppendRecordText ty text m token) pub s =
     (case append_record_text lib ty text m token pub s of
        (Inl e, pub', s') \<Rightarrow> (Inl e, pub', s')
      | (Inr _, pub', s') \<Rightarrow> (Inr (), pub', s'))"
| "publisher_step lib (AppendAbort token) pub s = append_abort lib token pub s"

text \<open>A run of appends up to the first error.\<close>
fun publisher_run ::
  "crypto_lib \<Rightarrow> publisher_op list \<Rightarrow> 's BrokerTextPublisher \<Rightarrow> 's
     \<Rightarrow> (QuicBrokerError + unit) \<times> 's BrokerTextPublisher \<times> 's" where
  "publisher_run lib [] pub s = (Inr (), pub, s)"
| "publisher_run lib (op # ops) pub s =
     (case publisher_step lib op pub s of
        (Inl e, pub', s') \<Rightarrow> (Inl e, pub', s')
      | (Inr _, pub', s') \<Rightarrow> publisher_run lib ops pub' s')"

text \<open>The frames an append asks for.\<close>
fun op_frames :: "u32 option \<Rightarrow> publisher_op \<Rightarrow> (u8 \<times> bytes) list" where
  "op_frames policy (AppendRecordText ty text m token) =
     map (Pair ty) (split_text_deltas text (min m (effective_plaintext_cap policy)))"
| "op_frames policy (AppendAbort token) = [(RECORD_ABORT, [])]"

definition open_transcript :: "crypto_lib \<Rightarrow> 's OpenBrokerTextPublisher \<Rightarrow> AgentTextStreamRecordV1 list \<Rightarrow> AgentTextStreamTranscriptV1" where
  "open_transcript lib config rs =
     append_chunks (sha256 lib) (new_transcript (sha256 lib) (open_stream_id config) (open_start_event_id config))
       (map chunk_triple rs)"

text \<open>The publisher has written the control frame and the records \<open>rs\<close>.\<close>
definition publisher_ok ::
  "crypto_lib \<Rightarrow> 's OpenBrokerTextPublisher \<Rightarrow> AgentTextStreamRecordV1 list \<Rightarrow> 's BrokerTextPublisher \<Rightarrow> bool" where
  "publisher_ok lib config rs pub =
     ((\<exists>ctl ws out. write_control_frame (publish_envelope (open_stream_id config) (open_start_event_id config)) = Inr ctl \<and>
         sealed_stream lib (open_crypto config) rs ws out \<and> pub_sent pub = ctl @ out) \<and>
      numbered (open_stream_id config) 0 rs \<and> pub_transcript pub = open_transcript lib config rs \<and>
      unat (pub_next_seq pub) = Suc (length rs) \<and> pub_crypto pub = open_crypto config \<and>
      pub_max_plaintext_frame_len pub = open_max_plaintext_frame_len config)"

text \<open>What the store loads for the publisher's context continues the publisher's transcript.\<close>
definition store_follows ::
  "crypto_lib \<Rightarrow> 's publisher_store \<Rightarrow> AgentTextStreamKeyContextV1 \<Rightarrow> 's OpenBrokerTextPublisher \<Rightarrow> 's
     \<Rightarrow> 's BrokerTextPublisher \<Rightarrow> bool" where
  "store_follows lib st ctx config s pub =
     (\<forall>loaded. ps_load st s (sha256 lib (encode_key_context ctx)) = Inr loaded \<longrightarrow>
        expected_snapshot (tr_hash (new_transcript (sha256 lib) (open_stream_id config) (open_start_event_id config))) loaded =
          \<lparr>snap_next_seq = pub_next_seq pub, snap_transcript_hash = tr_hash (pub_transcript pub),
           snap_chunk_count = tr_chunk_count (pub_transcript pub)\<rparr>)"

lemma open_transcript_append:
  "append_chunks (sha256 lib) (open_transcript lib config rs) (map chunk_triple rs') = open_transcript lib config (rs @ rs')"
proof -
  have "append_chunks H t (xs @ ys) = append_chunks H (append_chunks H t xs) ys" for H t xs ys
    by (induction xs arbitrary: t) auto
  then show ?thesis by (simp add: open_transcript_def)
qed

lemma append_chunks_fields:
  "tr_stream_id (append_chunks H t cs) = tr_stream_id t \<and> tr_start_event_id (append_chunks H t cs) = tr_start_event_id t \<and>
     tr_chunk_count (append_chunks H t cs) = tr_chunk_count t + word_of_nat (length cs)"
  by (induction cs arbitrary: t) (auto simp: append_transcript_def)

lemma open_transcript_fields [simp]:
  "tr_stream_id (open_transcript lib config rs) = open_stream_id config"
  "tr_start_event_id (open_transcript lib config rs) = open_start_event_id config"
  "tr_chunk_count (open_transcript lib config rs) = word_of_nat (length rs)"
  by (simp_all add: open_transcript_def append_chunks_fields new_transcript_def)

lemma from_state_same: "from_state (tr_stream_id t) (tr_start_event_id t) (tr_hash t) (tr_chunk_count t) = t"
  by (simp add: from_state_def)

lemma length_build_records: "build_records H sid n off t frames = Inr (rs, t') \<Longrightarrow> length rs = length frames"
  by (induction frames arbitrary: off t rs) (auto simp: Let_def split: option.splits sum.splits)

lemma length_reserved:
  "reserve_for_publisher lib pub frames token s = (Inr (Some rpr), s') \<Longrightarrow> length (rpr_records rpr) = length frames"
  by (auto simp: reserve_for_publisher_def reserve_publisher_records_def Let_def
      split: option.splits sum.splits prod.splits dest!: length_build_records)

lemma reserve_following:
  assumes "reserve_publisher_records H (Some st) ctx sid eid frames token s = (Inr rpr, s1)"
    and "\<And>loaded. ps_load st s (H (encode_key_context ctx)) = Inr loaded \<Longrightarrow>
      expected_snapshot (tr_hash (new_transcript H sid eid)) loaded = snap"
  obtains t next_seq h u where
    "build_records H sid (snap_next_seq snap) 0 (from_state sid eid (snap_transcript_hash snap) (snap_chunk_count snap)) frames
       = Inr (rpr_records rpr, t)"
    "rpr_transcript_hash rpr = tr_hash t" "rpr_chunk_count rpr = tr_chunk_count t"
    "rpr_context_id rpr = H (encode_key_context ctx)" "rpr_token rpr = token"
    "checked_add (snap_next_seq snap) (word_of_nat (length (rpr_records rpr))) = Some next_seq"
    "ps_reserve st s (H (encode_key_context ctx)) h
       \<lparr>resv_expected = snap, resv_resulting = \<lparr>snap_next_seq = next_seq, snap_transcript_hash = tr_hash t,
          snap_chunk_count = tr_chunk_count t\<rparr>, resv_token = token\<rparr> = (Inr u, s1)"
proof -
  obtain loaded where load: "ps_load st s (H (encode_key_context ctx)) = Inr loaded"
    using assms(1) by (auto simp: reserve_publisher_records_def Let_def split: sum.splits)
  note snap = assms(2) [OF load]
  show thesis
    using assms(1) load
    by (auto simp: reserve_publisher_records_def Let_def snap split: sum.splits option.splits prod.splits intro!: that)
qed

lemma publisher_ok_append:
  assumes "publisher_ok lib config rs pub" and "sealed_stream lib (open_crypto config) rs' ws out"
    and "numbered (open_stream_id config) (length rs) rs'"
    and "pub_sent pub' = pub_sent pub @ out" and "pub_transcript pub' = open_transcript lib config (rs @ rs')"
    and "unat (pub_next_seq pub') = Suc (length rs + length rs')" and "pub_crypto pub' = pub_crypto pub"
    and "pub_max_plaintext_frame_len pub' = pub_max_plaintext_frame_len pub"
  shows "publisher_ok lib config (rs @ rs') pub'"
proof -
  obtain ctl ws0 out0 where "write_control_frame (publish_envelope (open_stream_id config) (open_start_event_id config)) = Inr ctl"
      "sealed_stream lib (open_crypto config) rs ws0 out0" "pub_sent pub = ctl @ out0"
    using assms(1) by (auto simp: publisher_ok_def)
  then show ?thesis
    using assms sealed_stream_append [of lib "open_crypto config" rs ws0 out0 rs' ws out]
    by (fastforce simp: publisher_ok_def numbered_append)
qed

lemma append_unreserved:
  assumes ok: "publisher_ok lib config rs pub"
    and frames: "number_frames (tr_stream_id (pub_transcript pub)) (pub_next_seq pub) frames = (rs', next_seq)"
    and room: "length rs + length frames < 2 ^ 64 - 1"
    and sent: "publish_records lib rs' 0 (pub\<lparr>pub_next_seq := next_seq\<rparr>) = (Inr k, pub')"
  shows "publisher_ok lib config (rs @ rs') pub' \<and> map frame_of rs' = frames"
proof -
  have p: "tr_stream_id (pub_transcript pub) = open_stream_id config" "unat (pub_next_seq pub) = Suc (length rs)"
    "pub_transcript pub = open_transcript lib config rs" "pub_crypto pub = open_crypto config"
    using ok by (auto simp: publisher_ok_def)
  note N = number_frames_shape [OF frames [unfolded p(1)] p(2) room]
  then have "length rs' = length frames" by (metis length_map)
  moreover obtain ws out where "sealed_stream lib (open_crypto config) rs' ws out"
      "pub' = pub\<lparr>pub_next_seq := next_seq, pub_sent := pub_sent pub @ out,
        pub_transcript := open_transcript lib config (rs @ rs')\<rparr>"
    using publish_records_Inr [OF sent] p by (auto simp: open_transcript_append)
  ultimately show ?thesis using publisher_ok_append [OF ok, of rs' ws out pub'] N by simp
qed

lemma confirm_for_publisher_Inr:
  assumes "confirm_for_publisher (Some rpr) pub s = (Inr u, pub', s')" and "pub_crypto pub = Some c"
    and "publisher_sequence_store c = Some st"
  shows "\<exists>w. ps_confirm st s (rpr_context_id rpr) (rpr_token rpr) = (Inr w, s') \<and>
    pub' = pub\<lparr>pub_transcript := from_state (tr_stream_id (pub_transcript pub)) (tr_start_event_id (pub_transcript pub))
        (rpr_transcript_hash rpr) (rpr_chunk_count rpr), pub_next_seq := saturating_add (rpr_chunk_count rpr) 1\<rparr>"
  using assms by (auto simp: confirm_for_publisher_def confirm_reserved_def split: prod.splits sum.splits)

text \<open>The state of the publisher and of its store, for a publisher with this store or without encryption.\<close>
definition append_inv ::
  "'s publisher_store \<Rightarrow> ('s \<Rightarrow> bool) \<Rightarrow> crypto_lib \<Rightarrow> 's OpenBrokerTextPublisher \<Rightarrow> AgentTextStreamRecordV1 list
     \<Rightarrow> 's BrokerTextPublisher \<Rightarrow> 's \<Rightarrow> bool" where
  "append_inv st Inv lib config rs pub s =
     (publisher_ok lib config rs pub \<and>
      (case open_crypto config of
         None \<Rightarrow> True
       | Some c \<Rightarrow> publisher_sequence_store c = Some st \<and> Inv s \<and> store_follows lib st (crypto_context c) config s pub))"

context continuing_store
begin

lemma append_reserved:
  assumes ok: "publisher_ok lib config rs pub" and follows: "store_follows lib st ctx config s pub" and "inv s"
    and c: "open_crypto config = Some c" "publisher_sequence_store c = Some st" "crypto_context c = ctx"
    and res: "reserve_for_publisher lib pub frames token s = (Inr (Some rpr), s1)"
    and room: "length rs + length frames < 2 ^ 64 - 1"
    and sealed: "sealed_stream lib (open_crypto config) (rpr_records rpr) ws out"
    and pub1: "pub1 = pub\<lparr>pub_sent := pub_sent pub @ out, pub_transcript := open_transcript lib config (rs @ rpr_records rpr)\<rparr>"
    and con: "confirm_for_publisher (Some rpr) pub1 s1 = (Inr u, pub2, s2)"
  shows "publisher_ok lib config (rs @ rpr_records rpr) pub2 \<and> store_follows lib st ctx config s2 pub2 \<and> inv s2 \<and>
    map frame_of (rpr_records rpr) = frames"
proof -
  let ?H = "sha256 lib" and ?sid = "open_stream_id config" and ?eid = "open_start_event_id config"
  let ?rs = "rpr_records rpr" and ?id = "sha256 lib (encode_key_context ctx)"
  let ?snap = "\<lparr>snap_next_seq = pub_next_seq pub, snap_transcript_hash = tr_hash (pub_transcript pub),
    snap_chunk_count = tr_chunk_count (pub_transcript pub)\<rparr>"
  have p: "unat (pub_next_seq pub) = Suc (length rs)" "pub_transcript pub = open_transcript lib config rs"
      "pub_crypto pub = Some c"
    using ok c by (auto simp: publisher_ok_def)
  have rr: "reserve_publisher_records ?H (Some st) ctx ?sid ?eid frames token s = (Inr rpr, s1)"
    using res c p by (auto simp: reserve_for_publisher_def split: prod.splits sum.splits)
  from reserve_following [OF rr, of ?snap] follows obtain t next_seq h v where
    R: "build_records ?H ?sid (pub_next_seq pub) 0 (pub_transcript pub) frames = Inr (?rs, t)"
      "rpr_transcript_hash rpr = tr_hash t" "rpr_chunk_count rpr = tr_chunk_count t" "rpr_context_id rpr = ?id" "rpr_token rpr = token"
      "checked_add (pub_next_seq pub) (word_of_nat (length ?rs)) = Some next_seq"
      "ps_reserve st s ?id h \<lparr>resv_expected = ?snap, resv_resulting = \<lparr>snap_next_seq = next_seq,
         snap_transcript_hash = tr_hash t, snap_chunk_count = tr_chunk_count t\<rparr>, resv_token = token\<rparr> = (Inr v, s1)"
    unfolding store_follows_def using from_state_same [of "pub_transcript pub"] p(2) by simp blast
  have B: "numbered ?sid (length rs) ?rs" "map frame_of ?rs = frames" "t = open_transcript lib config (rs @ ?rs)"
    using build_records_shape [OF R(1), of "length rs"] room p by (auto simp: open_transcript_append)
  then have len: "length ?rs = length frames" by (metis length_map)
  have small: "unat (word_of_nat (length rs) :: u64) = length rs"
      "unat (word_of_nat (length ?rs) :: u64) = length ?rs"
      "unat (word_of_nat (length rs + length ?rs) :: u64) = length rs + length ?rs"
    using room len by (intro unat_word_of_nat; simp)+
  have nxt: "unat next_seq = Suc (length rs + length ?rs)"
  proof -
    have "unat next_seq = unat (pub_next_seq pub) + unat (word_of_nat (length ?rs) :: u64)"
      using R(6) by (simp only: checked_add_Some)
    then show ?thesis using p(1) small(2) by simp
  qed
  have count: "tr_chunk_count t = word_of_nat (length rs + length ?rs)" "tr_chunk_count (pub_transcript pub) = word_of_nat (length rs)"
    by (simp_all add: B(3) p(2))
  have total: "unat (tr_chunk_count t) = length rs + length ?rs" using small(3) by (simp only: count(1))
  have wf: "wf_reservation \<lparr>resv_expected = ?snap, resv_resulting = \<lparr>snap_next_seq = next_seq,
      snap_transcript_hash = tr_hash t, snap_chunk_count = tr_chunk_count t\<rparr>, resv_token = token\<rparr>"
    using nxt p(1) small(1) total by (simp add: wf_reservation_def consistent_def count(2) word_le_nat_alt)
  obtain w where confirm: "ps_confirm st s1 ?id token = (Inr w, s2)"
    and pub2: "pub2 = pub1\<lparr>pub_transcript := t, pub_next_seq := saturating_add (tr_chunk_count t) 1\<rparr>"
    using confirm_for_publisher_Inr [OF con _ c(2)] p(3) R(2-5) from_state_same [of t] B(3) by (simp add: pub1)
  have sat: "saturating_add (tr_chunk_count t) 1 = next_seq"
    using room len by (simp add: word_unat_eq_iff unat_saturating_add total nxt)
  have fields: "pub_next_seq pub2 = next_seq" "pub_transcript pub2 = t" by (simp_all add: pub2 sat)
  have "publisher_ok lib config (rs @ ?rs) pub2"
    using nxt by (intro publisher_ok_append [OF ok sealed B(1)]) (simp_all add: fields B(3), simp_all add: pub2 pub1)
  moreover have "inv s2"
    using reserve_granted [OF assms(3) wf R(7)] confirm_effect [OF _ confirm] by blast
  moreover have "store_follows lib st ctx config s2 pub2"
    unfolding store_follows_def
  proof (intro allI impI)
    fix loaded assume "ps_load st s2 ?id = Inr loaded"
    with load_confirmed [OF assms(3) wf R(7)] confirm
    have "loaded = Some \<lparr>snap_next_seq = next_seq, snap_transcript_hash = tr_hash t, snap_chunk_count = tr_chunk_count t\<rparr>"
      by simp
    then show "expected_snapshot (tr_hash (new_transcript ?H ?sid ?eid)) loaded = \<lparr>snap_next_seq = pub_next_seq pub2,
        snap_transcript_hash = tr_hash (pub_transcript pub2), snap_chunk_count = tr_chunk_count (pub_transcript pub2)\<rparr>"
      by (simp add: expected_snapshot_def fields)
  qed
  ultimately show ?thesis using B(2) by blast
qed

lemma append_frames_ok:
  assumes ok: "append_inv st inv lib config rs pub s" and room: "length rs + length frames < 2 ^ 64 - 1"
    and res: "reserve_for_publisher lib pub frames token s = (Inr reservation, s1)"
    and recs: "(case reservation of
        Some rpr \<Rightarrow> (rpr_records rpr, pub_next_seq pub)
      | None \<Rightarrow> number_frames (tr_stream_id (pub_transcript pub)) (pub_next_seq pub) frames) = (rs', next_seq)"
    and sent: "publish_records lib rs' 0 (pub\<lparr>pub_next_seq := next_seq\<rparr>) = (Inr k, pub1)"
    and con: "confirm_for_publisher reservation pub1 s1 = (Inr u, pub2, s2)"
  shows "append_inv st inv lib config (rs @ rs') pub2 s2 \<and> map frame_of rs' = frames"
proof (cases "open_crypto config")
  case None
  then have "pub_crypto pub = None" using ok by (simp add: append_inv_def publisher_ok_def)
  then have "reservation = None" using res by (simp add: reserve_for_publisher_def)
  then show ?thesis
    using append_unreserved [of lib config rs pub frames rs' next_seq k pub1] ok None room recs sent con
    by (auto simp: append_inv_def confirm_for_publisher_def)
next
  case (Some c)
  have p: "publisher_ok lib config rs pub" "publisher_sequence_store c = Some st" "inv s"
      "store_follows lib st (crypto_context c) config s pub"
    using ok Some by (auto simp: append_inv_def)
  then have "pub_crypto pub = Some c" "pub_transcript pub = open_transcript lib config rs"
    using Some by (auto simp: publisher_ok_def)
  note q = this
  then obtain rpr where rpr: "reservation = Some rpr"
    using res by (auto simp: reserve_for_publisher_def split: prod.splits sum.splits)
  then have rs': "rs' = rpr_records rpr" "next_seq = pub_next_seq pub" using recs by auto
  obtain ws out where "sealed_stream lib (open_crypto config) (rpr_records rpr) ws out"
      "pub1 = pub\<lparr>pub_sent := pub_sent pub @ out, pub_transcript := open_transcript lib config (rs @ rpr_records rpr)\<rparr>"
    using publish_records_Inr [OF sent] q Some by (auto simp: rs' open_transcript_append)
  from append_reserved [OF p(1,4,3) Some p(2) refl res [unfolded rpr] room this con [unfolded rpr]]
  show ?thesis using p(2) Some by (simp add: append_inv_def rs'(1))
qed

lemma append_record_text_ok:
  assumes ok: "append_inv st inv lib config rs pub s"
    and room: "length rs + length (op_frames (open_max_plaintext_frame_len config) (AppendRecordText ty text m token)) < 2 ^ 64 - 1"
    and app: "append_record_text lib ty text m token pub s = (Inr k, pub', s')"
  shows "\<exists>rs'. append_inv st inv lib config (rs @ rs') pub' s' \<and>
    map frame_of rs' = op_frames (open_max_plaintext_frame_len config) (AppendRecordText ty text m token)"
proof -
  define frames where "frames = op_frames (open_max_plaintext_frame_len config) (AppendRecordText ty text m token)"
  have split: "map (\<lambda>chunk. (ty, chunk))
      (split_text_deltas text (min m (effective_plaintext_cap (open_max_plaintext_frame_len config)))) = frames"
    by (simp add: frames_def)
  have cap: "pub_max_plaintext_frame_len pub = open_max_plaintext_frame_len config"
    using ok by (simp add: append_inv_def publisher_ok_def)
  obtain reservation s1 rs' next_seq pub1 where A:
      "(if frames = [] then (Inr None, s) else reserve_for_publisher lib pub frames token s) = (Inr reservation, s1)"
      "(case reservation of
          Some rpr \<Rightarrow> (rpr_records rpr, pub_next_seq pub)
        | None \<Rightarrow> number_frames (tr_stream_id (pub_transcript pub)) (pub_next_seq pub) frames) = (rs', next_seq)"
      "publish_records lib rs' 0 (pub\<lparr>pub_next_seq := next_seq\<rparr>) = (Inr k, pub1)"
      "confirm_for_publisher reservation pub1 s1 = (Inr (), pub', s')"
    using app by (auto simp: append_record_text_def cap Let_def split split: if_splits prod.splits sum.splits)
  show ?thesis
  proof (cases "frames = []")
    case True
    then show ?thesis using A ok by (auto simp: frames_def confirm_for_publisher_def intro!: exI [of _ "[]"])
  next
    case False
    then show ?thesis using append_frames_ok [OF ok room [folded frames_def] _ A(2-4)] A(1) by (auto simp: frames_def)
  qed
qed

lemma append_abort_ok:
  assumes ok: "append_inv st inv lib config rs pub s" and room: "length rs + 1 < 2 ^ 64 - 1"
    and app: "append_abort lib token pub s = (Inr k, pub', s')"
  shows "\<exists>rs'. append_inv st inv lib config (rs @ rs') pub' s' \<and> map frame_of rs' = [(RECORD_ABORT, [])]"
proof -
  obtain reservation s1 r pub1 where A:
      "reserve_for_publisher lib pub [(RECORD_ABORT, [])] token s = (Inr reservation, s1)"
      "(case reservation of
          None \<Rightarrow> r = new_record (tr_stream_id (pub_transcript pub)) (pub_next_seq pub) RECORD_ABORT []
        | Some rpr \<Rightarrow> \<exists>more. rpr_records rpr = r # more)"
      "validate_record r = Inr ()"
      "publish_record lib r (if reservation = None then pub\<lparr>pub_next_seq := pub_next_seq pub + 1\<rparr> else pub) = Inr pub1"
      "confirm_for_publisher reservation pub1 s1 = (Inr k, pub', s')"
    using app
    by (auto simp: append_abort_def Let_def split: prod.splits sum.splits option.splits list.splits if_splits)
  have one: "rpr_records rpr = [r]" if "reservation = Some rpr" for rpr
    using length_reserved [of lib pub "[(RECORD_ABORT, [])]" token s rpr s1] A(1,2) that by auto
  let ?next = "if reservation = None then pub_next_seq pub + 1 else pub_next_seq pub"
  have recs: "(case reservation of
      Some rpr \<Rightarrow> (rpr_records rpr, pub_next_seq pub)
    | None \<Rightarrow> number_frames (tr_stream_id (pub_transcript pub)) (pub_next_seq pub) [(RECORD_ABORT, [])]) = ([r], ?next)"
    using A(2) one by (auto split: option.splits)
  have sent: "publish_records lib [r] 0 (pub\<lparr>pub_next_seq := ?next\<rparr>) = (Inr 1, pub1)"
    using A(3,4) by (auto split: if_splits)
  have "length rs + length [(RECORD_ABORT, [] :: bytes)] < 2 ^ 64 - 1" using room by simp
  from append_frames_ok [OF ok this A(1) recs sent A(5)] show ?thesis by (rule exI [of _ "[r]"])
qed

lemma publisher_run_ok:
  assumes "append_inv st inv lib config rs pub s" and "publisher_run lib ops pub s = (Inr u, pub', s')"
    and "length rs + length (concat (map (op_frames (open_max_plaintext_frame_len config)) ops)) < 2 ^ 64 - 1"
  shows "\<exists>rs'. append_inv st inv lib config (rs @ rs') pub' s' \<and>
    map frame_of rs' = concat (map (op_frames (open_max_plaintext_frame_len config)) ops)"
  using assms
proof (induction ops arbitrary: rs pub s)
  case Nil
  then show ?case by (intro exI [of _ "[]"]) simp
next
  case (Cons act acts)
  let ?fr = "op_frames (open_max_plaintext_frame_len config)"
  obtain k pub1 s1 where step: "publisher_step lib act pub s = (Inr k, pub1, s1)"
    and rest: "publisher_run lib acts pub1 s1 = (Inr u, pub', s')"
    using Cons.prems(2) by (auto split: prod.splits sum.splits)
  have room: "length rs + length (?fr act) < 2 ^ 64 - 1" using Cons.prems(3) by simp
  obtain rs1 where rs1: "append_inv st inv lib config (rs @ rs1) pub1 s1" "map frame_of rs1 = ?fr act"
  proof (cases act)
    case (AppendRecordText ty body m token)
    then show thesis
      using append_record_text_ok [OF Cons.prems(1) room [unfolded AppendRecordText]] step that
      by (auto split: prod.splits sum.splits)
  next
    case (AppendAbort token)
    then have app: "append_abort lib token pub s = (Inr k, pub1, s1)" using step by simp
    have "length rs + 1 < 2 ^ 64 - 1" using room AppendAbort by simp
    from append_abort_ok [OF Cons.prems(1) this app] obtain rs' where
        "append_inv st inv lib config (rs @ rs') pub1 s1" "map frame_of rs' = [(RECORD_ABORT, [])]" by (elim exE conjE)
    then show thesis using that [of rs'] AppendAbort by simp
  qed
  have "length rs1 = length (?fr act)" using rs1(2) by (metis length_map)
  then obtain rs2 where "append_inv st inv lib config ((rs @ rs1) @ rs2) pub' s'" "map frame_of rs2 = concat (map ?fr acts)"
    using Cons.IH [OF rs1(1) rest] Cons.prems(3) by auto
  then show ?case using rs1(2) by (intro exI [of _ "rs1 @ rs2"]) simp
qed

lemma connect_ok:
  assumes "connect_publisher lib config = Inr pub"
    and "\<forall>c. open_crypto config = Some c \<longrightarrow> publisher_sequence_store c = Some st \<and> inv s \<and>
      ps_load st s (sha256 lib (encode_key_context (crypto_context c))) = Inr None"
  shows "append_inv st inv lib config [] pub s"
proof -
  obtain ctl where "write_control_frame (publish_envelope (open_stream_id config) (open_start_event_id config)) = Inr ctl"
    and pub: "pub = \<lparr>pub_sent = ctl,
            pub_transcript = new_transcript (sha256 lib) (open_stream_id config) (open_start_event_id config),
            pub_next_seq = 1, pub_crypto = open_crypto config,
            pub_max_plaintext_frame_len = open_max_plaintext_frame_len config\<rparr>"
    using assms(1) by (auto simp: connect_publisher_def result_bind_Inr)
  then have "publisher_ok lib config [] pub"
    by (force simp: publisher_ok_def open_transcript_def intro: exI [of _ "[]"])
  moreover have "store_follows lib st (crypto_context c) config s pub" if "open_crypto config = Some c" for c
    using assms(2) that by (auto simp: store_follows_def expected_snapshot_def pub new_transcript_def)
  ultimately show ?thesis using assms(2) by (auto simp: append_inv_def split: option.splits)
qed

end

lemma publisher_stream:
  assumes "connect_publisher lib config = Inr pub0" and "publisher_run lib ops pub0 s = (Inr (), pub, s')"
    and "\<forall>c. open_crypto config = Some c \<longrightarrow> publisher_sequence_store c = Some sqlite_store \<and> sqlite_inv s \<and>
      s (sha256 lib (encode_key_context (crypto_context c))) = None"
    and "length (concat (map (op_frames (open_max_plaintext_frame_len config)) ops)) < 2 ^ 64 - 1"
  shows "\<exists>rs ws ctl out. numbered (open_stream_id config) 0 rs \<and>
    map frame_of rs = concat (map (op_frames (open_max_plaintext_frame_len config)) ops) \<and>
    write_control_frame (publish_envelope (open_stream_id config) (open_start_event_id config)) = Inr ctl \<and>
    sealed_stream lib (open_crypto config) rs ws out \<and> pub_sent pub = ctl @ out \<and>
    finish_publisher pub = \<lparr>sent_stream_id = open_stream_id config,
      sent_transcript_hash = tr_hash (open_transcript lib config rs), sent_chunk_count = word_of_nat (length rs)\<rparr>"
proof -
  have "append_inv sqlite_store sqlite_inv lib config [] pub0 s"
    using assms(3) by (intro sqlite_continuing.connect_ok [OF assms(1)])
      (auto simp: sqlite_store_def sqlite_load_def agent_stream_publisher_state_def)
  from sqlite_continuing.publisher_run_ok [OF this assms(2)] assms(4)
  obtain rs where "publisher_ok lib config rs pub" "map frame_of rs = concat (map (op_frames (open_max_plaintext_frame_len config)) ops)"
    by (auto simp: append_inv_def)
  then show ?thesis by (fastforce simp: publisher_ok_def finish_publisher_def)
qed

text \<open>
  C13: A publisher's stream is what it was asked to append.  For a publisher without encryption, or with the
  durable sequence store in a context not used before, after any sequence of successful text, status and abort
  appends: the records it wrote are numbered consecutively from one, their types and texts are those
  asked for, the bytes on its stream are the control frame followed by the frames of these records as
  sealed, and the transcript it reports is the transcript of these records.\<close>

theorem publisher_stream_exact:
  assumes "connect_publisher lib config = Inr pub0" and "publisher_run lib ops pub0 s = (Inr (), pub, s')"
    and "\<forall>c. open_crypto config = Some c \<longrightarrow> publisher_sequence_store c = Some sqlite_store \<and> sqlite_inv s \<and>
      s (sha256 lib (encode_key_context (crypto_context c))) = None"
    and "length (concat (map (op_frames (open_max_plaintext_frame_len config)) ops)) < 2 ^ 64 - 1"
  shows "\<exists>rs ws ctl out. numbered (open_stream_id config) 0 rs \<and>
    map frame_of rs = concat (map (op_frames (open_max_plaintext_frame_len config)) ops) \<and>
    write_control_frame (publish_envelope (open_stream_id config) (open_start_event_id config)) = Inr ctl \<and>
    sealed_stream lib (open_crypto config) rs ws out \<and> pub_sent pub = ctl @ out \<and>
    finish_publisher pub = \<lparr>sent_stream_id = open_stream_id config,
      sent_transcript_hash = tr_hash (open_transcript lib config rs), sent_chunk_count = word_of_nat (length rs)\<rparr>"
  by (rule publisher_stream [OF assms])

definition example_open :: "sequence_table OpenBrokerTextPublisher" where
  "example_open = \<lparr>open_stream_id = replicate 32 2, open_start_event_id = replicate 32 4,
     open_crypto = Some \<lparr>stream_secret = replicate 32 1,
        crypto_context = \<lparr>kc_group_id = [3], kc_stream_id = replicate 32 2, kc_mls_epoch = 7,
          kc_sender_id = [5], kc_start_event_id = replicate 32 4\<rparr>,
        publisher_sequence_store = Some sqlite_store\<rparr>,
     open_max_plaintext_frame_len = None\<rparr>"

lemma example_connect:
  "\<exists>pub0. connect_publisher example_lib example_open = Inr pub0 \<and> pub_crypto pub0 = open_crypto example_open \<and>
     pub_max_plaintext_frame_len pub0 = None \<and>
     pub_transcript pub0 = new_transcript tail_hash (replicate 32 2) (replicate 32 4) \<and> pub_next_seq pub0 = 1"
  by (simp add: connect_publisher_def example_open_def example_lib_def write_control_frame_def encode_control_def publish_envelope_def
      validate_bounds_def MAX_STREAM_ID_LEN_def write_bytes_frame_def encode_quic_varint_def)

lemma example_publish_record:
  assumes "pub_crypto pub = open_crypto example_open" and "r = new_record (replicate 32 2) seq ty [b]"
  shows "\<exists>f. publish_record example_lib r pub = Inr (pub\<lparr>pub_sent := pub_sent pub @ f,
    pub_transcript := append_transcript tail_hash (pub_transcript pub) seq ty [b]\<rparr>)"
  using assms
  by (simp add: publish_record_def example_lib_def example_open_def wire_record_def encrypt_record_def write_record_frame_def
      write_bytes_frame_def validate_crypto_record_context_def record_cipher_def derive_record_key_def derive_record_nonce_def
      derive_bytes_def encode_record_def encoded_len_def AGENT_TEXT_STREAM_SECRET_LEN_def PROFILE_STREAM_ID_LEN_def
      START_EVENT_ID_LEN_def example_send_defs encode_quic_varint_def)
     (rule exI, rule refl)


lemma example_reserved:
  assumes "pub_crypto pub = open_crypto example_open" and "pub_transcript pub = new_transcript tail_hash (replicate 32 2) (replicate 32 4)"
  shows "\<exists>rpr s1. reserve_for_publisher example_lib pub [(RECORD_TEXT_DELTA, [72])] [9] Map.empty = (Inr (Some rpr), s1) \<and>
    rpr_records rpr = [new_record (replicate 32 2) 1 RECORD_TEXT_DELTA [72]] \<and>
    (\<forall>pub1. pub_crypto pub1 = open_crypto example_open \<longrightarrow>
       (\<exists>pub2 s2. confirm_for_publisher (Some rpr) pub1 s1 = (Inr (), pub2, s2)))"
  using assms
  by (simp add: reserve_for_publisher_def example_lib_def example_open_def sqlite_store_def sqlite_load_def sqlite_reserve_def
      agent_stream_publisher_state_def reserve_agent_stream_publisher_records_def commit_reservation_def checked_sub_def
      confirm_agent_stream_publisher_reservation_def confirm_for_publisher_def MAX_AGENT_STREAM_PUBLISHER_CONTEXTS_def
      saturating_add_def i64_max_def new_transcript_def append_transcript_def from_state_def example_send_defs)

abbreviation example_appends :: "publisher_op list" where
  "example_appends \<equiv> [AppendRecordText RECORD_TEXT_DELTA [72] 1 [9]]"

lemma example_op_frames: "concat (map (op_frames (open_max_plaintext_frame_len example_open)) example_appends) = [(RECORD_TEXT_DELTA, [72])]"
  by (simp add: example_send_defs example_open_def)

lemma example_publisher_run:
  "\<exists>pub0 pub s'. connect_publisher example_lib example_open = Inr pub0 \<and>
     publisher_run example_lib example_appends pub0 Map.empty = (Inr (), pub, s')"
proof -
  let ?r = "new_record (replicate 32 2) 1 RECORD_TEXT_DELTA [72]"
  obtain pub0 where pub0: "connect_publisher example_lib example_open = Inr pub0" "pub_crypto pub0 = open_crypto example_open"
      "pub_max_plaintext_frame_len pub0 = None" "pub_transcript pub0 = new_transcript tail_hash (replicate 32 2) (replicate 32 4)"
    using example_connect by blast
  obtain rpr s1 where rpr: "reserve_for_publisher example_lib pub0 [(RECORD_TEXT_DELTA, [72])] [9] Map.empty = (Inr (Some rpr), s1)"
      "rpr_records rpr = [?r]" "\<And>pub1. pub_crypto pub1 = open_crypto example_open \<Longrightarrow>
        \<exists>pub2 s2. confirm_for_publisher (Some rpr) pub1 s1 = (Inr (), pub2, s2)"
    using example_reserved [OF pub0(2,4)] by blast
  obtain f where "publish_record example_lib ?r pub0 = Inr (pub0\<lparr>pub_sent := pub_sent pub0 @ f,
      pub_transcript := append_transcript tail_hash (pub_transcript pub0) 1 RECORD_TEXT_DELTA [72]\<rparr>)"
    using example_publish_record [OF pub0(2) refl] by blast
  moreover have "validate_record ?r = Inr ()" by (simp add: example_send_defs)
  ultimately obtain pub1 where sent: "publish_records example_lib [?r] 0 pub0 = (Inr 1, pub1)"
      "pub_crypto pub1 = open_crypto example_open"
    using pub0(2) by simp
  obtain pub s' where con: "confirm_for_publisher (Some rpr) pub1 s1 = (Inr (), pub, s')" using rpr(3) [OF sent(2)] by blast
  have "pub0\<lparr>pub_next_seq := pub_next_seq pub0\<rparr> = pub0" by simp
  then have "publisher_run example_lib example_appends pub0 Map.empty = (Inr (), pub, s')"
    using rpr(1,2) sent(1) con pub0(3) example_op_frames
    by (simp add: append_record_text_def example_open_def Let_def MAX_PLAINTEXT_FRAME_LEN_def del: publish_records.simps)
  then show ?thesis using pub0(1) by blast
qed

lemma example_fresh:
  "open_crypto example_open = Some c \<Longrightarrow> publisher_sequence_store c = Some sqlite_store \<and> sqlite_inv Map.empty"
  using empty_stores by (auto simp: example_open_def)

theorem publisher_stream_exact_witness:
  "\<exists>pub0 pub s' rs. connect_publisher example_lib example_open = Inr pub0 \<and>
     publisher_run example_lib [AppendRecordText RECORD_TEXT_DELTA [72] 1 [9]] pub0 Map.empty = (Inr (), pub, s') \<and>
     numbered (replicate 32 2) 0 rs \<and> map frame_of rs = [(RECORD_TEXT_DELTA, [72])] \<and>
     sent_transcript_hash (finish_publisher pub) = tr_hash (open_transcript example_lib example_open rs)"
proof -
  obtain pub0 pub s' where run: "connect_publisher example_lib example_open = Inr pub0"
      "publisher_run example_lib example_appends pub0 Map.empty = (Inr (), pub, s')"
    using example_publisher_run by blast
  have "\<exists>rs ws ctl out. numbered (open_stream_id example_open) 0 rs \<and>
      map frame_of rs = concat (map (op_frames (open_max_plaintext_frame_len example_open)) example_appends) \<and>
      write_control_frame (publish_envelope (open_stream_id example_open) (open_start_event_id example_open)) = Inr ctl \<and>
      sealed_stream example_lib (open_crypto example_open) rs ws out \<and> pub_sent pub = ctl @ out \<and>
      finish_publisher pub = \<lparr>sent_stream_id = open_stream_id example_open,
        sent_transcript_hash = tr_hash (open_transcript example_lib example_open rs), sent_chunk_count = word_of_nat (length rs)\<rparr>"
    by (rule publisher_stream_exact [OF run]) (unfold example_op_frames, use example_fresh in auto)
  then show ?thesis using run unfolding example_op_frames by (auto simp: example_open_def)
qed

end
