(* ===== verification/Broker_Client_Correct.thy ===== *)
theory Broker_Client_Correct
  imports Broker_Client
begin

text \<open>
  Correctness of the broker clients.  The subscriber does not trust the broker: whatever bytes it is
  served, over any number of connections, it shows a prefix of what the publisher sealed.  The
  publisher numbers its records consecutively and reports the transcript of exactly these.
\<close>

section \<open>The subscriber and an untrusted broker\<close>

text \<open>Under the record key of \<open>crypto\<close>, what opens is a record of \<open>rs\<close> that was sealed with it, as it was
  sealed: the integrity an AEAD is used for.\<close>
definition only_sealed :: "crypto_lib \<Rightarrow> 's AgentTextStreamCrypto \<Rightarrow> AgentTextStreamRecordV1 list \<Rightarrow> bool" where
  "only_sealed lib crypto rs =
     (\<forall>key nonce aad c m. derive_record_key lib crypto = Inr key \<longrightarrow> aead_decrypt lib key nonce aad c = Some m \<longrightarrow>
        (\<exists>r\<in>set rs. record_cipher lib crypto r = Inr (key, nonce, aad) \<and>
           encrypt_record lib crypto r = Inr (r\<lparr>rec_plaintext_frame := c\<rparr>) \<and> rec_plaintext_frame r = m))"

lemma record_cipher_Inr:
  "record_cipher lib crypto r = Inr (key, nonce, aad) \<Longrightarrow>
     derive_record_key lib crypto = Inr key \<and> aad = record_aad lib crypto r"
  by (auto simp: record_cipher_def result_bind_Inr split: if_splits)

lemma record_aad_inj:
  assumes "record_aad lib crypto r = record_aad lib crypto r'" and "rec_stream_id r = rec_stream_id r'"
  shows "rec_seq r = rec_seq r' \<and> rec_type r = rec_type r' \<and> rec_flags r = rec_flags r'"
  using assms by (simp add: record_aad_def to_be_bytes_append_inj)

lemma valid_context_stream:
  "validate_crypto_record_context crypto r = Inr () \<Longrightarrow> rec_stream_id r = kc_stream_id (crypto_context crypto)"
  by (simp add: validate_crypto_record_context_def split: if_splits)

lemma decrypt_authentic:
  assumes sealed: "only_sealed lib crypto rs" and "decrypt_record lib crypto w = Inr p"
  shows "p \<in> set rs \<and> rec_seq p = rec_seq w"
proof -
  obtain key nonce aad m where w: "validate_crypto_record_context crypto w = Inr ()"
      "record_cipher lib crypto w = Inr (key, nonce, aad)"
      "aead_decrypt lib key nonce aad (rec_plaintext_frame w) = Some m" "p = w\<lparr>rec_plaintext_frame := m\<rparr>"
    using assms(2) by (auto simp: decrypt_record_def result_bind_Inr split: if_splits option.splits)
  note K = record_cipher_Inr [OF w(2)]
  obtain r where r: "r \<in> set rs" "record_cipher lib crypto r = Inr (key, nonce, aad)"
      "encrypt_record lib crypto r = Inr (r\<lparr>rec_plaintext_frame := rec_plaintext_frame w\<rparr>)" "rec_plaintext_frame r = m"
    using sealed K w(3) unfolding only_sealed_def by blast
  have "validate_crypto_record_context crypto r = Inr ()"
    using r(3) by (auto simp: encrypt_record_def result_bind_Inr)
  then have "rec_stream_id w = rec_stream_id r" using w(1) by (simp add: valid_context_stream)
  moreover from this have "rec_seq w = rec_seq r \<and> rec_type w = rec_type r \<and> rec_flags w = rec_flags r"
    using record_aad_inj [of lib crypto w r] K record_cipher_Inr [OF r(2)] by simp
  ultimately have "p = r" using r(4) w(4) by (cases w; cases r) simp
  moreover have "rec_seq p = rec_seq w" by (simp add: w(4))
  ultimately show ?thesis using r(1) by simp
qed

lemma numbered_nth:
  "numbered sid n rs \<Longrightarrow> i < length rs \<Longrightarrow> rec_stream_id (rs ! i) = sid \<and> unat (rec_seq (rs ! i)) = Suc (n + i)"
proof (induction rs arbitrary: n i)
  case (Cons r rs)
  then show ?case by (cases i) force+
qed simp

lemma numbered_at:
  assumes "numbered sid n rs" and "p \<in> set rs" and "unat (rec_seq p) = Suc (n + k)"
  shows "k < length rs \<and> p = rs ! k"
proof -
  obtain i where "i < length rs" "p = rs ! i" using assms(2) by (metis in_set_conv_nth)
  then show ?thesis using numbered_nth [OF assms(1), of i] assms(3) by simp
qed

text \<open>The receiver holds the first \<open>n\<close> records of \<open>rs\<close>, and its budgets account for them.\<close>
definition holds_prefix ::
  "crypto_lib \<Rightarrow> bytes \<Rightarrow> bytes \<Rightarrow> AgentTextStreamRecordV1 list \<Rightarrow> BrokerTextReceiverState \<Rightarrow> nat \<Rightarrow> bool" where
  "holds_prefix lib sid eid rs st n =
     (n \<le> length rs \<and> unat (brs_high_water st) = n \<and>
      brs_text st = concat (map delta_text (take n rs)) \<and> brs_chunks st = map chunk_of (take n rs) \<and>
      brs_transcript st = append_chunks (sha256 lib) (new_transcript (sha256 lib) sid eid) (map chunk_triple (take n rs)))"

definition budget_ok :: "AgentTextStreamReceiveLimits \<Rightarrow> AgentTextStreamRecordV1 list \<Rightarrow> BrokerTextReceiverState \<Rightarrow> bool" where
  "budget_ok limits accepted st =
     (let acc = brs_limit_state st in
      brs_limits st = limits \<and> acc_limits acc = limits \<and> length accepted \<le> unat (acc_records acc) \<and>
      acc_records acc \<le> lim_max_records limits \<and>
      sum_list (map (\<lambda>r. length (rec_plaintext_frame r)) accepted) \<le> acc_plaintext_bytes acc \<and>
      acc_plaintext_bytes acc \<le> lim_max_plaintext_bytes limits)"

lemma append_chunks_snoc:
  "append_chunks H t (cs @ [(seq, ty, f)]) = append_transcript H (append_chunks H t cs) seq ty f"
  by (induction cs arbitrary: t) auto

lemma observe_Inr:
  assumes "observe acc r = Inr acc'"
  shows "acc_limits acc' = acc_limits acc \<and> unat (acc_records acc') = Suc (unat (acc_records acc)) \<and>
    acc_records acc' \<le> lim_max_records (acc_limits acc) \<and>
    acc_plaintext_bytes acc' = acc_plaintext_bytes acc + length (rec_plaintext_frame r) \<and>
    acc_plaintext_bytes acc' \<le> lim_max_plaintext_bytes (acc_limits acc)"
  using assms by (auto simp: observe_def checked_add_Some Let_def not_less split: option.splits if_splits)

lemma begin_record_cases:
  assumes "begin_record seq st = (res, st')"
  shows "st' = st\<lparr>brs_frames_read := brs_frames_read st'\<rparr> \<and> (res = Inr True \<longrightarrow> seq = brs_high_water st + 1 \<and> \<not> seq \<le> brs_high_water st)"
  using assms by (auto simp: begin_record_def Let_def split: if_splits)


lemma accept_next:
  assumes hold: "holds_prefix lib sid eid rs st n" and budget: "budget_ok limits (take n rs) st"
    and p: "n < length rs" "p = rs ! n" "unat (rec_seq p) = Suc n"
    and acc: "broker_accept_record lib p sid' st = (res, st')"
  shows "\<exists>k. holds_prefix lib sid eid rs st' k \<and> budget_ok limits (take k rs) st' \<and>
    k = (case res of Inl _ \<Rightarrow> n | Inr _ \<Rightarrow> Suc n)"
proof (cases "observe (brs_limit_state st) p")
  case (Inl e)
  then show ?thesis using acc hold budget by (auto simp: broker_accept_record_def)
next
  case (Inr a)
  note O = observe_Inr [OF Inr]
  have take: "take (Suc n) rs = take n rs @ [p]" using p by (simp add: take_Suc_conv_app_nth)
  show ?thesis
  proof (cases "rec_stream_id p = sid'")
    case False
    then show ?thesis
      using acc hold budget O Inr by (auto simp: broker_accept_record_def holds_prefix_def budget_ok_def Let_def)
  next
    case True
    then have st': "st' = st\<lparr>brs_limit_state := a, brs_high_water := rec_seq p, brs_text := brs_text st @ delta_text p,
        brs_transcript := append_transcript (sha256 lib) (brs_transcript st) (rec_seq p) (rec_type p) (rec_plaintext_frame p),
        brs_chunks := brs_chunks st @ [chunk_of p]\<rparr>" and "res = Inr (chunk_of p)"
      using acc Inr by (auto simp: broker_accept_record_def Let_def chunk_of_def delta_text_def)
    moreover have "holds_prefix lib sid eid rs st' (Suc n)"
      using hold p unfolding st' holds_prefix_def take by (simp add: append_chunks_snoc chunk_triple_def)
    moreover have "budget_ok limits (take (Suc n) rs) st'"
      using budget O p(1) unfolding st' budget_ok_def take Let_def by auto
    ultimately show ?thesis by (intro exI [of _ "Suc n"]) simp
  qed
qed

text \<open>What the subscriber keeps between two records and between two connections.\<close>
definition receiver_ok ::
  "crypto_lib \<Rightarrow> bytes \<Rightarrow> bytes \<Rightarrow> AgentTextStreamReceiveLimits \<Rightarrow> AgentTextStreamRecordV1 list
     \<Rightarrow> BrokerTextReceiverState \<Rightarrow> bool" where
  "receiver_ok lib sid eid limits rs st =
     (\<exists>n. holds_prefix lib sid eid rs st n \<and> budget_ok limits (take n rs) st)"

lemma subscription_step_ok:
  assumes sealed: "only_sealed lib crypto rs" and num: "numbered sid 0 rs"
    and ok: "receiver_ok lib sid eid limits rs st" and c: "sub_crypto config = Some crypto"
    and step: "subscription_step lib config w st = (res, st')"
  shows "receiver_ok lib sid eid limits rs st'"
proof -
  obtain b st1 where bg: "begin_record (rec_seq w) st = (b, st1)" by force
  note B = begin_record_cases [OF bg]
  obtain n where n: "holds_prefix lib sid eid rs st n" "budget_ok limits (take n rs) st"
    using ok by (auto simp: receiver_ok_def)
  have n1: "holds_prefix lib sid eid rs st1 n" "budget_ok limits (take n rs) st1"
    using n by (subst conjunct1 [OF B], simp add: holds_prefix_def budget_ok_def)+
  then have ok1: "receiver_ok lib sid eid limits rs st1" by (auto simp: receiver_ok_def)
  show ?thesis
  proof (cases "b = Inr True \<and> (\<exists>p. decrypt_record lib crypto w = Inr p)")
    case False
    then have "st' = st1"
      using step bg c by (auto simp: subscription_step_def split: sum.splits bool.splits)
    then show ?thesis using ok1 by simp
  next
    case True
    then obtain p where p: "b = Inr True" "decrypt_record lib crypto w = Inr p" by blast
    note A = decrypt_authentic [OF sealed p(2)]
    have w: "rec_seq w = brs_high_water st + 1" "brs_high_water st < rec_seq w" using B p(1) by auto
    then have "unat (rec_seq w) = Suc (unat (brs_high_water st))"
      by (simp add: word_less_nat_alt unat_plus_if_size word_size split: if_splits)
    then have "unat (rec_seq p) = Suc (0 + n)" using A n(1) by (simp add: holds_prefix_def)
    note N = this numbered_at [OF num conjunct1 [OF A] this]
    obtain r st2 where acc: "broker_accept_record lib p (sub_stream_id config) st1 = (r, st2)" by force
    have "st' = st2"
      using step bg c p acc by (auto simp: subscription_step_def split: sum.splits)
    then show ?thesis
      using accept_next [OF n1 _ _ _ acc] N unfolding receiver_ok_def by auto
  qed
qed

lemma subscription_loop_ok:
  assumes "only_sealed lib crypto rs" and "numbered sid 0 rs" and "sub_crypto config = Some crypto"
  shows "receiver_ok lib sid eid limits rs st \<Longrightarrow>
    receiver_ok lib sid eid limits rs (snd (subscription_loop lib config m recv st))"
proof (induction recv arbitrary: st rule: measure_induct_rule [of "\<lambda>recv. length (recv_bytes recv)"])
  case (less recv)
  note step_ok = subscription_step_ok [OF assms(1,2) less.prems assms(3)]
  have "receiver_ok lib sid eid limits rs (snd (subscription_loop lib config m recv' st'))"
    if "read_record_frame m recv = Inr (Some (w, recv'))" "subscription_step lib config w st = (Inr u, st')" for w recv' u st'
    using less.IH [OF read_record_frame_shorter [OF that(1)] step_ok [OF that(2)]] .
  then show ?case
    using less.prems step_ok
    by (subst subscription_loop.simps) (auto split: sum.splits option.splits prod.splits)
qed

section \<open>A complete stream is received whole\<close>

text \<open>A subscriber that has accepted the first \<open>n\<close> records of \<open>rs\<close> and nothing else.\<close>
definition accepted_so_far ::
  "crypto_lib \<Rightarrow> bytes \<Rightarrow> bytes \<Rightarrow> AgentTextStreamReceiveLimits \<Rightarrow> AgentTextStreamRecordV1 list \<Rightarrow> BrokerTextReceiverState \<Rightarrow> nat \<Rightarrow> bool" where
  "accepted_so_far lib sid eid limits rs st n =
     (holds_prefix lib sid eid rs st n \<and> budget_ok limits (take n rs) st \<and> unat (brs_frames_read st) = n \<and>
      unat (acc_records (brs_limit_state st)) = n \<and>
      acc_plaintext_bytes (brs_limit_state st) = sum_list (map (\<lambda>r. length (rec_plaintext_frame r)) (take n rs)))"

lemma observe_next:
  assumes "accepted_so_far lib sid eid limits rs st n" and "n < length rs" and "length rs \<le> unat (lim_max_records limits)"
    and "sum_list (map (\<lambda>r. length (rec_plaintext_frame r)) rs) \<le> min (lim_max_plaintext_bytes limits) USIZE_MAX"
  shows "\<exists>acc. observe (brs_limit_state st) (rs ! n) = Inr acc"
proof -
  let ?acc = "brs_limit_state st" and ?len = "\<lambda>r. length (rec_plaintext_frame r)"
  have a: "acc_limits ?acc = limits" "unat (acc_records ?acc) < unat (lim_max_records limits)"
      "acc_plaintext_bytes ?acc = sum_list (map ?len (take n rs))"
    using assms(1-3) by (auto simp: accepted_so_far_def budget_ok_def Let_def)
  have "sum_list (map ?len rs) = sum_list (map ?len (take n rs)) + (?len (rs ! n) + sum_list (map ?len (drop (Suc n) rs)))"
    using arg_cong [OF id_take_nth_drop [OF assms(2)], of "\<lambda>xs. sum_list (map ?len xs)"] by simp
  then have "acc_plaintext_bytes ?acc + ?len (rs ! n) \<le> min (lim_max_plaintext_bytes limits) USIZE_MAX"
    using assms(4) a(3) by linarith
  then show ?thesis using checked_succ [OF a(2)] a(1) by (simp add: observe_def not_less)
qed

lemma subscription_accepts:
  assumes st: "accepted_so_far lib sid eid limits rs st n" and n: "n < length rs" and num: "numbered sid 0 rs"
    and lim: "length rs \<le> unat (lim_max_records limits)"
      "sum_list (map (\<lambda>r. length (rec_plaintext_frame r)) rs) \<le> min (lim_max_plaintext_bytes limits) USIZE_MAX"
    and w: "(case sub_crypto config of Some c \<Rightarrow> decrypt_record lib c w | None \<Rightarrow> Inr w) = Inr (rs ! n)" "rec_seq w = rec_seq (rs ! n)"
    and sid: "sub_stream_id config = sid"
  shows "\<exists>st'. subscription_step lib config w st = (Inr (), st') \<and> accepted_so_far lib sid eid limits rs st' (Suc n)"
proof -
  let ?r = "rs ! n"
  note N = numbered_nth [OF num n]
  have h: "unat (brs_high_water st) = n" "brs_limits st = limits" "unat (brs_frames_read st) = n"
    using st by (auto simp: accepted_so_far_def holds_prefix_def budget_ok_def Let_def)
  have lt: "n < unat (lim_max_records limits)" using n lim(1) by simp
  then have fr: "unat (saturating_add (brs_frames_read st) 1) = Suc n"
    using h(3) unat_less_exp [of "lim_max_records limits"] by (simp add: unat_saturating_add)
  define st1 where "st1 = st\<lparr>brs_frames_read := saturating_add (brs_frames_read st) 1\<rparr>"
  have up: "unat (brs_high_water st + 1) = Suc n"
    using h(1) N unat_less_exp [of "rec_seq ?r"] by (simp add: unat_word_ariths(1))
  have "begin_record (rec_seq w) st = (Inr True, st1)"
    using N w(2) h up fr lt
    by (simp add: begin_record_def st1_def word_less_nat_alt word_le_nat_alt word_unat_eq_iff)
  moreover obtain acc where acc: "observe (brs_limit_state st1) ?r = Inr acc"
    using observe_next [OF st n lim] by (auto simp: st1_def)
  moreover obtain res st2 where step: "broker_accept_record lib ?r sid st1 = (res, st2)" by force
  have ok1: "holds_prefix lib sid eid rs st1 n" "budget_ok limits (take n rs) st1"
    using st by (auto simp: accepted_so_far_def st1_def holds_prefix_def budget_ok_def)
  have st2: "res = Inr (chunk_of ?r)" "brs_frames_read st2 = brs_frames_read st1" "brs_limit_state st2 = acc"
    using step acc N by (auto simp: broker_accept_record_def Let_def chunk_of_def)
  have "holds_prefix lib sid eid rs st2 (Suc n)" "budget_ok limits (take (Suc n) rs) st2"
    using accept_next [OF ok1 n refl _ step] N st2(1) by auto
  moreover have "unat (acc_records acc) = Suc n \<and>
      acc_plaintext_bytes acc = sum_list (map (\<lambda>r. length (rec_plaintext_frame r)) (take (Suc n) rs))"
    using observe_Inr [OF acc] st n by (auto simp: accepted_so_far_def st1_def take_Suc_conv_app_nth)
  ultimately show ?thesis
    using w(1) step st2 sid fr by (auto simp: subscription_step_def accepted_so_far_def st1_def)
qed

lemma subscription_loop_reads:
  assumes num: "numbered sid 0 rs"
    and lim: "length rs \<le> unat (lim_max_records limits)"
      "sum_list (map (\<lambda>r. length (rec_plaintext_frame r)) rs) \<le> min (lim_max_plaintext_bytes limits) USIZE_MAX"
    and sid: "sub_stream_id config = sid"
    and opens: "list_all2 (\<lambda>r w. (case sub_crypto config of Some c \<Rightarrow> decrypt_record lib c w | None \<Rightarrow> Inr w) = Inr r \<and>
        rec_seq w = rec_seq r) rs ws"
    and frames: "list_all2 (\<lambda>w f. write_record_frame w = Inr f) ws fs"
    and small: "\<forall>w\<in>set ws. length (rec_plaintext_frame w) + 91 \<le> min m MAX_FRAME_SIZE"
  shows "accepted_so_far lib sid eid limits rs st n \<Longrightarrow> n \<le> length rs \<Longrightarrow>
    \<exists>st'. subscription_loop lib config m \<lparr>recv_bytes = concat (drop n fs), recv_fault = None\<rparr> st = (Inr (), st') \<and>
      accepted_so_far lib sid eid limits rs st' (length rs)"
proof (induction "length rs - n" arbitrary: n st)
  case 0
  then have "drop n fs = []" using list_all2_lengthD [OF opens] list_all2_lengthD [OF frames] by simp
  then show ?case
    using 0 by (subst subscription_loop.simps) (simp add: read_record_frame_def read_bytes_frame_def)
next
  case (Suc k)
  then have n: "n < length rs" by simp
  have len: "length ws = length rs" "length fs = length rs"
    using list_all2_lengthD [OF opens] list_all2_lengthD [OF frames] by simp_all
  have f: "write_record_frame (ws ! n) = Inr (fs ! n)" using list_all2_nthD [OF frames, of n] n len by simp
  have w: "(case sub_crypto config of Some c \<Rightarrow> decrypt_record lib c (ws ! n) | None \<Rightarrow> Inr (ws ! n)) = Inr (rs ! n)"
      "rec_seq (ws ! n) = rec_seq (rs ! n)"
    using list_all2_nthD [OF opens n] by simp_all
  obtain st1 where st1: "subscription_step lib config (ws ! n) st = (Inr (), st1)" "accepted_so_far lib sid eid limits rs st1 (Suc n)"
    using subscription_accepts [OF Suc.prems(1) n num lim w sid] by blast
  have "concat (drop n fs) = fs ! n @ concat (drop (Suc n) fs)" using n len by (simp add: Cons_nth_drop_Suc [symmetric])
  then have "read_record_frame m \<lparr>recv_bytes = concat (drop n fs), recv_fault = None\<rparr> =
      Inr (Some (ws ! n, \<lparr>recv_bytes = concat (drop (Suc n) fs), recv_fault = None\<rparr>))"
    using read_written_record [OF f, of m] small n len by simp
  moreover have "k = length rs - Suc n" using Suc.hyps(2) by simp
  then obtain st' where "subscription_loop lib config m \<lparr>recv_bytes = concat (drop (Suc n) fs), recv_fault = None\<rparr> st1 = (Inr (), st')"
      "accepted_so_far lib sid eid limits rs st' (length rs)"
    using Suc.hyps(1) [OF _ st1(2)] n by auto
  ultimately show ?case
    using st1(1) by (subst subscription_loop.simps) simp
qed

section \<open>Any number of connections\<close>

text \<open>The state over a sequence of connections, each serving some stream of bytes.\<close>
fun resume_all ::
  "crypto_lib \<Rightarrow> 's SubscribeTextFromBroker \<Rightarrow> recv_stream list \<Rightarrow> BrokerTextReceiverState \<Rightarrow> BrokerTextReceiverState" where
  "resume_all lib config [] st = st"
| "resume_all lib config (recv # recvs) st =
     resume_all lib config recvs (snd (subscribe_text_from_broker_with_resume lib config recv st))"

lemma resume_state:
  "snd (subscribe_text_from_broker_with_resume lib config recv st) =
     (if \<exists>out. write_control_frame (subscribe_envelope (sub_stream_id config) (sub_start_event_id config)) = Inr out
      then snd (subscription_loop lib config (frame_len_cap (Some (lim_max_plaintext_frame_len (brs_limits st)))) recv st)
      else st)"
  by (auto simp: subscribe_text_from_broker_with_resume_def split: sum.splits prod.splits)

lemma resume_all_ok:
  assumes "only_sealed lib crypto rs" and "numbered sid 0 rs" and "sub_crypto config = Some crypto"
  shows "receiver_ok lib sid eid limits rs st \<Longrightarrow> receiver_ok lib sid eid limits rs (resume_all lib config recvs st)"
  by (induction recvs arbitrary: st) (auto simp: resume_state subscription_loop_ok [OF assms])

text \<open>
  C11: The subscriber need not trust the broker.  If the AEAD opens only what the publisher sealed in this
  stream context and the publisher numbered its records from one, then whatever bytes the broker
  serves, in whatever number of connections and however each of them ends, the subscriber holds a prefix of the
  publisher's records: its text, its chunks and its transcript are those of the first \<open>n\<close> records,
  within the subscriber's record and byte limits.  The broker can withhold the rest, and no more.\<close>

theorem subscriber_holds_authentic_prefix:
  assumes "only_sealed lib crypto rs" and "numbered sid 0 rs" and "sub_crypto config = Some crypto"
    and "st = resume_all lib config recvs (new_receiver lib sid eid limits)"
  shows "\<exists>n\<le>length rs. unat (brs_high_water st) = n \<and>
    brs_text st = concat (map delta_text (take n rs)) \<and> brs_chunks st = map chunk_of (take n rs) \<and>
    brs_transcript st = append_chunks (sha256 lib) (new_transcript (sha256 lib) sid eid) (map chunk_triple (take n rs)) \<and>
    n \<le> unat (lim_max_records limits) \<and>
    sum_list (map (\<lambda>r. length (rec_plaintext_frame r)) (take n rs)) \<le> lim_max_plaintext_bytes limits"
proof -
  have "receiver_ok lib sid eid limits rs (new_receiver lib sid eid limits)"
    by (auto simp: receiver_ok_def holds_prefix_def budget_ok_def new_receiver_def new_accumulator_def intro!: exI [of _ 0])
  from resume_all_ok [OF assms(1-3) this] show ?thesis
    unfolding assms(4) receiver_ok_def holds_prefix_def budget_ok_def Let_def word_le_nat_alt by fastforce
qed

definition example_record :: AgentTextStreamRecordV1 where
  "example_record = new_record (replicate 32 2) 1 RECORD_TEXT_DELTA [72]"

definition example_crypto :: "EphemeralPublisherState AgentTextStreamCrypto" where
  "example_crypto = the (send_crypto example_config)"

text \<open>A library that opens what \<open>example_record\<close> was sealed to, and nothing else.\<close>
definition sealing_lib :: crypto_lib where
  "sealing_lib = example_lib\<lparr>aead_decrypt := (\<lambda>key nonce aad c.
     if nonce = xor_sequence (replicate 12 0) 1 \<and> aad = record_aad example_lib example_crypto example_record \<and>
        c = 72 # replicate 16 0
     then Some [72] else None)\<rparr>"

lemma sealing_lib_only_sealed: "only_sealed sealing_lib example_crypto [example_record]"
proof -
  have "record_aad sealing_lib example_crypto example_record = record_aad example_lib example_crypto example_record"
    by (simp add: record_aad_def sealing_lib_def)
  then show ?thesis
    unfolding only_sealed_def
    by (auto simp: sealing_lib_def example_lib_def example_crypto_def example_config_def example_record_def
        new_record_def encrypt_record_def validate_crypto_record_context_def record_cipher_def derive_record_key_def
        derive_record_nonce_def derive_bytes_def AGENT_TEXT_STREAM_SECRET_LEN_def PROFILE_STREAM_ID_LEN_def
        START_EVENT_ID_LEN_def MAX_PLAINTEXT_FRAME_LEN_def split: if_splits)
qed

text \<open>The record as sealed.\<close>
definition example_sealed :: AgentTextStreamRecordV1 where
  "example_sealed = example_record\<lparr>rec_plaintext_frame := 72 # replicate 16 0\<rparr>"

lemma example_sealed_opens: "decrypt_record sealing_lib example_crypto example_sealed = Inr example_record"
  by (simp add: decrypt_record_def example_sealed_def sealing_lib_def example_lib_def example_crypto_def example_config_def
      example_record_def new_record_def validate_crypto_record_context_def record_cipher_def derive_record_key_def
      derive_record_nonce_def derive_bytes_def record_aad_def AGENT_TEXT_STREAM_SECRET_LEN_def PROFILE_STREAM_ID_LEN_def
      START_EVENT_ID_LEN_def MAX_PLAINTEXT_FRAME_LEN_def validate_record_def MAX_STREAM_ID_LEN_def
      MAX_RECORD_CIPHERTEXT_LEN_def AEAD_TAG_LEN_def)

lemma example_sealed_written: "\<exists>f. write_record_frame example_sealed = Inr f"
  by (simp add: write_record_frame_def write_bytes_frame_def encode_record_def example_sealed_def example_record_def
      new_record_def validate_record_def MAX_STREAM_ID_LEN_def MAX_RECORD_CIPHERTEXT_LEN_def encode_quic_varint_def
      encoded_len_def quic_varint_encoded_len_def)

text \<open>A connection that breaks inside a frame, then one that serves the sealed record.\<close>

theorem subscriber_holds_authentic_prefix_witness:
  "\<exists>f st. write_record_frame example_sealed = Inr f \<and>
     st = resume_all sealing_lib
       \<lparr>sub_stream_id = replicate 32 2, sub_start_event_id = replicate 32 4, sub_crypto = Some example_crypto\<rparr>
       [\<lparr>recv_bytes = [0, 0], recv_fault = Some DeadlineFault\<rparr>, \<lparr>recv_bytes = f, recv_fault = None\<rparr>]
       (new_receiver sealing_lib (replicate 32 2) (replicate 32 4) default_limits) \<and>
     unat (brs_high_water st) = 1 \<and> brs_text st = [72]"
proof -
  let ?config = "\<lparr>sub_stream_id = replicate 32 2, sub_start_event_id = replicate 32 4, sub_crypto = Some example_crypto\<rparr>"
  let ?new = "new_receiver sealing_lib (replicate 32 2) (replicate 32 4) default_limits"
  let ?m = "frame_len_cap (Some (lim_max_plaintext_frame_len default_limits))"
  obtain f where f: "write_record_frame example_sealed = Inr f" using example_sealed_written by blast
  let ?recvs = "[\<lparr>recv_bytes = [0, 0], recv_fault = Some DeadlineFault\<rparr>, \<lparr>recv_bytes = f, recv_fault = None\<rparr>]"
  have num: "numbered (replicate 32 2) 0 [example_record]" by (simp add: example_record_def new_record_def)
  have "accepted_so_far sealing_lib (replicate 32 2) (replicate 32 4) default_limits [example_record] ?new 0"
    by (simp add: accepted_so_far_def holds_prefix_def budget_ok_def new_receiver_def new_accumulator_def)
  then obtain st where loop: "subscription_loop sealing_lib ?config ?m \<lparr>recv_bytes = f, recv_fault = None\<rparr> ?new = (Inr (), st)"
      and st: "accepted_so_far sealing_lib (replicate 32 2) (replicate 32 4) default_limits [example_record] st 1"
    using subscription_loop_reads [OF num, where config = ?config and lib = sealing_lib and ws = "[example_sealed]" and fs = "[f]"
        and limits = default_limits and n = 0 and st = ?new and m = ?m and eid = "replicate 32 4"] f example_sealed_opens
    by (auto simp: default_limits_def example_sealed_def example_record_def new_record_def USIZE_MAX_def frame_len_cap_def
        effective_plaintext_cap_def MAX_PLAINTEXT_FRAME_LEN_def FRAME_ALLOWANCE_def MAX_FRAME_SIZE_def QUIC_PREVIEW_MAX_FRAME_LEN_def)
  have broken: "snd (subscription_loop sealing_lib ?config ?m \<lparr>recv_bytes = [0, 0], recv_fault = Some DeadlineFault\<rparr> ?new) = ?new"
    by (subst subscription_loop.simps) (simp add: read_record_frame_def read_bytes_frame_def)
  have "\<exists>out. write_control_frame (subscribe_envelope (replicate 32 2) (replicate 32 4)) = Inr out"
    by (simp add: write_control_frame_def write_bytes_frame_def encode_control_def subscribe_envelope_def validate_bounds_def
        MAX_STREAM_ID_LEN_def encode_quic_varint_def)
  then have all: "resume_all sealing_lib ?config ?recvs ?new = st"
    using loop broken by (simp add: resume_state) (simp add: new_receiver_def)
  have "unat (brs_high_water st) = 1" using st by (simp add: accepted_so_far_def holds_prefix_def)
  moreover obtain n where "unat (brs_high_water st) = n" "brs_text st = concat (map delta_text (take n [example_record]))"
    using subscriber_holds_authentic_prefix [OF sealing_lib_only_sealed num, of ?config st ?recvs "replicate 32 4" default_limits] all
    by auto
  moreover have "delta_text example_record = [72]" by code_simp
  ultimately show ?thesis using f all by auto
qed

end
