(* ===== verification/Broker_Stream.thy ===== *)
theory Broker_Stream
  imports Broker_System Broker_Publisher Broker_Client_Correct
begin

text \<open>
  From the publisher's text to the subscriber's: the clients and the broker put together.
\<close>

section \<open>The subscriber receives what the publisher sealed\<close>

lemma sealed_stream_opens:
  assumes "aead_correct lib" and "sealed_stream lib crypto rs ws out"
  shows "list_all2 (\<lambda>r w. (case crypto of Some c \<Rightarrow> decrypt_record lib c w | None \<Rightarrow> Inr w) = Inr r \<and> rec_seq w = rec_seq r) rs ws"
    and "(\<forall>r\<in>set rs. length (rec_plaintext_frame r) + 107 \<le> b) \<Longrightarrow> \<forall>w\<in>set ws. length (rec_plaintext_frame w) + 91 \<le> b"
proof -
  have sealed: "list_all2 (\<lambda>r w. wire_record lib crypto r = Inr w) rs ws" using assms(2) by (simp add: sealed_stream_def)
  show "list_all2 (\<lambda>r w. (case crypto of Some c \<Rightarrow> decrypt_record lib c w | None \<Rightarrow> Inr w) = Inr r \<and> rec_seq w = rec_seq r) rs ws"
    by (rule list_all2_mono [OF sealed]) (auto dest: wire_opens [OF assms(1)])
  assume small: "\<forall>r\<in>set rs. length (rec_plaintext_frame r) + 107 \<le> b"
  show "\<forall>w\<in>set ws. length (rec_plaintext_frame w) + 91 \<le> b"
  proof
    fix w assume "w \<in> set ws"
    then obtain j where j: "j < length ws" "w = ws ! j" by (auto simp: in_set_conv_nth)
    have "wire_record lib crypto (rs ! j) = Inr w" "rs ! j \<in> set rs"
      using list_all2_nthD2 [OF sealed j(1)] list_all2_lengthD [OF sealed] j by simp_all
    then show "length (rec_plaintext_frame w) + 91 \<le> b" using small wire_opens [OF assms(1)] by fastforce
  qed
qed

lemma frame_len_cap_max: "frame_len_cap policy \<le> MAX_FRAME_SIZE"
  using effective_cap_bounds(2) [of policy]
  by (simp add: frame_len_cap_def MAX_FRAME_SIZE_def QUIC_PREVIEW_MAX_FRAME_LEN_def FRAME_ALLOWANCE_def MAX_PLAINTEXT_FRAME_LEN_def)

lemma stream_received_whole:
  assumes lib: "aead_correct lib" and sealed: "sealed_stream lib (sub_crypto config) rs ws out"
    and num: "numbered (sub_stream_id config) 0 rs" "rs \<noteq> []"
    and lim: "length rs \<le> unat (lim_max_records limits)"
      "sum_list (map (\<lambda>r. length (rec_plaintext_frame r)) rs) \<le> min (lim_max_plaintext_bytes limits) USIZE_MAX"
    and small: "\<forall>r\<in>set rs. length (rec_plaintext_frame r) + 107 \<le> frame_len_cap (Some (lim_max_plaintext_frame_len limits))"
    and request: "write_control_frame (subscribe_envelope (sub_stream_id config) (sub_start_event_id config)) = Inr request"
  shows "subscribe_text_from_broker_with_limits lib config limits \<lparr>recv_bytes = out, recv_fault = None\<rparr> =
    Inr (let t = append_chunks (sha256 lib) (new_transcript (sha256 lib) (sub_stream_id config) (sub_start_event_id config)) (map chunk_triple rs)
         in \<lparr>received_stream_id = sub_stream_id config, received_chunks = map chunk_of rs,
              received_text = concat (map delta_text rs), received_transcript_hash = tr_hash t, received_chunk_count = tr_chunk_count t\<rparr>)"
proof -
  let ?sid = "sub_stream_id config" and ?eid = "sub_start_event_id config"
  let ?cap = "frame_len_cap (Some (lim_max_plaintext_frame_len limits))"
  obtain fs where fs: "list_all2 (\<lambda>w f. write_record_frame w = Inr f) ws fs" "out = concat fs"
    using sealed by (auto simp: sealed_stream_def)
  note O = sealed_stream_opens [OF lib sealed]
  have w: "\<forall>w\<in>set ws. length (rec_plaintext_frame w) + 91 \<le> min ?cap MAX_FRAME_SIZE"
    using O(2) [OF small] frame_len_cap_max [of "Some (lim_max_plaintext_frame_len limits)"] by (auto simp: min_absorb1)
  have start: "accepted_so_far lib ?sid ?eid limits rs (new_receiver lib ?sid ?eid limits) 0"
    by (simp add: accepted_so_far_def holds_prefix_def budget_ok_def new_receiver_def new_accumulator_def)
  obtain st where loop: "subscription_loop lib config ?cap \<lparr>recv_bytes = out, recv_fault = None\<rparr> (new_receiver lib ?sid ?eid limits) = (Inr (), st)"
      and st: "accepted_so_far lib ?sid ?eid limits rs st (length rs)"
    using subscription_loop_reads [OF num(1) lim refl O(1) fs(1) w start] fs(2) by auto
  have "brs_limits (new_receiver lib ?sid ?eid limits) = limits" by (simp add: new_receiver_def)
  then show ?thesis
    using loop st num(2)
    by (simp add: subscribe_text_from_broker_with_limits_def subscribe_text_from_broker_with_resume_def request
        accepted_so_far_def holds_prefix_def append_chunks_fields new_transcript_def Let_def)
qed

section \<open>The broker relays the publisher's stream\<close>

lemma wrote_same:
  assumes "wrote out d" and "list_all2 (\<lambda>w f. write_record_frame w = Inr f) d fs"
  shows "out = concat fs"
proof -
  obtain fs' where fs': "list_all2 (\<lambda>w f. write_record_frame w = Inr f) d fs'" "out = concat fs'"
    using assms(1) by (auto simp: wrote_def)
  have "fs' = fs"
    using fs'(1) assms(2) by (intro nth_equalityI) (auto simp: list_all2_conv_all_nth)
  then show ?thesis using fs'(2) by simp
qed

lemma broker_relays_all:
  assumes sealed: "sealed_stream lib crypto rs ws out" and small: "\<forall>w\<in>set ws. length (rec_plaintext_frame w) + 91 \<le> MAX_FRAME_SIZE"
    and queue: "length ws \<le> per_subscriber_queue cfg"
    and control: "write_control_frame e = Inr ctl" "control_type e = Publish"
    and pubs: "pubs p = \<lparr>recv_bytes = ctl @ out, recv_fault = None\<rparr>" "\<forall>q. pub_room (pubs q) = Some (envelope_key e) \<longrightarrow> q = p"
    and times: "sorted (map fst (joining @ playing))" "length (joining @ playing) < 2 ^ 64"
    and sys1: "sys1 = system_run cfg fwd joining (start_system pubs subs)"
      "serving (envelope_key e) i (ss_task (sys_subs sys1 n))" "open_in i (envelope_key e) (sys_inner sys1)"
      "published (envelope_key e) (sys_events sys1) = []"
    and sys2: "sys2 = system_run cfg fwd playing sys1" "sys_pubs sys2 p = PubDone (Inr ())" "ss_task (sys_subs sys2 n) = SubDone (Inr ())"
  shows "ss_written (sys_subs sys2 n) = out"
proof -
  let ?k = "envelope_key e" and ?recv = "\<lparr>recv_bytes = out, recv_fault = None\<rparr>"
  obtain fs where fs: "list_all2 (\<lambda>w f. write_record_frame w = Inr f) ws fs" "out = concat fs"
    using sealed by (auto simp: sealed_stream_def)
  have recs: "stream_records ?recv = ws" using stream_records_written [OF fs(1) small] fs(2) by simp
  obtain bs where "encode_control e = Inr bs" using control(1) by (auto simp: write_control_frame_def result_bind_Inr)
  then have "read_control_frame (pubs p) = Inr (e, ?recv)" using read_written_control control(1) pubs(1) by fastforce
  note sole0 = start_sole_publisher [OF this control(2) pubs(2), of subs]
  have sole1: "sole_publisher ?k ?recv p sys1" unfolding sys1(1) by (rule sole_publisher_run [OF sole0])
  have sole2: "sole_publisher ?k ?recv p sys2" unfolding sys2(1) by (rule sole_publisher_run [OF sole1])
  obtain now1 where ok1: "system_ok cfg subs now1 (length joining) sys1" "sorted (now1 # map fst playing)"
    using system_run_upto [OF start_ok [of cfg subs pubs], of joining playing fwd] times sys1(1) by auto
  have "attending ?k i p n sys1" using attends_from [OF ok1(1) _ sys1(2-4)] times(2) by simp
  then have at: "attending ?k i p n sys2"
    unfolding sys2(1) using times(2) queue recs by (intro attending_run [OF ok1 _ sole1]) auto
  obtain now2 where ok2: "system_ok cfg subs now2 (length joining + length playing) sys2"
    using system_run_ok [OF ok1, of fwd] times(2) sys2(1) by auto
  have "wrote (ss_written (sys_subs sys2 n)) (stream_records ?recv)"
    using kept_up_gets_all [OF ok2 _ sole2 at sys2(2,3)] times(2) by simp
  then show ?thesis using wrote_same [OF _ fs(1)] recs fs(2) by simp
qed

section \<open>Texts\<close>

text \<open>What an append adds to the text a subscriber shows.\<close>
fun op_text :: "publisher_op \<Rightarrow> bytes" where
  "op_text (AppendRecordText ty text m token) = (if ty = RECORD_TEXT_DELTA then utf8_string text else [])"
| "op_text (AppendAbort token) = []"

fun op_scalars :: "publisher_op \<Rightarrow> bool" where
  "op_scalars (AppendRecordText ty text m token) = list_all is_scalar text"
| "op_scalars (AppendAbort token) = True"

fun frame_text :: "u8 \<times> bytes \<Rightarrow> bytes" where
  "frame_text (ty, f) = (if ty = RECORD_TEXT_DELTA then from_utf8_lossy f else [])"

lemma delta_frame_text: "delta_text r = frame_text (frame_of r)"
  by (simp add: delta_text_def stream_record_text_def frame_of_def)

lemma op_frames_text: "op_scalars op \<Longrightarrow> concat (map frame_text (op_frames policy op)) = op_text op"
proof (cases op)
  case (AppendRecordText ty body m token)
  assume "op_scalars op"
  then have sc: "list_all is_scalar body" by (simp add: AppendRecordText)
  let ?m = "min m (effective_plaintext_cap policy)"
  note S = split_text_deltas_spec [OF sc, of ?m]
  have "map from_utf8_lossy (split_text_deltas body ?m) = split_text_deltas body ?m"
    using S piece_text by (auto simp: list_all_iff intro!: map_idI)
  then show ?thesis using S by (auto simp: AppendRecordText comp_def)
next
  case (AppendAbort token)
  then show ?thesis by (simp add: RECORD_ABORT_def RECORD_TEXT_DELTA_def)
qed

lemma run_text:
  assumes "map frame_of rs = concat (map (op_frames policy) ops)" and "list_all op_scalars ops"
  shows "concat (map delta_text rs) = concat (map op_text ops)"
proof -
  have "map delta_text rs = map frame_text (map frame_of rs)" by (auto simp: delta_frame_text)
  then have "concat (map delta_text rs) = concat (map frame_text (map frame_of rs))" by (simp only:)
  also have "\<dots> = concat (map (\<lambda>op. concat (map frame_text (op_frames policy op))) ops)"
    unfolding assms(1) by (induction ops) auto
  also have "\<dots> = concat (map op_text ops)"
    using assms(2) by (induction ops) (auto simp: op_frames_text)
  finally show ?thesis .
qed

lemma frame_lengths:
  assumes "map frame_of rs = frames"
  shows "length rs = length frames \<and> (\<forall>r\<in>set rs. (rec_type r, rec_plaintext_frame r) \<in> set frames) \<and>
    map (\<lambda>r. length (rec_plaintext_frame r)) rs = map (\<lambda>f. length (snd f)) frames"
  using assms by (auto simp: frame_of_def comp_def)

end
