(* ===== verification/Spec2Isabelle.thy ===== *)
theory Spec2Isabelle
  imports Marmot_Prelude Bounded_Id_Set Convergence Canonicalization_Correct Epoch_Manager Codec
    Capabilities Agent_Text_Stream Convergence_Pass_Safety Publisher_Sequence Broker_Stream
begin

text \<open>
  Verification library of the Marmot Development Kit (MDK), a Rust implementation of end-to-end encrypted group messaging
  over MLS.  Paths below are relative to \<open>src/crates/\<close>.

  \<^bold>\<open>The program.\<close>  The engine (\<open>cgka-engine\<close>) keeps the MLS groups of one account device.  Delivery is unordered
  and members may commit concurrently, so a group can fork.  Incoming messages are stored as rows
  (\<open>traits/src/message.rs\<close>, \<open>storage-sqlite\<close>); a durable \<^emph>\<open>convergence pass\<close> collects the rows that matter for a fork,
  freezes them at a cutoff and hands the frozen batch to a \<^emph>\<open>canonicalization pass\<close>, which builds the graph of candidate branches,
  selects one by a deterministic policy and gives every message of the batch a disposition.  The epoch manager owns the epoch state of every
  group and the publications in flight.  Which features a group may use is negotiated from capabilities.
  Beside the group, an agent can stream text over QUIC: directly, or through a broker that relays
  encrypted records from one publisher to many subscribers.

  \<^bold>\<open>Language.\<close>  \<open>Marmot_Prelude\<close> has the machine integers as words with their saturating and checked operations, \<open>usize\<close> as
  \<^typ>\<open>nat\<close>, byte strings as lists of bytes, \<open>Result\<close> as a sum with the error on the left, \<open>std::cmp::Ordering\<close>, \<open>Iterator::max_by\<close>,
  \<open>BTreeMap\<close> as a sorted association list, and the locales for comparisons, ordered maps and invariants of transition
  systems.  \<open>Utf8\<close> has the string functions.  Mutable objects are records passed and returned; a method that fails after a
  change returns the changed state with the error.

  \<^bold>\<open>Convergence.\<close>
  \<^item> \<open>Convergence\<close> (\<open>cgka-engine/src/convergence.rs\<close>): branch scores, the six-rule comparison, selection and its audit trace.  Selection is
    optimal and independent of the order of candidates, witnesses are counted as sets of senders, and they lift a branch by a bounded number of commits.
  \<^item> \<open>Canonical_Types\<close>, \<open>Candidate_Graph\<close>, \<open>Canonicalization\<close>, \<open>Canonicalization_Correct\<close> (\<open>canonicalization.rs\<close>): the policy
    and its validation, deduplication, the fixed-point materialization of branches, witness attachment, the disposition
    handlers and the pass.  The graph is sound and complete, every message and every commit of a pre-materialized candidate is accounted for exactly once, application
    payloads are delivered exactly when they should be, the result does not depend on the order of the batch, and the pass settles.
    The materialization loop is a terminating \<open>function\<close>: every round but the last materializes a commit of the finite batch.
  \<^item> \<open>Stored_Message\<close> (\<open>traits/src/message.rs\<close>): the binary payload codec; a locale for wire codecs carries the round trip and the
    uniqueness of encodings from the fields to the payload.
  \<^item> \<open>Convergence_Input\<close> (\<open>convergence_input.rs\<close>, \<open>traits/src/convergence_pass.rs\<close>): the roles of inputs, what opens a pass and what
    gates outbound work; the one-scan relevance test equals the map it replaces.
  \<^item> \<open>Message_Store\<close> (\<open>storage-sqlite/src/storage\<close>, \<open>traits/src/storage.rs\<close>): the tables convergence uses, as a list of rows in insert order and
    maps, with transactions as rollback; a locale states what the state-indexed queries promise about the full listing.
  \<^item> \<open>Convergence_Pass\<close>, \<open>Convergence_Pass_Correct\<close>, \<open>Convergence_Pass_Safety\<close> (\<open>distributed_convergence.rs\<close>, and the parts of
    \<open>message_processor\<close>, \<open>openmls_projection.rs\<close>, \<open>publish.rs\<close> and \<open>group_lifecycle.rs\<close> it calls): opening and seeding a pass, admission, the
    restart rebase, freezing, verification, the control flow of resolution, the halt and the outbound gate.  Hoare triples over
    the storage operations carry an invariant of stored passes and a relation on how one pass may
    change, from each operation to every sequence of operations.  A frozen batch never changes, only verified batches are
    resolved, no stream of arrivals holds a pass open beyond five seconds, an open pass gates outbound work, and a
    restart does not extend it.  The five seconds are those of a live group whose tip has not moved and that has no deferred peel open.

  \<^bold>\<open>Epochs, caches and capabilities.\<close>
  \<^item> \<open>Epoch_State\<close>, \<open>Epoch_Manager\<close> (\<open>traits/src/engine_state.rs\<close>, \<open>epoch_manager.rs\<close>): the group state machine and its owner.  In
    every reachable manager a held publication can be resolved unless a restore took its reference over, failed transitions change
    nothing, and staging followed by a rollback is the identity.  Three lemmas at the end of \<open>Epoch_Manager\<close> show what the code allows
    beyond its comments: a restored publication can take over a reference in flight, a stale reference settles a newer
    publication, and terminal states have exits.
  \<^item> \<open>Bounded_Id_Set\<close> (\<open>bounded_id_set.rs\<close>): the deduplication cache refines a duplicate-free queue.
  \<^item> \<open>Codec\<close> (\<open>traits/src/app_components/codec.rs\<close>) and \<open>Capabilities\<close> (\<open>capabilities.rs\<close>, \<open>feature_registry.rs\<close>, \<open>capability_manager.rs\<close>,
    \<open>upgrade.rs\<close>): component codecs, feature status and upgrades; the component list is decoded exactly from its encoding, creators support what their groups require, and the upgrade query agrees with
    the feature status.

  \<^bold>\<open>Text streams.\<close>
  \<^item> \<open>Agent_Text_Stream\<close> (\<open>traits/src/agent_text_stream.rs\<close>): records, policy and transcript; framing is exact, the transcript binds the stream.
  \<^item> \<open>Publisher_Sequence\<close> (\<open>transport-quic-stream/src/publisher_sequence.rs\<close>, \<open>storage-sqlite/src/agent_stream_sequences.rs\<close>): a locale for
    the store, interpreted on the in-memory and the SQLite store; sequence numbers are never granted twice, to any process, and an unconfirmed
    reservation blocks its context: across restarts in the SQLite store, within one run of the process in memory.
  \<^item> \<open>Quic_Stream\<close>, \<open>Quic_Stream_Correct\<close> (\<open>transport-quic-stream\<close>): the direct stream delivers the text sent.
  \<^item> \<open>Broker_Control\<close>, \<open>Broker_State\<close>, \<open>Broker_Handlers\<close>, \<open>Broker_Client\<close> (\<open>transport-quic-broker\<close>): envelopes and frames, the room engine, its tasks, and
    the clients.  \<open>Broker_Delivery\<close>, \<open>Broker_Handlers_Correct\<close>, \<open>Broker_System\<close>, \<open>Broker_Client_Correct\<close>, \<open>Broker_Publisher\<close> and \<open>Broker_Stream\<close>
    hold the proofs: limits hold in every run, the tasks refine the room engine under every interleaving,
    subscribers see no gap and, from an untrusted broker, only a prefix of what was published.  Writes may fail in the middle of a frame.  The two properties of
    this theory put the publisher, the broker and the subscriber together.

  \<^bold>\<open>Parameters.\<close>  SHA-256, HKDF, the AEAD, hex and JSON readers, the OpenMLS parser and OpenMLS group views are arguments (records
  of functions); what a theorem needs of them is a hypothesis in its statement, such as that the AEAD opens what it sealed or
  that the hashed inputs do not collide and do not hash to a fixed string.  The stages that drive OpenMLS group states inside a convergence run are fields of \<open>convergence_replay\<close>; \<open>replay_ok\<close>
  says that they write no convergence pass and keep row ids unique.  Clocks, random tokens and scheduling choices are arguments or steps.

  \<^bold>\<open>Bounds.\<close>  Nothing runs on fuel: loops are structural recursion or have a termination proof.  Epoch numbers and deadlines
  stay \<open>u64\<close>, with saturation where the code saturates; epochs that do not fit SQLite's \<open>i64\<close> fail as in the code.

  \<^bold>\<open>Not modelled.\<close>  Code whose behaviour is that of a library or of I/O: OpenMLS processing and commit building (the rest of \<open>openmls_projection.rs\<close>,
  \<open>group_lifecycle.rs\<close>, \<open>publish.rs\<close>, \<open>key_package.rs\<close>, \<open>disband.rs\<close> and \<open>message_processor\<close>), hydration, snapshots and
  checkpoints, SQL text and the remaining tables of \<open>storage-sqlite\<close>, TLS, dialling, accept loops, sleeps and timeouts, Nostr relays and event cryptography
  (\<open>transport-nostr-adapter\<close>, \<open>transport-nostr-peeler\<close>), the session, account and application layers (\<open>cgka-session\<close>, \<open>marmot-account\<close>,
  \<open>marmot-app\<close>), language bindings, the command line, agent daemons, audit records, metrics and log output, and
  test infrastructure.  \<open>marmot-markdown\<close> is a display parser that shares no state with the protocol.  Test-only
  features (\<open>test-policy-overrides\<close>, \<open>test-conformance-snapshot\<close>, \<open>test-conformance-replay\<close>) are off.
\<close>


section \<open>From the publisher to the subscriber\<close>

text \<open>
  C10: A published stream reaches a subscriber that keeps up, whole.  A publisher appends texts, statuses and
  aborts to its broker stream; the broker runs its handlers in any interleaving with any other publishers
  and subscribers.  If the AEAD opens what it sealed, no other publisher opens the room, the subscriber is
  listed in the room before the first record is relayed, its queue can hold the stream, and both
  streams end without error, then the subscriber returns the publisher's stream id, exactly the texts
  appended, and the transcript hash and record count the publisher reports.\<close>

theorem broker_delivers_stream:
  fixes config :: "sequence_table OpenBrokerTextPublisher" and ops :: "publisher_op list"
  defines "sid \<equiv> open_stream_id config" and "eid \<equiv> open_start_event_id config"
    and "key \<equiv> \<lparr>key_stream_id = open_stream_id config, key_start_event_id = open_start_event_id config\<rparr>"
    and "frames \<equiv> concat (map (op_frames (open_max_plaintext_frame_len config)) ops)"
  assumes lib: "aead_correct lib"
    and pub: "connect_publisher lib config = Inr pub0" "publisher_run lib ops pub0 s = (Inr (), pub, s')"
      "\<forall>c. open_crypto config = Some c \<longrightarrow> publisher_sequence_store c = Some sqlite_store \<and> sqlite_inv s \<and>
        s (sha256 lib (encode_key_context (crypto_context c))) = None"
      "list_all op_scalars ops" "frames \<noteq> []" "length frames < 2 ^ 64 - 1"
    and lim: "length frames \<le> unat (lim_max_records limits)"
      "sum_list (map (\<lambda>f. length (snd f)) frames) \<le> min (lim_max_plaintext_bytes limits) USIZE_MAX"
      "\<forall>f\<in>set frames. length (snd f) + 107 \<le> frame_len_cap (Some (lim_max_plaintext_frame_len limits))"
      "length frames \<le> per_subscriber_queue cfg"
    and streams: "pubs p = \<lparr>recv_bytes = pub_sent pub, recv_fault = None\<rparr>" "\<forall>q. pub_room (pubs q) = Some key \<longrightarrow> q = p"
      "write_control_frame (subscribe_envelope sid eid) = Inr request"
    and times: "sorted (map fst (joining @ playing))" "length (joining @ playing) < 2 ^ 64"
    and sys1: "sys1 = system_run cfg fwd joining (start_system pubs subs)" "serving key i (ss_task (sys_subs sys1 n))"
      "open_in i key (sys_inner sys1)" "published key (sys_events sys1) = []"
    and sys2: "sys2 = system_run cfg fwd playing sys1" "sys_pubs sys2 p = PubDone (Inr ())"
      "ss_task (sys_subs sys2 n) = SubDone (Inr ())"
  shows "\<exists>chunks. subscribe_text_from_broker_with_limits lib
      \<lparr>sub_stream_id = sid, sub_start_event_id = eid, sub_crypto = open_crypto config\<rparr> limits
      \<lparr>recv_bytes = ss_written (sys_subs sys2 n), recv_fault = None\<rparr> =
    Inr \<lparr>received_stream_id = sid, received_chunks = chunks, received_text = concat (map op_text ops),
         received_transcript_hash = sent_transcript_hash (finish_publisher pub),
         received_chunk_count = sent_chunk_count (finish_publisher pub)\<rparr>"
proof -
  let ?config = "\<lparr>sub_stream_id = sid, sub_start_event_id = eid, sub_crypto = open_crypto config\<rparr>"
  obtain rs ws ctl out where P: "numbered sid 0 rs" "map frame_of rs = frames"
      "write_control_frame (publish_envelope sid eid) = Inr ctl" "sealed_stream lib (open_crypto config) rs ws out"
      "pub_sent pub = ctl @ out"
      "finish_publisher pub = \<lparr>sent_stream_id = sid, sent_transcript_hash = tr_hash (open_transcript lib config rs),
         sent_chunk_count = word_of_nat (length rs)\<rparr>"
    using publisher_stream [OF pub(1-3)] pub(6) unfolding sid_def eid_def frames_def by blast
  note F = frame_lengths [OF P(2)]
  have small: "\<forall>r\<in>set rs. length (rec_plaintext_frame r) + 107 \<le> frame_len_cap (Some (lim_max_plaintext_frame_len limits))"
    using F lim(3) by force
  have key: "envelope_key (publish_envelope sid eid) = key" "control_type (publish_envelope sid eid) = Publish"
    by (simp_all add: envelope_key_def publish_envelope_def key_def sid_def eid_def)
  have "ss_written (sys_subs sys2 n) = out"
  proof (rule broker_relays_all [OF P(4), where e = "publish_envelope sid eid" and ctl = ctl and pubs = pubs and p = p
        and joining = joining and playing = playing and fwd = fwd and subs = subs and i = i])
    have "\<forall>r\<in>set rs. length (rec_plaintext_frame r) + 107 \<le> MAX_FRAME_SIZE"
      using small frame_len_cap_max [of "Some (lim_max_plaintext_frame_len limits)"] by force
    then show "\<forall>w\<in>set ws. length (rec_plaintext_frame w) + 91 \<le> MAX_FRAME_SIZE" by (rule sealed_stream_opens(2) [OF lib P(4)])
    show "length ws \<le> per_subscriber_queue cfg" using lim(4) F P(4) by (auto simp: sealed_stream_def dest: list_all2_lengthD)
  qed (use P(3,5) streams(1,2) times sys1 sys2 in \<open>simp_all add: key\<close>)
  moreover have "subscribe_text_from_broker_with_limits lib ?config limits \<lparr>recv_bytes = out, recv_fault = None\<rparr> =
      Inr (let t = append_chunks (sha256 lib) (new_transcript (sha256 lib) sid eid) (map chunk_triple rs)
         in \<lparr>received_stream_id = sid, received_chunks = map chunk_of rs,
              received_text = concat (map delta_text rs), received_transcript_hash = tr_hash t, received_chunk_count = tr_chunk_count t\<rparr>)"
    using stream_received_whole [of lib ?config rs ws out limits request] lib P(1,2,4) F lim(1,2) small pub(5) streams(3) by auto
  moreover have "concat (map delta_text rs) = concat (map op_text ops)"
    using run_text [OF _ pub(4)] P(2) by (simp add: frames_def)
  ultimately show ?thesis
    using P(6) by (auto simp: Let_def open_transcript_def sid_def eid_def append_chunks_fields new_transcript_def)
qed

text \<open>A broker that relays one record to one subscriber, in ten steps.\<close>

definition relay_cfg :: BrokerState where
  "relay_cfg = \<lparr>per_subscriber_queue = 4, max_backlog = 4, max_rooms = 4, max_backlog_bytes = 4096, replay_ttl = 0\<rparr>"

definition relay_limits :: PublishForwardLimits where
  "relay_limits = \<lparr>fwd_max_records = 16, fwd_max_frame_bytes = 4096\<rparr>"

abbreviation relay_joining :: "(nat \<times> system_action) list" where
  "relay_joining \<equiv> [(0, SubscriberMoves 0 None)]"

abbreviation relay_playing :: "(nat \<times> system_action) list" where
  "relay_playing \<equiv>
     [(1, PublisherMoves 0 False), (2, PublisherMoves 0 False), (3, PublisherMoves 0 False), (4, SubscriberMoves 0 None),
      (5, SubscriberMoves 0 None), (6, PublisherMoves 0 False), (7, PublisherMoves 0 False), (8, SubscriberMoves 0 None),
      (9, SubscriberMoves 0 None)]"

definition one_publisher :: "bytes \<Rightarrow> nat \<Rightarrow> recv_stream" where
  "one_publisher sent q = \<lparr>recv_bytes = (if q = 0 then sent else []), recv_fault = None\<rparr>"

lemmas relay_defs = relay_cfg_def relay_limits_def one_publisher_def start_system_def default_inner_def default_room_def
  subscribe_task_step_def subscribe_def purge_expired_rooms_def retained_bytes_def room_limit_reached_def room_or_default_def
  purge_expired_backlog_def retain_room_def wait_poll_def publish_def publish_in_room_def removable_def mark_room_finished_def
  remove_room_def unsubscribe_def forward_record_def write_to_client_def finish_client_def channel_open_def enqueue_def forward_accumulator_def
  new_accumulator_def default_limits_def observe_def checked_add_def USIZE_MAX_def fun_upd_def

lemma empty_stream:
  "read_record_frame m \<lparr>recv_bytes = [], recv_fault = None\<rparr> = Inr None"
  "read_control_frame \<lparr>recv_bytes = [], recv_fault = None\<rparr> = Inl MissingControlFrame"
  by (simp_all add: read_record_frame_def read_control_frame_def read_bytes_frame_def)

lemma relay_joins:
  assumes "read_control_frame (subs 0) = Inr (c, rest)" and "control_type c = Subscribe"
    and "sys = system_run relay_cfg relay_limits relay_joining (start_system (one_publisher sent) subs)"
  shows "sys = (start_system (one_publisher sent) subs)\<lparr>
      sys_inner := \<lparr>rooms = [(envelope_key c, (default_room 0)\<lparr>subscribers := [0]\<rparr>)], next_subscriber_id = 1, total_backlog_bytes = 0\<rparr>,
      sys_subs := (sys_subs (start_system (one_publisher sent) subs))(0 := \<lparr>ss_task = SubServing (envelope_key c) 0 [],
        ss_written = [], ss_end = SendOpen\<rparr>),
      sys_events := [Served 0 (envelope_key c) []]\<rparr>"
  using assms by (simp add: relay_defs)

lemma relay_plays:
  assumes sub: "read_control_frame (subs 0) = Inr (c, rest)" "control_type c = Subscribe" "envelope_key c = key"
    and pub: "read_control_frame \<lparr>recv_bytes = sent, recv_fault = None\<rparr> = Inr (e, \<lparr>recv_bytes = f, recv_fault = None\<rparr>)"
      "control_type e = Publish" "envelope_key e = key"
    and r: "write_record_frame w = Inr f" "rec_stream_id w = key_stream_id key" "length (rec_plaintext_frame w) \<le> 1024"
    and sys: "sys1 = system_run relay_cfg relay_limits relay_joining (start_system (one_publisher sent) subs)"
      "sys2 = system_run relay_cfg relay_limits relay_playing sys1"
  shows "sys_pubs sys2 0 = PubDone (Inr ()) \<and> ss_task (sys_subs sys2 0) = SubDone (Inr ()) \<and> ss_written (sys_subs sys2 0) = f"
proof -
  have "read_record_frame MAX_FRAME_SIZE \<lparr>recv_bytes = f, recv_fault = None\<rparr> =
      Inr (Some (w, \<lparr>recv_bytes = [], recv_fault = None\<rparr>))"
    using read_written_record [OF r(1), of MAX_FRAME_SIZE "[]" None] r(3)
    by (simp add: MAX_FRAME_SIZE_def QUIC_PREVIEW_MAX_FRAME_LEN_def FRAME_ALLOWANCE_def MAX_PLAINTEXT_FRAME_LEN_def)
  then show ?thesis using sub pub r unfolding sys
    by (simp add: relay_defs empty_stream)
qed

lemma example_lib_correct: "aead_correct example_lib"
  by (simp add: aead_correct_def example_lib_def AEAD_TAG_LEN_def)

lemma example_store_fresh:
  "\<forall>c. open_crypto example_open = Some c \<longrightarrow> publisher_sequence_store c = Some sqlite_store \<and> sqlite_inv Map.empty \<and>
     Map.empty (sha256 example_lib (encode_key_context (crypto_context c))) = None"
  using example_fresh by auto

lemma example_stream:
  assumes "connect_publisher example_lib example_open = Inr pub0"
    and "publisher_run example_lib example_appends pub0 Map.empty = (Inr (), pub, s')"
  obtains w f where "read_control_frame \<lparr>recv_bytes = pub_sent pub, recv_fault = None\<rparr> =
      Inr (publish_envelope (open_stream_id example_open) (open_start_event_id example_open), \<lparr>recv_bytes = f, recv_fault = None\<rparr>)"
    "write_record_frame w = Inr f" "rec_stream_id w = open_stream_id example_open" "length (rec_plaintext_frame w) \<le> 1024"
proof -
  let ?env = "publish_envelope (open_stream_id example_open) (open_start_event_id example_open)"
  let ?frames = "concat (map (op_frames (open_max_plaintext_frame_len example_open)) example_appends)"
  have "length ?frames < 2 ^ 64 - 1" unfolding example_op_frames by simp
  then obtain rs ws ctl f where P: "numbered (open_stream_id example_open) 0 rs" "map frame_of rs = ?frames"
      "write_control_frame ?env = Inr ctl" "sealed_stream example_lib (open_crypto example_open) rs ws f" "pub_sent pub = ctl @ f"
    using publisher_stream [OF assms example_store_fresh] by blast
  obtain r w where w: "wire_record example_lib (open_crypto example_open) r = Inr w" "write_record_frame w = Inr f"
      "rec_stream_id r = open_stream_id example_open" "rec_plaintext_frame r = [72]"
    using P(1,2,4) unfolding example_op_frames by (auto simp: sealed_stream_def list_all2_Cons1 frame_of_def)
  have "rec_stream_id w = open_stream_id example_open" "length (rec_plaintext_frame w) \<le> 1024"
    using w(1,3) wire_opens [OF example_lib_correct w(1)] w(4)
    by (auto simp: wire_record_def encrypt_record_def result_bind_Inr split: option.splits if_splits)
  moreover obtain bs where "encode_control ?env = Inr bs" using P(3) by (auto simp: write_control_frame_def result_bind_Inr)
  then have "read_control_frame \<lparr>recv_bytes = pub_sent pub, recv_fault = None\<rparr> = Inr (?env, \<lparr>recv_bytes = f, recv_fault = None\<rparr>)"
    using read_written_control P(3,5) by fastforce
  ultimately show thesis using w(2) that by blast
qed

lemma example_request:
  obtains request where
    "write_control_frame (subscribe_envelope (open_stream_id example_open) (open_start_event_id example_open)) = Inr request"
    "read_control_frame (one_publisher request 0) =
       Inr (subscribe_envelope (open_stream_id example_open) (open_start_event_id example_open), \<lparr>recv_bytes = [], recv_fault = None\<rparr>)"
proof -
  let ?env = "subscribe_envelope (open_stream_id example_open) (open_start_event_id example_open)"
  have "\<exists>bs. encode_control ?env = Inr bs"
    by (simp add: example_open_def encode_control_def subscribe_envelope_def validate_bounds_def MAX_STREAM_ID_LEN_def
        encode_quic_varint_def)
  then obtain request where R: "write_control_frame ?env = Inr request"
      "\<forall>rest f. read_control_frame \<lparr>recv_bytes = request @ rest, recv_fault = f\<rparr> = Inr (?env, \<lparr>recv_bytes = rest, recv_fault = f\<rparr>)"
    using read_written_control by blast
  show thesis by (rule that [OF R(1)]) (use R(2) [rule_format, of "[]" None] in \<open>simp add: one_publisher_def\<close>)
qed

theorem broker_delivers_stream_witness:
  "\<exists>pub0 pub s' request sys chunks. connect_publisher example_lib example_open = Inr pub0 \<and>
     publisher_run example_lib example_appends pub0 Map.empty = (Inr (), pub, s') \<and>
     write_control_frame (subscribe_envelope (replicate 32 2) (replicate 32 4)) = Inr request \<and>
     sys = system_run relay_cfg relay_limits relay_playing (system_run relay_cfg relay_limits relay_joining
       (start_system (one_publisher (pub_sent pub)) (one_publisher request))) \<and>
     subscribe_text_from_broker_with_limits example_lib
       \<lparr>sub_stream_id = replicate 32 2, sub_start_event_id = replicate 32 4, sub_crypto = open_crypto example_open\<rparr> default_limits
       \<lparr>recv_bytes = ss_written (sys_subs sys 0), recv_fault = None\<rparr> =
     Inr \<lparr>received_stream_id = replicate 32 2, received_chunks = chunks, received_text = [72],
          received_transcript_hash = sent_transcript_hash (finish_publisher pub),
          received_chunk_count = sent_chunk_count (finish_publisher pub)\<rparr>"
proof -
  let ?sid = "open_stream_id example_open" and ?eid = "open_start_event_id example_open"
  let ?key = "\<lparr>key_stream_id = ?sid, key_start_event_id = ?eid\<rparr>"
  have ids: "?sid = replicate 32 2" "?eid = replicate 32 4" by (simp_all add: example_open_def)
  obtain pub0 pub s' where run: "connect_publisher example_lib example_open = Inr pub0"
      "publisher_run example_lib example_appends pub0 Map.empty = (Inr (), pub, s')"
    using example_publisher_run by blast
  obtain w f where pub: "read_control_frame \<lparr>recv_bytes = pub_sent pub, recv_fault = None\<rparr> =
        Inr (publish_envelope ?sid ?eid, \<lparr>recv_bytes = f, recv_fault = None\<rparr>)"
      "write_record_frame w = Inr f" "rec_stream_id w = ?sid" "length (rec_plaintext_frame w) \<le> 1024"
    using example_stream [OF run] by blast
  obtain request where req: "write_control_frame (subscribe_envelope ?sid ?eid) = Inr request"
      "read_control_frame (one_publisher request 0) = Inr (subscribe_envelope ?sid ?eid, \<lparr>recv_bytes = [], recv_fault = None\<rparr>)"
    using example_request by blast
  define sys1 where
    "sys1 = system_run relay_cfg relay_limits relay_joining (start_system (one_publisher (pub_sent pub)) (one_publisher request))"
  define sys2 where "sys2 = system_run relay_cfg relay_limits relay_playing sys1"
  have env: "control_type (subscribe_envelope ?sid ?eid) = Subscribe" "envelope_key (subscribe_envelope ?sid ?eid) = ?key"
      "control_type (publish_envelope ?sid ?eid) = Publish" "envelope_key (publish_envelope ?sid ?eid) = ?key"
    by (simp_all add: subscribe_envelope_def publish_envelope_def envelope_key_def)
  note joined = relay_joins [where subs = "one_publisher request", OF req(2) env(1) sys1_def]
  have ended: "sys_pubs sys2 0 = PubDone (Inr ())" "ss_task (sys_subs sys2 0) = SubDone (Inr ())"
    using relay_plays [where subs = "one_publisher request", OF req(2) env(1,2) pub(1) env(3,4) pub(2) _ pub(4) sys1_def sys2_def] pub(3) by simp_all
  have "\<exists>chunks. subscribe_text_from_broker_with_limits example_lib
      \<lparr>sub_stream_id = ?sid, sub_start_event_id = ?eid, sub_crypto = open_crypto example_open\<rparr> default_limits
      \<lparr>recv_bytes = ss_written (sys_subs sys2 0), recv_fault = None\<rparr> =
    Inr \<lparr>received_stream_id = ?sid, received_chunks = chunks, received_text = concat (map op_text example_appends),
         received_transcript_hash = sent_transcript_hash (finish_publisher pub),
         received_chunk_count = sent_chunk_count (finish_publisher pub)\<rparr>"
  proof (rule broker_delivers_stream [OF example_lib_correct run example_store_fresh, where cfg = relay_cfg and fwd = relay_limits and subs = "one_publisher request"
        and pubs = "one_publisher (pub_sent pub)" and p = 0 and n = 0 and i = 0 and joining = relay_joining and playing = relay_playing
        and request = request])
    show "\<forall>q. pub_room (one_publisher (pub_sent pub) q) = Some ?key \<longrightarrow> q = 0"
      by (auto simp: one_publisher_def pub_room_def empty_stream)
    show "serving ?key 0 (ss_task (sys_subs sys1 0))" unfolding joined by (simp add: env)
    show "open_in 0 ?key (sys_inner sys1)" unfolding joined by (simp add: env open_in_def default_room_def)
    show "published ?key (sys_events sys1) = []" unfolding joined by simp
    show "sys1 = system_run relay_cfg relay_limits relay_joining (start_system (one_publisher (pub_sent pub)) (one_publisher request))"
      by (rule sys1_def)
    show "sys2 = system_run relay_cfg relay_limits relay_playing sys1" by (rule sys2_def)
  qed (unfold example_op_frames, use ended req(1) in
      \<open>simp_all add: one_publisher_def relay_cfg_def default_limits_def USIZE_MAX_def frame_len_cap_def
        is_scalar_def effective_plaintext_cap_def MAX_PLAINTEXT_FRAME_LEN_def FRAME_ALLOWANCE_def\<close>)
  moreover have "concat (map op_text example_appends) = [72]" by (simp add: example_send_defs)
  ultimately obtain chunks where "subscribe_text_from_broker_with_limits example_lib
      \<lparr>sub_stream_id = ?sid, sub_start_event_id = ?eid, sub_crypto = open_crypto example_open\<rparr> default_limits
      \<lparr>recv_bytes = ss_written (sys_subs sys2 0), recv_fault = None\<rparr> =
    Inr \<lparr>received_stream_id = ?sid, received_chunks = chunks, received_text = [72],
         received_transcript_hash = sent_transcript_hash (finish_publisher pub),
         received_chunk_count = sent_chunk_count (finish_publisher pub)\<rparr>"
    by (simp only:) blast
  then show ?thesis
    using run req(1) unfolding ids sys1_def sys2_def by (intro exI conjI) (assumption | rule refl)+
qed

section \<open>What reaches a subscriber\<close>

text \<open>
  C14: The broker never reorders, repeats, drops inside or mixes streams.  Publishers and subscribers in any number run
  interleaved, in rooms of their choice, with any faults, including writes that fail in the middle of a frame.  If
  only publisher \<open>p\<close> opens the room a subscriber asked for, then at every moment the bytes the broker wrote to that subscriber
  are the frames of a contiguous run of the records \<open>p\<close> sent, in order; only the last frame may be cut short, and only
  on a stream the broker has reset.\<close>

theorem broker_relays_contiguous_run:
  assumes "read_control_frame (pubs p) = Inr (c, recv0)" and "control_type c = Publish"
    and "\<forall>q. pub_room (pubs q) = Some (envelope_key c) \<longrightarrow> q = p" and "sub_room (subs m) = Some (envelope_key c)"
    and "sorted (map fst acts)" and "length acts < 2 ^ 64"
    and "sys = system_run cfg fwd acts (start_system pubs subs)"
  shows "\<exists>d fs. sublist d (stream_records recv0) \<and> list_all2 (\<lambda>r f. write_record_frame r = Inr f) d fs \<and>
    (let ss = sys_subs sys m in
     if ss_end ss = SendReset then prefix (concat (butlast fs)) (ss_written ss) \<and> prefix (ss_written ss) (concat fs)
     else ss_written ss = concat fs)"
proof -
  obtain d where d: "carries (sys_subs sys m) d" "sublist d (published (envelope_key c) (sys_events sys))"
    using system_streams [OF assms(5,6,4,7)] by blast
  have "sole_publisher (envelope_key c) recv0 p sys"
    unfolding assms(7) by (rule sole_publisher_run [OF start_sole_publisher [OF assms(1-3)]])
  then have "prefix (published (envelope_key c) (sys_events sys)) (stream_records recv0)"
    by (cases "sys_pubs sys p") (auto simp: sole_publisher_def intro: prefixI [OF sym])
  then have "sublist d (stream_records recv0)" using d(2) sublist_order.order_trans prefix_imp_sublist by blast
  then show ?thesis
    using d(1) by (auto simp: carries_def wrote_def wrote_upto_def Let_def intro!: exI [of _ d] split: if_splits)
qed

theorem broker_relays_contiguous_run_witness:
  "\<exists>pub0 pub s' request recv0 sys d fs. connect_publisher example_lib example_open = Inr pub0 \<and>
     publisher_run example_lib example_appends pub0 Map.empty = (Inr (), pub, s') \<and>
     sys = system_run relay_cfg relay_limits (relay_joining @ relay_playing)
       (start_system (one_publisher (pub_sent pub)) (one_publisher request)) \<and>
     d \<noteq> [] \<and> sublist d (stream_records recv0) \<and> list_all2 (\<lambda>r f. write_record_frame r = Inr f) d fs \<and>
     prefix (ss_written (sys_subs sys 0)) (concat fs)"
proof -
  let ?sid = "open_stream_id example_open" and ?eid = "open_start_event_id example_open"
  let ?key = "\<lparr>key_stream_id = ?sid, key_start_event_id = ?eid\<rparr>"
  obtain pub0 pub s' where run: "connect_publisher example_lib example_open = Inr pub0"
      "publisher_run example_lib example_appends pub0 Map.empty = (Inr (), pub, s')"
    using example_publisher_run by blast
  obtain w f where pub: "read_control_frame \<lparr>recv_bytes = pub_sent pub, recv_fault = None\<rparr> =
        Inr (publish_envelope ?sid ?eid, \<lparr>recv_bytes = f, recv_fault = None\<rparr>)"
      "write_record_frame w = Inr f" "rec_stream_id w = ?sid" "length (rec_plaintext_frame w) \<le> 1024"
    using example_stream [OF run] by blast
  obtain request where req: "read_control_frame (one_publisher request 0) =
      Inr (subscribe_envelope ?sid ?eid, \<lparr>recv_bytes = [], recv_fault = None\<rparr>)"
    using example_request by blast
  have env: "control_type (subscribe_envelope ?sid ?eid) = Subscribe" "envelope_key (subscribe_envelope ?sid ?eid) = ?key"
      "control_type (publish_envelope ?sid ?eid) = Publish" "envelope_key (publish_envelope ?sid ?eid) = ?key"
    by (simp_all add: subscribe_envelope_def publish_envelope_def envelope_key_def)
  define sys where "sys = system_run relay_cfg relay_limits (relay_joining @ relay_playing)
     (start_system (one_publisher (pub_sent pub)) (one_publisher request))"
  have sys2: "sys = system_run relay_cfg relay_limits relay_playing (system_run relay_cfg relay_limits relay_joining
     (start_system (one_publisher (pub_sent pub)) (one_publisher request)))"
    by (simp only: sys_def append.simps system_run.simps)
  have "ss_written (sys_subs sys 0) = f"
    using relay_plays [where subs = "one_publisher request", OF req env(1,2) pub(1) env(3,4) pub(2) _ pub(4) refl sys2] pub(3) by simp
  moreover have "f \<noteq> []" using pub(2) by (auto simp: write_record_frame_def write_bytes_frame_def to_be_bytes_def split: sum.splits if_splits)
  moreover have "\<exists>d fs. sublist d (stream_records \<lparr>recv_bytes = f, recv_fault = None\<rparr>) \<and>
      list_all2 (\<lambda>r f. write_record_frame r = Inr f) d fs \<and>
      (let ss = sys_subs sys 0 in
       if ss_end ss = SendReset then prefix (concat (butlast fs)) (ss_written ss) \<and> prefix (ss_written ss) (concat fs)
       else ss_written ss = concat fs)"
  proof (rule broker_relays_contiguous_run [where pubs = "one_publisher (pub_sent pub)" and p = 0 and c = "publish_envelope ?sid ?eid"])
    show "read_control_frame (one_publisher (pub_sent pub) 0) =
        Inr (publish_envelope ?sid ?eid, \<lparr>recv_bytes = f, recv_fault = None\<rparr>)"
      using pub(1) by (simp add: one_publisher_def)
    show "\<forall>q. pub_room (one_publisher (pub_sent pub) q) = Some (envelope_key (publish_envelope ?sid ?eid)) \<longrightarrow> q = 0"
      by (auto simp: one_publisher_def pub_room_def empty_stream)
    show "sub_room (one_publisher request 0) = Some (envelope_key (publish_envelope ?sid ?eid))"
      using req by (simp add: sub_room_def env)
    show "sys = system_run relay_cfg relay_limits (relay_joining @ relay_playing)
      (start_system (one_publisher (pub_sent pub)) (one_publisher request))" by (rule sys_def)
  qed (simp_all add: env)
  then obtain d fs where "sublist d (stream_records \<lparr>recv_bytes = f, recv_fault = None\<rparr>)"
      "list_all2 (\<lambda>r f. write_record_frame r = Inr f) d fs" "prefix (ss_written (sys_subs sys 0)) (concat fs)"
    by (auto simp: Let_def split: if_splits)
  moreover from calculation have "d \<noteq> []" by auto
  ultimately show ?thesis using run sys_def by (intro exI conjI) (assumption | rule refl)+
qed

end
